(* ===== verification/Prelude.thy ===== *)
theory Prelude
  imports Main "HOL-Library.Word"
begin

text \<open>
  The vocabulary every component of the development shares: the kernel's fixed-width
  integers, memory as a map from offsets to bytes with the three operations of
  \<^verbatim>\<open>kernel/core/kstring.c\<close> the network code performs on it (copy a run of bytes in,
  fill a run, compare two runs), and the generic lemmas on runs of bytes, on
  list lookups and on words that the component theories use.

  A pointer into an object is an offset into that object's memory; a read or a write
  past the object is therefore a visible offset and not an unspecified value.
\<close>

unbundle bit_operations_syntax

section \<open>Machine integers\<close>

type_synonym u8 = "8 word"
type_synonym u16 = "16 word"
type_synonym u32 = "32 word"
type_synonym u64 = "64 word"
type_synonym paddr = "64 word"
type_synonym mem = "nat \<Rightarrow> u8"

named_theorems byte_simps \<open>reads of memory after writes to it\<close>
named_theorems frame \<open>what an operation leaves alone\<close>
named_theorems inv_intro \<open>operations keep their component's invariant\<close>

section \<open>Runs of bytes\<close>

text \<open>The \<open>n\<close> bytes a pointer \<open>p\<close> into the memory \<open>m\<close> leads.\<close>

definition bytes_at :: "mem \<Rightarrow> nat \<Rightarrow> nat \<Rightarrow> u8 list" where
  "bytes_at m p n = map (\<lambda>i. m (p + i)) [0..<n]"

text \<open>
  \<^verbatim>\<open>kmemcpy\<close> from another object: the bytes \<open>xs\<close> are written one after the other.
\<close>

fun store :: "mem \<Rightarrow> nat \<Rightarrow> u8 list \<Rightarrow> mem" where
  "store m p [] = m"
| "store m p (x # xs) = store (m(p := x)) (Suc p) xs"

text \<open>\<^verbatim>\<open>kmemset\<close>: a run of one value.\<close>

fun kmemset :: "mem \<Rightarrow> nat \<Rightarrow> u8 \<Rightarrow> nat \<Rightarrow> mem" where
  "kmemset m p c 0 = m"
| "kmemset m p c (Suc n) = kmemset (m(p := c)) (Suc p) c n"

text \<open>\<^verbatim>\<open>kmemcmp\<close> on two runs given as lists of equal length: the difference of the
  first pair that differs, zero when none does.\<close>

fun kmemcmp :: "u8 list \<Rightarrow> u8 list \<Rightarrow> int" where
  "kmemcmp (x # xs) (y # ys) = (if x \<noteq> y then uint x - uint y else kmemcmp xs ys)"
| "kmemcmp _ _ = 0"

lemma length_bytes_at [simp]: "length (bytes_at m p n) = n"
  by (simp add: bytes_at_def)

lemma nth_bytes_at [simp]: "i < n \<Longrightarrow> bytes_at m p n ! i = m (p + i)"
  by (simp add: bytes_at_def)

lemma bytes_at_0 [simp]: "bytes_at m p 0 = []"
  by (simp add: bytes_at_def)

lemma bytes_at_Suc: "bytes_at m p (Suc n) = m p # bytes_at m (Suc p) n"
  by (rule nth_equalityI) (auto simp: nth_Cons split: nat.splits)

lemma bytes_at_add: "bytes_at m p (a + b) = bytes_at m p a @ bytes_at m (p + a) b"
  by (rule nth_equalityI) (auto simp: nth_append add.assoc)

lemma bytes_at_cong: "(\<And>i. i < n \<Longrightarrow> m (p + i) = m' (p' + i)) \<Longrightarrow> bytes_at m p n = bytes_at m' p' n"
  by (simp add: bytes_at_def)

lemma take_bytes_at: "k \<le> n \<Longrightarrow> take k (bytes_at m p n) = bytes_at m p k"
  by (rule nth_equalityI) auto

lemma drop_bytes_at: "drop k (bytes_at m p n) = bytes_at m (p + k) (n - k)"
  by (rule nth_equalityI) (auto simp: add.assoc)

lemma store_nth:
  "store m p xs q = (if p \<le> q \<and> q < p + length xs then xs ! (q - p) else m q)"
proof (induction xs arbitrary: m p)
  case Nil
  then show ?case by auto
next
  case (Cons x xs)
  have "xs ! (q - Suc p) = (x # xs) ! (q - p)" if "Suc p \<le> q"
    using that by (simp add: nth_Cons' Suc_diff_le)
  then show ?case
    by (simp only: store.simps Cons.IH) auto
qed

lemma store_other [byte_simps]:
  "q < p \<or> p + length xs \<le> q \<Longrightarrow> store m p xs q = m q"
  by (auto simp: store_nth)

lemma store_inside: "p \<le> q \<Longrightarrow> q < p + length xs \<Longrightarrow> store m p xs q = xs ! (q - p)"
  by (simp add: store_nth)

lemma bytes_at_store [simp]: "bytes_at (store m p xs) p (length xs) = xs"
  by (rule nth_equalityI) (auto simp: store_nth)

lemma bytes_at_store_other:
  "q + n \<le> p \<or> p + length xs \<le> q \<Longrightarrow> bytes_at (store m p xs) q n = bytes_at m q n"
  by (rule bytes_at_cong) (auto simp: store_nth)

lemma bytes_at_fun_upd_other:
  "q + n \<le> p \<or> p < q \<Longrightarrow> bytes_at (m(p := x)) q n = bytes_at m q n"
  by (rule bytes_at_cong) auto

lemma kmemset_nth: "kmemset m p c n q = (if p \<le> q \<and> q < p + n then c else m q)"
  by (induction n arbitrary: m p) auto

lemma kmemcmp_eq_0_iff: "length xs = length ys \<Longrightarrow> kmemcmp xs ys = 0 \<longleftrightarrow> xs = ys"
  by (induction xs ys rule: list_induct2) (auto simp: word_uint_eq_iff)

section \<open>Lists indexed by slot\<close>

text \<open>
  The kernel's tables are fixed arrays that loops scan from slot 0. \<open>first_slot P xs\<close>
  is the index such a loop stops at.
\<close>

fun first_slot :: "('a \<Rightarrow> bool) \<Rightarrow> 'a list \<Rightarrow> nat option" where
  "first_slot P [] = None"
| "first_slot P (x # xs) = (if P x then Some 0 else map_option Suc (first_slot P xs))"

lemma first_slot_Some:
  "first_slot P xs = Some i \<Longrightarrow> i < length xs \<and> P (xs ! i) \<and> (\<forall>j<i. \<not> P (xs ! j))"
proof (induction xs arbitrary: i)
  case Nil
  then show ?case by simp
next
  case (Cons x xs)
  show ?case
  proof (cases "P x")
    case True
    with Cons.prems show ?thesis by simp
  next
    case False
    with Cons.prems obtain k where "first_slot P xs = Some k" "i = Suc k"
      by auto
    with Cons.IH [of k] False show ?thesis
      by (auto simp: nth_Cons split: nat.splits)
  qed
qed

lemma first_slot_None: "first_slot P xs = None \<longleftrightarrow> (\<forall>x\<in>set xs. \<not> P x)"
  by (induction xs) auto

lemma first_slot_None_nth: "first_slot P xs = None \<longleftrightarrow> (\<forall>i<length xs. \<not> P (xs ! i))"
  by (simp add: first_slot_None all_set_conv_all_nth)

lemma first_slot_lt [dest]: "first_slot P xs = Some i \<Longrightarrow> i < length xs"
  by (simp add: first_slot_Some)

lemma first_slot_hit: "first_slot P xs = Some i \<Longrightarrow> P (xs ! i)"
  by (simp add: first_slot_Some)

section \<open>Words\<close>

lemma unat_u16_lt [simp]: "unat (x :: u16) < 65536"
  using unsigned_less [where 'a = nat, of x] by simp

lemma unat_u8_lt [simp]: "unat (x :: u8) < 256"
  using unsigned_less [where 'a = nat, of x] by simp

lemma unat_u32_lt: "unat (x :: u32) < 4294967296"
  using unsigned_less [where 'a = nat, of x] by simp

lemma unat_u64_lt: "unat (x :: u64) < 18446744073709551616"
  using unsigned_less [where 'a = nat, of x] by simp

lemma unat_add_small_u32:
  "unat a + unat b < 4294967296 \<Longrightarrow> unat (a + b :: u32) = unat a + unat b"
  by (simp add: unat_word_ariths)

lemma unat_of_nat_u32: "n < 4294967296 \<Longrightarrow> unat (of_nat n :: u32) = n"
  by (simp add: unat_of_nat)

lemma unat_of_nat_u16: "n < 65536 \<Longrightarrow> unat (of_nat n :: u16) = n"
  by (simp add: unat_of_nat)

lemma unat_of_nat_u64: "n < 18446744073709551616 \<Longrightarrow> unat (of_nat n :: u64) = n"
  by (simp add: unat_of_nat)

lemma unat_ucast_mod: "unat (ucast (x :: 'a :: len word) :: 'b :: len word) = unat x mod 2 ^ LENGTH('b)"
  by (simp add: unsigned_ucast_eq take_bit_eq_mod)

lemma unat_ucast_u8_u16 [simp]: "unat (ucast (x :: u8) :: u16) = unat x"
  by (simp add: unat_ucast_mod less_trans [OF unat_u8_lt])

lemma unat_ucast_u8_u32 [simp]: "unat (ucast (x :: u8) :: u32) = unat x"
  by (simp add: unat_ucast_mod less_trans [OF unat_u8_lt])

lemma unat_ucast_u16_u32 [simp]: "unat (ucast (x :: u16) :: u32) = unat x"
  by (simp add: unat_ucast_mod less_trans [OF unat_u16_lt])

lemma ucast_u16_u32_0 [simp]: "(ucast (x :: u16) :: u32) = 0 \<longleftrightarrow> x = 0"
  by (simp add: word_unat_eq_iff)

end
