(* ===== verification/Pmm.thy ===== *)
theory Pmm
  imports Prelude
begin

text \<open>
  The physical page allocator, \<^verbatim>\<open>kernel/core/pmm.c\<close>: a bitmap with one bit per page
  (set means used), a count of the free pages, the hint where the last search stopped,
  and the physical memory whose pages are cleared as they are handed out.

  The file's static variables are the fields of the record \<open>pmm\<close>. Every function that
  takes \<^verbatim>\<open>pmm_lock\<close> is one atomic step. Page indices and counts (\<^verbatim>\<open>size_t\<close>) are natural
  numbers with the one sum that can wrap written out; addresses are 64-bit words.
  \<^verbatim>\<open>panic\<close> is the left summand of a result.
\<close>

section \<open>The memory map and the allocator's state\<close>

datatype mem_kind =
  MEM_USABLE | MEM_RESERVED | MEM_ACPI_RECLAIM | MEM_ACPI_NVS | MEM_BAD | MEM_BOOTLOADER | MEM_KERNEL

record mem_region =
  r_base :: paddr
  r_size :: u64
  r_kind :: mem_kind

record pmm =
  bitmap :: "nat \<Rightarrow> u8"
  bitmap_bytes :: nat
  total_pages :: nat
  usable_pages :: nat
  free_pages :: nat
  base_paddr :: paddr
  bitmap_base :: paddr
  search_hint :: nat
  ram :: "paddr \<Rightarrow> u8"

definition PAGE_SIZE :: nat where
  "PAGE_SIZE = 4096"

definition PAGE_ALIGN_DOWN :: "u64 \<Rightarrow> u64" where
  "PAGE_ALIGN_DOWN x = x AND NOT (4096 - 1)"

definition PAGE_ALIGN_UP :: "u64 \<Rightarrow> u64" where
  "PAGE_ALIGN_UP x = PAGE_ALIGN_DOWN (x + 4096 - 1)"

definition page_index :: "pmm \<Rightarrow> paddr \<Rightarrow> nat" where
  "page_index s addr = unat ((addr - base_paddr s) div 4096)"

definition page_addr :: "pmm \<Rightarrow> nat \<Rightarrow> paddr" where
  "page_addr s index = base_paddr s + of_nat index * 4096"

section \<open>The bitmap\<close>

definition bit_test :: "pmm \<Rightarrow> nat \<Rightarrow> bool" where
  "bit_test s page = (drop_bit (page mod 8) (bitmap s (page div 8)) AND 1 \<noteq> 0)"

definition bit_set :: "nat \<Rightarrow> pmm \<Rightarrow> pmm" where
  "bit_set page s = s\<lparr>bitmap := (bitmap s)
     (page div 8 := bitmap s (page div 8) OR push_bit (page mod 8) 1)\<rparr>"

definition bit_clear :: "nat \<Rightarrow> pmm \<Rightarrow> pmm" where
  "bit_clear page s = s\<lparr>bitmap := (bitmap s)
     (page div 8 := bitmap s (page div 8) AND NOT (push_bit (page mod 8) 1))\<rparr>"

fun mark_used :: "nat \<Rightarrow> nat \<Rightarrow> pmm \<Rightarrow> pmm" where
  "mark_used page 0 s = s"
| "mark_used page (Suc n) s =
     (if page < total_pages s
      then mark_used (Suc page) n
        (if \<not> bit_test s page then (bit_set page s)\<lparr>free_pages := free_pages s - 1\<rparr> else s)
      else s)"

fun mark_free :: "nat \<Rightarrow> nat \<Rightarrow> pmm \<Rightarrow> pmm" where
  "mark_free page 0 s = s"
| "mark_free page (Suc n) s =
     (if page < total_pages s
      then mark_free (Suc page) n
        (if bit_test s page then (bit_clear page s)\<lparr>free_pages := free_pages s + 1\<rparr> else s)
      else s)"

section \<open>Starting up\<close>

fun place_bitmap :: "mem_region list \<Rightarrow> u64 \<Rightarrow> paddr" where
  "place_bitmap [] bytes = 0"
| "place_bitmap (r # rs) bytes =
     (if r_kind r \<noteq> MEM_USABLE then place_bitmap rs bytes
      else let base0 = PAGE_ALIGN_UP (r_base r);
               top = r_base r + r_size r;
               base = (if base0 = 0 then 4096 else base0)
           in if top > base \<and> top - base \<ge> bytes then base else place_bitmap rs bytes)"

text \<open>The lowest and the highest usable address.\<close>

fun usable_span :: "mem_region list \<Rightarrow> u64 \<Rightarrow> u64 \<Rightarrow> u64 \<times> u64" where
  "usable_span [] lowest highest = (lowest, highest)"
| "usable_span (r # rs) lowest highest =
     (if r_kind r = MEM_USABLE
      then let start = r_base r; top = start + r_size r
           in usable_span rs (if start < lowest then start else lowest)
                (if top > highest then top else highest)
      else usable_span rs lowest highest)"

text \<open>The loop that gives back what the firmware called usable.\<close>

fun free_usable :: "mem_region list \<Rightarrow> pmm \<Rightarrow> pmm" where
  "free_usable [] s = s"
| "free_usable (r # rs) s =
     (if r_kind r \<noteq> MEM_USABLE then free_usable rs s
      else let start = PAGE_ALIGN_UP (r_base r);
               top = PAGE_ALIGN_DOWN (r_base r + r_size r)
           in if top > start
              then let n = unat ((top - start) div 4096);
                       s1 = mark_free (page_index s start) n s
                   in free_usable rs (s1\<lparr>usable_pages := usable_pages s1 + n\<rparr>)
              else free_usable rs s)"

definition pmm_init :: "mem_region list \<Rightarrow> (paddr \<Rightarrow> u8) \<Rightarrow> string + pmm" where
  "pmm_init regions mem0 =
     (let (lowest, highest) = usable_span regions (NOT 0) 0 in
      if highest = 0 then Inl ''pmm: the memory map contains no usable memory''
      else let base = PAGE_ALIGN_DOWN lowest;
               total = unat ((PAGE_ALIGN_UP highest - base) div 4096);
               bytes = (total + 7) div 8;
               phys = place_bitmap regions (of_nat bytes)
           in if phys = 0
              then Inl ''pmm: no usable region large enough to hold the page bitmap''
              else let s0 = \<lparr>bitmap = kmemset (\<lambda>i. mem0 (phys + of_nat i)) 0 255 bytes,
                             bitmap_bytes = bytes, total_pages = total, usable_pages = 0,
                             free_pages = 0, base_paddr = base, bitmap_base = phys,
                             search_hint = 0, ram = mem0\<rparr>;
                       s1 = free_usable regions s0;
                       s2 = mark_used (page_index s1 phys)
                              (unat (PAGE_ALIGN_UP (of_nat bytes) div 4096)) s1;
                       s3 = (if base = 0 then mark_used 0 1 s2 else s2)
                   in Inr (s3\<lparr>search_hint := 0\<rparr>))"

section \<open>Allocating and freeing\<close>

text \<open>
  The search of \<^verbatim>\<open>pmm_alloc_pages\<close>: at page \<open>i\<close> with \<open>run\<close> free pages just before it,
  and at most \<open>left\<close> pages still to look at. \<open>Some i\<close> is the last page of the run found.
\<close>

fun alloc_scan :: "pmm \<Rightarrow> nat \<Rightarrow> nat \<Rightarrow> nat \<Rightarrow> nat \<Rightarrow> nat option" where
  "alloc_scan s count 0 i run = None"
| "alloc_scan s count (Suc left) i run =
     (let run1 = (if bit_test s i then 0 else run + 1) in
      if \<not> bit_test s i \<and> run1 = count then Some i
      else if i + 1 \<ge> total_pages s then alloc_scan s count left 0 0
      else alloc_scan s count left (i + 1) run1)"

text \<open>The \<^verbatim>\<open>kmemset\<close> of the pages at \<open>at\<close>, in physical memory.\<close>

definition clear_pages :: "paddr \<Rightarrow> nat \<Rightarrow> pmm \<Rightarrow> pmm" where
  "clear_pages at count s =
     s\<lparr>ram := (\<lambda>a. if unat (a - at) < count * PAGE_SIZE then 0 else ram s a)\<rparr>"

definition pmm_alloc_pages :: "nat \<Rightarrow> pmm \<Rightarrow> paddr \<times> pmm" where
  "pmm_alloc_pages count s =
     (if count = 0 \<or> count > total_pages s then (0, s)
      else case alloc_scan s count (total_pages s) (search_hint s) 0 of
        None \<Rightarrow> (0, s)
      | Some i \<Rightarrow>
          let start = i + 1 - count;
              s1 = mark_used start count s;
              s2 = s1\<lparr>search_hint := (i + 1) mod total_pages s1\<rparr>;
              at = page_addr s2 start
          in (at, clear_pages at count s2))"

definition pmm_alloc_page :: "pmm \<Rightarrow> paddr \<times> pmm" where
  "pmm_alloc_page s = pmm_alloc_pages 1 s"

text \<open>The search of \<^verbatim>\<open>pmm_alloc_page_below\<close>, from page \<open>i\<close> with \<open>left\<close> pages to go.\<close>

fun below_scan :: "pmm \<Rightarrow> paddr \<Rightarrow> nat \<Rightarrow> nat \<Rightarrow> nat option" where
  "below_scan s limit 0 i = None"
| "below_scan s limit (Suc left) i =
     (if page_addr s i + 4096 > limit then None
      else if bit_test s i then below_scan s limit left (i + 1)
      else Some i)"

definition pmm_alloc_page_below :: "paddr \<Rightarrow> pmm \<Rightarrow> paddr \<times> pmm" where
  "pmm_alloc_page_below limit s =
     (case below_scan s limit (total_pages s) 0 of
        None \<Rightarrow> (0, s)
      | Some i \<Rightarrow> (page_addr s i, clear_pages (page_addr s i) 1 (mark_used i 1 s)))"

definition pmm_free_pages :: "paddr \<Rightarrow> nat \<Rightarrow> pmm \<Rightarrow> string + pmm" where
  "pmm_free_pages page count s =
     (if page = 0 \<or> page mod 4096 \<noteq> 0
      then Inl ''pmm: asked to free something that is not a page address''
      else if page < base_paddr s
      then Inl ''pmm: asked to free memory below the start of the bitmap''
      else let index = page_index s page in
        if (index + count) mod 2 ^ 64 > total_pages s
        then Inl ''pmm: asked to free memory past the end of the bitmap''
        else Inr (mark_free index count s))"

definition pmm_free_page :: "paddr \<Rightarrow> pmm \<Rightarrow> string + pmm" where
  "pmm_free_page page s = pmm_free_pages page 1 s"

definition pmm_owns :: "paddr \<Rightarrow> pmm \<Rightarrow> bool" where
  "pmm_owns page s =
     (if page = 0 \<or> page < base_paddr s then False else page_index s page < total_pages s)"

definition pmm_free_page_count :: "pmm \<Rightarrow> nat" where
  "pmm_free_page_count s = free_pages s"


section \<open>What the bitmap means\<close>

lemma bit_test_bit: "bit_test s page \<longleftrightarrow> bit (bitmap s (page div 8)) (page mod 8)"
  by (simp add: bit_test_def and_one_eq bit_iff_odd_drop_bit odd_iff_mod_2_eq_one)

lemma bit_test_set: "bit_test (bit_set p s) q \<longleftrightarrow> q = p \<or> bit_test s q"
proof -
  have "q = p \<longleftrightarrow> q div 8 = p div 8 \<and> q mod 8 = p mod 8"
    by (metis div_mult_mod_eq)
  moreover have "p mod 8 < 8" by simp
  ultimately show ?thesis
    by (auto simp: bit_test_bit bit_set_def bit_or_iff bit_push_bit_iff bit_1_iff bit_exp_iff)
qed

lemma bit_test_clear: "bit_test (bit_clear p s) q \<longleftrightarrow> q \<noteq> p \<and> bit_test s q"
proof -
  have "q = p \<longleftrightarrow> q div 8 = p div 8 \<and> q mod 8 = p mod 8"
    by (metis div_mult_mod_eq)
  moreover have "q mod 8 < 8" by simp
  ultimately show ?thesis
    by (auto simp: bit_test_bit bit_clear_def bit_and_iff bit_not_iff bit_push_bit_iff bit_1_iff bit_exp_iff)
qed

text \<open>The pages the bitmap says are free, which is what a caller can be given.\<close>

definition free_set :: "pmm \<Rightarrow> nat set" where
  "free_set s = {p. p < total_pages s \<and> \<not> bit_test s p}"

definition pmm_inv :: "pmm \<Rightarrow> bool" where
  "pmm_inv s \<longleftrightarrow> 0 < total_pages s \<and> search_hint s < total_pages s \<and>
     free_pages s = card (free_set s) \<and> base_paddr s mod 4096 = 0 \<and>
     unat (base_paddr s) + total_pages s * 4096 < 2 ^ 64 \<and>
     (base_paddr s = 0 \<longrightarrow> 0 \<notin> free_set s)"

lemma finite_free_set [simp]: "finite (free_set s)"
  by (simp add: free_set_def)

lemma free_set_lt: "p \<in> free_set s \<Longrightarrow> p < total_pages s"
  by (simp add: free_set_def)

lemma bit_ops_frame [simp]:
  "total_pages (bit_set p s) = total_pages s" "total_pages (bit_clear p s) = total_pages s"
  "free_pages (bit_set p s) = free_pages s" "free_pages (bit_clear p s) = free_pages s"
  "base_paddr (bit_set p s) = base_paddr s" "base_paddr (bit_clear p s) = base_paddr s"
  "search_hint (bit_set p s) = search_hint s" "search_hint (bit_clear p s) = search_hint s"
  "usable_pages (bit_set p s) = usable_pages s" "usable_pages (bit_clear p s) = usable_pages s"
  "bitmap_base (bit_set p s) = bitmap_base s" "bitmap_base (bit_clear p s) = bitmap_base s"
  "ram (bit_set p s) = ram s" "ram (bit_clear p s) = ram s"
  by (simp_all add: bit_set_def bit_clear_def)

lemma free_set_bit_set: "free_set (bit_set p s) = free_set s - {p}"
  by (auto simp: free_set_def bit_test_set)

lemma free_set_bit_clear: "p < total_pages s \<Longrightarrow> free_set (bit_clear p s) = insert p (free_set s)"
  by (auto simp: free_set_def bit_test_clear)

lemma free_set_cong:
  "bitmap s' = bitmap s \<Longrightarrow> total_pages s' = total_pages s \<Longrightarrow> free_set s' = free_set s"
  by (simp add: free_set_def bit_test_def)

lemma free_set_updates [simp]:
  "free_set (s\<lparr>free_pages := n\<rparr>) = free_set s"
  "free_set (s\<lparr>search_hint := n\<rparr>) = free_set s"
  "free_set (s\<lparr>usable_pages := n\<rparr>) = free_set s"
  "free_set (clear_pages at n s) = free_set s"
  by (rule free_set_cong; simp add: clear_pages_def)+

text \<open>The fields neither marking loop touches.\<close>

lemma mark_used_frame [simp]:
  "total_pages (mark_used p n s) = total_pages s"
  "base_paddr (mark_used p n s) = base_paddr s"
  "search_hint (mark_used p n s) = search_hint s"
  "usable_pages (mark_used p n s) = usable_pages s"
  "bitmap_base (mark_used p n s) = bitmap_base s"
  "ram (mark_used p n s) = ram s"
  by (induction p n s rule: mark_used.induct) simp_all

lemma mark_free_frame [simp]:
  "total_pages (mark_free p n s) = total_pages s"
  "base_paddr (mark_free p n s) = base_paddr s"
  "search_hint (mark_free p n s) = search_hint s"
  "usable_pages (mark_free p n s) = usable_pages s"
  "bitmap_base (mark_free p n s) = bitmap_base s"
  "ram (mark_free p n s) = ram s"
  by (induction p n s rule: mark_free.induct) simp_all

lemma free_set_mark_used: "free_set (mark_used p n s) = free_set s - {p..<p + n}"
proof (induction p n s rule: mark_used.induct)
  case (1 page s)
  then show ?case by simp
next
  case (2 page n s)
  have split: "{page..<page + Suc n} = insert page {Suc page..<Suc page + n}"
    by auto
  show ?case
  proof (cases "page < total_pages s")
    case True
    then show ?thesis
      using "2.IH" split
      by (auto simp: free_set_bit_set) (auto simp: free_set_def)
  next
    case False
    then show ?thesis
      by (auto dest: free_set_lt)
  qed
qed

lemma free_set_mark_free:
  "free_set (mark_free p n s) = free_set s \<union> {q \<in> {p..<p + n}. q < total_pages s}"
proof (induction p n s rule: mark_free.induct)
  case (1 page s)
  then show ?case by simp
next
  case (2 page n s)
  have split: "{page..<page + Suc n} = insert page {Suc page..<Suc page + n}"
    by auto
  show ?case
  proof (cases "page < total_pages s")
    case True
    then show ?thesis
      using "2.IH" split
      by (auto simp: free_set_bit_clear) (auto simp: free_set_def)
  next
    case False
    then show ?thesis
      by auto
  qed
qed

lemma mark_used_count:
  "free_pages s = card (free_set s) \<Longrightarrow> free_pages (mark_used p n s) = card (free_set (mark_used p n s))"
proof (induction p n s rule: mark_used.induct)
  case (1 page s)
  then show ?case by simp
next
  case (2 page n s)
  have "free_pages s - 1 = card (free_set s - {page})"
    if "\<not> bit_test s page" "page < total_pages s"
    using that "2.prems" by (simp add: card_Diff_singleton free_set_def)
  then show ?case
    using 2 by (simp add: free_set_bit_set)
qed

lemma mark_free_count:
  "free_pages s = card (free_set s) \<Longrightarrow> free_pages (mark_free p n s) = card (free_set (mark_free p n s))"
proof (induction p n s rule: mark_free.induct)
  case (1 page s)
  then show ?case by simp
next
  case (2 page n s)
  have "free_pages s + 1 = card (insert page (free_set s))" if "bit_test s page"
    using that "2.prems" by (simp add: free_set_def)
  then show ?case
    using 2 by (simp add: free_set_bit_clear)
qed


section \<open>The search\<close>

text \<open>A run of \<open>count\<close> free pages from \<open>st\<close> on.\<close>

definition free_run :: "pmm \<Rightarrow> nat \<Rightarrow> nat \<Rightarrow> bool" where
  "free_run s st count \<longleftrightarrow> {st..<st + count} \<subseteq> free_set s"

text \<open>What the search returns is the end of a run of free pages.\<close>

lemma alloc_scan_sound:
  assumes "alloc_scan s count left i run = Some e"
    and "i < total_pages s" and "run \<le> i" and "{i - run..<i} \<subseteq> free_set s"
  shows "e < total_pages s \<and> count \<le> e + 1 \<and> free_run s (e + 1 - count) count"
  using assms
proof (induction s count left i run rule: alloc_scan.induct)
  case (1 s count i run)
  then show ?case by simp
next
  case (2 s count left i run)
  let ?run = "if bit_test s i then 0 else run + 1"
  have grown: "?run \<le> i + 1 \<and> {i + 1 - ?run..<i + 1} \<subseteq> free_set s"
    using "2.prems" by (auto simp: free_set_def le_Suc_eq less_Suc_eq)
  show ?case
  proof (cases "\<not> bit_test s i \<and> ?run = count")
    case True
    with "2.prems" grown show ?thesis
      by (auto simp: free_run_def)
  next
    case found: False
    show ?thesis
    proof (cases "i + 1 \<ge> total_pages s")
      case True
      with found "2.prems" "2.IH"(1) show ?thesis
        by (simp add: Let_def split: if_splits)
    next
      case False
      with found "2.prems" "2.IH"(2) grown show ?thesis
        by (simp add: Let_def split: if_splits)
    qed
  qed
qed

text \<open>A run that lies ahead of the search, before the end of memory, is not missed.\<close>

lemma alloc_scan_complete_ahead:
  assumes "alloc_scan s count left i run = None" and "free_run s st count"
    and "i - st \<le> run" and "run < count" and "i < st + count"
    and "st + count \<le> i + left" and "st + count \<le> total_pages s"
  shows False
  using assms
proof (induction s count left i run rule: alloc_scan.induct)
  case (1 s count i run)
  then show ?case by simp
next
  case (2 s count left i run)
  have "st \<le> i \<longrightarrow> \<not> bit_test s i"
    using "2.prems" by (auto simp: free_run_def free_set_def)
  moreover have "Suc i - st \<le> Suc run" "Suc run \<noteq> count \<Longrightarrow> Suc i < st + count"
    "i < st \<Longrightarrow> Suc i < st + count"
    using "2.prems"(3-5) by arith+
  ultimately show ?case
    using "2.prems" "2.IH"(2) by (auto simp: Let_def split: if_splits)
qed

text \<open>A search that comes to the end of memory without success goes on from page 0.\<close>

lemma alloc_scan_wraps:
  assumes "alloc_scan s count left i run = None" and "i < total_pages s"
    and "total_pages s - i \<le> left"
  shows "alloc_scan s count (left - (total_pages s - i)) 0 0 = None"
  using assms
proof (induction s count left i run rule: alloc_scan.induct)
  case (1 s count i run)
  then show ?case by simp
next
  case (2 s count left i run)
  show ?case
  proof (cases "i + 1 \<ge> total_pages s")
    case True
    with "2.prems" have "total_pages s - i = 1" by linarith
    with True "2.prems" show ?thesis
      by (simp add: Let_def split: if_splits)
  next
    case False
    then have "Suc left - (total_pages s - i) = left - (total_pages s - (i + 1))"
      by linarith
    with False "2.prems" "2.IH"(2) show ?thesis
      by (simp add: Let_def split: if_splits)
  qed
qed

text \<open>
  So a failed search means there is no run on either side of the hint. Nothing follows
  about a run that has the hint inside it.
\<close>

lemma alloc_scan_None_sides:
  assumes none: "alloc_scan s count (total_pages s) (search_hint s) 0 = None"
    and hint: "search_hint s < total_pages s" and pos: "0 < count"
    and run: "free_run s st count"
  shows "st < search_hint s \<and> search_hint s < st + count"
proof -
  have top: "st + count \<le> total_pages s"
    using run pos free_set_lt [of "st + count - 1" s] by (auto simp: free_run_def subset_iff)
  have "st < search_hint s"
  proof (rule ccontr)
    assume "\<not> st < search_hint s"
    then show False
      using alloc_scan_complete_ahead [OF none run] top hint pos by simp
  qed
  moreover have "search_hint s < st + count"
  proof (rule ccontr)
    assume "\<not> search_hint s < st + count"
    moreover have "alloc_scan s count (search_hint s) 0 0 = None"
      using alloc_scan_wraps [OF none hint] hint by simp
    ultimately show False
      using alloc_scan_complete_ahead [of s count "search_hint s" 0 0 st] run top pos by simp
  qed
  ultimately show ?thesis ..
qed

lemma alloc_scan_one_complete:
  assumes "alloc_scan s 1 (total_pages s) (search_hint s) 0 = None"
    and "search_hint s < total_pages s"
  shows "free_set s = {}"
proof (rule ccontr)
  assume "free_set s \<noteq> {}"
  then obtain p where "free_run s p 1" by (auto simp: free_run_def)
  with assms show False
    using alloc_scan_None_sides [of s 1 p] by (metis Suc_eq_plus1 less_antisym less_numeral_extra(1) not_less_eq)
qed


section \<open>Page addresses\<close>

lemma unat_page_addr:
  assumes "pmm_inv s" and "p < total_pages s"
  shows "unat (page_addr s p) = unat (base_paddr s) + p * 4096"
proof -
  have "unat (base_paddr s) + p * 4096 < 18446744073709551616"
    using assms by (simp add: pmm_inv_def)
  moreover from this have "unat (of_nat p * 4096 :: u64) = p * 4096"
    by (simp add: unat_word_ariths unat_of_nat mod_mult_left_eq)
  ultimately show ?thesis
    by (simp add: page_addr_def unat_word_ariths)
qed

lemma page_addr_diff: "page_addr s p - base_paddr s = of_nat p * 4096"
  by (simp add: page_addr_def)

lemma page_index_page_addr:
  assumes "pmm_inv s" and "p < total_pages s"
  shows "page_index s (page_addr s p) = p"
proof -
  have "p * 4096 < 18446744073709551616"
    using assms by (simp add: pmm_inv_def)
  then have "unat (of_nat p * 4096 :: u64) = p * 4096"
    by (simp add: unat_word_ariths unat_of_nat mod_mult_left_eq)
  then show ?thesis
    by (simp add: page_index_def page_addr_diff unat_div_distrib)
qed

lemma page_addr_aligned:
  assumes "pmm_inv s" and "p < total_pages s"
  shows "page_addr s p mod 4096 = 0"
proof -
  have "unat (base_paddr s) mod 4096 = 0"
    using assms(1) by (simp add: pmm_inv_def word_unat_eq_iff unat_mod_distrib)
  then have "unat (page_addr s p) mod 4096 = 0"
    by (simp add: unat_page_addr [OF assms])
  then show ?thesis
    by (simp add: word_unat_eq_iff unat_mod_distrib)
qed

lemma page_addr_nonzero:
  assumes "pmm_inv s" and "p \<in> free_set s"
  shows "page_addr s p \<noteq> 0"
proof
  assume z: "page_addr s p = 0"
  then have "unat (base_paddr s) + p * 4096 = 0"
    using unat_page_addr [OF assms(1) free_set_lt [OF assms(2)]] by simp
  then have "base_paddr s = 0" and "p = 0"
    by (simp_all add: word_unat_eq_iff)
  with assms show False by (simp add: pmm_inv_def)
qed

lemma page_addr_inject:
  assumes "pmm_inv s" and "p < total_pages s" and "q < total_pages s"
  shows "page_addr s p = page_addr s q \<longleftrightarrow> p = q"
  using page_index_page_addr [OF assms(1,2)] page_index_page_addr [OF assms(1,3)] by metis

lemma page_addr_ge_base:
  assumes "pmm_inv s" and "p < total_pages s"
  shows "base_paddr s \<le> page_addr s p"
  by (simp add: word_le_nat_alt unat_page_addr [OF assms])

section \<open>What allocation and freeing do\<close>

lemma clear_pages_frame [simp]:
  "total_pages (clear_pages at n s) = total_pages s"
  "base_paddr (clear_pages at n s) = base_paddr s"
  "search_hint (clear_pages at n s) = search_hint s"
  "free_pages (clear_pages at n s) = free_pages s"
  by (simp_all add: clear_pages_def)

lemma pmm_inv_shrink:
  assumes "pmm_inv s" and "free_set s' \<subseteq> free_set s" and "free_pages s' = card (free_set s')"
    and "total_pages s' = total_pages s" and "base_paddr s' = base_paddr s"
    and "search_hint s' < total_pages s"
  shows "pmm_inv s'"
  using assms by (auto simp: pmm_inv_def)

lemma pmm_alloc_pages_cases:
  assumes "pmm_inv s" and "pmm_alloc_pages count s = (a, s')"
  obtains (none) "a = 0" "s' = s"
      "count = 0 \<or> count > total_pages s \<or>
       alloc_scan s count (total_pages s) (search_hint s) 0 = None"
  | (run) st where "a = page_addr s st" "a \<noteq> 0" "0 < count" "free_run s st count"
      "free_set s' = free_set s - {st..<st + count}" "pmm_inv s'"
      "free_pages s' = free_pages s - count" "count \<le> free_pages s"
      "ram s' = (\<lambda>x. if unat (x - a) < count * 4096 then 0 else ram s x)"
      "total_pages s' = total_pages s" "base_paddr s' = base_paddr s"
proof (cases "count = 0 \<or> count > total_pages s \<or>
    alloc_scan s count (total_pages s) (search_hint s) 0 = None")
  case True
  with assms(2) show ?thesis
    by (intro none) (auto simp: pmm_alloc_pages_def split: if_splits)
next
  case False
  then obtain e where scan: "alloc_scan s count (total_pages s) (search_hint s) 0 = Some e"
    and pos: "0 < count" by auto
  define st where "st = e + 1 - count"
  have e: "e < total_pages s" "count \<le> e + 1" and fr: "free_run s st count"
    using alloc_scan_sound [OF scan] assms(1) by (auto simp: pmm_inv_def st_def)
  have mem: "st \<in> free_set s" using fr pos by (auto simp: free_run_def)
  define s1 where "s1 = mark_used st count s"
  have s': "s' = clear_pages a count (s1\<lparr>search_hint := (e + 1) mod total_pages s\<rparr>)"
    and a: "a = page_addr s st"
    using assms(2) False scan
    by (auto simp: pmm_alloc_pages_def Let_def st_def s1_def page_addr_def)
  have fs1: "free_set s1 = free_set s - {st..<st + count}"
    by (simp add: s1_def free_set_mark_used)
  have cnt1: "free_pages s1 = card (free_set s1)"
    using assms(1) by (simp add: s1_def pmm_inv_def mark_used_count)
  have card: "card (free_set s - {st..<st + count}) = card (free_set s) - count"
    using fr by (simp add: card_Diff_subset free_run_def)
  have le: "count \<le> card (free_set s)"
    using fr card_mono [of "free_set s" "{st..<st + count}"] by (simp add: free_run_def)
  have inv: "pmm_inv s'"
    by (rule pmm_inv_shrink [OF assms(1)]) (use e cnt1 in \<open>auto simp: s' s1_def free_set_mark_used\<close>)
  show ?thesis
  proof (rule run [of st])
    show "a = page_addr s st" "0 < count" "free_run s st count" "pmm_inv s'"
      by (fact a pos fr inv)+
    show "a \<noteq> 0"
      unfolding a by (rule page_addr_nonzero [OF assms(1) mem])
    show "free_set s' = free_set s - {st..<st + count}"
      by (simp add: s' fs1)
    show "free_pages s' = free_pages s - count" "count \<le> free_pages s"
      using assms(1) cnt1 card le by (simp_all add: s' fs1 pmm_inv_def)
    show "ram s' = (\<lambda>x. if unat (x - a) < count * 4096 then 0 else ram s x)"
      by (rule ext) (simp add: s' s1_def clear_pages_def PAGE_SIZE_def)
    show "total_pages s' = total_pages s" "base_paddr s' = base_paddr s"
      by (simp_all add: s' s1_def)
  qed
qed

lemma pmm_alloc_page_cases:
  assumes "pmm_inv s" and "pmm_alloc_page s = (a, s')"
  obtains (none) "a = 0" "s' = s" "free_set s = {}"
  | (page) p where "a = page_addr s p" "a \<noteq> 0" "p \<in> free_set s"
      "free_set s' = free_set s - {p}" "pmm_inv s'" "free_pages s' = free_pages s - 1"
      "ram s' = (\<lambda>x. if unat (x - a) < 4096 then 0 else ram s x)"
      "total_pages s' = total_pages s" "base_paddr s' = base_paddr s"
  using assms(1) assms(2) [unfolded pmm_alloc_page_def]
proof (cases rule: pmm_alloc_pages_cases)
  case none
  with assms(1) alloc_scan_one_complete [of s] that(1) show ?thesis
    by (auto simp: pmm_inv_def)
next
  case (run st)
  then show ?thesis
    by (intro that(2) [of st]) (simp_all add: free_run_def)
qed

lemma pmm_free_pages_owned:
  assumes "pmm_inv s" and "p < total_pages s" and "page_addr s p \<noteq> 0" and "p + count \<le> total_pages s"
  shows "pmm_free_pages (page_addr s p) count s = Inr (mark_free p count s)"
proof -
  have "total_pages s < 2 ^ 64"
    using assms(1) by (simp add: pmm_inv_def)
  with assms show ?thesis
    by (simp add: pmm_free_pages_def page_addr_aligned page_index_page_addr
        page_addr_ge_base linorder_not_less)
qed

lemma pmm_inv_mark_free:
  assumes "pmm_inv s" and "base_paddr s = 0 \<Longrightarrow> 0 < p"
  shows "pmm_inv (mark_free p n s)"
  using assms by (auto simp: pmm_inv_def mark_free_count free_set_mark_free)


section \<open>The interface the rest of the kernel relies on\<close>

text \<open>
  What a client of the page allocator may assume: a page it is given was available and
  no longer is, zero means nothing was available, and giving back any managed page works
  and makes exactly that page available again.
\<close>

locale page_allocator =
  fixes alloc :: "'s \<Rightarrow> paddr \<times> 's"
    and free :: "paddr \<Rightarrow> 's \<Rightarrow> string + 's"
    and avail :: "'s \<Rightarrow> paddr set"
    and managed :: "'s \<Rightarrow> paddr set"
    and invar :: "'s \<Rightarrow> bool"
  assumes alloc_none: "invar s \<Longrightarrow> alloc s = (0, s') \<Longrightarrow> s' = s \<and> avail s = {}"
    and alloc_page: "invar s \<Longrightarrow> alloc s = (a, s') \<Longrightarrow> a \<noteq> 0 \<Longrightarrow>
      a \<in> avail s \<and> avail s' = avail s - {a} \<and> managed s' = managed s \<and> invar s'"
    and avail_managed: "invar s \<Longrightarrow> avail s \<subseteq> managed s"
    and free_managed: "invar s \<Longrightarrow> a \<in> managed s \<Longrightarrow>
      \<exists>s'. free a s = Inr s' \<and> avail s' = insert a (avail s) \<and> managed s' = managed s \<and> invar s'"
begin

lemma alloc_invar: "invar s \<Longrightarrow> invar (snd (alloc s))"
  by (metis alloc_none alloc_page prod.collapse)

lemma alloc_managed_same: "invar s \<Longrightarrow> managed (snd (alloc s)) = managed s"
  by (metis alloc_none alloc_page prod.collapse)

lemma alloc_in_managed: "invar s \<Longrightarrow> alloc s = (a, s') \<Longrightarrow> a \<noteq> 0 \<Longrightarrow> a \<in> managed s'"
  by (metis alloc_page avail_managed subsetD)

lemma alloc_twice_distinct:
  assumes "invar s" "alloc s = (a, s1)" "a \<noteq> 0" "alloc s1 = (b, s2)" "b \<noteq> 0"
  shows "a \<noteq> b"
  using alloc_page [OF assms(1,2,3)] alloc_page [of s1 b s2] assms(4,5) by auto

lemma alloc_then_free:
  assumes "invar s" "alloc s = (a, s1)" "a \<noteq> 0"
  shows "\<exists>s2. free a s1 = Inr s2 \<and> avail s2 = avail s \<and> invar s2"
proof -
  have a: "a \<in> avail s" "avail s1 = avail s - {a}" "invar s1"
    using alloc_page [OF assms] by auto
  moreover have "a \<in> managed s1"
    by (rule alloc_in_managed [OF assms])
  ultimately show ?thesis
    using free_managed [of s1 a] by auto
qed

end

definition avail_pages :: "pmm \<Rightarrow> paddr set" where
  "avail_pages s = page_addr s ` free_set s"

definition managed_pages :: "pmm \<Rightarrow> paddr set" where
  "managed_pages s = page_addr s ` {p. p < total_pages s} - {0}"

lemma page_addr_cong: "base_paddr s' = base_paddr s \<Longrightarrow> page_addr s' = page_addr s"
  by (simp add: page_addr_def fun_eq_iff)

lemma managed_pages_cong:
  "base_paddr s' = base_paddr s \<Longrightarrow> total_pages s' = total_pages s \<Longrightarrow> managed_pages s' = managed_pages s"
  by (simp add: managed_pages_def page_addr_cong [of s' s])

lemma inj_on_page_addr: "pmm_inv s \<Longrightarrow> inj_on (page_addr s) {p. p < total_pages s}"
  by (rule inj_onI) (simp add: page_addr_inject)

lemma avail_pages_remove:
  assumes "pmm_inv s" and "p \<in> free_set s" and "free_set s' = free_set s - {p}"
    and "base_paddr s' = base_paddr s"
  shows "avail_pages s' = avail_pages s - {page_addr s p}"
proof -
  have "page_addr s ` (free_set s - {p}) = page_addr s ` free_set s - page_addr s ` {p}"
    by (rule inj_on_image_set_diff [OF inj_on_page_addr [OF assms(1)]])
      (use assms(2) in \<open>auto dest: free_set_lt\<close>)
  then show ?thesis
    by (simp add: avail_pages_def assms(3) page_addr_cong [OF assms(4)])
qed

interpretation pages: page_allocator pmm_alloc_page pmm_free_page avail_pages managed_pages pmm_inv
proof unfold_locales
  fix s s' :: pmm
  assume inv: "pmm_inv s" and al: "pmm_alloc_page s = (0, s')"
  from inv al show "s' = s \<and> avail_pages s = {}"
    by (cases rule: pmm_alloc_page_cases) (auto simp: avail_pages_def)
next
  fix s s' :: pmm and a
  assume inv: "pmm_inv s" and al: "pmm_alloc_page s = (a, s')" and "a \<noteq> 0"
  from inv al show "a \<in> avail_pages s \<and> avail_pages s' = avail_pages s - {a} \<and>
    managed_pages s' = managed_pages s \<and> pmm_inv s'"
  proof (cases rule: pmm_alloc_page_cases)
    case none
    with \<open>a \<noteq> 0\<close> show ?thesis by simp
  next
    case (page p)
    with inv show ?thesis
      using avail_pages_remove [of s p s'] managed_pages_cong [of s' s]
      by (simp add: avail_pages_def)
  qed
next
  fix s assume inv: "pmm_inv s"
  then show "avail_pages s \<subseteq> managed_pages s"
    by (auto simp: avail_pages_def managed_pages_def dest: free_set_lt page_addr_nonzero)
next
  fix s a assume inv: "pmm_inv s" and "a \<in> managed_pages s"
  then obtain p where p: "p < total_pages s" "a = page_addr s p" "a \<noteq> 0"
    by (auto simp: managed_pages_def)
  have pos: "base_paddr s = 0 \<Longrightarrow> 0 < p"
    using p by (cases p) (auto simp: page_addr_def)
  have "{q \<in> {p..<p + 1}. q < total_pages s} = {p}" using p by auto
  then have "free_set (mark_free p 1 s) = insert p (free_set s)"
    unfolding free_set_mark_free by auto
  then have "avail_pages (mark_free p 1 s) = insert a (avail_pages s)"
    by (simp only: avail_pages_def page_addr_cong [of "mark_free p 1 s" s] mark_free_frame p image_insert)
  moreover have "pmm_free_page a s = Inr (mark_free p 1 s)"
    unfolding pmm_free_page_def p(2) by (rule pmm_free_pages_owned) (use inv p in auto)
  moreover have "managed_pages (mark_free p 1 s) = managed_pages s"
    by (rule managed_pages_cong) (rule mark_free_frame)+
  moreover have "pmm_inv (mark_free p 1 s)"
    by (rule pmm_inv_mark_free [OF inv pos])
  ultimately show "\<exists>s'. pmm_free_page a s = Inr s' \<and> avail_pages s' = insert a (avail_pages s) \<and>
    managed_pages s' = managed_pages s \<and> pmm_inv s'" by blast
qed

end
