(* ===== verification/Block_State.thy ===== *)
theory Block_State
  imports Pmm
begin

text \<open>
  The data of the storage stack: the types of \<^verbatim>\<open>kernel/include/recon/kernel/block.h\<close>, the
  registry and counters \<^verbatim>\<open>kernel/core/block.c\<close> keeps, and the entries and counters
  \<^verbatim>\<open>kernel/core/bcache.c\<close> keeps.

  The hardware behind the drivers is a type parameter \<open>'hw\<close>. A driver's function table, bound to
  the driver's own state, is a record of functions on it. A device is named by its index in the
  table of devices, which is never reused; a null pointer is \<open>None\<close>. A buffer is the list of
  its bytes. A cached page's bytes are kept in its entry, since no two entries share a page.
\<close>

definition BLOCK_NAME_MAX :: nat where "BLOCK_NAME_MAX = 24"
definition BLOCK_MAX_DEVICES :: nat where "BLOCK_MAX_DEVICES = 64"
definition BLOCK_MAX_SLICES :: nat where "BLOCK_MAX_SLICES = 16"

datatype block_status = BLOCK_OK | BLOCK_ERR_NO_DEVICE | BLOCK_ERR_RANGE | BLOCK_ERR_READ_ONLY
  | BLOCK_ERR_ALIGN | BLOCK_ERR_IO | BLOCK_ERR_TIMEOUT | BLOCK_ERR_BUSY | BLOCK_ERR_UNSUPPORTED

datatype block_scheme = BLOCK_SCHEME_NONE | BLOCK_SCHEME_GPT | BLOCK_SCHEME_MBR | BLOCK_SCHEME_UNREADABLE

record block_request =
  rq_tag :: nat
  rq_lba :: u64
  rq_count :: u32
  rq_buf :: "u8 list"
  rq_write :: bool

text \<open>A driver's table. \<open>op_read\<close> gives the status and the bytes it put into the buffer.\<close>

record 'hw block_ops =
  op_read :: "u64 \<Rightarrow> u32 \<Rightarrow> 'hw \<Rightarrow> block_status \<times> u8 list \<times> 'hw"
  op_write :: "(u64 \<Rightarrow> u32 \<Rightarrow> u8 list \<Rightarrow> 'hw \<Rightarrow> block_status \<times> 'hw) option"
  op_flush :: "('hw \<Rightarrow> block_status \<times> 'hw) option"
  op_discard :: "(u64 \<Rightarrow> u32 \<Rightarrow> 'hw \<Rightarrow> block_status \<times> 'hw) option"

record 'hw block_device =
  bd_name :: string
  bd_id :: u32
  bd_generation :: u32
  bd_block_size :: u32
  bd_block_count :: u64
  bd_removable :: bool
  bd_read_only :: bool
  bd_flush_is_durable :: bool
  bd_seek_is_free :: bool
  bd_discard_supported :: bool
  bd_transfer_hint :: u32
  bd_queue :: "block_request list"
  bd_queued :: u64
  bd_reordered :: u64
  bd_parent :: u32
  bd_parent_generation :: u32
  bd_first_lba :: u64
  bd_slice_index :: u8
  bd_scheme :: block_scheme
  bd_slice_count :: nat
  bd_claimed_raw :: bool
  bd_max_blocks :: u32
  bd_ops :: "'hw block_ops"
  bd_present :: bool

definition BCACHE_UNITS :: nat where "BCACHE_UNITS = 64"

datatype entry_state = ENTRY_EMPTY | ENTRY_LOADING | ENTRY_VALID

record entry =
  en_root_id :: u32
  en_root_generation :: u32
  en_unit :: u64
  en_blocks_per_unit :: u32
  en_page :: paddr
  en_data :: "u8 list"
  en_state :: entry_state
  en_referenced :: bool
  en_poisoned :: bool

record bcache =
  bc_entries :: "entry list"
  bc_hand :: nat
  bc_pages_held :: nat
  bc_ready :: bool
  bc_hits :: u64
  bc_misses :: u64
  bc_fills :: u64
  bc_evictions :: u64
  bc_invalidations :: u64
  bc_passthrough_size :: u64
  bc_passthrough_memory :: u64
  bc_fill_failures :: u64
  bc_race_uncached :: u64
  bc_poisoned_fills :: u64
  bc_write_holes :: u64
  bc_passthrough_tail :: u64

text \<open>The state of the storage stack: the registry, the counters, the cache, the page allocator
  it draws on, the hardware, and the message of a panic if one was reached.\<close>

record 'hw storage =
  st_devices :: "'hw block_device list"
  st_next_id :: u32
  st_reads :: u64
  st_writes :: u64
  st_flushes :: u64
  st_blocks_read :: u64
  st_blocks_written :: u64
  st_cache :: bcache
  st_pages :: pmm
  st_hw :: 'hw
  st_panic :: "string option"

definition the_bdev :: "'hw storage \<Rightarrow> nat \<Rightarrow> 'hw block_device" where
  "the_bdev s d = st_devices s ! d"

definition upd_bdev :: "nat \<Rightarrow> ('hw block_device \<Rightarrow> 'hw block_device) \<Rightarrow> 'hw storage \<Rightarrow> 'hw storage" where
  "upd_bdev d f s = s\<lparr>st_devices := (st_devices s)[d := f (the_bdev s d)]\<rparr>"

definition upd_cache :: "(bcache \<Rightarrow> bcache) \<Rightarrow> 'hw storage \<Rightarrow> 'hw storage" where
  "upd_cache f s = s\<lparr>st_cache := f (st_cache s)\<rparr>"

definition upd_entry :: "nat \<Rightarrow> (entry \<Rightarrow> entry) \<Rightarrow> bcache \<Rightarrow> bcache" where
  "upd_entry i f c = c\<lparr>bc_entries := (bc_entries c)[i := f (bc_entries c ! i)]\<rparr>"

text \<open>One counter more; a panic, whose first message is kept.\<close>

definition count_up :: "((u64 \<Rightarrow> u64) \<Rightarrow> 'a \<Rightarrow> 'a) \<Rightarrow> 'a \<Rightarrow> 'a" where
  "count_up upd = upd (\<lambda>n. n + 1)"

definition st_panics :: "string \<Rightarrow> 'hw storage \<Rightarrow> 'hw storage" where
  "st_panics msg s = s\<lparr>st_panic := (case st_panic s of None \<Rightarrow> Some msg | p \<Rightarrow> p)\<rparr>"

text \<open>\<^verbatim>\<open>kmemcpy\<close> into a buffer at an offset.\<close>

definition overlay :: "nat \<Rightarrow> u8 list \<Rightarrow> u8 list \<Rightarrow> u8 list" where
  "overlay at bytes buf = take at buf @ bytes @ drop (at + length bytes) buf"

definition slice_of :: "nat \<Rightarrow> nat \<Rightarrow> u8 list \<Rightarrow> u8 list" where
  "slice_of at n buf = take n (drop at buf)"

lemma length_overlay: "at + length bytes \<le> length buf \<Longrightarrow> length (overlay at bytes buf) = length buf"
  by (simp add: overlay_def)

lemma overlay_nth:
  "at + length bytes \<le> length buf \<Longrightarrow> i < length buf \<Longrightarrow>
   overlay at bytes buf ! i = (if at \<le> i \<and> i < at + length bytes then bytes ! (i - at) else buf ! i)"
  by (auto simp: overlay_def nth_append min_def)

lemma overlay_whole: "length bytes = length buf \<Longrightarrow> overlay 0 bytes buf = bytes"
  by (simp add: overlay_def)

lemma slice_of_nth: "at + n \<le> length buf \<Longrightarrow> i < n \<Longrightarrow> slice_of at n buf ! i = buf ! (at + i)"
  by (simp add: slice_of_def)

lemma length_slice_of [simp]: "at + n \<le> length buf \<Longrightarrow> length (slice_of at n buf) = n"
  by (simp add: slice_of_def)

text \<open>Laying the rest of a buffer down after its front was laid down.\<close>

lemma overlay_overlay:
  assumes "at + length a + length b \<le> length buf"
  shows "overlay (at + length a) b (overlay at a buf) = overlay at (a @ b) buf"
proof (rule nth_equalityI)
  show l: "length (overlay (at + length a) b (overlay at a buf)) = length (overlay at (a @ b) buf)"
    using assms by (simp add: length_overlay)
  fix i assume "i < length (overlay (at + length a) b (overlay at a buf))"
  with l assms have "i < length buf" by (simp add: length_overlay)
  with assms show "overlay (at + length a) b (overlay at a buf) ! i = overlay at (a @ b) buf ! i"
    by (simp add: overlay_nth length_overlay nth_append) (auto simp: diff_diff_left)
qed

section \<open>What the updates leave alone\<close>

lemma upd_bdev_frame [simp]:
  "st_cache (upd_bdev d f s) = st_cache s" "st_hw (upd_bdev d f s) = st_hw s"
  "st_pages (upd_bdev d f s) = st_pages s" "st_panic (upd_bdev d f s) = st_panic s"
  "length (st_devices (upd_bdev d f s)) = length (st_devices s)" "st_next_id (upd_bdev d f s) = st_next_id s"
  by (simp_all add: upd_bdev_def)

lemma upd_cache_frame [simp]:
  "st_devices (upd_cache f s) = st_devices s" "st_hw (upd_cache f s) = st_hw s"
  "st_pages (upd_cache f s) = st_pages s" "st_panic (upd_cache f s) = st_panic s"
  "st_cache (upd_cache f s) = f (st_cache s)" "st_next_id (upd_cache f s) = st_next_id s"
  by (simp_all add: upd_cache_def)

lemma st_panics_frame [simp]:
  "st_devices (st_panics m s) = st_devices s" "st_hw (st_panics m s) = st_hw s"
  "st_cache (st_panics m s) = st_cache s" "st_next_id (st_panics m s) = st_next_id s"
  by (simp_all add: st_panics_def)

lemma the_bdev_upd_bdev: "d < length (st_devices s) \<Longrightarrow> the_bdev (upd_bdev d f s) e = (if e = d then f (the_bdev s d) else the_bdev s e)"
  by (simp add: the_bdev_def upd_bdev_def)

lemma the_bdev_upd_cache [simp]: "the_bdev (upd_cache f s) d = the_bdev s d"
  by (simp add: the_bdev_def)

end
