(* ===== verification/Block.thy ===== *)
theory Block
  imports Block_State
begin

text \<open>
  \<^verbatim>\<open>kernel/core/block.c\<close>: the registry of devices and partitions, the range check, the
  translation of a request on a partition into one on its disk, the request queue, and the
  operations the rest of the kernel calls; with the invalidation functions of
  \<^verbatim>\<open>kernel/core/bcache.c\<close> that writing and discarding call. The initrd's driver is the one
  driver in this file.

  Each operation is one atomic step of the model. A request's thread is its own servicer then,
  and \<open>submit\<close> drains the queue; whatever other requests the queue holds are issued in its order.
\<close>

section \<open>The initrd as a disk\<close>

definition INITRD_SECTOR :: nat where "INITRD_SECTOR = 512"

definition initrd_read :: "mem \<Rightarrow> u64 \<Rightarrow> u64 \<Rightarrow> u32 \<Rightarrow> 'hw \<Rightarrow> block_status \<times> u8 list \<times> 'hw" where
  "initrd_read initrd_at initrd_sectors lba count h =
     (if lba > initrd_sectors \<or> ucast count > initrd_sectors - lba then (BLOCK_ERR_RANGE, [], h)
      else (BLOCK_OK, bytes_at initrd_at (unat lba * INITRD_SECTOR) (unat count * INITRD_SECTOR), h))"

definition initrd_write :: "u64 \<Rightarrow> u32 \<Rightarrow> u8 list \<Rightarrow> 'hw \<Rightarrow> block_status \<times> 'hw" where
  "initrd_write lba count buf h = (BLOCK_ERR_READ_ONLY, h)"

definition initrd_ops :: "mem \<Rightarrow> u64 \<Rightarrow> 'hw block_ops" where
  "initrd_ops initrd_at initrd_sectors = \<lparr>op_read = initrd_read initrd_at initrd_sectors,
     op_write = Some initrd_write, op_flush = None, op_discard = None\<rparr>"

section \<open>The registry\<close>

definition kstrlcpy :: "string \<Rightarrow> nat \<Rightarrow> string" where
  "kstrlcpy src len = take (len - 1) src"

text \<open>A device as \<^verbatim>\<open>block_register\<close> fills the cleared record in.\<close>

definition fresh_bdev :: "string \<Rightarrow> 'hw block_ops \<Rightarrow> u32 \<Rightarrow> u64 \<Rightarrow> u32 \<Rightarrow> 'hw block_device" where
  "fresh_bdev name ops block_size block_count new_id = \<lparr>bd_name = kstrlcpy name BLOCK_NAME_MAX, bd_id = new_id,
     bd_generation = 1, bd_block_size = block_size, bd_block_count = block_count, bd_removable = False,
     bd_read_only = False, bd_flush_is_durable = False, bd_seek_is_free = False, bd_discard_supported = False,
     bd_transfer_hint = 0, bd_queue = [], bd_queued = 0, bd_reordered = 0, bd_parent = 0,
     bd_parent_generation = 0, bd_first_lba = 0, bd_slice_index = 0, bd_scheme = BLOCK_SCHEME_NONE,
     bd_slice_count = 0, bd_claimed_raw = False, bd_max_blocks = 0, bd_ops = ops, bd_present = True\<rparr>"

definition block_register :: "string \<Rightarrow> 'hw block_ops \<Rightarrow> u32 \<Rightarrow> u64 \<Rightarrow> 'hw storage \<Rightarrow> nat option \<times> 'hw storage" where
  "block_register name ops block_size block_count s =
     (if length (st_devices s) \<ge> BLOCK_MAX_DEVICES then (None, s)
      else if block_size = 0 \<or> block_size AND (block_size - 1) \<noteq> 0 then (None, s)
      else (Some (length (st_devices s)),
            s\<lparr>st_devices := st_devices s @ [fresh_bdev name ops block_size block_count (st_next_id s)],
              st_next_id := st_next_id s + 1\<rparr>))"

definition initrd_init :: "mem \<Rightarrow> u64 \<Rightarrow> u64 \<Rightarrow> 'hw storage \<Rightarrow> 'hw storage" where
  "initrd_init img initrd_base initrd_size s =
     (if initrd_base = 0 \<or> initrd_size = 0 then s
      else let sectors = initrd_size div of_nat INITRD_SECTOR in
        if sectors = 0 then s
        else case block_register ''initrd'' (initrd_ops img sectors) (of_nat INITRD_SECTOR) sectors s of
          (None, s1) \<Rightarrow> s1
        | (Some d, s1) \<Rightarrow> upd_bdev d (\<lambda>b. b\<lparr>bd_read_only := True\<rparr>) s1)"

definition slice_name :: "string \<Rightarrow> u8 \<Rightarrow> string" where
  "slice_name parent index =
     (let name = kstrlcpy parent BLOCK_NAME_MAX; digit = \<lambda>v. char_of (48 + unat v) in
      if length name + 3 < BLOCK_NAME_MAX
      then name @ ''p'' @ (if index \<ge> 10 then [digit (index div 10), digit (index mod 10)] else [digit (index mod 10)])
      else name)"

definition block_register_slice :: "nat option \<Rightarrow> u8 \<Rightarrow> u64 \<Rightarrow> u64 \<Rightarrow> block_scheme \<Rightarrow> 'hw storage \<Rightarrow> nat option \<times> 'hw storage" where
  "block_register_slice parent index first_lba count scheme s =
     (case parent of None \<Rightarrow> (None, s) | Some p \<Rightarrow>
        let P = the_bdev s p in
        if count = 0 then (None, s)
        else if bd_slice_count P \<ge> BLOCK_MAX_SLICES then (None, s)
        else if first_lba \<ge> bd_block_count P \<or> count > bd_block_count P - first_lba then (None, s)
        else case block_register (slice_name (bd_name P) index) (bd_ops P) (bd_block_size P) count s of
          (None, s1) \<Rightarrow> (None, s1)
        | (Some d, s1) \<Rightarrow>
            (Some d, upd_bdev p (\<lambda>b. b\<lparr>bd_slice_count := bd_slice_count b + 1\<rparr>)
               (upd_bdev d (\<lambda>b. b\<lparr>bd_parent := bd_id P, bd_parent_generation := bd_generation P,
                  bd_first_lba := first_lba, bd_slice_index := index, bd_scheme := scheme,
                  bd_removable := bd_removable P, bd_read_only := bd_read_only P,
                  bd_max_blocks := bd_max_blocks P\<rparr>) s1)))"

definition block_device_count :: "'hw storage \<Rightarrow> nat" where
  "block_device_count s = length (filter bd_present (st_devices s))"

fun device_at_scan :: "'hw block_device list \<Rightarrow> nat \<Rightarrow> nat \<Rightarrow> nat option" where
  "device_at_scan [] i index = None"
| "device_at_scan (d # ds) i index =
     (if \<not> bd_present d then device_at_scan ds (i + 1) index
      else if index = 0 then Some i else device_at_scan ds (i + 1) (index - 1))"

definition block_device_at :: "nat \<Rightarrow> 'hw storage \<Rightarrow> nat option" where
  "block_device_at index s = device_at_scan (st_devices s) 0 index"

definition block_device_by_id :: "u32 \<Rightarrow> u32 \<Rightarrow> 'hw storage \<Rightarrow> nat option" where
  "block_device_by_id ident generation s =
     first_slot (\<lambda>d. bd_id d = ident \<and> bd_generation d = generation \<and> bd_present d) (st_devices s)"

section \<open>Ranges and roots\<close>

definition check_range :: "'hw storage \<Rightarrow> nat option \<Rightarrow> u64 \<Rightarrow> u32 \<Rightarrow> block_status" where
  "check_range s dev lba count =
     (case dev of None \<Rightarrow> BLOCK_ERR_NO_DEVICE | Some d \<Rightarrow>
        if \<not> bd_present (the_bdev s d) then BLOCK_ERR_NO_DEVICE
        else if count = 0 then BLOCK_OK
        else if lba \<ge> bd_block_count (the_bdev s d) then BLOCK_ERR_RANGE
        else if ucast count > bd_block_count (the_bdev s d) - lba then BLOCK_ERR_RANGE
        else BLOCK_OK)"

text \<open>\<^verbatim>\<open>to_root\<close> with its guard counting down: the device reached and the address there, or
  \<open>None\<close> when a parent has gone.\<close>

fun to_root_walk :: "nat \<Rightarrow> 'hw storage \<Rightarrow> nat \<Rightarrow> u64 \<Rightarrow> (nat \<times> u64) option" where
  "to_root_walk 0 s d lba = Some (d, lba)"
| "to_root_walk (Suc guard) s d lba =
     (if bd_parent (the_bdev s d) = 0 then Some (d, lba)
      else case block_device_by_id (bd_parent (the_bdev s d)) (bd_parent_generation (the_bdev s d)) s of
        None \<Rightarrow> None
      | Some p \<Rightarrow> to_root_walk guard s p (lba + bd_first_lba (the_bdev s d)))"

definition to_root :: "'hw storage \<Rightarrow> nat \<Rightarrow> u64 \<Rightarrow> (nat \<times> u64) option" where
  "to_root s d lba = to_root_walk BLOCK_MAX_DEVICES s d lba"

text \<open>\<^verbatim>\<open>block_resolve\<close>: the status, and the root's identity, generation and block.\<close>

definition block_resolve :: "'hw storage \<Rightarrow> nat option \<Rightarrow> u64 \<Rightarrow> u32 \<Rightarrow> block_status + (u32 \<times> u32 \<times> u64)" where
  "block_resolve s dev lba count =
     (case dev of None \<Rightarrow> Inl BLOCK_ERR_NO_DEVICE | Some d \<Rightarrow>
        (let st = check_range s dev lba count in
         if st \<noteq> BLOCK_OK then Inl st
         else case to_root s d lba of None \<Rightarrow> Inl BLOCK_ERR_NO_DEVICE
           | Some (r, ab) \<Rightarrow> Inr (bd_id (the_bdev s r), bd_generation (the_bdev s r), ab)))"

section \<open>Invalidation, called on the write path\<close>

definition cacheable :: "'hw block_device \<Rightarrow> u32 option" where
  "cacheable d = (let bs = bd_block_size d in
     if bs = 0 \<or> bs AND (bs - 1) \<noteq> 0 then None
     else if bs > of_nat PAGE_SIZE then None
     else Some (of_nat PAGE_SIZE div bs))"

definition forget :: "entry \<Rightarrow> entry" where
  "forget e = e\<lparr>en_state := ENTRY_EMPTY, en_poisoned := False, en_referenced := False, en_root_id := 0,
     en_root_generation := 0, en_unit := 0, en_blocks_per_unit := 0\<rparr>"

text \<open>One entry the loops of the invalidation functions reach: a fill in flight is poisoned,
  anything else is forgotten.\<close>

definition drop_entry :: "entry \<Rightarrow> entry" where
  "drop_entry e = (if en_state e = ENTRY_LOADING then e\<lparr>en_poisoned := True\<rparr> else forget e)"

definition invalidate_entries :: "(entry \<Rightarrow> bool) \<Rightarrow> bcache \<Rightarrow> bcache" where
  "invalidate_entries hit c =
     (let H = \<lambda>e. en_state e \<noteq> ENTRY_EMPTY \<and> hit e in
      c\<lparr>bc_entries := map (\<lambda>e. if H e then drop_entry e else e) (bc_entries c),
        bc_invalidations := bc_invalidations c + of_nat (length (filter H (bc_entries c)))\<rparr>)"

definition bcache_invalidate :: "nat option \<Rightarrow> u64 \<Rightarrow> u64 \<Rightarrow> 'hw storage \<Rightarrow> 'hw storage" where
  "bcache_invalidate dev lba count s =
     (case dev of None \<Rightarrow> s | Some d \<Rightarrow>
        if \<not> bc_ready (st_cache s) \<or> count = 0 then s
        else case cacheable (the_bdev s d) of None \<Rightarrow> s | Some bpu \<Rightarrow>
          case block_resolve s dev lba 1 of Inl _ \<Rightarrow> s | Inr (rid, rgen, ab) \<Rightarrow>
            let first = ab div ucast bpu; final = (ab + count - 1) div ucast bpu in
            upd_cache (invalidate_entries (\<lambda>e. en_root_id e = rid \<and> en_root_generation e = rgen
              \<and> en_blocks_per_unit e = bpu \<and> \<not> (en_unit e < first \<or> en_unit e > final))) s)"

definition bcache_invalidate_device :: "nat option \<Rightarrow> 'hw storage \<Rightarrow> 'hw storage" where
  "bcache_invalidate_device dev s =
     (case dev of None \<Rightarrow> s | Some d \<Rightarrow>
        if \<not> bc_ready (st_cache s) then s
        else case cacheable (the_bdev s d) of None \<Rightarrow> s | Some bpu \<Rightarrow>
          case block_resolve s dev 0 1 of Inl _ \<Rightarrow> s | Inr (rid, rgen, ab) \<Rightarrow>
            upd_cache (invalidate_entries (\<lambda>e. en_root_id e = rid)) s)"

text \<open>\<^verbatim>\<open>block_unregister\<close>: every slice of the device goes first, then the device.\<close>

definition retire_slice :: "nat \<Rightarrow> nat \<Rightarrow> 'hw storage \<Rightarrow> 'hw storage" where
  "retire_slice d i s =
     (let b = the_bdev s i; D = the_bdev s d in
      if i = d \<or> \<not> bd_present b then s
      else if bd_parent b = bd_id D \<and> bd_parent_generation b = bd_generation D
      then upd_bdev i (\<lambda>b. b\<lparr>bd_present := False, bd_generation := bd_generation b + 1\<rparr>)
             (bcache_invalidate_device (Some i) s)
      else s)"

definition block_unregister :: "nat option \<Rightarrow> 'hw storage \<Rightarrow> 'hw storage" where
  "block_unregister dev s =
     (case dev of None \<Rightarrow> s | Some d \<Rightarrow>
        if \<not> bd_present (the_bdev s d) then s
        else upd_bdev d (\<lambda>b. b\<lparr>bd_present := False, bd_slice_count := 0, bd_generation := bd_generation b + 1\<rparr>)
               (bcache_invalidate_device (Some d) (fold (retire_slice d) [0..<length (st_devices s)] s)))"

section \<open>The request queue\<close>

text \<open>Where \<^verbatim>\<open>queue_insert\<close> puts a request: after every request for the same block or an
  earlier one that leads the queue; at the end when seeking is free.\<close>

definition queue_ahead :: "'hw block_device \<Rightarrow> block_request \<Rightarrow> block_request \<Rightarrow> bool" where
  "queue_ahead d r q = (bd_seek_is_free d \<or> rq_lba q \<le> rq_lba r)"

definition queue_insert :: "block_request \<Rightarrow> 'hw block_device \<Rightarrow> 'hw block_device" where
  "queue_insert r d =
     (let ahead = takeWhile (queue_ahead d r) (bd_queue d); behind = dropWhile (queue_ahead d r) (bd_queue d) in
      d\<lparr>bd_queue := ahead @ r # behind, bd_queued := bd_queued d + 1,
        bd_reordered := (if behind \<noteq> [] then bd_reordered d + 1 else bd_reordered d)\<rparr>)"

text \<open>The loop of \<^verbatim>\<open>issue\<close>: what is left to move, and how far into the buffer it goes.\<close>

definition next_chunk :: "'hw block_device \<Rightarrow> u32 \<Rightarrow> u32" where
  "next_chunk d count = (if bd_max_blocks d \<noteq> 0 \<and> count > bd_max_blocks d then bd_max_blocks d else count)"

lemma next_chunk_progress: "count \<noteq> 0 \<Longrightarrow> unat (count - next_chunk d count) < unat count"
proof -
  assume "count \<noteq> 0"
  moreover have "next_chunk d count \<le> count" by (auto simp: next_chunk_def intro: less_imp_le)
  moreover have "next_chunk d count \<noteq> 0" using \<open>count \<noteq> 0\<close> by (simp add: next_chunk_def)
  ultimately show ?thesis by (simp add: unat_sub word_le_nat_alt unat_gt_0)
qed

definition op_transfer :: "bool \<Rightarrow> nat \<Rightarrow> u64 \<Rightarrow> u32 \<Rightarrow> nat \<Rightarrow> u8 list \<Rightarrow> 'hw storage \<Rightarrow> block_status \<times> u8 list \<times> 'hw storage" where
  "op_transfer wr d lba chunk at buf s =
     (let D = the_bdev s d; n = unat chunk * unat (bd_block_size D) in
      if wr then case op_write (bd_ops D) of
          None \<Rightarrow> (BLOCK_ERR_IO, buf, st_panics ''null write operation'' s)
        | Some w \<Rightarrow> (case w lba chunk (slice_of at n buf) (st_hw s) of (st, h) \<Rightarrow> (st, buf, s\<lparr>st_hw := h\<rparr>))
      else case op_read (bd_ops D) lba chunk (st_hw s) of
          (st, bytes, h) \<Rightarrow> (st, overlay at bytes buf, s\<lparr>st_hw := h\<rparr>))"

definition count_transfer :: "bool \<Rightarrow> u32 \<Rightarrow> 'hw storage \<Rightarrow> 'hw storage" where
  "count_transfer wr chunk s =
     (if wr then s\<lparr>st_writes := st_writes s + 1, st_blocks_written := st_blocks_written s + ucast chunk\<rparr>
      else s\<lparr>st_reads := st_reads s + 1, st_blocks_read := st_blocks_read s + ucast chunk\<rparr>)"

function issue_loop :: "bool \<Rightarrow> nat \<Rightarrow> u64 \<Rightarrow> u32 \<Rightarrow> nat \<Rightarrow> u8 list \<Rightarrow> 'hw storage \<Rightarrow> block_status \<times> u8 list \<times> 'hw storage" where
  "issue_loop wr d lba count at buf s =
     (if count = 0 then (BLOCK_OK, buf, s)
      else let chunk = next_chunk (the_bdev s d) count in
        case op_transfer wr d lba chunk at buf s of (st, buf1, s1) \<Rightarrow>
          if st \<noteq> BLOCK_OK then (st, buf1, s1)
          else issue_loop wr d (lba + ucast chunk) (count - chunk)
                 (at + unat chunk * unat (bd_block_size (the_bdev s d))) buf1 (count_transfer wr chunk s1))"
  by pat_completeness auto

termination
  by (relation "measure (\<lambda>(wr, d, lba, count, at, buf, s). unat count)") (auto simp: next_chunk_progress)

declare issue_loop.simps [simp del]

definition issue :: "nat \<Rightarrow> block_request \<Rightarrow> 'hw storage \<Rightarrow> block_status \<times> u8 list \<times> 'hw storage" where
  "issue d r s = issue_loop (rq_write r) d (rq_lba r) (rq_count r) 0 (rq_buf r) s"

lemma op_transfer_frame [simp]:
  "st_devices (snd (snd (op_transfer wr d lba chunk at buf s))) = st_devices s"
  "st_cache (snd (snd (op_transfer wr d lba chunk at buf s))) = st_cache s"
  "st_next_id (snd (snd (op_transfer wr d lba chunk at buf s))) = st_next_id s"
  by (simp_all add: op_transfer_def Let_def split: option.splits prod.splits)

lemma count_transfer_frame [simp]:
  "st_devices (count_transfer wr chunk s) = st_devices s" "st_cache (count_transfer wr chunk s) = st_cache s"
  "st_hw (count_transfer wr chunk s) = st_hw s" "st_next_id (count_transfer wr chunk s) = st_next_id s"
  "st_pages (count_transfer wr chunk s) = st_pages s" "st_panic (count_transfer wr chunk s) = st_panic s"
  by (simp_all add: count_transfer_def)

lemma the_bdev_op_transfer [simp]: "the_bdev (snd (snd (op_transfer wr d lba chunk at buf s))) e = the_bdev s e"
  by (simp add: the_bdev_def)

lemma the_bdev_count_transfer [simp]: "the_bdev (count_transfer wr chunk s) e = the_bdev s e"
  by (simp add: the_bdev_def)

lemma issue_loop_frame [simp]:
  "st_devices (snd (snd (issue_loop wr d lba count at buf s))) = st_devices s
   \<and> st_cache (snd (snd (issue_loop wr d lba count at buf s))) = st_cache s
   \<and> st_next_id (snd (snd (issue_loop wr d lba count at buf s))) = st_next_id s"
proof (induction wr d lba count at buf s rule: issue_loop.induct)
  case (1 wr d lba count at buf s)
  show ?case
    by (subst (1 2 3) issue_loop.simps)
      (use "1.IH" in \<open>auto simp: Let_def case_prod_beta prod_eq_iff\<close>)
qed

text \<open>The servicer: it takes requests from the front of the queue until none is left. Each comes
  back with its status and its buffer.\<close>

function serve :: "nat \<Rightarrow> 'hw storage \<Rightarrow> (nat \<times> block_status \<times> u8 list) list \<times> 'hw storage" where
  "serve d s =
     (case bd_queue (the_bdev s d) of
        [] \<Rightarrow> ([], s)
      | r # rest \<Rightarrow>
          if d < length (st_devices s) then
            (case issue d r (upd_bdev d (\<lambda>b. b\<lparr>bd_queue := rest\<rparr>) s) of (st, buf, s1) \<Rightarrow>
              (case serve d s1 of (answers, s2) \<Rightarrow> ((rq_tag r, st, buf) # answers, s2)))
          else ([], s))"
  by pat_completeness auto

termination
proof (relation "measure (\<lambda>(d, s). length (bd_queue (the_bdev s d)))", goal_cases)
  case (2 d s r rest st y buf s1)
  have "st_devices (snd (snd (issue d r (upd_bdev d (\<lambda>b. b\<lparr>bd_queue := rest\<rparr>) s))))
      = st_devices (upd_bdev d (\<lambda>b. b\<lparr>bd_queue := rest\<rparr>) s)" by (simp add: issue_def)
  then have "the_bdev s1 d = the_bdev (upd_bdev d (\<lambda>b. b\<lparr>bd_queue := rest\<rparr>) s) d"
    unfolding the_bdev_def 2(3) [symmetric] 2(4) [symmetric] by simp
  then show ?case using 2(1,2) by (simp add: the_bdev_upd_bdev)
qed simp

declare serve.simps [simp del]

definition submit :: "nat \<Rightarrow> block_request \<Rightarrow> 'hw storage \<Rightarrow> block_status \<times> u8 list \<times> 'hw storage" where
  "submit d r s =
     (case serve d (upd_bdev d (queue_insert r) s) of (answers, s1) \<Rightarrow>
        (case map_of answers (rq_tag r) of
           None \<Rightarrow> (BLOCK_ERR_IO, rq_buf r, s1) | Some (st, buf) \<Rightarrow> (st, buf, s1)))"

section \<open>Operations\<close>

definition block_read :: "nat option \<Rightarrow> u64 \<Rightarrow> u32 \<Rightarrow> u8 list option \<Rightarrow> 'hw storage \<Rightarrow> block_status \<times> u8 list \<times> 'hw storage" where
  "block_read dev lba count buf s =
     (let st = check_range s dev lba count; B = (case buf of None \<Rightarrow> [] | Some b \<Rightarrow> b) in
      if st \<noteq> BLOCK_OK \<or> count = 0 then (st, B, s)
      else if buf = None then (BLOCK_ERR_ALIGN, B, s)
      else case to_root s (the dev) lba of None \<Rightarrow> (BLOCK_ERR_NO_DEVICE, B, s)
        | Some (r, ab) \<Rightarrow>
            submit r \<lparr>rq_tag = 0, rq_lba = ab, rq_count = count, rq_buf = B, rq_write = False\<rparr> s)"

text \<open>The refusals of \<^verbatim>\<open>block_write\<close>, in its order.\<close>

definition write_refused :: "'hw block_device \<Rightarrow> block_status" where
  "write_refused D =
     (if bd_read_only D then BLOCK_ERR_READ_ONLY
      else if op_write (bd_ops D) = None then BLOCK_ERR_READ_ONLY
      else if bd_slice_count D \<noteq> 0 \<and> \<not> bd_claimed_raw D then BLOCK_ERR_BUSY
      else BLOCK_OK)"

text \<open>The part of \<^verbatim>\<open>block_write\<close> after the invalidation.\<close>

definition write_transfer :: "nat option \<Rightarrow> u64 \<Rightarrow> u32 \<Rightarrow> u8 list \<Rightarrow> 'hw storage \<Rightarrow> block_status \<times> 'hw storage" where
  "write_transfer dev lba count buf s =
     (case to_root s (the dev) lba of None \<Rightarrow> (BLOCK_ERR_NO_DEVICE, s)
      | Some (r, ab) \<Rightarrow>
          (case submit r \<lparr>rq_tag = 0, rq_lba = ab, rq_count = count, rq_buf = buf, rq_write = True\<rparr> s of
             (st, _, s1) \<Rightarrow> (st, s1)))"

definition block_write :: "nat option \<Rightarrow> u64 \<Rightarrow> u32 \<Rightarrow> u8 list option \<Rightarrow> 'hw storage \<Rightarrow> block_status \<times> 'hw storage" where
  "block_write dev lba count buf s =
     (let st = check_range s dev lba count in
      if st \<noteq> BLOCK_OK \<or> count = 0 then (st, s)
      else case buf of None \<Rightarrow> (BLOCK_ERR_ALIGN, s) | Some bytes \<Rightarrow>
        if write_refused (the_bdev s (the dev)) \<noteq> BLOCK_OK then (write_refused (the_bdev s (the dev)), s)
        else write_transfer dev lba count bytes (bcache_invalidate dev lba (ucast count) s))"

definition block_discard :: "nat option \<Rightarrow> u64 \<Rightarrow> u32 \<Rightarrow> 'hw storage \<Rightarrow> block_status \<times> 'hw storage" where
  "block_discard dev lba count s =
     (case dev of None \<Rightarrow> (BLOCK_ERR_NO_DEVICE, s) | Some d \<Rightarrow>
        if \<not> bd_present (the_bdev s d) then (BLOCK_ERR_NO_DEVICE, s)
        else if bd_read_only (the_bdev s d) then (BLOCK_ERR_READ_ONLY, s)
        else if count = 0 then (BLOCK_OK, s)
        else if lba \<ge> bd_block_count (the_bdev s d) then (BLOCK_ERR_RANGE, s)
        else if ucast count > bd_block_count (the_bdev s d) - lba then (BLOCK_ERR_RANGE, s)
        else let s1 = bcache_invalidate dev lba (ucast count) s in
          case to_root s1 d lba of None \<Rightarrow> (BLOCK_ERR_IO, st_panics ''null root'' s1)
          | Some (r, ab) \<Rightarrow>
              (case op_discard (bd_ops (the_bdev s1 r)) of None \<Rightarrow> (BLOCK_ERR_UNSUPPORTED, s1)
               | Some f \<Rightarrow> (case f ab count (st_hw s1) of (st, h) \<Rightarrow> (st, s1\<lparr>st_hw := h\<rparr>))))"

definition block_flush :: "nat option \<Rightarrow> 'hw storage \<Rightarrow> block_status \<times> 'hw storage" where
  "block_flush dev s =
     (case dev of None \<Rightarrow> (BLOCK_ERR_NO_DEVICE, s) | Some d \<Rightarrow>
        if \<not> bd_present (the_bdev s d) then (BLOCK_ERR_NO_DEVICE, s)
        else if op_flush (bd_ops (the_bdev s d)) = None then (BLOCK_OK, s)
        else case to_root s d 0 of None \<Rightarrow> (BLOCK_ERR_NO_DEVICE, s)
          | Some (r, _) \<Rightarrow>
              (let s1 = count_up st_flushes_update s in
               case op_flush (bd_ops (the_bdev s r)) of
                 None \<Rightarrow> (BLOCK_ERR_IO, st_panics ''null flush operation'' s1)
               | Some f \<Rightarrow> (case f (st_hw s1) of (st, h) \<Rightarrow> (st, s1\<lparr>st_hw := h\<rparr>))))"

text \<open>\<^verbatim>\<open>block_flush_is_durable\<close>. Its loop has no guard; a parent is registered before its
  slices, so a walk is no longer than the table of devices.\<close>

fun durable_walk :: "nat \<Rightarrow> 'hw storage \<Rightarrow> nat \<Rightarrow> bool" where
  "durable_walk 0 s d = bd_flush_is_durable (the_bdev s d)"
| "durable_walk (Suc fuel) s d =
     (if bd_parent (the_bdev s d) = 0 then bd_flush_is_durable (the_bdev s d)
      else case block_device_by_id (bd_parent (the_bdev s d)) (bd_parent_generation (the_bdev s d)) s of
        None \<Rightarrow> False | Some p \<Rightarrow> durable_walk fuel s p)"

definition block_flush_is_durable :: "'hw storage \<Rightarrow> nat option \<Rightarrow> bool" where
  "block_flush_is_durable s dev =
     (case dev of None \<Rightarrow> False | Some d \<Rightarrow>
        bd_present (the_bdev s d) \<and> durable_walk (length (st_devices s)) s d)"

definition block_claim_raw :: "bool \<Rightarrow> nat option \<Rightarrow> 'hw storage \<Rightarrow> block_status \<times> 'hw storage" where
  "block_claim_raw capable dev s =
     (case dev of None \<Rightarrow> (BLOCK_ERR_NO_DEVICE, s) | Some d \<Rightarrow>
        if \<not> bd_present (the_bdev s d) then (BLOCK_ERR_NO_DEVICE, s)
        else if \<not> capable then (BLOCK_ERR_READ_ONLY, s)
        else if bd_parent (the_bdev s d) \<noteq> 0 then (BLOCK_ERR_RANGE, s)
        else if bd_read_only (the_bdev s d) then (BLOCK_ERR_READ_ONLY, s)
        else if bd_claimed_raw (the_bdev s d) then (BLOCK_ERR_BUSY, s)
        else (BLOCK_OK, upd_bdev d (\<lambda>b. b\<lparr>bd_claimed_raw := True\<rparr>) (bcache_invalidate_device dev s)))"

definition block_release_raw :: "nat option \<Rightarrow> 'hw storage \<Rightarrow> 'hw storage" where
  "block_release_raw dev s = (case dev of None \<Rightarrow> s | Some d \<Rightarrow> upd_bdev d (\<lambda>b. b\<lparr>bd_claimed_raw := False\<rparr>) s)"

section \<open>Checking a layout\<close>

text \<open>One pair of extents, and the two loops. \<open>None\<close> for the plan is a null pointer.\<close>

definition extents_clash :: "u64 \<times> u64 \<Rightarrow> u64 \<times> u64 \<Rightarrow> bool" where
  "extents_clash a b =
     (case a of (a_first, a_count) \<Rightarrow> case b of (b_first, b_count) \<Rightarrow>
        \<not> (a_first \<ge> b_first \<and> a_first - b_first \<ge> b_count) \<and> \<not> (b_first \<ge> a_first \<and> b_first - a_first \<ge> a_count))"

fun layout_scan :: "u64 \<Rightarrow> (u64 \<times> u64) list \<Rightarrow> block_status" where
  "layout_scan blocks [] = BLOCK_OK"
| "layout_scan blocks (a # rest) =
     (if snd a = 0 then BLOCK_ERR_RANGE
      else if fst a \<ge> blocks \<or> snd a > blocks - fst a then BLOCK_ERR_RANGE
      else if \<exists>b\<in>set rest. extents_clash a b then BLOCK_ERR_RANGE
      else layout_scan blocks rest)"

definition block_check_layout :: "'hw storage \<Rightarrow> nat option \<Rightarrow> (u64 \<times> u64) list option \<Rightarrow> nat \<Rightarrow> block_status" where
  "block_check_layout s dev plan n =
     (case dev of None \<Rightarrow> BLOCK_ERR_NO_DEVICE | Some d \<Rightarrow>
        if \<not> bd_present (the_bdev s d) then BLOCK_ERR_NO_DEVICE
        else if bd_parent (the_bdev s d) \<noteq> 0 then BLOCK_ERR_RANGE
        else case plan of None \<Rightarrow> (if n \<noteq> 0 then BLOCK_ERR_ALIGN else BLOCK_OK)
          | Some p \<Rightarrow> layout_scan (bd_block_count (the_bdev s d)) (take n p))"

end
