(* ===== verification/Disk.thy ===== *)
theory Disk
  imports Block
begin

text \<open>
  What the block layer promises, given drivers that keep their contract. The contract of a
  driver is the locale \<open>disk_driver\<close>: a disk has contents, a read returns them, a write changes
  the blocks it names and nothing else, and so does a discard. The initrd's driver meets it.
  On such drivers the lemmas below give what a request through the queue, the splitting and
  the translation of partitions does to the contents of the disk.
\<close>

section \<open>Blocks of a disk\<close>

text \<open>The bytes of \<open>n\<close> blocks from block \<open>a\<close>.\<close>

definition sectors :: "(nat \<Rightarrow> u8 list) \<Rightarrow> nat \<Rightarrow> nat \<Rightarrow> u8 list" where
  "sectors c a n = concat (map c [a..<a + n])"

lemma sectors_0 [simp]: "sectors c a 0 = []"
  by (simp add: sectors_def)

lemma sectors_add: "sectors c a (m + n) = sectors c a m @ sectors c (a + m) n"
proof -
  have "[a..<a + (m + n)] = [a..<a + m] @ [a + m..<a + m + n]"
    by (metis add.assoc le_add1 upt_add_eq_append)
  then show ?thesis by (simp add: sectors_def)
qed

lemma sectors_cong: "(\<And>k. a \<le> k \<Longrightarrow> k < a + n \<Longrightarrow> c k = c' k) \<Longrightarrow> sectors c a n = sectors c' a n"
  unfolding sectors_def by (rule arg_cong [where f = concat], rule map_cong) auto

lemma length_sectors:
  "(\<And>k. a \<le> k \<Longrightarrow> k < a + n \<Longrightarrow> length (c k) = bs) \<Longrightarrow> length (sectors c a n) = n * bs"
proof (induction n)
  case (Suc n)
  have "sectors c a (Suc n) = sectors c a n @ c (a + n)" by (simp add: sectors_def)
  then show ?case using Suc by simp
qed simp

text \<open>A run inside a run.\<close>

lemma sectors_part:
  assumes "\<And>k. a \<le> k \<Longrightarrow> k < a + n \<Longrightarrow> length (c k) = bs" and "i + m \<le> n"
  shows "slice_of (i * bs) (m * bs) (sectors c a n) = sectors c (a + i) m"
proof -
  obtain r where n: "n = i + (m + r)" using assms(2) by (metis add.assoc le_Suc_ex)
  have l: "length (sectors c a i) = i * bs" "length (sectors c (a + i) m) = m * bs"
    using assms(1) n by (auto intro!: length_sectors)
  show ?thesis unfolding n sectors_add [of c a i] sectors_add [of c "a + i" m] slice_of_def
    using l by simp
qed

text \<open>A run of which a part was written.\<close>

lemma sectors_overlay:
  assumes "\<And>k. a \<le> k \<Longrightarrow> k < a + n \<Longrightarrow> length (c k) = bs" and "i + m \<le> n"
    and "\<And>k. k < a + i \<or> a + i + m \<le> k \<Longrightarrow> c' k = c k"
    and "length (sectors c' (a + i) m) = m * bs"
  shows "sectors c' a n = overlay (i * bs) (sectors c' (a + i) m) (sectors c a n)"
proof -
  obtain r where n: "n = i + (m + r)" using assms(2) by (metis add.assoc le_Suc_ex)
  have l: "length (sectors c a i) = i * bs" "length (sectors c (a + i) m) = m * bs"
    using assms(1) n by (auto intro!: length_sectors)
  have "sectors c' a i = sectors c a i" "sectors c' (a + i + m) r = sectors c (a + i + m) r"
    using assms(3) by (auto intro!: sectors_cong)
  then show ?thesis
    unfolding n sectors_add [of _ a i] sectors_add [of _ "a + i" m] overlay_def
    using l assms(4) by simp
qed

section \<open>The contract of a driver\<close>

text \<open>\<open>content h\<close> is what the disk holds when the hardware is in state \<open>h\<close>; \<open>others h\<close> is what the
  hardware holds apart from this disk.\<close>

locale disk_driver =
  fixes ops :: "'hw block_ops" and content :: "'hw \<Rightarrow> nat \<Rightarrow> u8 list" and others :: "'hw \<Rightarrow> 'o"
    and bs :: nat and blocks :: nat
  assumes block_length: "k < blocks \<Longrightarrow> length (content h k) = bs"
    and read_keeps: "unat lba + unat n \<le> blocks \<Longrightarrow> op_read ops lba n h = (st, bytes, h') \<Longrightarrow>
      content h' = content h \<and> others h' = others h \<and> length bytes \<le> unat n * bs"
    and read_gives: "unat lba + unat n \<le> blocks \<Longrightarrow> op_read ops lba n h = (BLOCK_OK, bytes, h') \<Longrightarrow>
      bytes = sectors (content h) (unat lba) (unat n)"
    and write_keeps: "unat lba + unat n \<le> blocks \<Longrightarrow> op_write ops = Some w \<Longrightarrow> w lba n data h = (st, h') \<Longrightarrow>
      others h' = others h \<and> (k < unat lba \<or> unat lba + unat n \<le> k \<longrightarrow> content h' k = content h k)"
    and write_puts: "unat lba + unat n \<le> blocks \<Longrightarrow> op_write ops = Some w \<Longrightarrow> w lba n data h = (BLOCK_OK, h') \<Longrightarrow>
      length data = unat n * bs \<Longrightarrow> sectors (content h') (unat lba) (unat n) = data"
    and flush_keeps: "op_flush ops = Some f \<Longrightarrow> f h = (st, h') \<Longrightarrow> content h' = content h \<and> others h' = others h"
    and discard_keeps: "unat lba + unat n \<le> blocks \<Longrightarrow> op_discard ops = Some g \<Longrightarrow> g lba n h = (st, h') \<Longrightarrow>
      others h' = others h \<and> (k < unat lba \<or> unat lba + unat n \<le> k \<longrightarrow> content h' k = content h k)"
begin

lemma content_length:
  "a + n \<le> blocks \<Longrightarrow> length (sectors (content h) a n) = n * bs"
  by (intro length_sectors block_length) simp

end

text \<open>The initrd's driver: the image in memory is the disk.\<close>

definition initrd_content :: "mem \<Rightarrow> 'hw \<Rightarrow> nat \<Rightarrow> u8 list" where
  "initrd_content img h k = bytes_at img (k * INITRD_SECTOR) INITRD_SECTOR"

lemma sectors_bytes_at: "sectors (\<lambda>k. bytes_at img (k * b) b) a n = bytes_at img (a * b) (n * b)"
proof (induction n)
  case (Suc n)
  have "sectors (\<lambda>k. bytes_at img (k * b) b) a (Suc n) = sectors (\<lambda>k. bytes_at img (k * b) b) a n @ bytes_at img ((a + n) * b) b"
    by (simp add: sectors_def)
  also have "\<dots> = bytes_at img (a * b) (n * b + b)"
    unfolding Suc by (simp add: bytes_at_add distrib_right)
  finally show ?case by (simp add: add.commute)
qed simp

interpretation initrd: disk_driver "initrd_ops img n" "initrd_content img" id INITRD_SECTOR "unat n"
  for img :: mem and n :: u64
proof unfold_locales
  fix lba :: u64 and c :: u32 and h h' :: 'a and bytes st
  assume fit: "unat lba + unat c \<le> unat n"
  have "\<not> lba > n" using fit by (simp add: word_less_nat_alt)
  moreover have "unat (n - lba) = unat n - unat lba" using fit by (simp add: unat_sub word_le_nat_alt)
  then have "\<not> ucast c > n - lba" using fit unat_u32_lt [of c] by (simp add: word_less_nat_alt unat_ucast_mod)
  ultimately have r: "op_read (initrd_ops img n) lba c h
      = (BLOCK_OK, bytes_at img (unat lba * INITRD_SECTOR) (unat c * INITRD_SECTOR), h)"
    by (simp add: initrd_ops_def initrd_read_def)
  show "op_read (initrd_ops img n) lba c h = (st, bytes, h') \<Longrightarrow>
      initrd_content img h' = initrd_content img h \<and> id h' = id h \<and> length bytes \<le> unat c * INITRD_SECTOR"
    unfolding r by auto
  show "op_read (initrd_ops img n) lba c h = (BLOCK_OK, bytes, h') \<Longrightarrow>
      bytes = sectors (initrd_content img h) (unat lba) (unat c)"
    unfolding r by (auto simp: initrd_content_def [abs_def] sectors_bytes_at)
qed (auto simp: initrd_content_def initrd_ops_def initrd_write_def)

end
