(* ===== verification/Registry.thy ===== *)
theory Registry
  imports Disk
begin

text \<open>
  What the registry of \<^verbatim>\<open>kernel/core/block.c\<close> keeps true in every state, and what follows for
  a request: its range lies in the device, and \<^verbatim>\<open>to_root\<close> ends at a disk with the range inside it.
\<close>

section \<open>The invariant\<close>

text \<open>A device's identity is one more than its index. A slice names an earlier device as its
  parent, lies inside it, has its block size and its driver. No request waits between calls.\<close>

definition slice_inside :: "'hw block_device \<Rightarrow> 'hw block_device \<Rightarrow> bool" where
  "slice_inside D P \<longleftrightarrow> unat (bd_first_lba D) + unat (bd_block_count D) \<le> unat (bd_block_count P)
     \<and> bd_block_size D = bd_block_size P \<and> bd_ops D = bd_ops P"

definition registry_ok :: "'hw storage \<Rightarrow> bool" where
  "registry_ok s \<longleftrightarrow> length (st_devices s) \<le> BLOCK_MAX_DEVICES
     \<and> st_next_id s = of_nat (Suc (length (st_devices s)))
     \<and> (\<forall>i<length (st_devices s). let D = the_bdev s i in
          bd_id D = of_nat (Suc i) \<and> bd_queue D = [] \<and> bd_block_size D \<noteq> 0
          \<and> bd_block_size D AND (bd_block_size D - 1) = 0
          \<and> (bd_parent D \<noteq> 0 \<longrightarrow> (\<exists>p<i. bd_parent D = of_nat (Suc p) \<and> slice_inside D (the_bdev s p))))"

lemma registryD:
  assumes "registry_ok s" "i < length (st_devices s)"
  shows "bd_id (the_bdev s i) = of_nat (Suc i)" "bd_queue (the_bdev s i) = []"
    and "bd_block_size (the_bdev s i) \<noteq> 0" "bd_block_size (the_bdev s i) AND (bd_block_size (the_bdev s i) - 1) = 0"
    and "bd_parent (the_bdev s i) \<noteq> 0 \<Longrightarrow> \<exists>p<i. bd_parent (the_bdev s i) = of_nat (Suc p) \<and> slice_inside (the_bdev s i) (the_bdev s p)"
  using assms by (simp_all add: registry_ok_def Let_def)

lemma registry_size: "registry_ok s \<Longrightarrow> length (st_devices s) \<le> 64"
  by (simp add: registry_ok_def BLOCK_MAX_DEVICES_def)

lemma small_id_eq:
  assumes "i \<le> 64" "j \<le> 64"
  shows "(of_nat (Suc i) :: u32) = of_nat (Suc j) \<longleftrightarrow> i = j"
proof
  assume "(of_nat (Suc i) :: u32) = of_nat (Suc j)"
  from arg_cong [OF this, of unat] show "i = j"
    using assms by (simp only: unat_of_nat_u32)
qed simp

lemma by_id_Some:
  assumes "block_device_by_id i g s = Some d"
  shows "d < length (st_devices s)" "bd_id (the_bdev s d) = i" "bd_generation (the_bdev s d) = g" "bd_present (the_bdev s d)"
  using first_slot_Some [OF assms [unfolded block_device_by_id_def]] by (simp_all add: the_bdev_def)

text \<open>A present device is found under its own identity, and no other is.\<close>

lemma by_id_self:
  assumes "registry_ok s" "d < length (st_devices s)" "bd_present (the_bdev s d)"
  shows "block_device_by_id (bd_id (the_bdev s d)) (bd_generation (the_bdev s d)) s = Some d"
proof (cases "block_device_by_id (bd_id (the_bdev s d)) (bd_generation (the_bdev s d)) s")
  case None
  then show ?thesis using assms(2,3) by (auto simp: block_device_by_id_def first_slot_None_nth the_bdev_def)
next
  case (Some e)
  note e = by_id_Some [OF Some]
  have "e = d"
    using e(1,2) registryD(1) [OF assms(1) e(1)] registryD(1) [OF assms(1,2)] registry_size [OF assms(1)] assms(2)
      small_id_eq [of e d] by simp
  with Some show ?thesis by simp
qed

section \<open>Requests in range\<close>

lemma check_range_OK:
  assumes "check_range s (Some d) lba count = BLOCK_OK" "count \<noteq> 0"
  shows "bd_present (the_bdev s d)" "unat lba + unat count \<le> unat (bd_block_count (the_bdev s d))"
proof -
  show "bd_present (the_bdev s d)" using assms by (auto simp: check_range_def split: if_splits)
  have "lba < bd_block_count (the_bdev s d)" "ucast count \<le> bd_block_count (the_bdev s d) - lba"
    using assms by (auto simp: check_range_def split: if_splits)
  then show "unat lba + unat count \<le> unat (bd_block_count (the_bdev s d))"
    using unat_u32_lt [of count] by (simp add: word_less_nat_alt word_le_nat_alt unat_sub unat_ucast_mod)
qed

lemma check_range_status: "check_range s dev lba count \<in> {BLOCK_OK, BLOCK_ERR_NO_DEVICE, BLOCK_ERR_RANGE}"
  by (auto simp: check_range_def split: option.splits)

section \<open>The way to the root\<close>

text \<open>Where a device's block 0 lies on its disk does not depend on the block asked for.\<close>

lemma to_root_walk_spec:
  assumes "registry_ok s" "d < length (st_devices s)" "d < guard" "bd_present (the_bdev s d)"
    and "unat lba + n \<le> unat (bd_block_count (the_bdev s d))" "to_root_walk guard s d lba = Some (r, ab)"
  shows "r < length (st_devices s) \<and> bd_present (the_bdev s r) \<and> bd_parent (the_bdev s r) = 0
    \<and> bd_block_size (the_bdev s r) = bd_block_size (the_bdev s d) \<and> bd_ops (the_bdev s r) = bd_ops (the_bdev s d)
    \<and> unat ab + n \<le> unat (bd_block_count (the_bdev s r))
    \<and> (\<exists>off. unat ab = unat lba + off \<and> off + unat (bd_block_count (the_bdev s d)) \<le> unat (bd_block_count (the_bdev s r)) \<and>
         (\<forall>l. unat l \<le> unat (bd_block_count (the_bdev s d)) \<longrightarrow> to_root_walk guard s d l = Some (r, of_nat (unat l + off))))"
  using assms
proof (induction guard arbitrary: d lba n)
  case (Suc guard)
  show ?case
  proof (cases "bd_parent (the_bdev s d) = 0")
    case True
    then show ?thesis using Suc.prems by (auto intro!: exI [of _ 0])
  next
    case False
    let ?D = "the_bdev s d"
    obtain p where p: "p < d" "bd_parent ?D = of_nat (Suc p)" "slice_inside ?D (the_bdev s p)"
      using registryD(5) [OF Suc.prems(1,2) False] by blast
    obtain q where q: "block_device_by_id (bd_parent ?D) (bd_parent_generation ?D) s = Some q"
      and walk: "to_root_walk guard s q (lba + bd_first_lba ?D) = Some (r, ab)"
      using Suc.prems(6) False by (auto split: option.splits)
    note Q = by_id_Some [OF q]
    have "q = p"
      using Q(1,2) p(1,2) registryD(1) [OF Suc.prems(1) Q(1)] registry_size [OF Suc.prems(1)] Suc.prems(2) small_id_eq [of q p] by simp
    then have ins: "slice_inside ?D (the_bdev s q)" and qlt: "q < guard" using p Suc.prems(3) by auto
    let ?P = "the_bdev s q"
    have add: "unat (l + bd_first_lba ?D) = unat l + unat (bd_first_lba ?D)" if "unat l \<le> unat (bd_block_count ?D)" for l
      using ins that unat_u64_lt [of "bd_block_count ?P"] by (intro unat_add_lem [THEN iffD1]) (simp add: slice_inside_def)
    have fit: "unat (lba + bd_first_lba ?D) + n \<le> unat (bd_block_count ?P)"
      using add [of lba] ins Suc.prems(5) by (simp add: slice_inside_def)
    from Suc.IH [OF Suc.prems(1) Q(1) qlt Q(4) fit walk] obtain off where
      R: "r < length (st_devices s)" "bd_present (the_bdev s r)" "bd_parent (the_bdev s r) = 0"
        "bd_block_size (the_bdev s r) = bd_block_size ?P" "bd_ops (the_bdev s r) = bd_ops ?P"
        "unat ab + n \<le> unat (bd_block_count (the_bdev s r))"
      and off: "unat ab = unat (lba + bd_first_lba ?D) + off" "off + unat (bd_block_count ?P) \<le> unat (bd_block_count (the_bdev s r))"
        "\<forall>l. unat l \<le> unat (bd_block_count ?P) \<longrightarrow> to_root_walk guard s q l = Some (r, of_nat (unat l + off))"
      by blast
    have all: "to_root_walk (Suc guard) s d l = Some (r, of_nat (unat l + (unat (bd_first_lba ?D) + off)))"
      if "unat l \<le> unat (bd_block_count ?D)" for l
      using off(3) [rule_format, of "l + bd_first_lba ?D"] add [OF that] that ins False q
      by (simp add: slice_inside_def add.assoc)
    have "unat ab = unat lba + (unat (bd_first_lba ?D) + off)"
      using off(1) add [of lba] Suc.prems(5) by simp
    moreover have "unat (bd_first_lba ?D) + off + unat (bd_block_count ?D) \<le> unat (bd_block_count (the_bdev s r))"
      using off(2) ins by (simp add: slice_inside_def)
    ultimately show ?thesis
      using R all ins by (intro conjI exI [of _ "unat (bd_first_lba ?D) + off"]) (simp_all add: slice_inside_def)
  qed
qed simp

text \<open>The same for \<^verbatim>\<open>to_root\<close>, with what later proofs need of it.\<close>

lemma to_root_spec:
  assumes "registry_ok s" "d < length (st_devices s)" "bd_present (the_bdev s d)"
    and "unat lba + n \<le> unat (bd_block_count (the_bdev s d))" "to_root s d lba = Some (r, ab)"
  shows "r < length (st_devices s)" "bd_present (the_bdev s r)" "bd_parent (the_bdev s r) = 0"
    and "bd_block_size (the_bdev s r) = bd_block_size (the_bdev s d)" "bd_ops (the_bdev s r) = bd_ops (the_bdev s d)"
    and "unat ab + n \<le> unat (bd_block_count (the_bdev s r))"
    and "unat l \<le> unat (bd_block_count (the_bdev s d)) \<Longrightarrow> \<exists>a. to_root s d l = Some (r, a) \<and> unat a + unat lba = unat ab + unat l"
proof -
  have "d < BLOCK_MAX_DEVICES" using assms(2) registry_size [OF assms(1)] by (simp add: BLOCK_MAX_DEVICES_def)
  note S = to_root_walk_spec [OF assms(1,2) this assms(3,4) assms(5) [unfolded to_root_def]]
  from S show "r < length (st_devices s)" "bd_present (the_bdev s r)" "bd_parent (the_bdev s r) = 0"
    "bd_block_size (the_bdev s r) = bd_block_size (the_bdev s d)" "bd_ops (the_bdev s r) = bd_ops (the_bdev s d)"
    "unat ab + n \<le> unat (bd_block_count (the_bdev s r))" by blast+
  from S obtain off where off: "unat ab = unat lba + off" "off + unat (bd_block_count (the_bdev s d)) \<le> unat (bd_block_count (the_bdev s r))"
    "\<forall>l. unat l \<le> unat (bd_block_count (the_bdev s d)) \<longrightarrow> to_root_walk BLOCK_MAX_DEVICES s d l = Some (r, of_nat (unat l + off))"
    by blast
  assume l: "unat l \<le> unat (bd_block_count (the_bdev s d))"
  then have "unat (of_nat (unat l + off) :: u64) = unat l + off"
    using off(2) unat_u64_lt [of "bd_block_count (the_bdev s r)"] by (intro unat_of_nat_u64) simp
  then show "\<exists>a. to_root s d l = Some (r, a) \<and> unat a + unat lba = unat ab + unat l"
    using off(1,3) l by (auto simp: to_root_def)
qed

lemma to_root_same:
  "st_devices s' = st_devices s \<Longrightarrow> to_root s' d lba = to_root s d lba"
proof -
  assume e: "st_devices s' = st_devices s"
  have "to_root_walk g s' d lba = to_root_walk g s d lba" for g
    by (induction g arbitrary: d lba) (simp_all add: e the_bdev_def block_device_by_id_def split: option.splits)
  then show ?thesis by (simp add: to_root_def)
qed

lemma to_root_root: "bd_parent (the_bdev s d) = 0 \<Longrightarrow> to_root s d lba = Some (d, lba)"
  by (simp add: to_root_def BLOCK_MAX_DEVICES_def numeral_eq_Suc)

lemma block_resolve_Inr:
  assumes "block_resolve s dev lba count = Inr (rid, rgen, ab)"
  obtains d r where "dev = Some d" "check_range s dev lba count = BLOCK_OK" "to_root s d lba = Some (r, ab)"
    "rid = bd_id (the_bdev s r)" "rgen = bd_generation (the_bdev s r)"
  using assms by (auto simp: block_resolve_def Let_def split: option.splits if_splits)

end
