(* ===== verification/Block_Disk.thy ===== *)
theory Block_Disk
  imports Registry
begin

text \<open>
  What \<^verbatim>\<open>block_read\<close>, \<^verbatim>\<open>block_write\<close>, \<^verbatim>\<open>block_discard\<close> and \<^verbatim>\<open>block_flush\<close> do to the contents of the
  disks, when every whole device's driver keeps the contract. \<open>content h i k\<close> is what block \<open>k\<close>
  of the disk with identity \<open>i\<close> holds when the hardware is in state \<open>h\<close>.
\<close>

section \<open>Honest drivers\<close>

definition honest :: "('hw \<Rightarrow> u32 \<Rightarrow> nat \<Rightarrow> u8 list) \<Rightarrow> 'hw block_device \<Rightarrow> bool" where
  "honest content D \<longleftrightarrow> disk_driver (bd_ops D) (\<lambda>h. content h (bd_id D)) (\<lambda>h. (content h)(bd_id D := \<lambda>_. []))
     (unat (bd_block_size D)) (unat (bd_block_count D))"

definition all_honest :: "('hw \<Rightarrow> u32 \<Rightarrow> nat \<Rightarrow> u8 list) \<Rightarrow> 'hw storage \<Rightarrow> bool" where
  "all_honest content s \<longleftrightarrow> (\<forall>i<length (st_devices s). bd_parent (the_bdev s i) = 0 \<longrightarrow> honest content (the_bdev s i))"

text \<open>Only blocks \<open>a\<close> to \<open>a + n\<close> of disk \<open>i\<close> may differ.\<close>

definition differs_in :: "('hw \<Rightarrow> u32 \<Rightarrow> nat \<Rightarrow> u8 list) \<Rightarrow> u32 \<Rightarrow> nat \<Rightarrow> nat \<Rightarrow> 'hw \<Rightarrow> 'hw \<Rightarrow> bool" where
  "differs_in content i a n h h' \<longleftrightarrow> (\<forall>j k. j \<noteq> i \<or> k < a \<or> a + n \<le> k \<longrightarrow> content h' j k = content h j k)"

lemma differs_in_refl [simp]: "differs_in content i a n h h"
  by (simp add: differs_in_def)

lemma differs_in_same: "content h' = content h \<Longrightarrow> differs_in content i a n h h'"
  by (simp add: differs_in_def)

lemma differs_in_trans:
  "differs_in content i a n h h' \<Longrightarrow> differs_in content i b m h' h'' \<Longrightarrow> c \<le> a \<Longrightarrow> c \<le> b \<Longrightarrow>
   a + n \<le> c + q \<Longrightarrow> b + m \<le> c + q \<Longrightarrow> differs_in content i c q h h''"
  by (auto simp: differs_in_def)

lemma differs_in_sectors:
  "differs_in content i a n h h' \<Longrightarrow> b + m \<le> a \<or> a + n \<le> b \<Longrightarrow> sectors (content h' i) b m = sectors (content h i) b m"
  by (auto simp: differs_in_def intro!: sectors_cong)

lemma whole_content:
  assumes "content h' i = content h i" "(content h')(i := z) = (content h)(i := z)"
  shows "content h' = content h"
proof
  fix j show "content h' j = content h j" using assms(1) fun_cong [OF assms(2), of j] by (cases "j = i") auto
qed

lemma others_differ:
  assumes "(content h')(i := z) = (content h)(i := z)" "\<And>k. k < a \<or> a + n \<le> k \<Longrightarrow> content h' i k = content h i k"
  shows "differs_in content i a n h h'"
  unfolding differs_in_def
proof (intro allI impI)
  fix j k assume "j \<noteq> i \<or> k < a \<or> a + n \<le> k"
  then show "content h' j k = content h j k" using assms(2) fun_cong [OF assms(1), of j] by (cases "j = i") auto
qed

lemma honest_length: "honest content D \<Longrightarrow> k < unat (bd_block_count D) \<Longrightarrow> length (content h (bd_id D) k) = unat (bd_block_size D)"
  by (auto simp: honest_def disk_driver_def)

lemma honest_sectors_length:
  "honest content D \<Longrightarrow> a + n \<le> unat (bd_block_count D) \<Longrightarrow>
   length (sectors (content h (bd_id D)) a n) = n * unat (bd_block_size D)"
  unfolding honest_def by (rule disk_driver.content_length)

lemma honest_read:
  assumes "honest content D" "unat lba + unat n \<le> unat (bd_block_count D)" "op_read (bd_ops D) lba n h = (st, bytes, h')"
  shows "content h' = content h" "length bytes \<le> unat n * unat (bd_block_size D)"
    and "st = BLOCK_OK \<Longrightarrow> bytes = sectors (content h (bd_id D)) (unat lba) (unat n)"
  using disk_driver.read_keeps [OF assms(1) [unfolded honest_def] assms(2,3)]
    disk_driver.read_gives [OF assms(1) [unfolded honest_def] assms(2)] assms(3)
  by (auto intro: whole_content [where i = "bd_id D"])

lemma honest_write:
  assumes "honest content D" "unat lba + unat n \<le> unat (bd_block_count D)"
    and "op_write (bd_ops D) = Some w" "w lba n data h = (st, h')"
  shows "differs_in content (bd_id D) (unat lba) (unat n) h h'"
    and "st = BLOCK_OK \<Longrightarrow> length data = unat n * unat (bd_block_size D) \<Longrightarrow>
      sectors (content h' (bd_id D)) (unat lba) (unat n) = data"
  using disk_driver.write_keeps [OF assms(1) [unfolded honest_def] assms(2-4)]
    disk_driver.write_puts [OF assms(1) [unfolded honest_def] assms(2,3)] assms(4)
  by (auto intro: others_differ)

section \<open>Issuing a request\<close>

lemma chunk_arith:
  assumes "count \<noteq> 0" "unat lba + unat (count :: u32) \<le> unat (N :: u64)"
    and c_def: "c = next_chunk D count"
  shows "unat (lba + ucast c :: u64) = unat lba + unat c" "unat (count - c) = unat count - unat c" "unat c \<le> unat count" "0 < unat c"
proof -
  have le: "c \<le> count" by (auto simp: c_def next_chunk_def intro: less_imp_le)
  then show c: "unat c \<le> unat count" by (simp add: word_le_nat_alt)
  show "unat (count - c) = unat count - unat c" using le by (simp add: unat_sub)
  have u: "unat (ucast c :: u64) = unat c" using unat_u32_lt [of c] by (simp add: unat_ucast_mod)
  show "unat (lba + ucast c :: u64) = unat lba + unat c"
    using assms(2) c unat_u64_lt [of N] u by (subst unat_add_lem [THEN iffD1]) simp_all
  have "c \<noteq> 0" using assms(1) by (simp add: c_def next_chunk_def)
  then show "0 < unat c" by (simp add: unat_gt_0)
qed

lemma issue_read:
  assumes "honest content (the_bdev s d)" "unat lba + unat count \<le> unat (bd_block_count (the_bdev s d))"
    and "at + unat count * unat (bd_block_size (the_bdev s d)) \<le> length buf"
    and "issue_loop False d lba count at buf s = (st, buf', s')"
  shows "content (st_hw s') = content (st_hw s) \<and> length buf' = length buf \<and>
    (st = BLOCK_OK \<longrightarrow> buf' = overlay at (sectors (content (st_hw s) (bd_id (the_bdev s d))) (unat lba) (unat count)) buf)"
  using assms
proof (induction False d lba count at buf s arbitrary: st buf' s' rule: issue_loop.induct)
  case (1 d lba count at buf s)
  let ?D = "the_bdev s d" and ?c = "next_chunk (the_bdev s d) count"
  let ?bs = "unat (bd_block_size ?D)" and ?C = "content (st_hw s) (bd_id ?D)"
  show ?case
  proof (cases "count = 0")
    case True
    then show ?thesis using "1.prems"(4) by (subst (asm) issue_loop.simps) (auto simp: overlay_def)
  next
    case False
    note A = chunk_arith [OF False "1.prems"(2) refl, of ?D]
    obtain st1 bytes h where rd: "op_read (bd_ops ?D) lba ?c (st_hw s) = (st1, bytes, h)" by (metis surj_pair)
    have fit: "unat lba + unat ?c \<le> unat (bd_block_count ?D)" using A(3) "1.prems"(2) by simp
    note H = honest_read [OF "1.prems"(1) fit rd]
    have t: "op_transfer False d lba ?c at buf s = (st1, overlay at bytes buf, s\<lparr>st_hw := h\<rparr>)"
      by (simp add: op_transfer_def rd Let_def)
    have m: "unat ?c * ?bs \<le> unat count * ?bs" using A(3) by simp
    then have lb: "at + length bytes \<le> length buf" using H(2) "1.prems"(3) by linarith
    show ?thesis
    proof (cases "st1 = BLOCK_OK")
      case False
      then have "(st, buf', s') = (st1, overlay at bytes buf, s\<lparr>st_hw := h\<rparr>)"
        using "1.prems"(4) \<open>count \<noteq> 0\<close> t by (subst (asm) issue_loop.simps) (simp add: Let_def)
      then show ?thesis using H(1) False lb by (simp add: length_overlay)
    next
      case True
      let ?s1 = "count_transfer False ?c (s\<lparr>st_hw := h\<rparr>)"
      have D1: "the_bdev ?s1 d = ?D" by (simp add: the_bdev_def)
      have bytes: "bytes = sectors ?C (unat lba) (unat ?c)" "length bytes = unat ?c * ?bs"
        using H(3) [OF True] honest_sectors_length [OF "1.prems"(1) fit] by simp_all
      have run: "issue_loop False d (lba + ucast ?c) (count - ?c) (at + unat ?c * ?bs) (overlay at bytes buf) ?s1 = (st, buf', s')"
        using "1.prems"(4) \<open>count \<noteq> 0\<close> t True by (subst (asm) issue_loop.simps) (simp add: Let_def)
      have mul: "unat count * ?bs = unat ?c * ?bs + (unat count - unat ?c) * ?bs"
        using A(3) by (simp flip: distrib_right)
      have "content (st_hw s') = content (st_hw ?s1) \<and> length buf' = length (overlay at bytes buf) \<and>
        (st = BLOCK_OK \<longrightarrow> buf' = overlay (at + unat ?c * ?bs)
           (sectors (content (st_hw ?s1) (bd_id (the_bdev ?s1 d))) (unat (lba + ucast ?c)) (unat (count - ?c))) (overlay at bytes buf))"
        by (rule "1.hyps" [OF \<open>count \<noteq> 0\<close> refl t [symmetric] refl])
          (use A "1.prems"(1-3) True run D1 lb mul in \<open>simp_all add: length_overlay\<close>)
      moreover have "length (sectors ?C (unat lba + unat ?c) (unat count - unat ?c)) = (unat count - unat ?c) * ?bs"
        using A(3) "1.prems"(2) by (intro honest_sectors_length "1.prems"(1)) simp
      moreover have "sectors ?C (unat lba) (unat count) = bytes @ sectors ?C (unat lba + unat ?c) (unat count - unat ?c)"
        using A(3) sectors_add [of ?C "unat lba" "unat ?c" "unat count - unat ?c"] by (simp add: bytes(1))
      ultimately show ?thesis
        using H(1) A lb D1 bytes(2) "1.prems"(3) mul overlay_overlay [of "at" bytes "sectors ?C (unat lba + unat ?c) (unat count - unat ?c)" buf]
        by (simp add: length_overlay)
    qed
  qed
qed

lemma issue_write:
  assumes "honest content (the_bdev s d)" "unat lba + unat count \<le> unat (bd_block_count (the_bdev s d))"
    and "at + unat count * unat (bd_block_size (the_bdev s d)) \<le> length buf"
    and "issue_loop True d lba count at buf s = (st, buf', s')"
  shows "differs_in content (bd_id (the_bdev s d)) (unat lba) (unat count) (st_hw s) (st_hw s') \<and>
    (st = BLOCK_OK \<longrightarrow> sectors (content (st_hw s') (bd_id (the_bdev s d))) (unat lba) (unat count)
       = slice_of at (unat count * unat (bd_block_size (the_bdev s d))) buf)"
  using assms
proof (induction True d lba count at buf s arbitrary: st buf' s' rule: issue_loop.induct)
  case (1 d lba count at buf s)
  let ?D = "the_bdev s d" and ?c = "next_chunk (the_bdev s d) count"
  let ?bs = "unat (bd_block_size ?D)" and ?i = "bd_id (the_bdev s d)"
  show ?case
  proof (cases "count = 0 \<or> op_write (bd_ops ?D) = None")
    case True
    then show ?thesis using "1.prems"(4)
      by (subst (asm) issue_loop.simps) (auto simp: slice_of_def op_transfer_def Let_def st_panics_def split: if_splits)
  next
    case False
    then obtain w where nz: "count \<noteq> 0" and w: "op_write (bd_ops ?D) = Some w" by blast
    note A = chunk_arith [OF nz "1.prems"(2) refl, of ?D]
    let ?data = "slice_of at (unat ?c * ?bs) buf"
    obtain st1 h where wr: "w lba ?c ?data (st_hw s) = (st1, h)" by (metis surj_pair)
    have fit: "unat lba + unat ?c \<le> unat (bd_block_count ?D)" using A(3) "1.prems"(2) by simp
    note H = honest_write [OF "1.prems"(1) fit w wr]
    have t: "op_transfer True d lba ?c at buf s = (st1, buf, s\<lparr>st_hw := h\<rparr>)"
      by (simp add: op_transfer_def w wr Let_def)
    have mul: "unat count * ?bs = unat ?c * ?bs + (unat count - unat ?c) * ?bs"
      using A(3) by (simp flip: distrib_right)
    then have ld: "length ?data = unat ?c * ?bs" using "1.prems"(3) by simp
    show ?thesis
    proof (cases "st1 = BLOCK_OK")
      case False
      then have "(st, buf', s') = (st1, buf, s\<lparr>st_hw := h\<rparr>)"
        using "1.prems"(4) nz t by (subst (asm) issue_loop.simps) (simp add: Let_def)
      then show ?thesis using H(1) False A(3) by (auto simp: differs_in_def)
    next
      case True
      let ?s1 = "count_transfer True ?c (s\<lparr>st_hw := h\<rparr>)"
      have D1: "the_bdev ?s1 d = ?D" by (simp add: the_bdev_def)
      have run: "issue_loop True d (lba + ucast ?c) (count - ?c) (at + unat ?c * ?bs) buf ?s1 = (st, buf', s')"
        using "1.prems"(4) nz t True by (subst (asm) issue_loop.simps) (simp add: Let_def)
      have IH: "differs_in content (bd_id (the_bdev ?s1 d)) (unat (lba + ucast ?c)) (unat (count - ?c)) (st_hw ?s1) (st_hw s') \<and>
        (st = BLOCK_OK \<longrightarrow> sectors (content (st_hw s') (bd_id (the_bdev ?s1 d))) (unat (lba + ucast ?c)) (unat (count - ?c))
           = slice_of (at + unat ?c * ?bs) (unat (count - ?c) * unat (bd_block_size (the_bdev ?s1 d))) buf)"
        by (rule "1.hyps" [OF nz refl t [symmetric] refl])
          (use A "1.prems"(1-3) True run D1 mul in simp_all)
      have d2: "differs_in content ?i (unat lba + unat ?c) (unat count - unat ?c) h (st_hw s')" using IH A D1 by simp
      have "differs_in content ?i (unat lba) (unat count) (st_hw s) (st_hw s')"
        using differs_in_trans [OF H(1) d2, of "unat lba" "unat count"] A(3) by simp
      moreover have "sectors (content (st_hw s') ?i) (unat lba) (unat ?c) = ?data"
        using differs_in_sectors [OF d2] H(2) [OF True ld] by simp
      then have "sectors (content (st_hw s') ?i) (unat lba) (unat count)
          = ?data @ sectors (content (st_hw s') ?i) (unat lba + unat ?c) (unat count - unat ?c)"
        using A(3) sectors_add [of "content (st_hw s') ?i" "unat lba" "unat ?c" "unat count - unat ?c"] by simp
      moreover have "?data @ slice_of (at + unat ?c * ?bs) ((unat count - unat ?c) * ?bs) buf = slice_of at (unat count * ?bs) buf"
        unfolding mul slice_of_def by (simp add: take_add add.commute)
      ultimately show ?thesis using IH A D1 by simp
    qed
  qed
qed

section \<open>Submitting\<close>

text \<open>With no other request waiting, submitting is issuing.\<close>

lemma submit_alone:
  fixes s :: "'hw storage"
  assumes "d < length (st_devices s)" "bd_queue (the_bdev s d) = []"
  shows "\<exists>s0. submit d r s = issue d r s0 \<and> st_hw s0 = st_hw s \<and> st_cache s0 = st_cache s \<and> st_next_id s0 = st_next_id s \<and>
    st_panic s0 = st_panic s \<and> st_pages s0 = st_pages s \<and>
    st_devices s0 = (st_devices s)[d := (the_bdev s d)\<lparr>bd_queued := bd_queued (the_bdev s d) + 1\<rparr>]"
proof -
  let ?s1 = "upd_bdev d (queue_insert r) s"
  let ?s0 = "upd_bdev d (\<lambda>b. b\<lparr>bd_queue := []\<rparr>) ?s1"
  have q: "bd_queue (the_bdev ?s1 d) = [r]" using assms by (simp add: the_bdev_upd_bdev queue_insert_def)
  obtain st buf s2 where i: "issue d r ?s0 = (st, buf, s2)" by (metis surj_pair)
  have "st_devices (snd (snd (issue d r ?s0))) = st_devices ?s0" by (simp add: issue_def)
  then have dv: "st_devices s2 = st_devices ?s0" using i by simp
  then have "the_bdev s2 d = the_bdev ?s0 d" by (simp add: the_bdev_def)
  then have "bd_queue (the_bdev s2 d) = []" using assms(1) by (simp add: the_bdev_upd_bdev)
  then have "serve d s2 = ([], s2)" by (subst serve.simps) simp
  then have sv: "serve d ?s1 = ([(rq_tag r, st, buf)], s2)"
    using q i assms(1) by (subst serve.simps) simp
  have "submit d r s = issue d r ?s0" using i sv by (simp add: submit_def)
  moreover have "st_devices ?s0 = (st_devices s)[d := (the_bdev s d)\<lparr>bd_queued := bd_queued (the_bdev s d) + 1\<rparr>]"
    using assms by (cases "st_devices s ! d") (simp add: upd_bdev_def the_bdev_def queue_insert_def)
  ultimately show ?thesis by (intro exI [of _ ?s0]) simp
qed

text \<open>The registry after a request: only a device's count of requests has moved.\<close>

definition same_devices :: "'hw storage \<Rightarrow> 'hw storage \<Rightarrow> bool" where
  "same_devices s s' \<longleftrightarrow> length (st_devices s') = length (st_devices s) \<and> st_next_id s' = st_next_id s \<and>
     (\<forall>i<length (st_devices s). the_bdev s' i = (the_bdev s i)\<lparr>bd_queued := bd_queued (the_bdev s' i)\<rparr>)"

lemma same_devices_refl [simp]: "same_devices s s"
  by (simp add: same_devices_def)

lemma same_devices_eq: "st_devices s' = st_devices s \<Longrightarrow> st_next_id s' = st_next_id s \<Longrightarrow> same_devices s s'"
  by (simp add: same_devices_def the_bdev_def)

lemma same_devices_trans:
  assumes "same_devices s s'" "same_devices s' s''"
  shows "same_devices s s''"
proof -
  have "the_bdev s'' i = (the_bdev s i)\<lparr>bd_queued := bd_queued (the_bdev s'' i)\<rparr>" if i: "i < length (st_devices s)" for i
  proof -
    obtain q where "the_bdev s' i = (the_bdev s i)\<lparr>bd_queued := q\<rparr>" using assms(1) i unfolding same_devices_def by blast
    moreover have "i < length (st_devices s')" using assms(1) i by (simp add: same_devices_def)
    then obtain p where "the_bdev s'' i = (the_bdev s' i)\<lparr>bd_queued := p\<rparr>" using assms(2) unfolding same_devices_def by blast
    ultimately show ?thesis by simp
  qed
  then show ?thesis using assms by (simp add: same_devices_def)
qed

lemma same_devices_fields:
  assumes "same_devices s s'" "i < length (st_devices s)"
  shows "bd_id (the_bdev s' i) = bd_id (the_bdev s i)" "bd_generation (the_bdev s' i) = bd_generation (the_bdev s i)"
    "bd_block_size (the_bdev s' i) = bd_block_size (the_bdev s i)" "bd_block_count (the_bdev s' i) = bd_block_count (the_bdev s i)"
    "bd_present (the_bdev s' i) = bd_present (the_bdev s i)" "bd_parent (the_bdev s' i) = bd_parent (the_bdev s i)"
    "bd_parent_generation (the_bdev s' i) = bd_parent_generation (the_bdev s i)" "bd_first_lba (the_bdev s' i) = bd_first_lba (the_bdev s i)"
    "bd_ops (the_bdev s' i) = bd_ops (the_bdev s i)" "bd_queue (the_bdev s' i) = bd_queue (the_bdev s i)"
    "bd_read_only (the_bdev s' i) = bd_read_only (the_bdev s i)" "bd_slice_count (the_bdev s' i) = bd_slice_count (the_bdev s i)"
    "bd_claimed_raw (the_bdev s' i) = bd_claimed_raw (the_bdev s i)"
proof -
  obtain q where e: "the_bdev s' i = (the_bdev s i)\<lparr>bd_queued := q\<rparr>"
    using assms unfolding same_devices_def by blast
  show "bd_id (the_bdev s' i) = bd_id (the_bdev s i)" "bd_generation (the_bdev s' i) = bd_generation (the_bdev s i)"
    "bd_block_size (the_bdev s' i) = bd_block_size (the_bdev s i)" "bd_block_count (the_bdev s' i) = bd_block_count (the_bdev s i)"
    "bd_present (the_bdev s' i) = bd_present (the_bdev s i)" "bd_parent (the_bdev s' i) = bd_parent (the_bdev s i)"
    "bd_parent_generation (the_bdev s' i) = bd_parent_generation (the_bdev s i)" "bd_first_lba (the_bdev s' i) = bd_first_lba (the_bdev s i)"
    "bd_ops (the_bdev s' i) = bd_ops (the_bdev s i)" "bd_queue (the_bdev s' i) = bd_queue (the_bdev s i)"
    "bd_read_only (the_bdev s' i) = bd_read_only (the_bdev s i)" "bd_slice_count (the_bdev s' i) = bd_slice_count (the_bdev s i)"
    "bd_claimed_raw (the_bdev s' i) = bd_claimed_raw (the_bdev s i)"
    by (simp_all add: e)
qed

lemma same_devices_the:
  assumes "same_devices s s'" "i < length (st_devices s)"
  obtains q where "the_bdev s' i = (the_bdev s i)\<lparr>bd_queued := q\<rparr>"
  using assms unfolding same_devices_def by blast

lemma same_devices_length: "same_devices s s' \<Longrightarrow> length (st_devices s') = length (st_devices s)"
  by (simp add: same_devices_def)

lemma same_devices_registry:
  assumes "same_devices s s'" "registry_ok s"
  shows "registry_ok s'"
proof -
  have l: "length (st_devices s') = length (st_devices s)" "st_next_id s' = st_next_id s"
    using assms(1) by (simp_all add: same_devices_def)
  have "bd_id (the_bdev s' i) = of_nat (Suc i) \<and> bd_queue (the_bdev s' i) = [] \<and> bd_block_size (the_bdev s' i) \<noteq> 0
    \<and> bd_block_size (the_bdev s' i) AND (bd_block_size (the_bdev s' i) - 1) = 0
    \<and> (bd_parent (the_bdev s' i) \<noteq> 0 \<longrightarrow> (\<exists>p<i. bd_parent (the_bdev s' i) = of_nat (Suc p) \<and> slice_inside (the_bdev s' i) (the_bdev s' p)))"
    if i: "i < length (st_devices s)" for i
  proof -
    note F = same_devices_fields [OF assms(1) i] and R = registryD [OF assms(2) i]
    have "\<exists>p<i. bd_parent (the_bdev s' i) = of_nat (Suc p) \<and> slice_inside (the_bdev s' i) (the_bdev s' p)"
      if p: "bd_parent (the_bdev s' i) \<noteq> 0"
    proof -
      obtain p where "p < i" "bd_parent (the_bdev s i) = of_nat (Suc p)" "slice_inside (the_bdev s i) (the_bdev s p)"
        using R(5) p F by auto
      then show ?thesis using F same_devices_fields [OF assms(1), of p] i by (intro exI [of _ p]) (simp add: slice_inside_def)
    qed
    then show ?thesis using F R(1-4) by simp
  qed
  then show ?thesis using assms(2) l by (simp add: registry_ok_def Let_def)
qed

lemma same_devices_honest: "same_devices s s' \<Longrightarrow> all_honest content s \<Longrightarrow> all_honest content s'"
  by (simp add: all_honest_def same_devices_length same_devices_fields honest_def)

lemma same_devices_submit:
  assumes "d < length (st_devices s)" "st_devices s' = (st_devices s)[d := (the_bdev s d)\<lparr>bd_queued := q\<rparr>]" "st_next_id s' = st_next_id s"
  shows "same_devices s s'"
  unfolding same_devices_def
proof (intro conjI allI impI)
  fix i assume "i < length (st_devices s)"
  then show "the_bdev s' i = (the_bdev s i)\<lparr>bd_queued := bd_queued (the_bdev s' i)\<rparr>"
    using assms by (cases "i = d") (simp_all add: the_bdev_def)
qed (use assms in simp_all)

section \<open>The operations\<close>

lemma submit_read:
  assumes "registry_ok s" "all_honest content s" "r < length (st_devices s)" "bd_parent (the_bdev s r) = 0"
    and "unat ab + unat count \<le> unat (bd_block_count (the_bdev s r))"
    and "length buf = unat count * unat (bd_block_size (the_bdev s r))"
    and "submit r \<lparr>rq_tag = t, rq_lba = ab, rq_count = count, rq_buf = buf, rq_write = False\<rparr> s = (st, buf', s')"
  shows "same_devices s s'" "st_cache s' = st_cache s" "content (st_hw s') = content (st_hw s)" "length buf' = length buf"
    and "st = BLOCK_OK \<Longrightarrow> buf' = sectors (content (st_hw s) (bd_id (the_bdev s r))) (unat ab) (unat count)"
proof -
  let ?r = "\<lparr>rq_tag = t, rq_lba = ab, rq_count = count, rq_buf = buf, rq_write = False\<rparr>"
  obtain s0 where s0: "submit r ?r s = issue r ?r s0" "st_hw s0 = st_hw s" "st_cache s0 = st_cache s" "st_next_id s0 = st_next_id s"
    "st_devices s0 = (st_devices s)[r := (the_bdev s r)\<lparr>bd_queued := bd_queued (the_bdev s r) + 1\<rparr>]"
    using submit_alone [OF assms(3) registryD(2) [OF assms(1,3)], of ?r] by blast
  note sd = same_devices_submit [OF assms(3) s0(5,4)]
  note F = same_devices_fields [OF sd assms(3)]
  have run: "issue_loop False r ab count 0 buf s0 = (st, buf', s')" using assms(7) s0(1) by (simp add: issue_def)
  have "honest content (the_bdev s0 r)"
    using same_devices_honest [OF sd assms(2)] assms(3,4) F by (simp add: all_honest_def same_devices_length [OF sd])
  from issue_read [OF this _ _ run] assms(5,6) F
  have I: "content (st_hw s') = content (st_hw s0) \<and> length buf' = length buf \<and>
    (st = BLOCK_OK \<longrightarrow> buf' = overlay 0 (sectors (content (st_hw s0) (bd_id (the_bdev s r))) (unat ab) (unat count)) buf)" by simp
  then show "content (st_hw s') = content (st_hw s)" "length buf' = length buf" using s0(2) by simp_all
  have fr: "st_devices s' = st_devices s0" "st_cache s' = st_cache s0" "st_next_id s' = st_next_id s0"
    using issue_loop_frame [of False r ab count 0 buf s0] run by simp_all
  then show "same_devices s s'" "st_cache s' = st_cache s"
    using same_devices_submit [OF assms(3), of s'] s0 by simp_all
  have "length (sectors (content (st_hw s) (bd_id (the_bdev s r))) (unat ab) (unat count)) = length buf"
    using assms(2-6) by (simp add: all_honest_def honest_sectors_length)
  then show "st = BLOCK_OK \<Longrightarrow> buf' = sectors (content (st_hw s) (bd_id (the_bdev s r))) (unat ab) (unat count)"
    using I s0(2) by (simp add: overlay_whole)
qed

lemma submit_write:
  assumes "registry_ok s" "all_honest content s" "r < length (st_devices s)" "bd_parent (the_bdev s r) = 0"
    and "unat ab + unat count \<le> unat (bd_block_count (the_bdev s r))"
    and "length buf = unat count * unat (bd_block_size (the_bdev s r))"
    and "submit r \<lparr>rq_tag = t, rq_lba = ab, rq_count = count, rq_buf = buf, rq_write = True\<rparr> s = (st, buf', s')"
  shows "same_devices s s'" "st_cache s' = st_cache s"
    and "differs_in content (bd_id (the_bdev s r)) (unat ab) (unat count) (st_hw s) (st_hw s')"
    and "st = BLOCK_OK \<Longrightarrow> sectors (content (st_hw s') (bd_id (the_bdev s r))) (unat ab) (unat count) = buf"
proof -
  let ?r = "\<lparr>rq_tag = t, rq_lba = ab, rq_count = count, rq_buf = buf, rq_write = True\<rparr>"
  obtain s0 where s0: "submit r ?r s = issue r ?r s0" "st_hw s0 = st_hw s" "st_cache s0 = st_cache s" "st_next_id s0 = st_next_id s"
    "st_devices s0 = (st_devices s)[r := (the_bdev s r)\<lparr>bd_queued := bd_queued (the_bdev s r) + 1\<rparr>]"
    using submit_alone [OF assms(3) registryD(2) [OF assms(1,3)], of ?r] by blast
  note sd = same_devices_submit [OF assms(3) s0(5,4)]
  note F = same_devices_fields [OF sd assms(3)]
  have run: "issue_loop True r ab count 0 buf s0 = (st, buf', s')" using assms(7) s0(1) by (simp add: issue_def)
  have "honest content (the_bdev s0 r)"
    using same_devices_honest [OF sd assms(2)] assms(3,4) F by (simp add: all_honest_def same_devices_length [OF sd])
  from issue_write [OF this _ _ run] assms(5,6) F s0(2)
  have I: "differs_in content (bd_id (the_bdev s r)) (unat ab) (unat count) (st_hw s) (st_hw s') \<and>
    (st = BLOCK_OK \<longrightarrow> sectors (content (st_hw s') (bd_id (the_bdev s r))) (unat ab) (unat count) = slice_of 0 (length buf) buf)" by simp
  then show "differs_in content (bd_id (the_bdev s r)) (unat ab) (unat count) (st_hw s) (st_hw s')"
    and "st = BLOCK_OK \<Longrightarrow> sectors (content (st_hw s') (bd_id (the_bdev s r))) (unat ab) (unat count) = buf"
    by (simp_all add: slice_of_def)
  have fr: "st_devices s' = st_devices s0" "st_cache s' = st_cache s0" "st_next_id s' = st_next_id s0"
    using issue_loop_frame [of True r ab count 0 buf s0] run by simp_all
  then show "same_devices s s'" "st_cache s' = st_cache s"
    using same_devices_submit [OF assms(3), of s'] s0 by simp_all
qed

text \<open>What a resolved request names: a whole device, present and honest, and a range inside it.\<close>

lemma resolved:
  assumes "registry_ok s" "all_honest content s" "d < length (st_devices s)" "count \<noteq> 0"
    and "block_resolve s (Some d) lba count = Inr (rid, rgen, ab)"
  obtains r where "to_root s d lba = Some (r, ab)" "r < length (st_devices s)" "bd_present (the_bdev s r)"
    "bd_parent (the_bdev s r) = 0" "rid = bd_id (the_bdev s r)" "rgen = bd_generation (the_bdev s r)"
    "block_device_by_id rid rgen s = Some r" "honest content (the_bdev s r)"
    "bd_block_size (the_bdev s r) = bd_block_size (the_bdev s d)"
    "unat ab + unat count \<le> unat (bd_block_count (the_bdev s r))"
    "bd_present (the_bdev s d)" "unat lba + unat count \<le> unat (bd_block_count (the_bdev s d))"
proof -
  obtain r where c: "check_range s (Some d) lba count = BLOCK_OK" and w: "to_root s d lba = Some (r, ab)"
    and id: "rid = bd_id (the_bdev s r)" "rgen = bd_generation (the_bdev s r)"
    using assms(5) by (rule block_resolve_Inr) simp
  note C = check_range_OK [OF c assms(4)]
  note R = to_root_spec [OF assms(1,3) C(1,2) w]
  show ?thesis
    using w R(1-4,6) id by_id_self [OF assms(1) R(1,2)] assms(2) C by (intro that [of r]) (simp_all add: all_honest_def)
qed

lemma block_read_spec:
  assumes "registry_ok s" "all_honest content s" "d < length (st_devices s)"
    and "length buf = unat count * unat (bd_block_size (the_bdev s d))"
    and "block_read (Some d) lba count (Some buf) s = (st, buf', s')"
  shows "same_devices s s'" "st_cache s' = st_cache s" "content (st_hw s') = content (st_hw s)" "length buf' = length buf"
    and "st = BLOCK_OK \<Longrightarrow> count \<noteq> 0 \<Longrightarrow> \<exists>rid rgen ab. block_resolve s (Some d) lba count = Inr (rid, rgen, ab) \<and>
      buf' = sectors (content (st_hw s) rid) (unat ab) (unat count)"
proof -
  have *: "same_devices s s' \<and> st_cache s' = st_cache s \<and> content (st_hw s') = content (st_hw s) \<and> length buf' = length buf \<and>
    (st = BLOCK_OK \<longrightarrow> count \<noteq> 0 \<longrightarrow> (\<exists>rid rgen ab. block_resolve s (Some d) lba count = Inr (rid, rgen, ab) \<and>
      buf' = sectors (content (st_hw s) rid) (unat ab) (unat count)))"
  proof (cases "check_range s (Some d) lba count = BLOCK_OK \<and> count \<noteq> 0")
    case False
    then show ?thesis using assms(5) by (auto simp: block_read_def Let_def)
  next
    case True
    show ?thesis
    proof (cases "to_root s d lba")
      case None
      then show ?thesis using assms(5) True by (auto simp: block_read_def Let_def)
    next
      case (Some p)
      then obtain r ab where w: "to_root s d lba = Some (r, ab)" by (cases p) auto
      note C = check_range_OK [OF conjunct1 [OF True] conjunct2 [OF True]]
      note R = to_root_spec [OF assms(1,3) C(1,2) w]
      have run: "submit r \<lparr>rq_tag = 0, rq_lba = ab, rq_count = count, rq_buf = buf, rq_write = False\<rparr> s = (st, buf', s')"
        using assms(5) True w by (simp add: block_read_def Let_def)
      have "block_resolve s (Some d) lba count = Inr (bd_id (the_bdev s r), bd_generation (the_bdev s r), ab)"
        using True w by (simp add: block_resolve_def Let_def)
      then show ?thesis
        using submit_read [OF assms(1,2) R(1,3,6) _ run] assms(4) R(4) by auto
    qed
  qed
  then show "same_devices s s'" "st_cache s' = st_cache s" "content (st_hw s') = content (st_hw s)" "length buf' = length buf"
    "st = BLOCK_OK \<Longrightarrow> count \<noteq> 0 \<Longrightarrow> \<exists>rid rgen ab. block_resolve s (Some d) lba count = Inr (rid, rgen, ab) \<and>
      buf' = sectors (content (st_hw s) rid) (unat ab) (unat count)" by blast+
qed

lemma bcache_invalidate_frame [simp]:
  "st_devices (bcache_invalidate dev lba count s) = st_devices s" "st_hw (bcache_invalidate dev lba count s) = st_hw s"
  "st_next_id (bcache_invalidate dev lba count s) = st_next_id s" "st_pages (bcache_invalidate dev lba count s) = st_pages s"
  by (simp_all add: bcache_invalidate_def Let_def split: option.splits sum.splits)

lemma bcache_invalidate_device_frame [simp]:
  "st_devices (bcache_invalidate_device dev s) = st_devices s" "st_hw (bcache_invalidate_device dev s) = st_hw s"
  "st_next_id (bcache_invalidate_device dev s) = st_next_id s"
  by (simp_all add: bcache_invalidate_device_def Let_def split: option.splits sum.splits)

lemma write_transfer_spec:
  assumes "registry_ok s" "all_honest content s" "d < length (st_devices s)" "count \<noteq> 0"
    and "length buf = unat count * unat (bd_block_size (the_bdev s d))"
    and "block_resolve s (Some d) lba count = Inr (rid, rgen, ab)"
    and "write_transfer (Some d) lba count buf s = (st, s')"
  shows "same_devices s s'" "st_cache s' = st_cache s"
    "differs_in content rid (unat ab) (unat count) (st_hw s) (st_hw s')"
    "st = BLOCK_OK \<Longrightarrow> sectors (content (st_hw s') rid) (unat ab) (unat count) = buf"
proof -
  obtain r where r: "to_root s d lba = Some (r, ab)" "r < length (st_devices s)" "bd_parent (the_bdev s r) = 0"
    "rid = bd_id (the_bdev s r)" "bd_block_size (the_bdev s r) = bd_block_size (the_bdev s d)"
    "unat ab + unat count \<le> unat (bd_block_count (the_bdev s r))"
    using resolved [OF assms(1-4,6)] by metis
  then obtain b where "submit r \<lparr>rq_tag = 0, rq_lba = ab, rq_count = count, rq_buf = buf, rq_write = True\<rparr> s = (st, b, s')"
    using assms(7) by (auto simp: write_transfer_def split: prod.splits)
  from submit_write [OF assms(1,2) r(2,3,6) _ this] assms(5) r(4,5)
  show "same_devices s s'" "st_cache s' = st_cache s"
    "differs_in content rid (unat ab) (unat count) (st_hw s) (st_hw s')"
    "st = BLOCK_OK \<Longrightarrow> sectors (content (st_hw s') rid) (unat ab) (unat count) = buf" by simp_all
qed

lemma resolve_same:
  assumes "st_devices s' = st_devices s"
  shows "block_resolve s' dev lba count = block_resolve s dev lba count"
proof -
  have "the_bdev s' = the_bdev s" using assms by (simp add: the_bdev_def fun_eq_iff)
  then have e: "check_range s' = check_range s" by (intro ext) (simp add: check_range_def split: option.split)
  moreover have "to_root s' = to_root s" by (intro ext) (rule to_root_same [OF assms])
  ultimately show ?thesis using \<open>the_bdev s' = the_bdev s\<close> by (simp only: block_resolve_def)
qed

text \<open>A write either never reaches a disk, or drops the cached units first and then changes at
  most the range it names.\<close>

lemma block_write_spec:
  assumes "registry_ok s" "all_honest content s" "d < length (st_devices s)"
    and "length buf = unat count * unat (bd_block_size (the_bdev s d))"
    and "block_write (Some d) lba count (Some buf) s = (st, s')"
  shows "same_devices s s' \<and>
    (st_hw s' = st_hw s \<and> st_cache s' = st_cache s \<and> (st = BLOCK_OK \<longrightarrow> count = 0) \<or>
     (\<exists>rid rgen ab. count \<noteq> 0 \<and> block_resolve s (Some d) lba count = Inr (rid, rgen, ab) \<and>
        st_cache s' = st_cache (bcache_invalidate (Some d) lba (ucast count) s) \<and>
        differs_in content rid (unat ab) (unat count) (st_hw s) (st_hw s') \<and>
        (st = BLOCK_OK \<longrightarrow> sectors (content (st_hw s') rid) (unat ab) (unat count) = buf)))"
proof (cases "check_range s (Some d) lba count = BLOCK_OK \<and> count \<noteq> 0 \<and> write_refused (the_bdev s d) = BLOCK_OK")
  case False
  then show ?thesis using assms(5) by (auto simp: block_write_def Let_def split: if_splits)
next
  case True
  let ?s1 = "bcache_invalidate (Some d) lba (ucast count) s"
  have run: "write_transfer (Some d) lba count buf ?s1 = (st, s')"
    using assms(5) True by (simp add: block_write_def Let_def)
  have same: "same_devices s ?s1" by (rule same_devices_eq) simp_all
  have rs: "block_resolve ?s1 (Some d) lba count = block_resolve s (Some d) lba count"
    by (rule resolve_same) simp
  show ?thesis
  proof (cases "to_root s d lba")
    case None
    then have "block_resolve s (Some d) lba count = Inl BLOCK_ERR_NO_DEVICE"
      using True by (simp add: block_resolve_def Let_def)
    have "to_root s d lba = None \<Longrightarrow> check_range s (Some d) lba 1 = BLOCK_OK \<Longrightarrow> block_resolve s (Some d) lba 1 = Inl BLOCK_ERR_NO_DEVICE"
      by (simp add: block_resolve_def Let_def)
    then have "\<exists>x. block_resolve s (Some d) lba 1 = Inl x" using None
      by (cases "check_range s (Some d) lba 1 = BLOCK_OK") (auto simp: block_resolve_def Let_def)
    then have "?s1 = s" by (auto simp: bcache_invalidate_def split: option.splits)
    then show ?thesis using run None by (auto simp: write_transfer_def)
  next
    case (Some p)
    then obtain r ab where "to_root s d lba = Some (r, ab)" by (cases p) auto
    then have R: "block_resolve s (Some d) lba count = Inr (bd_id (the_bdev s r), bd_generation (the_bdev s r), ab)"
      using True by (simp add: block_resolve_def Let_def)
    have d1: "d < length (st_devices ?s1)" "the_bdev ?s1 d = the_bdev s d" using assms(3) by (simp_all add: the_bdev_def)
    note W = write_transfer_spec [OF same_devices_registry [OF same assms(1)] same_devices_honest [OF same assms(2)] d1(1) _ _ _ run]
    show ?thesis
      using W [OF _ _ R [folded rs]] True assms(4) d1(2) R same_devices_trans [OF same, of s'] by simp
  qed
qed

end
