(* ===== verification/Bcache.thy ===== *)
theory Bcache
  imports Block
begin

text \<open>
  \<^verbatim>\<open>kernel/core/bcache.c\<close>: the block cache. The invalidation functions the block layer calls are
  in the theory \<^verbatim>\<open>Block\<close>. One turn of the loop of \<^verbatim>\<open>bcache_read\<close> is cut at the places where
  the code drops its lock: the look-up, the claim of an entry, the fill, and the end of the fill.
  Nothing else runs between them in this model, so the second look-up finds what the first found.
\<close>

section \<open>Entries\<close>

record key =
  k_root_id :: u32
  k_root_generation :: u32
  k_abs_lba :: u64
  k_blocks_per_unit :: u32

definition unit_fits :: "key \<Rightarrow> u64 \<Rightarrow> 'hw storage \<Rightarrow> bool" where
  "unit_fits k u s =
     (case block_device_by_id (k_root_id k) (k_root_generation k) s of None \<Rightarrow> False
      | Some r \<Rightarrow> u * ucast (k_blocks_per_unit k) + ucast (k_blocks_per_unit k) \<le> bd_block_count (the_bdev s r))"

definition same_unit :: "key \<Rightarrow> u64 \<Rightarrow> entry \<Rightarrow> bool" where
  "same_unit k u e = (en_root_id e = k_root_id k \<and> en_root_generation e = k_root_generation k
     \<and> en_blocks_per_unit e = k_blocks_per_unit k \<and> en_unit e = u)"

definition find_unit :: "key \<Rightarrow> u64 \<Rightarrow> bcache \<Rightarrow> nat option" where
  "find_unit k u c = first_slot (\<lambda>e. en_state e \<noteq> ENTRY_EMPTY \<and> same_unit k u e) (bc_entries c)"

text \<open>\<^verbatim>\<open>release\<close> on the entry, with the page allocator's answer.\<close>

definition release_entry :: "nat \<Rightarrow> 'hw storage \<Rightarrow> 'hw storage" where
  "release_entry i s =
     (let e = bc_entries (st_cache s) ! i;
          s1 = (if en_page e \<noteq> 0
                then (case pmm_free_page (en_page e) (st_pages s) of
                        Inl msg \<Rightarrow> st_panics msg s | Inr p \<Rightarrow> s\<lparr>st_pages := p\<rparr>)
                else s)
      in upd_cache (\<lambda>c. upd_entry i (\<lambda>e. forget (e\<lparr>en_page := 0\<rparr>))
           (if en_page e \<noteq> 0 then c\<lparr>bc_pages_held := bc_pages_held c - 1\<rparr> else c)) s1)"

text \<open>The clock of \<^verbatim>\<open>victim\<close>, with the turns it may still take.\<close>

fun victim_turn :: "nat \<Rightarrow> bcache \<Rightarrow> nat option \<times> bcache" where
  "victim_turn 0 c = (None, c)"
| "victim_turn (Suc tries) c =
     (let i = bc_hand c; e = bc_entries c ! i; c1 = c\<lparr>bc_hand := (bc_hand c + 1) mod BCACHE_UNITS\<rparr> in
      if en_state e = ENTRY_LOADING then victim_turn tries c1
      else if en_state e = ENTRY_EMPTY then (Some i, c1)
      else if en_referenced e then victim_turn tries (upd_entry i (\<lambda>e. e\<lparr>en_referenced := False\<rparr>) c1)
      else (Some i, upd_entry i forget (count_up bc_evictions_update c1)))"

definition victim :: "bcache \<Rightarrow> nat option \<times> bcache" where
  "victim c = victim_turn (BCACHE_UNITS * 2) c"

section \<open>Reading\<close>

text \<open>Where one turn stands: the unit, the blocks wanted from it, and where they go.\<close>

record turn =
  t_unit :: u64
  t_within :: u32
  t_n :: u32
  t_lba :: u64
  t_at :: nat

definition turn_at :: "key \<Rightarrow> u32 \<Rightarrow> u64 \<Rightarrow> u32 \<Rightarrow> u32 \<Rightarrow> turn" where
  "turn_at k bs lba count dn =
     (let a = k_abs_lba k + ucast dn;
          within = ucast (a mod ucast (k_blocks_per_unit k));
          n = k_blocks_per_unit k - within
      in \<lparr>t_unit = a div ucast (k_blocks_per_unit k), t_within = within,
          t_n = (if n > count - dn then count - dn else n), t_lba = lba + ucast dn, t_at = unat dn * unat bs\<rparr>)"

definition copy_out :: "u8 list \<Rightarrow> u32 \<Rightarrow> turn \<Rightarrow> u8 list \<Rightarrow> u8 list" where
  "copy_out page bs t buf = overlay (t_at t) (slice_of (unat (t_within t) * unat bs) (unat (t_n t) * unat bs) page) buf"

text \<open>The read past the cache, with the counter of its reason.\<close>

definition read_uncached :: "((u64 \<Rightarrow> u64) \<Rightarrow> bcache \<Rightarrow> bcache) \<Rightarrow> nat \<Rightarrow> u32 \<Rightarrow> turn \<Rightarrow> u8 list \<Rightarrow> 'hw storage
    \<Rightarrow> block_status \<times> u8 list \<times> 'hw storage" where
  "read_uncached reason d bs t buf s =
     (case block_read (Some d) (t_lba t) (t_n t) (Some (slice_of (t_at t) (unat (t_n t) * unat bs) buf))
             (upd_cache (\<lambda>c. count_up reason (count_up bc_misses_update c)) s) of
        (st, part, s1) \<Rightarrow> (st, overlay (t_at t) part buf, s1))"

text \<open>An entry claimed for a unit, and the two ways its fill ends.\<close>

definition claim_entry :: "key \<Rightarrow> u64 \<Rightarrow> entry_state \<Rightarrow> entry \<Rightarrow> entry" where
  "claim_entry k u st e = e\<lparr>en_root_id := k_root_id k, en_root_generation := k_root_generation k, en_unit := u,
     en_blocks_per_unit := k_blocks_per_unit k, en_state := st, en_poisoned := False, en_referenced := True\<rparr>"

definition end_fill :: "nat \<Rightarrow> block_status \<Rightarrow> u8 list \<Rightarrow> bcache \<Rightarrow> bcache" where
  "end_fill i st bytes c =
     (let c1 = upd_entry i (\<lambda>e. e\<lparr>en_data := bytes\<rparr>) c in
      if st \<noteq> BLOCK_OK then upd_entry i forget (count_up bc_fill_failures_update c1)
      else if en_poisoned (bc_entries c ! i) then upd_entry i forget (count_up bc_poisoned_fills_update c1)
      else upd_entry i (\<lambda>e. e\<lparr>en_state := ENTRY_VALID\<rparr>) (count_up bc_fills_update c1))"

definition fill_entry :: "key \<Rightarrow> u32 \<Rightarrow> turn \<Rightarrow> nat \<Rightarrow> nat \<Rightarrow> u8 list \<Rightarrow> 'hw storage \<Rightarrow> block_status \<times> u8 list \<times> 'hw storage" where
  "fill_entry k bs t root i buf s =
     (case block_read (Some root) (t_unit t * ucast (k_blocks_per_unit k)) (k_blocks_per_unit k)
             (Some (en_data (bc_entries (st_cache s) ! i))) s of
        (st, page, s1) \<Rightarrow>
          (st, if st = BLOCK_OK then copy_out page bs t buf else buf, upd_cache (end_fill i st page) s1))"

text \<open>A slot without a page takes the spare one.\<close>

definition give_page :: "nat \<Rightarrow> paddr \<Rightarrow> bcache \<Rightarrow> bcache" where
  "give_page i spare c =
     (if en_page (bc_entries c ! i) = 0
      then upd_entry i (\<lambda>e. e\<lparr>en_page := spare, en_data := replicate PAGE_SIZE 0\<rparr>)
             (c\<lparr>bc_pages_held := bc_pages_held c + 1\<rparr>)
      else c)"

text \<open>After the page was obtained: a victim is found, given a page, claimed and filled. The spare
  page left over is the third component.\<close>

definition claim_and_fill :: "nat \<Rightarrow> key \<Rightarrow> u32 \<Rightarrow> turn \<Rightarrow> nat \<Rightarrow> paddr \<Rightarrow> u8 list \<Rightarrow> 'hw storage
    \<Rightarrow> block_status \<times> u8 list \<times> paddr \<times> 'hw storage" where
  "claim_and_fill d k bs t root spare buf s =
     (let (v, c1) = victim (st_cache s); s1 = s\<lparr>st_cache := c1\<rparr> in
      case v of
        None \<Rightarrow> (case read_uncached bc_race_uncached_update d bs t buf s1 of (st, buf1, s2) \<Rightarrow> (st, buf1, spare, s2))
      | Some i \<Rightarrow>
          if en_page (bc_entries c1 ! i) = 0 \<and> spare = 0
          then (case read_uncached bc_passthrough_memory_update d bs t buf s1 of (st, buf1, s2) \<Rightarrow> (st, buf1, spare, s2))
          else
            let c2 = upd_entry i (claim_entry k (t_unit t) ENTRY_LOADING) (count_up bc_misses_update (give_page i spare c1))
            in (case fill_entry k bs t root i buf (s1\<lparr>st_cache := c2\<rparr>) of
                  (st, buf1, s2) \<Rightarrow> (st, buf1, if en_page (bc_entries c1 ! i) = 0 then 0 else spare, s2)))"

definition bcache_read_turn :: "nat \<Rightarrow> key \<Rightarrow> u32 \<Rightarrow> turn \<Rightarrow> paddr \<Rightarrow> u8 list \<Rightarrow> 'hw storage
    \<Rightarrow> block_status \<times> u8 list \<times> paddr \<times> 'hw storage" where
  "bcache_read_turn d k bs t spare buf s =
     (let c = st_cache s in
      case find_unit k (t_unit t) c of
        Some i \<Rightarrow>
          if en_state (bc_entries c ! i) = ENTRY_VALID
          then (BLOCK_OK, copy_out (en_data (bc_entries c ! i)) bs t buf, spare,
                upd_cache (\<lambda>c. upd_entry i (\<lambda>e. e\<lparr>en_referenced := True\<rparr>) (count_up bc_hits_update c)) s)
          else (case read_uncached bc_race_uncached_update d bs t buf s of (st, buf1, s1) \<Rightarrow> (st, buf1, spare, s1))
      | None \<Rightarrow>
          (case block_device_by_id (k_root_id k) (k_root_generation k) s of
             None \<Rightarrow> (case read_uncached bc_passthrough_tail_update d bs t buf s of (st, buf1, s1) \<Rightarrow> (st, buf1, spare, s1))
           | Some root \<Rightarrow>
               if \<not> unit_fits k (t_unit t) s
               then (case read_uncached bc_passthrough_tail_update d bs t buf s of (st, buf1, s1) \<Rightarrow> (st, buf1, spare, s1))
               else if bc_pages_held c < BCACHE_UNITS \<and> spare = 0
               then let (page, p) = pmm_alloc_page (st_pages s); s1 = s\<lparr>st_pages := p\<rparr> in
                    if page = 0
                    then (case read_uncached bc_passthrough_memory_update d bs t buf s1 of (st, buf1, s2) \<Rightarrow> (st, buf1, 0, s2))
                    else claim_and_fill d k bs t root page buf s1
               else claim_and_fill d k bs t root spare buf s))"

lemma turn_n_le: "dn < count \<Longrightarrow> t_n (turn_at k bs lba count dn) \<le> count - dn"
  by (auto simp: turn_at_def Let_def)

lemma unat_u32_sub: "(a :: u32) \<le> b \<Longrightarrow> unat (b - a) = unat b - unat a"
  by (simp add: unat_sub word_le_nat_alt)

lemma turn_progress:
  assumes "dn < count" "t_n (turn_at k bs lba count dn) \<noteq> 0"
  shows "unat (count - (dn + t_n (turn_at k bs lba count dn))) < unat (count - dn)"
proof -
  let ?n = "t_n (turn_at k bs lba count dn)"
  have "?n \<le> count - dn" by (rule turn_n_le [OF assms(1)])
  then have "unat ((count - dn) - ?n) = unat (count - dn) - unat ?n" by (rule unat_u32_sub)
  moreover have "0 < unat ?n" using assms(2) by (simp add: unat_gt_0)
  moreover have "unat ?n \<le> unat (count - dn)" using \<open>?n \<le> count - dn\<close> by (simp add: word_le_nat_alt)
  moreover have "count - (dn + ?n) = (count - dn) - ?n" by (rule diff_diff_eq [symmetric])
  ultimately show ?thesis by (simp only:)
qed

text \<open>The loop. It is entered with at least one block to go, and each turn moves at least one;
  the test of \<open>t_n\<close> is always true of a key the caller made.\<close>

function bcache_read_loop :: "nat \<Rightarrow> key \<Rightarrow> u32 \<Rightarrow> u64 \<Rightarrow> u32 \<Rightarrow> u32 \<Rightarrow> paddr \<Rightarrow> u8 list \<Rightarrow> 'hw storage
    \<Rightarrow> block_status \<times> u8 list \<times> paddr \<times> 'hw storage" where
  "bcache_read_loop d k bs lba count dn spare buf s =
     (if dn \<ge> count then (BLOCK_OK, buf, spare, s)
      else let t = turn_at k bs lba count dn in
        if t_n t = 0 then (BLOCK_ERR_IO, buf, spare, s)
        else case bcache_read_turn d k bs t spare buf s of (st, buf1, spare1, s1) \<Rightarrow>
          if st \<noteq> BLOCK_OK then (st, buf1, spare1, s1)
          else bcache_read_loop d k bs lba count (dn + t_n t) spare1 buf1 s1)"
  by pat_completeness auto

termination
  by (relation "measure (\<lambda>(d, k, bs, lba, count, dn, spare, buf, s). unat (count - dn))")
    (auto simp: Let_def turn_progress not_le)

declare bcache_read_loop.simps [simp del]

definition give_back :: "paddr \<Rightarrow> 'hw storage \<Rightarrow> 'hw storage" where
  "give_back spare s =
     (if spare = 0 then s
      else case pmm_free_page spare (st_pages s) of Inl msg \<Rightarrow> st_panics msg s | Inr p \<Rightarrow> s\<lparr>st_pages := p\<rparr>)"

definition bcache_read :: "nat option \<Rightarrow> u64 \<Rightarrow> u32 \<Rightarrow> u8 list option \<Rightarrow> 'hw storage \<Rightarrow> block_status \<times> u8 list \<times> 'hw storage" where
  "bcache_read dev lba count buf s =
     (if count = 0 then (BLOCK_OK, case buf of None \<Rightarrow> [] | Some b \<Rightarrow> b, s)
      else case buf of None \<Rightarrow> (BLOCK_ERR_ALIGN, [], s) | Some B \<Rightarrow>
        if \<not> bc_ready (st_cache s)
        then block_read dev lba count buf (upd_cache (count_up bc_passthrough_memory_update) s)
        else case (case dev of None \<Rightarrow> None | Some d \<Rightarrow> cacheable (the_bdev s d)) of
          None \<Rightarrow> block_read dev lba count buf (upd_cache (count_up bc_passthrough_size_update) s)
        | Some bpu \<Rightarrow>
            (case block_resolve s dev lba count of Inl st \<Rightarrow> (st, B, s)
             | Inr (rid, rgen, ab) \<Rightarrow>
                 (case bcache_read_loop (the dev)
                         \<lparr>k_root_id = rid, k_root_generation = rgen, k_abs_lba = ab, k_blocks_per_unit = bpu\<rparr>
                         (bd_block_size (the_bdev s (the dev))) lba count 0 0 B s of
                    (st, buf1, spare, s1) \<Rightarrow> (st, buf1, give_back spare s1))))"

section \<open>Writing\<close>

text \<open>What \<^verbatim>\<open>bcache_write\<close> does with one unit of what the device accepted.\<close>

definition write_unit :: "key \<Rightarrow> u32 \<Rightarrow> turn \<Rightarrow> u8 list \<Rightarrow> 'hw storage \<Rightarrow> 'hw storage" where
  "write_unit k bs t buf s =
     (let bytes = slice_of (t_at t) (unat (t_n t) * unat bs) buf; c = st_cache s in
      case find_unit k (t_unit t) c of
        Some i \<Rightarrow>
          if en_state (bc_entries c ! i) = ENTRY_VALID
          then upd_cache (upd_entry i (\<lambda>e. e\<lparr>en_data := overlay (unat (t_within t) * unat bs) bytes (en_data e),
                 en_referenced := True\<rparr>)) s
          else upd_cache (upd_entry i (\<lambda>e. e\<lparr>en_poisoned := True\<rparr>)) s
      | None \<Rightarrow>
          if t_n t = k_blocks_per_unit k \<and> unit_fits k (t_unit t) s
          then (case victim c of
              (Some i, c1) \<Rightarrow>
                if en_page (bc_entries c1 ! i) \<noteq> 0
                then s\<lparr>st_cache := upd_entry i (\<lambda>e. (claim_entry k (t_unit t) ENTRY_VALID e)\<lparr>en_data := bytes\<rparr>)
                       (count_up bc_fills_update c1)\<rparr>
                else s\<lparr>st_cache := count_up bc_write_holes_update c1\<rparr>
            | (None, c1) \<Rightarrow> s\<lparr>st_cache := count_up bc_write_holes_update c1\<rparr>)
          else upd_cache (count_up bc_write_holes_update) s)"

function bcache_write_loop :: "key \<Rightarrow> u32 \<Rightarrow> u64 \<Rightarrow> u32 \<Rightarrow> u32 \<Rightarrow> u8 list \<Rightarrow> 'hw storage \<Rightarrow> 'hw storage" where
  "bcache_write_loop k bs lba count dn buf s =
     (if dn \<ge> count then s
      else let t = turn_at k bs lba count dn in
        if t_n t = 0 then s
        else bcache_write_loop k bs lba count (dn + t_n t) buf (write_unit k bs t buf s))"
  by pat_completeness auto

termination
  by (relation "measure (\<lambda>(k, bs, lba, count, dn, buf, s). unat (count - dn))")
    (auto simp: Let_def turn_progress not_le)

declare bcache_write_loop.simps [simp del]

definition bcache_write :: "nat option \<Rightarrow> u64 \<Rightarrow> u32 \<Rightarrow> u8 list option \<Rightarrow> 'hw storage \<Rightarrow> block_status \<times> 'hw storage" where
  "bcache_write dev lba count buf s =
     (if count = 0 then (BLOCK_OK, s)
      else case buf of None \<Rightarrow> (BLOCK_ERR_ALIGN, s) | Some B \<Rightarrow>
        (case block_write dev lba count buf s of (st, s1) \<Rightarrow>
           if st \<noteq> BLOCK_OK then (st, s1)
           else if \<not> bc_ready (st_cache s1) then (BLOCK_OK, s1)
           else case cacheable (the_bdev s1 (the dev)) of None \<Rightarrow> (BLOCK_OK, s1)
             | Some bpu \<Rightarrow>
                 (case block_resolve s1 dev lba count of Inl _ \<Rightarrow> (BLOCK_OK, s1)
                  | Inr (rid, rgen, ab) \<Rightarrow>
                      (BLOCK_OK, bcache_write_loop
                         \<lparr>k_root_id = rid, k_root_generation = rgen, k_abs_lba = ab, k_blocks_per_unit = bpu\<rparr>
                         (bd_block_size (the_bdev s1 (the dev))) lba count 0 B s1))))"

section \<open>Giving memory back, starting\<close>

text \<open>The loop of \<^verbatim>\<open>bcache_reclaim\<close> from entry \<open>i\<close>, with the number freed so far.\<close>

fun reclaim_scan :: "nat \<Rightarrow> nat list \<Rightarrow> nat \<Rightarrow> 'hw storage \<Rightarrow> nat \<times> 'hw storage" where
  "reclaim_scan pages [] freed s = (freed, s)"
| "reclaim_scan pages (i # rest) freed s =
     (if freed \<ge> pages then (freed, s)
      else let e = bc_entries (st_cache s) ! i in
        if en_state e = ENTRY_LOADING \<or> en_page e = 0 then reclaim_scan pages rest freed s
        else reclaim_scan pages rest (freed + 1) (release_entry i s))"

definition bcache_reclaim :: "nat \<Rightarrow> 'hw storage \<Rightarrow> nat \<times> 'hw storage" where
  "bcache_reclaim pages s =
     (if \<not> bc_ready (st_cache s) \<or> pages = 0 then (0, s)
      else reclaim_scan pages [0..<BCACHE_UNITS] 0 s)"

definition bcache_init :: "'hw storage \<Rightarrow> 'hw storage" where
  "bcache_init s = upd_cache (\<lambda>c. c\<lparr>bc_entries := map (\<lambda>e. e\<lparr>en_state := ENTRY_EMPTY\<rparr>) (bc_entries c),
     bc_hand := 0, bc_ready := True\<rparr>) s"

end
