(* ===== verification/Coherence.thy ===== *)
theory Coherence
  imports Block_Disk Bcache
begin

text \<open>
  Why the block cache can be trusted. Every valid entry whose disk is still there holds exactly
  what the disk holds in its unit; every operation of the block layer and of the cache keeps it
  so; hence a read through the cache returns what the disk holds.
\<close>

section \<open>The invariant\<close>

text \<open>An entry at rest: not being filled, and true of the disk it names if that disk is present.\<close>

definition entry_true :: "('hw \<Rightarrow> u32 \<Rightarrow> nat \<Rightarrow> u8 list) \<Rightarrow> 'hw storage \<Rightarrow> entry \<Rightarrow> bool" where
  "entry_true content s e \<longleftrightarrow> (\<forall>r. block_device_by_id (en_root_id e) (en_root_generation e) s = Some r \<longrightarrow>
     bd_parent (the_bdev s r) = 0 \<longrightarrow> cacheable (the_bdev s r) = Some (en_blocks_per_unit e) \<and>
     (let B = unat (en_blocks_per_unit e) in
        unat (en_unit e) * B + B \<le> unat (bd_block_count (the_bdev s r)) \<and>
        en_data e = sectors (content (st_hw s) (en_root_id e)) (unat (en_unit e) * B) B))"

definition entry_good :: "('hw \<Rightarrow> u32 \<Rightarrow> nat \<Rightarrow> u8 list) \<Rightarrow> 'hw storage \<Rightarrow> entry \<Rightarrow> bool" where
  "entry_good content s e \<longleftrightarrow> en_state e \<noteq> ENTRY_LOADING \<and> (en_page e \<noteq> 0 \<longrightarrow> length (en_data e) = PAGE_SIZE) \<and> (en_state e = ENTRY_VALID \<longrightarrow>
     (\<exists>j<length (st_devices s). en_root_id e = of_nat (Suc j)) \<and> entry_true content s e)"

definition cache_good :: "(entry \<Rightarrow> bool) \<Rightarrow> bcache \<Rightarrow> bool" where
  "cache_good P c \<longleftrightarrow> length (bc_entries c) = BCACHE_UNITS \<and> bc_hand c < BCACHE_UNITS \<and>
     (\<forall>e\<in>set (bc_entries c). P e) \<and> (\<not> bc_ready c \<longrightarrow> (\<forall>e\<in>set (bc_entries c). en_state e = ENTRY_EMPTY))"

definition coherent :: "('hw \<Rightarrow> u32 \<Rightarrow> nat \<Rightarrow> u8 list) \<Rightarrow> 'hw storage \<Rightarrow> bool" where
  "coherent content s \<longleftrightarrow> registry_ok s \<and> all_honest content s \<and> cache_good (entry_good content s) (st_cache s)"

lemma coherentD:
  "coherent content s \<Longrightarrow> registry_ok s" "coherent content s \<Longrightarrow> all_honest content s"
  "coherent content s \<Longrightarrow> cache_good (entry_good content s) (st_cache s)"
  by (simp_all add: coherent_def)

subsection \<open>Entries\<close>

lemma forget_state [simp]: "en_state (forget e) = ENTRY_EMPTY" "en_page (forget e) = en_page e" "en_data (forget e) = en_data e"
  by (simp_all add: forget_def)

lemma entry_good_forget: "entry_good content s e \<Longrightarrow> entry_good content s (forget e)"
  by (simp add: entry_good_def)

lemma entry_good_referenced [simp]: "entry_good content s (e\<lparr>en_referenced := b\<rparr>) = entry_good content s e"
  by (simp add: entry_good_def entry_true_def)

lemma first_slot_same:
  "length xs = length ys \<Longrightarrow> (\<And>i. i < length xs \<Longrightarrow> P (xs ! i) = Q (ys ! i)) \<Longrightarrow> first_slot P xs = first_slot Q ys"
proof (induction xs ys rule: list_induct2)
  case (Cons x xs y ys)
  have "P x = Q y" using Cons.prems [of 0] by simp
  moreover have "P (xs ! i) = Q (ys ! i)" if "i < length xs" for i using Cons.prems [of "Suc i"] that by simp
  ultimately show ?case using Cons.IH by simp
qed simp

lemma same_devices_by_id: "same_devices s s' \<Longrightarrow> block_device_by_id i g s' = block_device_by_id i g s"
  unfolding block_device_by_id_def
  by (rule first_slot_same) (auto simp: same_devices_length same_devices_fields [unfolded the_bdev_def])

lemma cacheable_cong: "bd_block_size D = bd_block_size D' \<Longrightarrow> cacheable D = cacheable D'"
  by (simp add: cacheable_def)

text \<open>An entry stays true when the disks keep its unit.\<close>

lemma entry_good_keep:
  assumes "entry_good content s e" "same_devices s s'"
    and "en_state e = ENTRY_VALID \<Longrightarrow> entry_true content s e \<Longrightarrow>
      sectors (content (st_hw s') (en_root_id e)) (unat (en_unit e) * unat (en_blocks_per_unit e)) (unat (en_blocks_per_unit e))
      = sectors (content (st_hw s) (en_root_id e)) (unat (en_unit e) * unat (en_blocks_per_unit e)) (unat (en_blocks_per_unit e))
      \<or> (\<forall>r. block_device_by_id (en_root_id e) (en_root_generation e) s = Some r \<longrightarrow> bd_parent (the_bdev s r) \<noteq> 0)"
  shows "entry_good content s' e"
proof (cases "en_state e = ENTRY_VALID")
  case False
  then show ?thesis using assms(1) by (simp add: entry_good_def)
next
  case True
  have t: "entry_true content s e" using assms(1) True by (simp add: entry_good_def)
  have "entry_true content s' e"
    unfolding entry_true_def
  proof (intro allI impI)
    fix r assume r: "block_device_by_id (en_root_id e) (en_root_generation e) s' = Some r" "bd_parent (the_bdev s' r) = 0"
    then have r': "block_device_by_id (en_root_id e) (en_root_generation e) s = Some r" using same_devices_by_id [OF assms(2)] by simp
    note F = same_devices_fields [OF assms(2) by_id_Some(1) [OF r']]
    show "cacheable (the_bdev s' r) = Some (en_blocks_per_unit e) \<and> (let B = unat (en_blocks_per_unit e) in
        unat (en_unit e) * B + B \<le> unat (bd_block_count (the_bdev s' r)) \<and>
        en_data e = sectors (content (st_hw s') (en_root_id e)) (unat (en_unit e) * B) B)"
      using t r' r(2) F assms(3) [OF True t] cacheable_cong [OF F(3)] by (auto simp: entry_true_def Let_def)
  qed
  then show ?thesis using assms(1) True same_devices_length [OF assms(2)] by (simp add: entry_good_def)
qed

lemma entry_good_same:
  assumes "entry_good content s e" "same_devices s s'" "content (st_hw s') = content (st_hw s)"
  shows "entry_good content s' e"
  by (rule entry_good_keep [OF assms(1,2)]) (simp add: assms(3))

subsection \<open>The cache as a table\<close>

lemma cache_good_mono: "cache_good P c \<Longrightarrow> (\<And>e. P e \<Longrightarrow> Q e) \<Longrightarrow> cache_good Q c"
  by (auto simp: cache_good_def)

lemma cache_good_upd_entry:
  assumes "cache_good P c" "i < BCACHE_UNITS" "P (f (bc_entries c ! i))" "bc_ready c \<or> en_state (f (bc_entries c ! i)) = ENTRY_EMPTY"
  shows "cache_good P (upd_entry i f c)"
  using assms by (auto simp: cache_good_def upd_entry_def dest!: set_update_subset_insert [THEN subsetD])

text \<open>Updates of the counters.\<close>

lemma cache_good_fields:
  "bc_entries c' = bc_entries c \<Longrightarrow> bc_hand c' = bc_hand c \<Longrightarrow> bc_ready c' = bc_ready c \<Longrightarrow> cache_good P c' = cache_good P c"
  by (simp add: cache_good_def)

lemma cache_good_counters [simp]:
  "cache_good P (count_up bc_hits_update c) = cache_good P c" "cache_good P (count_up bc_misses_update c) = cache_good P c"
  "cache_good P (count_up bc_fills_update c) = cache_good P c" "cache_good P (count_up bc_evictions_update c) = cache_good P c"
  "cache_good P (count_up bc_passthrough_size_update c) = cache_good P c"
  "cache_good P (count_up bc_passthrough_memory_update c) = cache_good P c"
  "cache_good P (count_up bc_passthrough_tail_update c) = cache_good P c"
  "cache_good P (count_up bc_fill_failures_update c) = cache_good P c"
  "cache_good P (count_up bc_race_uncached_update c) = cache_good P c"
  "cache_good P (count_up bc_poisoned_fills_update c) = cache_good P c"
  "cache_good P (count_up bc_write_holes_update c) = cache_good P c"
  "cache_good P (c\<lparr>bc_pages_held := n\<rparr>) = cache_good P c"
  by (simp_all add: cache_good_def count_up_def)

lemma counters_entries [simp]:
  "bc_entries (count_up bc_hits_update c) = bc_entries c" "bc_entries (count_up bc_misses_update c) = bc_entries c"
  "bc_entries (count_up bc_fills_update c) = bc_entries c" "bc_entries (count_up bc_evictions_update c) = bc_entries c"
  "bc_entries (count_up bc_fill_failures_update c) = bc_entries c" "bc_entries (count_up bc_poisoned_fills_update c) = bc_entries c"
  "bc_ready (count_up bc_hits_update c) = bc_ready c" "bc_ready (count_up bc_misses_update c) = bc_ready c"
  "bc_ready (count_up bc_fills_update c) = bc_ready c" "bc_ready (count_up bc_evictions_update c) = bc_ready c"
  "bc_ready (count_up bc_fill_failures_update c) = bc_ready c" "bc_ready (count_up bc_poisoned_fills_update c) = bc_ready c"
  by (simp_all add: count_up_def)

lemma upd_entry_simps [simp]:
  "length (bc_entries (upd_entry i f c)) = length (bc_entries c)" "bc_ready (upd_entry i f c) = bc_ready c"
  "bc_hand (upd_entry i f c) = bc_hand c"
  "i < length (bc_entries c) \<Longrightarrow> bc_entries (upd_entry i f c) ! i = f (bc_entries c ! i)"
  by (simp_all add: upd_entry_def)

lemma upd_entry_twice: "i < length (bc_entries c) \<Longrightarrow> upd_entry i f (upd_entry i g c) = upd_entry i (f \<circ> g) c"
  by (simp add: upd_entry_def)

lemma find_unit_Some:
  assumes "find_unit k u c = Some i" "cache_good (entry_good content s) c"
  shows "i < BCACHE_UNITS" "en_state (bc_entries c ! i) = ENTRY_VALID" "same_unit k u (bc_entries c ! i)"
    "entry_good content s (bc_entries c ! i)" "bc_ready c"
proof -
  note F = first_slot_Some [OF assms(1) [unfolded find_unit_def]]
  show i: "i < BCACHE_UNITS" using F assms(2) by (simp add: cache_good_def)
  have m: "bc_entries c ! i \<in> set (bc_entries c)" using F by simp
  then show g: "entry_good content s (bc_entries c ! i)" using assms(2) by (simp add: cache_good_def)
  then show "en_state (bc_entries c ! i) = ENTRY_VALID" using F by (cases "en_state (bc_entries c ! i)") (auto simp: entry_good_def)
  show "same_unit k u (bc_entries c ! i)" using F by simp
  show "bc_ready c" using assms(2) m F by (auto simp: cache_good_def)
qed

text \<open>The clock: it only clears marks and forgets, and what it finds is empty.\<close>

lemma victim_turn_good:
  assumes "cache_good P c" "\<And>e. P e \<Longrightarrow> P (e\<lparr>en_referenced := False\<rparr>)" "\<And>e. P e \<Longrightarrow> P (forget e)" "victim_turn n c = (v, c')"
  shows "cache_good P c' \<and> bc_ready c' = bc_ready c \<and> (v = Some i \<longrightarrow> i < BCACHE_UNITS \<and> en_state (bc_entries c' ! i) = ENTRY_EMPTY)"
  using assms(1,4)
proof (induction n arbitrary: c)
  case 0
  then show ?case by auto
next
  case (Suc n)
  let ?i = "bc_hand c" and ?c1 = "c\<lparr>bc_hand := (bc_hand c + 1) mod BCACHE_UNITS\<rparr>"
  let ?e = "bc_entries c ! ?i"
  have lt: "?i < BCACHE_UNITS" "length (bc_entries c) = BCACHE_UNITS" and pos: "0 < BCACHE_UNITS"
    using Suc.prems(1) by (simp_all add: cache_good_def BCACHE_UNITS_def)
  have c1: "cache_good P ?c1" using Suc.prems(1) pos by (simp add: cache_good_def)
  have Pe: "P ?e" using Suc.prems(1) lt by (simp add: cache_good_def)
  have rd: "bc_ready c \<or> en_state ?e = ENTRY_EMPTY" using Suc.prems(1) lt by (auto simp: cache_good_def)
  consider "en_state ?e = ENTRY_LOADING" | "en_state ?e = ENTRY_EMPTY"
    | "en_state ?e = ENTRY_VALID" "en_referenced ?e" | "en_state ?e = ENTRY_VALID" "\<not> en_referenced ?e"
    by (cases "en_state ?e") auto
  then show ?case
  proof cases
    case 1
    then have "victim_turn n ?c1 = (v, c')" using Suc.prems(2) by (simp add: Let_def)
    from Suc.IH [OF c1 this] show ?thesis by simp
  next
    case 2
    then show ?thesis using Suc.prems(2) c1 lt by (auto simp: Let_def)
  next
    case 3
    let ?c2 = "upd_entry ?i (\<lambda>e. e\<lparr>en_referenced := False\<rparr>) ?c1"
    have "cache_good P ?c2"
      using rd by (intro cache_good_upd_entry [OF c1 lt(1)]) (simp_all add: assms(2) Pe)
    moreover have "victim_turn n ?c2 = (v, c')" using Suc.prems(2) 3 by (simp add: Let_def)
    ultimately show ?thesis using Suc.IH [of ?c2] by simp
  next
    case 4
    let ?c2 = "upd_entry ?i forget (count_up bc_evictions_update ?c1)"
    have "cache_good P ?c2" using c1 lt(1) assms(3) [OF Pe] by (intro cache_good_upd_entry) simp_all
    then show ?thesis using Suc.prems(2) 4 lt by (auto simp: Let_def)
  qed
qed

lemmas victim_good = victim_turn_good [where n = "BCACHE_UNITS * 2", folded victim_def]

end
