(* ===== verification/Cached_Read.thy ===== *)
theory Cached_Read
  imports Coherence
begin

text \<open>
  Reading through the cache: each turn of the loop leaves the cache true of the disks and puts
  into the buffer what the disk holds, whether the bytes came from an entry, from a fill or
  from a read past the cache.
\<close>

section \<open>Units and blocks\<close>

lemma power_of_two_nat: "0 < n \<Longrightarrow> n AND (n - 1) = (0 :: nat) \<Longrightarrow> \<exists>k. n = 2 ^ k"
proof (induction n rule: less_induct)
  case (less n)
  show ?case
  proof (cases "odd n")
    case True
    then obtain m where n: "n = 2 * m + 1" by (auto elim: oddE)
    have "n AND (n - 1) = of_bool (odd n \<and> odd (n - 1)) + 2 * (n div 2 AND (n - 1) div 2)" by (rule and_rec)
    then have "m = 0" using less.prems(2) n by simp
    then show ?thesis using n by (intro exI [of _ 0]) simp
  next
    case False
    then obtain m where n: "n = 2 * m" by (auto elim: evenE)
    have m: "0 < m" "m < n" using less.prems(1) n by simp_all
    have "(n - 1) div 2 = m - 1" using n m by presburger
    moreover have "n AND (n - 1) = of_bool (odd n \<and> odd (n - 1)) + 2 * (n div 2 AND (n - 1) div 2)" by (rule and_rec)
    ultimately have "m AND (m - 1) = 0" using less.prems(2) n by simp
    from less.IH [OF m(2,1) this] obtain k where "m = 2 ^ k" ..
    then show ?thesis using n by (intro exI [of _ "Suc k"]) simp
  qed
qed

text \<open>A cacheable device's unit is a whole number of blocks and fills the page.\<close>

lemma cacheable_unit:
  assumes "cacheable D = Some bpu"
  shows "unat bpu * unat (bd_block_size D) = PAGE_SIZE" "0 < unat bpu" "unat bpu \<le> PAGE_SIZE"
proof -
  let ?b = "bd_block_size D"
  have b: "?b \<noteq> 0" "?b AND (?b - 1) = 0" "?b \<le> of_nat PAGE_SIZE" "bpu = of_nat PAGE_SIZE div ?b"
    using assms by (auto simp: cacheable_def Let_def not_less split: if_splits)
  have p: "unat (of_nat PAGE_SIZE :: u32) = 4096" by (simp add: PAGE_SIZE_def)
  have le: "unat ?b \<le> 4096" using b(3) p by (simp add: word_le_nat_alt)
  have pos: "0 < unat ?b" using b(1) by (simp add: unat_gt_0)
  have "unat (?b AND (?b - 1)) = unat ?b AND unat (?b - 1)" by (rule unsigned_and_eq)
  moreover have "unat (?b - 1) = unat ?b - 1" using b(1) by (rule unat_minus_one)
  ultimately have "unat ?b AND (unat ?b - 1) = 0" using b(2) by simp
  then obtain k where k: "unat ?b = 2 ^ k" using power_of_two_nat pos by blast
  have "k \<le> 12"
  proof (rule ccontr)
    assume "\<not> k \<le> 12"
    then have "(2 :: nat) ^ 13 \<le> 2 ^ k" by (intro power_increasing) simp_all
    then show False using le k by simp
  qed
  then have "(4096 :: nat) = 2 ^ (12 - k) * 2 ^ k" by (simp flip: power_add)
  moreover have u: "unat bpu = 4096 div unat ?b" using b(4) p by (simp add: unat_div)
  ultimately have "unat bpu = 2 ^ (12 - k)" using k by (metis nonzero_mult_div_cancel_right power_not_zero zero_neq_numeral)
  then show "unat bpu * unat ?b = PAGE_SIZE" "0 < unat bpu"
    using k \<open>(4096 :: nat) = 2 ^ (12 - k) * 2 ^ k\<close> by (simp_all add: PAGE_SIZE_def)
  show "unat bpu \<le> PAGE_SIZE" using u by (simp add: PAGE_SIZE_def)
qed

lemma unat_ucast_u32_u64 [simp]: "unat (ucast (x :: u32) :: u64) = unat x"
  using unat_u32_lt [of x] by (simp add: unat_ucast_mod)

lemma turn_facts:
  assumes "0 < unat (k_blocks_per_unit k)" "unat (k_abs_lba k) + unat count \<le> unat (N :: u64)"
    and "unat lba + unat count \<le> unat (M :: u64)" "dn < count" "t = turn_at k bs lba count dn"
  shows "unat (t_unit t) * unat (k_blocks_per_unit k) + unat (t_within t) = unat (k_abs_lba k) + unat dn"
    "unat (t_within t) + unat (t_n t) \<le> unat (k_blocks_per_unit k)" "t_n t \<noteq> 0"
    "unat dn + unat (t_n t) \<le> unat count" "t_at t = unat dn * unat bs" "unat (t_lba t) = unat lba + unat dn"
    "unat (dn + t_n t) = unat dn + unat (t_n t)"
proof -
  let ?B = "k_blocks_per_unit k" and ?a = "k_abs_lba k + ucast dn"
  have lt: "unat dn < unat count" using assms(4) by (simp add: word_less_nat_alt)
  have a: "unat ?a = unat (k_abs_lba k) + unat dn"
    using assms(2) lt unat_u64_lt [of N] by (subst unat_add_lem [THEN iffD1]) simp_all
  have l: "unat (lba + ucast dn) = unat lba + unat dn"
    using assms(3) lt unat_u64_lt [of M] by (subst unat_add_lem [THEN iffD1]) simp_all
  have w: "unat (?a mod ucast ?B) = unat ?a mod unat ?B" by (simp add: unat_mod)
  have wlt: "unat ?a mod unat ?B < unat ?B" using assms(1) by simp
  then have w32: "unat (ucast (?a mod ucast ?B) :: u32) = unat ?a mod unat ?B"
    using w unat_u32_lt [of ?B] by (simp add: unat_ucast_mod)
  define within :: u32 where "within = ucast (?a mod ucast ?B)"
  have wi: "unat within = unat ?a mod unat ?B" using w32 by (simp add: within_def)
  have n0: "unat (?B - within) = unat ?B - unat within" using wi wlt by (intro unat_u32_sub) (simp add: word_le_nat_alt)
  have cd: "unat (count - dn) = unat count - unat dn" using lt by (intro unat_u32_sub) (simp add: word_le_nat_alt)
  have t: "t_unit t = ?a div ucast ?B" "t_within t = within" "t_lba t = lba + ucast dn"
    "t_n t = (if ?B - within > count - dn then count - dn else ?B - within)"
    using assms(5) by (simp_all add: turn_at_def Let_def within_def)
  show "t_at t = unat dn * unat bs" using assms(5) by (simp add: turn_at_def Let_def)
  show "unat (t_unit t) * unat ?B + unat (t_within t) = unat (k_abs_lba k) + unat dn"
    unfolding t(1,2) using a wi by (simp add: unat_div)
  have n: "unat (t_n t) = min (unat ?B - unat within) (unat count - unat dn)"
    using n0 cd by (auto simp: t(4) word_less_nat_alt)
  then show "unat (t_within t) + unat (t_n t) \<le> unat ?B" using t(2) wi wlt by simp
  show le: "unat dn + unat (t_n t) \<le> unat count" using n lt by simp
  have "0 < unat (t_n t)" using n wi wlt lt by simp
  then show "t_n t \<noteq> 0" by auto
  show "unat (t_lba t) = unat lba + unat dn" using l t(3) by simp
  show "unat (dn + t_n t) = unat dn + unat (t_n t)"
    using le unat_u32_lt [of count] by (intro unat_add_small_u32) simp
qed

section \<open>One turn\<close>

text \<open>What a step of a read promises: devices and disks as they were, the cache true, and on
  success the bytes wanted at their place in the buffer.\<close>

definition read_step :: "('hw \<Rightarrow> u32 \<Rightarrow> nat \<Rightarrow> u8 list) \<Rightarrow> 'hw storage \<Rightarrow> nat \<Rightarrow> u8 list \<Rightarrow> u8 list \<Rightarrow> block_status \<Rightarrow> u8 list \<Rightarrow> 'hw storage \<Rightarrow> bool" where
  "read_step content s pos want buf st buf' s' \<longleftrightarrow> same_devices s s' \<and> coherent content s' \<and>
     content (st_hw s') = content (st_hw s) \<and> bc_ready (st_cache s') = bc_ready (st_cache s) \<and> length buf' = length buf \<and>
     (st = BLOCK_OK \<longrightarrow> buf' = overlay pos want buf)"

lemma coherentI:
  assumes "same_devices s s'" "coherent content s" "cache_good (entry_good content s') (st_cache s')"
  shows "coherent content s'"
  using assms same_devices_registry [OF assms(1)] same_devices_honest [OF assms(1), of content] by (simp add: coherent_def)

lemma coherent_same:
  assumes "same_devices s s'" "coherent content s" "content (st_hw s') = content (st_hw s)"
    and "cache_good (entry_good content s) (st_cache s')"
  shows "coherent content s'"
  by (rule coherentI [OF assms(1,2)], rule cache_good_mono [OF assms(4)]) (rule entry_good_same [OF _ assms(1,3)])

lemma slice_overlay_length: "length part = length (slice_of a n buf) \<Longrightarrow> a + n \<le> length buf \<Longrightarrow> length (overlay a part buf) = length buf"
  by (simp add: length_overlay)

text \<open>The setting of a turn: a resolved request on a cacheable device, at a place not yet read.\<close>

definition turn_ok :: "('hw \<Rightarrow> u32 \<Rightarrow> nat \<Rightarrow> u8 list) \<Rightarrow> 'hw storage \<Rightarrow> nat \<Rightarrow> key \<Rightarrow> u32 \<Rightarrow> u64 \<Rightarrow> u32 \<Rightarrow> bool" where
  "turn_ok content s d k bs lba count \<longleftrightarrow> coherent content s \<and> bc_ready (st_cache s) \<and> d < length (st_devices s) \<and> count \<noteq> 0 \<and>
     block_resolve s (Some d) lba count = Inr (k_root_id k, k_root_generation k, k_abs_lba k) \<and>
     cacheable (the_bdev s d) = Some (k_blocks_per_unit k) \<and> bs = bd_block_size (the_bdev s d)"

lemma same_devices_the_eq: "same_devices s s' \<Longrightarrow> d < length (st_devices s) \<Longrightarrow> cacheable (the_bdev s' d) = cacheable (the_bdev s d)"
  by (rule cacheable_cong) (simp add: same_devices_fields)

lemma same_devices_resolve:
  assumes "same_devices s s'" "registry_ok s" "d < length (st_devices s)"
  shows "block_resolve s' (Some d) lba count = block_resolve s (Some d) lba count"
proof -
  have w: "e < length (st_devices s) \<Longrightarrow> to_root_walk g s' e l = to_root_walk g s e l" for g e l
  proof (induction g arbitrary: e l)
    case (Suc g)
    note F = same_devices_fields [OF assms(1) Suc.prems]
    show ?case
    proof (cases "block_device_by_id (bd_parent (the_bdev s e)) (bd_parent_generation (the_bdev s e)) s")
      case None
      then show ?thesis using F same_devices_by_id [OF assms(1)] by simp
    next
      case (Some p)
      then show ?thesis using F same_devices_by_id [OF assms(1)] Suc.IH [OF by_id_Some(1) [OF Some]] by simp
    qed
  qed simp
  have c: "check_range s' (Some d) lba count = check_range s (Some d) lba count"
    using same_devices_fields [OF assms(1,3)] by (simp add: check_range_def)
  have wd: "to_root s' d lba = to_root s d lba" using w [OF assms(3)] by (simp add: to_root_def)
  show ?thesis
  proof (cases "check_range s (Some d) lba count = BLOCK_OK \<and> (\<exists>r ab. to_root s d lba = Some (r, ab))")
    case False
    then show ?thesis using c wd by (auto simp: block_resolve_def Let_def split: option.splits)
  next
    case True
    then obtain r ab where w': "to_root s d lba = Some (r, ab)" by blast
    show ?thesis
    proof (cases "r < length (st_devices s)")
      case True
      then show ?thesis using c wd w' same_devices_fields [OF assms(1) True] by (simp add: block_resolve_def Let_def)
    next
      case False
      have "e < length (st_devices s) \<Longrightarrow> to_root_walk g s e l = Some (q, a) \<Longrightarrow> q < length (st_devices s)" for g e l q a
        by (induction g arbitrary: e l) (auto dest: by_id_Some(1) split: if_splits option.splits)
      then show ?thesis using False w' assms(3) by (auto simp: to_root_def)
    qed
  qed
qed

lemma turn_ok_step:
  assumes "turn_ok content s d k bs lba count" "same_devices s s'" "coherent content s'" "bc_ready (st_cache s') = bc_ready (st_cache s)"
  shows "turn_ok content s' d k bs lba count"
  using assms same_devices_resolve [OF assms(2) coherentD(1), of content d lba count]
  by (simp add: turn_ok_def same_devices_the_eq same_devices_length same_devices_fields)

lemma turn_setting:
  assumes "turn_ok content s d k bs lba count" "dn < count" "t = turn_at k bs lba count dn"
  obtains r where "to_root s d lba = Some (r, k_abs_lba k)" "r < length (st_devices s)" "bd_present (the_bdev s r)"
    "bd_parent (the_bdev s r) = 0" "k_root_id k = bd_id (the_bdev s r)" "k_root_generation k = bd_generation (the_bdev s r)"
    "block_device_by_id (k_root_id k) (k_root_generation k) s = Some r" "honest content (the_bdev s r)"
    "bd_block_size (the_bdev s r) = bs" "cacheable (the_bdev s r) = Some (k_blocks_per_unit k)"
    "unat (k_blocks_per_unit k) * unat bs = PAGE_SIZE" "0 < unat (k_blocks_per_unit k)"
    "unat (k_abs_lba k) + unat count \<le> unat (bd_block_count (the_bdev s r))"
    "unat lba + unat count \<le> unat (bd_block_count (the_bdev s d))" "bd_present (the_bdev s d)"
proof -
  note T = assms(1) [unfolded turn_ok_def]
  have "registry_ok s" "all_honest content s" "d < length (st_devices s)" "count \<noteq> 0"
    "block_resolve s (Some d) lba count = Inr (k_root_id k, k_root_generation k, k_abs_lba k)"
    using T by (auto dest: coherentD)
  from resolved [OF this] obtain r where r: "to_root s d lba = Some (r, k_abs_lba k)" "r < length (st_devices s)" "bd_present (the_bdev s r)"
    "bd_parent (the_bdev s r) = 0" "k_root_id k = bd_id (the_bdev s r)" "k_root_generation k = bd_generation (the_bdev s r)"
    "block_device_by_id (k_root_id k) (k_root_generation k) s = Some r" "honest content (the_bdev s r)"
    "bd_block_size (the_bdev s r) = bd_block_size (the_bdev s d)"
    "unat (k_abs_lba k) + unat count \<le> unat (bd_block_count (the_bdev s r))"
    "bd_present (the_bdev s d)" "unat lba + unat count \<le> unat (bd_block_count (the_bdev s d))" by blast
  have c: "cacheable (the_bdev s r) = Some (k_blocks_per_unit k)" using T cacheable_cong [OF r(9)] by simp
  show ?thesis using that [of r] r c cacheable_unit [OF c] T by simp
qed

lemma read_uncached_step:
  assumes "turn_ok content s d k bs lba count" "dn < count" "t = turn_at k bs lba count dn"
    and "length buf = unat count * unat bs" "read_uncached reason d bs t buf s = (st, buf', s')"
    and "\<And>c. bc_entries (count_up reason c) = bc_entries c \<and> bc_hand (count_up reason c) = bc_hand c \<and> bc_ready (count_up reason c) = bc_ready c"
  shows "read_step content s (t_at t) (sectors (content (st_hw s) (k_root_id k)) (unat (k_abs_lba k) + unat dn) (unat (t_n t))) buf st buf' s'"
proof -
  obtain r where r: "to_root s d lba = Some (r, k_abs_lba k)" "k_root_id k = bd_id (the_bdev s r)"
    and blk: "0 < unat (k_blocks_per_unit k)" "unat (k_abs_lba k) + unat count \<le> unat (bd_block_count (the_bdev s r))"
    "unat lba + unat count \<le> unat (bd_block_count (the_bdev s d))" "bd_present (the_bdev s d)"
    using assms(1-3) by (rule turn_setting)
  note F = turn_facts [OF blk(1,2,3) assms(2,3)]
  note T = assms(1) [unfolded turn_ok_def]
  have co: "coherent content s" and dl: "d < length (st_devices s)" and bs: "bs = bd_block_size (the_bdev s d)" using T by simp_all
  let ?s0 = "upd_cache (\<lambda>c. count_up reason (count_up bc_misses_update c)) s"
  have same: "same_devices s ?s0" by (rule same_devices_eq) simp_all
  obtain part where run: "block_read (Some d) (t_lba t) (t_n t) (Some (slice_of (t_at t) (unat (t_n t) * unat bs) buf)) ?s0 = (st, part, s')"
    and buf': "buf' = overlay (t_at t) part buf"
    using assms(5) by (auto simp: read_uncached_def split: prod.splits)
  have fits: "t_at t + unat (t_n t) * unat bs \<le> length buf"
    using F(4,5) assms(4) by (simp flip: distrib_right)
  have ro: "registry_ok ?s0" "all_honest content ?s0" "d < length (st_devices ?s0)"
    using same_devices_registry [OF same coherentD(1) [OF co]] same_devices_honest [OF same coherentD(2) [OF co]] dl by simp_all
  note R = block_read_spec [OF ro _ run]
  have len: "length (slice_of (t_at t) (unat (t_n t) * unat bs) buf) = unat (t_n t) * unat (bd_block_size (the_bdev ?s0 d))"
    using fits bs by simp
  have sd: "same_devices s s'" using same_devices_trans [OF same R(1) [OF len]] .
  have cg: "cache_good (entry_good content s) (st_cache s')"
    using coherentD(3) [OF co] assms(6) by (simp add: R(2) [OF len] cache_good_def count_up_def)
  have "length part = unat (t_n t) * unat bs" using R(4) [OF len] fits by simp
  moreover have "part = sectors (content (st_hw s) (k_root_id k)) (unat (k_abs_lba k) + unat dn) (unat (t_n t))" if "st = BLOCK_OK"
  proof -
    note okst = that
    obtain rid rgen ab where rs: "block_resolve s (Some d) (t_lba t) (t_n t) = Inr (rid, rgen, ab)"
      and p: "part = sectors (content (st_hw s) rid) (unat ab) (unat (t_n t))"
      using R(5) [OF len okst F(3)] resolve_same [of ?s0 s] by auto
    obtain q where q: "to_root s d (t_lba t) = Some (q, ab)" "rid = bd_id (the_bdev s q)"
      using rs by (rule block_resolve_Inr) simp
    have "unat (t_lba t) \<le> unat (bd_block_count (the_bdev s d))" using F(4,6) blk(3) by simp
    from to_root_spec(7) [OF coherentD(1) [OF co] dl blk(4) blk(3) r(1) this]
    have "q = r \<and> unat ab + unat lba = unat (k_abs_lba k) + unat (t_lba t)" using q(1) by auto
    then show ?thesis using p q(2) r(2) F(6) by simp
  qed
  moreover have "bc_ready (st_cache s') = bc_ready (st_cache s)" using R(2) [OF len] assms(6) by (simp add: count_up_def)
  moreover have "content (st_hw s') = content (st_hw s)" using R(3) [OF len] by simp
  ultimately show ?thesis
    unfolding read_step_def buf' using sd coherent_same [OF sd co _ cg] fits by (simp add: length_overlay)
qed

text \<open>A piece copied out of a page that holds its unit.\<close>

lemma copy_out_unit:
  assumes "\<And>j. j < N \<Longrightarrow> length (C j) = unat bs" "unat (t_unit t) * B + B \<le> N"
    and "page = sectors C (unat (t_unit t) * B) B" "unat (t_unit t) * B + unat (t_within t) = a" "unat (t_within t) + unat (t_n t) \<le> B"
  shows "copy_out page bs t buf = overlay (t_at t) (sectors C a (unat (t_n t))) buf"
proof -
  have "slice_of (unat (t_within t) * unat bs) (unat (t_n t) * unat bs) page = sectors C (unat (t_unit t) * B + unat (t_within t)) (unat (t_n t))"
    unfolding assms(3) by (rule sectors_part) (use assms(1,2,5) in simp_all)
  then show ?thesis using assms(4) by (simp add: copy_out_def)
qed

lemma cache_good_replace:
  assumes "cache_good P c" "bc_entries c' = (bc_entries c)[i := e]" "bc_hand c' = bc_hand c" "bc_ready c' = bc_ready c"
    and "bc_ready c" "P e"
  shows "cache_good P c'"
  using assms by (auto simp: cache_good_def dest!: set_update_subset_insert [THEN subsetD])

text \<open>A fill: the unit is read through the root, and the entry holds it or nothing.\<close>

lemma fill_entry_step:
  assumes "turn_ok content s d k bs lba count" "dn < count" "t = turn_at k bs lba count dn"
    and "length buf = unat count * unat bs" "unit_fits k (t_unit t) s"
    and "block_device_by_id (k_root_id k) (k_root_generation k) s = Some r"
    and "i < BCACHE_UNITS" "bc_entries c = (bc_entries (st_cache s))[i := claim_entry k (t_unit t) ENTRY_LOADING e]"
    and "bc_hand c = bc_hand (st_cache s)" "bc_ready c = bc_ready (st_cache s)" "length (en_data e) = PAGE_SIZE"
    and "fill_entry k bs t r i buf (s\<lparr>st_cache := c\<rparr>) = (st, buf', s')"
  shows "read_step content s (t_at t) (sectors (content (st_hw s) (k_root_id k)) (unat (k_abs_lba k) + unat dn) (unat (t_n t))) buf st buf' s'"
proof -
  obtain q where q: "q < length (st_devices s)" "bd_present (the_bdev s q)" "bd_parent (the_bdev s q) = 0"
    "k_root_id k = bd_id (the_bdev s q)" "block_device_by_id (k_root_id k) (k_root_generation k) s = Some q"
    "honest content (the_bdev s q)" "bd_block_size (the_bdev s q) = bs" "cacheable (the_bdev s q) = Some (k_blocks_per_unit k)"
    and blk: "unat (k_blocks_per_unit k) * unat bs = PAGE_SIZE" "0 < unat (k_blocks_per_unit k)"
    "unat (k_abs_lba k) + unat count \<le> unat (bd_block_count (the_bdev s q))" "unat lba + unat count \<le> unat (bd_block_count (the_bdev s d))"
    using assms(1-3) by (rule turn_setting) metis
  have rq: "r = q" using q(5) assms(6) by simp
  note F = turn_facts [OF blk(2,3,4) assms(2,3)]
  have co: "coherent content s" and rdy: "bc_ready (st_cache s)" using assms(1) by (simp_all add: turn_ok_def)
  let ?B = "k_blocks_per_unit k" and ?C = "content (st_hw s) (k_root_id k)"
  let ?s0 = "s\<lparr>st_cache := c\<rparr>" and ?first = "t_unit t * ucast (k_blocks_per_unit k)"
  have same: "same_devices s ?s0" by (rule same_devices_eq) simp_all
  have ro: "registry_ok ?s0" "all_honest content ?s0" "q < length (st_devices ?s0)"
    using same_devices_registry [OF same coherentD(1) [OF co]] same_devices_honest [OF same coherentD(2) [OF co]] q(1) by simp_all
  have th: "the_bdev ?s0 q = the_bdev s q" by (simp add: the_bdev_def)
  have len64: "length (bc_entries (st_cache s)) = BCACHE_UNITS" using coherentD(3) [OF co] by (simp add: cache_good_def)
  have ei: "bc_entries c ! i = claim_entry k (t_unit t) ENTRY_LOADING e" using assms(7,8) len64 by simp
  obtain page s1 where run: "block_read (Some q) ?first ?B (Some (en_data e)) ?s0 = (st, page, s1)"
    and out: "buf' = (if st = BLOCK_OK then copy_out page bs t buf else buf)" "s' = upd_cache (end_fill i st page) s1"
    using assms(12) rq ei by (auto simp: fill_entry_def claim_entry_def split: prod.splits)
  have ld: "length (en_data e) = unat ?B * unat (bd_block_size (the_bdev ?s0 q))" using assms(11) blk(1) q(7) th by simp
  note R = block_read_spec [OF ro ld run]
  have sd: "same_devices s s'" using same_devices_trans [OF same R(1)] out(2) same_devices_eq [of s' s1] same_devices_trans by auto
  have hw: "content (st_hw s') = content (st_hw s)" using R(3) out(2) by simp
  have fit: "?first + ucast ?B \<le> bd_block_count (the_bdev s q)" using assms(5,6) rq by (simp add: unit_fits_def)
  have bpos: "?B \<noteq> 0" using blk(2) by auto
  have ok: "unat (t_unit t) * unat ?B + unat ?B \<le> unat (bd_block_count (the_bdev s q)) \<and> page = sectors ?C (unat (t_unit t) * unat ?B) (unat ?B)"
    if "st = BLOCK_OK"
  proof -
    note okst = that
    obtain rid rgen ab where rs: "block_resolve ?s0 (Some q) ?first ?B = Inr (rid, rgen, ab)"
      and p: "page = sectors (content (st_hw s) rid) (unat ab) (unat ?B)"
      using R(5) [OF okst bpos] by auto
    obtain w where w: "check_range ?s0 (Some q) ?first ?B = BLOCK_OK" "to_root ?s0 q ?first = Some (w, ab)" "rid = bd_id (the_bdev ?s0 w)"
      using rs by (rule block_resolve_Inr) simp
    have "w = q" "ab = ?first" using w(2) to_root_root [of ?s0 q ?first] q(3) th by simp_all
    have "unat (t_unit t) * unat ?B \<le> unat (k_abs_lba k) + unat dn" using F(1) by simp
    also have "\<dots> < 2 ^ 64" using F(4) blk(3) unat_u64_lt [of "bd_block_count (the_bdev s q)"] F(3) by (simp add: unat_eq_zero)
    finally have "unat ?first = unat (t_unit t) * unat ?B" by (simp add: unat_word_ariths)
    then show ?thesis
      using check_range_OK(2) [OF w(1) bpos] p w(3) \<open>w = q\<close> \<open>ab = ?first\<close> q(4) th by simp
  qed
  define e' where "e' = (if st = BLOCK_OK then (claim_entry k (t_unit t) ENTRY_VALID e)\<lparr>en_data := page\<rparr>
    else forget ((claim_entry k (t_unit t) ENTRY_LOADING e)\<lparr>en_data := page\<rparr>))"
  have c': "bc_entries (st_cache s') = (bc_entries (st_cache s))[i := e']" "bc_hand (st_cache s') = bc_hand (st_cache s)"
    "bc_ready (st_cache s') = bc_ready (st_cache s)"
    using R(2) ei assms(7-10) len64 by (cases e; simp add: out(2) end_fill_def Let_def upd_entry_def e'_def claim_entry_def count_up_def)+
  have lp: "length page = PAGE_SIZE" using R(4) assms(11) by simp
  have "entry_good content s' e'"
  proof (cases "st = BLOCK_OK")
    case False
    then show ?thesis using lp by (simp add: e'_def entry_good_def)
  next
    case True
    have "q < BLOCK_MAX_DEVICES" using q(1) registry_size [OF coherentD(1) [OF co]] by (simp add: BLOCK_MAX_DEVICES_def)
    have "entry_good content s e'"
      unfolding entry_good_def
    proof (intro conjI impI)
      show "en_state e' \<noteq> ENTRY_LOADING" using True by (simp add: e'_def claim_entry_def)
      show "length (en_data e') = PAGE_SIZE" using True lp by (simp add: e'_def)
      show "\<exists>j<length (st_devices s). en_root_id e' = of_nat (Suc j)"
        using True q(1,4) registryD(1) [OF coherentD(1) [OF co] q(1)] by (intro exI [of _ q]) (simp add: e'_def claim_entry_def)
      show "entry_true content s e'"
        using True ok q(5,8) by (simp add: entry_true_def e'_def claim_entry_def Let_def)
    qed
    then show ?thesis using entry_good_same [OF _ sd hw] by blast
  qed
  moreover have "cache_good (entry_good content s') (st_cache s)"
    by (rule cache_good_mono [OF coherentD(3) [OF co]]) (rule entry_good_same [OF _ sd hw])
  ultimately have "coherent content s'"
    using cache_good_replace [OF _ c' rdy] coherentI [OF sd co] by blast
  moreover have "buf' = overlay (t_at t) (sectors ?C (unat (k_abs_lba k) + unat dn) (unat (t_n t))) buf" if "st = BLOCK_OK"
    using copy_out_unit [of "unat (bd_block_count (the_bdev s q))" ?C bs t "unat ?B" page "unat (k_abs_lba k) + unat dn" buf]
      ok [OF that] F(1,2) honest_length [OF q(6), of _ "st_hw s"] q(4,7) out(1) that by simp
  moreover have "length buf' = length buf"
  proof (cases "st = BLOCK_OK")
    case True
    have "length (sectors ?C (unat (k_abs_lba k) + unat dn) (unat (t_n t))) = unat (t_n t) * unat bs"
      using honest_sectors_length [OF q(6), of "unat (k_abs_lba k) + unat dn" "unat (t_n t)" "st_hw s"] blk(3) F(4) q(4,7) by simp
    moreover have "t_at t + unat (t_n t) * unat bs \<le> length buf" using F(4,5) assms(4) by (simp flip: distrib_right)
    ultimately show ?thesis using True \<open>st = BLOCK_OK \<Longrightarrow> buf' = _\<close> by (simp add: length_overlay)
  qed (simp add: out(1))
  ultimately show ?thesis using sd hw c'(3) by (simp add: read_step_def)
qed

section \<open>Whole reads\<close>

lemma read_step_from:
  assumes "read_step content s1 pos want buf st buf' s'" "same_devices s s1" "content (st_hw s1) = content (st_hw s)"
    and "bc_ready (st_cache s1) = bc_ready (st_cache s)"
  shows "read_step content s pos want buf st buf' s'"
  using assms same_devices_trans [OF assms(2), of s'] by (simp add: read_step_def)

text \<open>States that differ in what the turns of a read do not look at.\<close>

lemma turn_ok_cache:
  assumes "turn_ok content s d k bs lba count" "cache_good (entry_good content s) c" "bc_ready c = bc_ready (st_cache s)"
  shows "turn_ok content (s\<lparr>st_cache := c\<rparr>) d k bs lba count" "same_devices s (s\<lparr>st_cache := c\<rparr>)"
proof -
  have sd: "same_devices s (s\<lparr>st_cache := c\<rparr>)" by (rule same_devices_eq) simp_all
  then show "same_devices s (s\<lparr>st_cache := c\<rparr>)" .
  have "coherent content (s\<lparr>st_cache := c\<rparr>)"
    using assms by (intro coherent_same [OF sd]) (simp_all add: turn_ok_def)
  then show "turn_ok content (s\<lparr>st_cache := c\<rparr>) d k bs lba count"
    using turn_ok_step [OF assms(1) sd] assms(3) by simp
qed

lemma turn_ok_pages:
  assumes "turn_ok content s d k bs lba count"
  shows "turn_ok content (s\<lparr>st_pages := p\<rparr>) d k bs lba count" "same_devices s (s\<lparr>st_pages := p\<rparr>)"
proof -
  have sd: "same_devices s (s\<lparr>st_pages := p\<rparr>)" by (rule same_devices_eq) simp_all
  then show "same_devices s (s\<lparr>st_pages := p\<rparr>)" .
  have "coherent content (s\<lparr>st_pages := p\<rparr>)"
    using assms coherentD(3) [of content s] by (intro coherent_same [OF sd]) (simp_all add: turn_ok_def)
  then show "turn_ok content (s\<lparr>st_pages := p\<rparr>) d k bs lba count"
    using turn_ok_step [OF assms(1) sd] by simp
qed

lemma by_id_cong: "st_devices s' = st_devices s \<Longrightarrow> block_device_by_id i g s' = block_device_by_id i g s"
  by (simp add: block_device_by_id_def)

lemma unit_fits_cong:
  assumes "st_devices s' = st_devices s"
  shows "unit_fits k u s' = unit_fits k u s"
  using by_id_cong [OF assms, of "k_root_id k" "k_root_generation k"] assms
  by (simp add: unit_fits_def the_bdev_def split: option.split)

lemma claim_and_fill_step:
  assumes "turn_ok content s d k bs lba count" "dn < count" "t = turn_at k bs lba count dn"
    and "length buf = unat count * unat bs" "unit_fits k (t_unit t) s"
    and "block_device_by_id (k_root_id k) (k_root_generation k) s = Some r"
    and "claim_and_fill d k bs t r spare buf s = (st, buf', spare', s')"
  shows "read_step content s (t_at t) (sectors (content (st_hw s) (k_root_id k)) (unat (k_abs_lba k) + unat dn) (unat (t_n t))) buf st buf' s'"
proof -
  obtain v c1 where v: "victim (st_cache s) = (v, c1)" by fastforce
  let ?s1 = "s\<lparr>st_cache := c1\<rparr>"
  have cg: "cache_good (entry_good content s) (st_cache s)" using assms(1) by (simp add: turn_ok_def coherentD)
  have rf: "entry_good content s e \<Longrightarrow> entry_good content s (e\<lparr>en_referenced := False\<rparr>)" for e by simp
  note V = victim_good [OF cg rf entry_good_forget v]
  have c1: "cache_good (entry_good content s) c1" "bc_ready c1 = bc_ready (st_cache s)" using V [of 0] by blast+
  note T1 = turn_ok_cache [OF assms(1) c1]
  have hw: "content (st_hw ?s1) = content (st_hw s)" "bc_ready (st_cache ?s1) = bc_ready (st_cache s)" using c1(2) by simp_all
  have un: "read_step content s (t_at t) (sectors (content (st_hw s) (k_root_id k)) (unat (k_abs_lba k) + unat dn) (unat (t_n t))) buf st1 b s2"
    if "read_uncached reason d bs t buf ?s1 = (st1, b, s2)"
      "\<And>c. bc_entries (count_up reason c) = bc_entries c \<and> bc_hand (count_up reason c) = bc_hand c \<and> bc_ready (count_up reason c) = bc_ready c"
    for reason st1 b s2
    using read_step_from [OF read_uncached_step [OF T1(1) assms(2,3,4) that] T1(2) hw] by simp
  show ?thesis
  proof (cases v)
    case None
    then show ?thesis using assms(7) v un [of bc_race_uncached_update]
      by (auto simp: claim_and_fill_def Let_def count_up_def split: prod.splits)
  next
    case (Some i)
    have i: "i < BCACHE_UNITS" "en_state (bc_entries c1 ! i) = ENTRY_EMPTY" using V [of i] Some by blast+
    show ?thesis
    proof (cases "en_page (bc_entries c1 ! i) = 0 \<and> spare = 0")
      case True
      then show ?thesis using assms(7) v Some un [of bc_passthrough_memory_update]
        by (auto simp: claim_and_fill_def Let_def count_up_def split: prod.splits)
    next
      case False
      let ?c2 = "upd_entry i (claim_entry k (t_unit t) ENTRY_LOADING) (count_up bc_misses_update (give_page i spare c1))"
      obtain s2 where run: "fill_entry k bs t r i buf (?s1\<lparr>st_cache := ?c2\<rparr>) = (st, buf', s2)" "s' = s2"
        using assms(7) v Some False by (cases "fill_entry k bs t r i buf (?s1\<lparr>st_cache := ?c2\<rparr>)") (auto simp: claim_and_fill_def Let_def)
      have l: "i < length (bc_entries c1)" using i(1) c1(1) by (simp add: cache_good_def)
      obtain e where c2: "bc_entries ?c2 = (bc_entries (st_cache ?s1))[i := claim_entry k (t_unit t) ENTRY_LOADING e]"
        "bc_hand ?c2 = bc_hand (st_cache ?s1)" "bc_ready ?c2 = bc_ready (st_cache ?s1)" "length (en_data e) = PAGE_SIZE"
      proof (rule that [of "bc_entries (give_page i spare c1) ! i"])
        have "entry_good content s (bc_entries c1 ! i)" using c1(1) l by (simp add: cache_good_def)
        then show "length (en_data (bc_entries (give_page i spare c1) ! i)) = PAGE_SIZE"
          using l by (simp add: give_page_def upd_entry_def entry_good_def)
      qed (use l in \<open>simp_all add: give_page_def upd_entry_def count_up_def\<close>)
      have "unit_fits k (t_unit t) ?s1" "block_device_by_id (k_root_id k) (k_root_generation k) ?s1 = Some r"
        using assms(5,6) unit_fits_cong [of ?s1 s] by_id_cong [of ?s1 s] by simp_all
      then have "read_step content ?s1 (t_at t)
          (sectors (content (st_hw ?s1) (k_root_id k)) (unat (k_abs_lba k) + unat dn) (unat (t_n t))) buf st buf' s2"
        using fill_entry_step [OF T1(1) assms(2,3,4) _ _ i(1) c2 run(1)] by simp
      from read_step_from [OF this T1(2) hw] show ?thesis using run(2) by simp
    qed
  qed
qed

lemma read_turn_step:
  assumes "turn_ok content s d k bs lba count" "dn < count" "t = turn_at k bs lba count dn"
    and "length buf = unat count * unat bs" "bcache_read_turn d k bs t spare buf s = (st, buf', spare', s')"
  shows "read_step content s (t_at t) (sectors (content (st_hw s) (k_root_id k)) (unat (k_abs_lba k) + unat dn) (unat (t_n t))) buf st buf' s'"
    (is "read_step content s _ ?want buf st buf' s'")
proof -
  have co: "coherent content s" and rdy: "bc_ready (st_cache s)" using assms(1) by (simp_all add: turn_ok_def)
  obtain q where q: "k_root_id k = bd_id (the_bdev s q)" "bd_parent (the_bdev s q) = 0" "honest content (the_bdev s q)"
    "block_device_by_id (k_root_id k) (k_root_generation k) s = Some q" "bd_block_size (the_bdev s q) = bs"
    and blk: "0 < unat (k_blocks_per_unit k)" "unat (k_abs_lba k) + unat count \<le> unat (bd_block_count (the_bdev s q))"
    "unat lba + unat count \<le> unat (bd_block_count (the_bdev s d))"
    using assms(1-3) by (rule turn_setting)
  note F = turn_facts [OF blk assms(2,3)]
  have un: "read_step content s (t_at t) ?want buf st1 b s2"
    if "read_uncached reason d bs t buf s = (st1, b, s2)"
      "\<And>c. bc_entries (count_up reason c) = bc_entries c \<and> bc_hand (count_up reason c) = bc_hand c \<and> bc_ready (count_up reason c) = bc_ready c"
    for reason st1 b s2
    using read_uncached_step [OF assms(1-4) that] .
  show ?thesis
  proof (cases "find_unit k (t_unit t) (st_cache s)")
    case (Some i)
    note E = find_unit_Some [OF Some coherentD(3) [OF co]]
    let ?e = "bc_entries (st_cache s) ! i"
    let ?c = "upd_entry i (\<lambda>e. e\<lparr>en_referenced := True\<rparr>) (count_up bc_hits_update (st_cache s))"
    have out: "st = BLOCK_OK" "buf' = copy_out (en_data ?e) bs t buf" "s' = s\<lparr>st_cache := ?c\<rparr>"
      using assms(5) Some E(2) by (simp_all add: bcache_read_turn_def upd_cache_def Let_def)
    have id: "en_root_id ?e = k_root_id k" "en_root_generation ?e = k_root_generation k"
      "en_blocks_per_unit ?e = k_blocks_per_unit k" "en_unit ?e = t_unit t" using E(3) by (simp_all add: same_unit_def)
    have tr: "unat (t_unit t) * unat (k_blocks_per_unit k) + unat (k_blocks_per_unit k) \<le> unat (bd_block_count (the_bdev s q))"
      "en_data ?e = sectors (content (st_hw s) (k_root_id k)) (unat (t_unit t) * unat (k_blocks_per_unit k)) (unat (k_blocks_per_unit k))"
      using E(2,4) q(2,4) id by (simp_all add: entry_good_def entry_true_def Let_def)
    have b: "buf' = overlay (t_at t) ?want buf"
      unfolding out(2) using F(1,2) tr honest_length [OF q(3), of _ "st_hw s"] q(1,5) by (intro copy_out_unit) simp_all
    have "length ?want = unat (t_n t) * unat bs"
      using honest_sectors_length [OF q(3), of "unat (k_abs_lba k) + unat dn" "unat (t_n t)" "st_hw s"] blk(2) F(4) q(1,5) by simp
    moreover have "t_at t + unat (t_n t) * unat bs \<le> length buf" using F(4,5) assms(4) by (simp flip: distrib_right)
    ultimately have "length buf' = length buf" using b by (simp add: length_overlay)
    moreover have "cache_good (entry_good content s) ?c"
      using coherentD(3) [OF co] E by (intro cache_good_upd_entry) simp_all
    then have "coherent content s'" "same_devices s s'"
      using turn_ok_cache [OF assms(1), of ?c] out(3) by (simp_all add: turn_ok_def count_up_def)
    ultimately show ?thesis using b out by (simp add: read_step_def count_up_def)
  next
    case None
    show ?thesis
    proof (cases "unit_fits k (t_unit t) s")
      case False
      then show ?thesis using assms(5) None q(4) un [of bc_passthrough_tail_update]
        by (auto simp: bcache_read_turn_def Let_def count_up_def split: prod.splits)
    next
      case True
      show ?thesis
      proof (cases "bc_pages_held (st_cache s) < BCACHE_UNITS \<and> spare = 0")
        case False
        then have "claim_and_fill d k bs t q spare buf s = (st, buf', spare', s')"
          using assms(5) None q(4) True by (auto simp: bcache_read_turn_def Let_def)
        then show ?thesis by (rule claim_and_fill_step [OF assms(1-4) True q(4)])
      next
        case need: True
        obtain page p where pg: "pmm_alloc_page (st_pages s) = (page, p)" by fastforce
        let ?s1 = "s\<lparr>st_pages := p\<rparr>"
        note P = turn_ok_pages [OF assms(1), of p]
        show ?thesis
        proof (cases "page = 0")
          case True
          then have "\<exists>s2. read_uncached bc_passthrough_memory_update d bs t buf ?s1 = (st, buf', s2) \<and> s' = s2"
            using assms(5) None q(4) \<open>unit_fits k (t_unit t) s\<close> need pg
            by (auto simp: bcache_read_turn_def Let_def split: prod.splits)
          then have "read_step content ?s1 (t_at t) ?want buf st buf' s'"
            using read_uncached_step [OF P(1) assms(2-4), of bc_passthrough_memory_update] by (auto simp: count_up_def)
          from read_step_from [OF this P(2)] show ?thesis by simp
        next
          case False
          then have "claim_and_fill d k bs t q page buf ?s1 = (st, buf', spare', s')"
            using assms(5) None q(4) \<open>unit_fits k (t_unit t) s\<close> need pg by (simp add: bcache_read_turn_def Let_def)
          then have "read_step content ?s1 (t_at t) ?want buf st buf' s'"
            using claim_and_fill_step [OF P(1) assms(2-4), of q] \<open>unit_fits k (t_unit t) s\<close> q(4)
              unit_fits_cong [of ?s1 s] by_id_cong [of ?s1 s] by simp
          from read_step_from [OF this P(2)] show ?thesis by simp
        qed
      qed
    qed
  qed
qed

lemma read_loop_step:
  assumes "turn_ok content s d k bs lba count" "dn \<le> count" "length buf = unat count * unat bs"
    and "bcache_read_loop d k bs lba count dn spare buf s = (st, buf', spare', s')"
  shows "read_step content s (unat dn * unat bs)
    (sectors (content (st_hw s) (k_root_id k)) (unat (k_abs_lba k) + unat dn) (unat count - unat dn)) buf st buf' s'"
  using assms
proof (induction d k bs lba count dn spare buf s rule: bcache_read_loop.induct)
  case (1 d k bs lba count dn spare buf s)
  show ?case
  proof (cases "dn \<ge> count")
    case True
    then have "dn = count" using "1.prems"(2) by simp
    moreover have "(st, buf', spare', s') = (BLOCK_OK, buf, spare, s)"
      using "1.prems"(4) True by (subst (asm) bcache_read_loop.simps) simp
    ultimately show ?thesis
      using "1.prems"(1) by (simp add: read_step_def overlay_def turn_ok_def)
  next
    case False
    then have lt: "dn < count" by simp
    let ?t = "turn_at k bs lba count dn"
    obtain q where q: "k_root_id k = bd_id (the_bdev s q)" "honest content (the_bdev s q)" "bd_block_size (the_bdev s q) = bs"
      and blk: "0 < unat (k_blocks_per_unit k)" "unat (k_abs_lba k) + unat count \<le> unat (bd_block_count (the_bdev s q))"
      "unat lba + unat count \<le> unat (bd_block_count (the_bdev s d))"
      using "1.prems"(1) lt refl by (rule turn_setting)
    note F = turn_facts [OF blk lt refl, of bs]
    obtain st1 buf1 spare1 s1 where t: "bcache_read_turn d k bs ?t spare buf s = (st1, buf1, spare1, s1)" by (metis surj_pair)
    let ?C = "content (st_hw s) (k_root_id k)"
    let ?want1 = "sectors ?C (unat (k_abs_lba k) + unat dn) (unat (t_n ?t))"
    let ?want2 = "sectors ?C (unat (k_abs_lba k) + unat dn + unat (t_n ?t)) (unat count - (unat dn + unat (t_n ?t)))"
    have S: "read_step content s (t_at ?t) ?want1 buf st1 buf1 s1" by (rule read_turn_step [OF "1.prems"(1) lt refl "1.prems"(3) t])
    show ?thesis
    proof (cases "st1 = BLOCK_OK")
      case False
      then have "(st, buf', spare', s') = (st1, buf1, spare1, s1)"
        using "1.prems"(4) lt F(3) t False by (subst (asm) bcache_read_loop.simps) (simp add: Let_def not_le [symmetric])
      then show ?thesis using S False by (simp add: read_step_def)
    next
      case True
      have run: "bcache_read_loop d k bs lba count (dn + t_n ?t) spare1 buf1 s1 = (st, buf', spare', s')"
        using "1.prems"(4) lt F(3) t True by (subst (asm) bcache_read_loop.simps) (simp add: Let_def not_le [symmetric])
      have ok1: "turn_ok content s1 d k bs lba count" using turn_ok_step [OF "1.prems"(1)] S by (simp add: read_step_def)
      have lb: "length buf1 = unat count * unat bs" using S "1.prems"(3) by (simp add: read_step_def)
      have le: "dn + t_n ?t \<le> count" using F(4,7) by (simp add: word_le_nat_alt)
      have C1: "content (st_hw s1) = content (st_hw s)" using S by (simp add: read_step_def)
      have "read_step content s1 (unat (dn + t_n ?t) * unat bs)
          (sectors (content (st_hw s1) (k_root_id k)) (unat (k_abs_lba k) + unat (dn + t_n ?t)) (unat count - unat (dn + t_n ?t))) buf1 st buf' s'"
        by (rule "1.IH" [OF _ refl _ t [symmetric] refl refl]) (use lt F(3) True ok1 le lb run in simp_all)
      then have R: "read_step content s1 (t_at ?t + unat (t_n ?t) * unat bs) ?want2 buf1 st buf' s'"
        using C1 F(5,7) by (simp add: add.assoc distrib_right)
      have l1: "length ?want1 = unat (t_n ?t) * unat bs"
        using honest_sectors_length [OF q(2), of "unat (k_abs_lba k) + unat dn" "unat (t_n ?t)" "st_hw s"] blk(2) F(4) q(1,3) by simp
      have l2: "length ?want2 = (unat count - (unat dn + unat (t_n ?t))) * unat bs"
        using honest_sectors_length [OF q(2), of "unat (k_abs_lba k) + unat dn + unat (t_n ?t)" "unat count - (unat dn + unat (t_n ?t))" "st_hw s"]
          blk(2) F(4) q(1,3) by simp
      have "unat dn + unat (t_n ?t) + (unat count - (unat dn + unat (t_n ?t))) = unat count" using F(4) by simp
      then have "unat dn * unat bs + unat (t_n ?t) * unat bs + (unat count - (unat dn + unat (t_n ?t))) * unat bs = length buf"
        unfolding "1.prems"(3) by (metis distrib_right)
      then have fits: "t_at ?t + length ?want1 + length ?want2 \<le> length buf" using l1 l2 F(5) by simp
      have "sectors ?C (unat (k_abs_lba k) + unat dn) (unat count - unat dn) = ?want1 @ ?want2"
        using sectors_add [of ?C "unat (k_abs_lba k) + unat dn" "unat (t_n ?t)" "unat count - (unat dn + unat (t_n ?t))"] F(4) by simp
      moreover have lo: "length (overlay (t_at ?t) ?want1 buf) = length buf" using fits by (simp add: length_overlay)
      moreover have lo: "length (overlay (t_at ?t) ?want1 buf) = length buf" using fits by (simp add: length_overlay)
      moreover have "overlay (t_at ?t + length ?want1) ?want2 (overlay (t_at ?t) ?want1 buf) = overlay (t_at ?t) (?want1 @ ?want2) buf"
        by (rule overlay_overlay [OF fits])
      ultimately show ?thesis
        using S R True same_devices_trans [of s s1 s'] l1 F(5) lo by (simp add: read_step_def)
    qed
  qed
qed

lemma give_back_frame [simp]:
  "st_devices (give_back p s) = st_devices s" "st_cache (give_back p s) = st_cache s" "st_hw (give_back p s) = st_hw s"
  "st_next_id (give_back p s) = st_next_id s"
  by (simp_all add: give_back_def split: sum.splits)

lemma bcache_read_spec:
  assumes "coherent content s" "d < length (st_devices s)" "length buf = unat count * unat (bd_block_size (the_bdev s d))"
    and "bcache_read (Some d) lba count (Some buf) s = (st, buf', s')"
  shows "same_devices s s'" "coherent content s'" "content (st_hw s') = content (st_hw s)" "length buf' = length buf"
    and "st = BLOCK_OK \<Longrightarrow> count \<noteq> 0 \<Longrightarrow> \<exists>rid rgen ab. block_resolve s (Some d) lba count = Inr (rid, rgen, ab) \<and>
      buf' = sectors (content (st_hw s) rid) (unat ab) (unat count)"
proof -
  have *: "same_devices s s' \<and> coherent content s' \<and> content (st_hw s') = content (st_hw s) \<and> length buf' = length buf \<and>
    (st = BLOCK_OK \<longrightarrow> count \<noteq> 0 \<longrightarrow> (\<exists>rid rgen ab. block_resolve s (Some d) lba count = Inr (rid, rgen, ab) \<and>
      buf' = sectors (content (st_hw s) rid) (unat ab) (unat count)))"
  proof (cases "count = 0")
    case True
    then show ?thesis using assms by (simp add: bcache_read_def)
  next
    case nz: False
    show ?thesis
    proof (cases "bc_ready (st_cache s) \<and> cacheable (the_bdev s d) \<noteq> None")
      case False
      then obtain f where run: "block_read (Some d) lba count (Some buf) (upd_cache f s) = (st, buf', s')"
        and f: "bc_entries (f (st_cache s)) = bc_entries (st_cache s)" "bc_hand (f (st_cache s)) = bc_hand (st_cache s)"
          "bc_ready (f (st_cache s)) = bc_ready (st_cache s)"
        using assms(4) nz that [of "count_up bc_passthrough_memory_update"] that [of "count_up bc_passthrough_size_update"]
        by (auto simp: bcache_read_def count_up_def split: if_splits)
      have same: "same_devices s (upd_cache f s)" by (rule same_devices_eq) simp_all
      have ro: "registry_ok (upd_cache f s)" "all_honest content (upd_cache f s)" "d < length (st_devices (upd_cache f s))"
        "length buf = unat count * unat (bd_block_size (the_bdev (upd_cache f s) d))"
        using same_devices_registry [OF same coherentD(1) [OF assms(1)]] same_devices_honest [OF same coherentD(2) [OF assms(1)]] assms(2,3) by simp_all
      note R = block_read_spec [OF ro run]
      have sd: "same_devices s s'" using same_devices_trans [OF same R(1)] .
      have "cache_good (entry_good content s) (st_cache s')"
        using coherentD(3) [OF assms(1)] f by (simp add: R(2) cache_good_def)
      then have "coherent content s'" using coherent_same [OF sd assms(1)] R(3) by simp
      then show ?thesis using R sd resolve_same [of "upd_cache f s" s] by simp
    next
      case True
      then obtain bpu where bpu: "cacheable (the_bdev s d) = Some bpu" and rdy: "bc_ready (st_cache s)" by auto
      show ?thesis
      proof (cases "block_resolve s (Some d) lba count")
        case (Inl e)
        have "e \<noteq> BLOCK_OK" using Inl by (auto simp: block_resolve_def Let_def split: if_splits option.splits)
        then show ?thesis using assms(1,4) nz rdy bpu Inl by (auto simp: bcache_read_def)
      next
        case (Inr p)
        then obtain rid rgen ab where p: "block_resolve s (Some d) lba count = Inr (rid, rgen, ab)" by (cases p) auto
        let ?k = "\<lparr>k_root_id = rid, k_root_generation = rgen, k_abs_lba = ab, k_blocks_per_unit = bpu\<rparr>"
        obtain spare s1 where run: "bcache_read_loop d ?k (bd_block_size (the_bdev s d)) lba count 0 0 buf s = (st, buf', spare, s1)"
          and s': "s' = give_back spare s1"
          using assms(4) nz rdy bpu p by (auto simp: bcache_read_def split: prod.splits)
        have ok: "turn_ok content s d ?k (bd_block_size (the_bdev s d)) lba count"
          using assms(1,2) nz rdy bpu p by (simp add: turn_ok_def)
        from resolved [OF coherentD(1) [OF assms(1)] coherentD(2) [OF assms(1)] assms(2) nz p]
        obtain r where r: "honest content (the_bdev s r)" "rid = bd_id (the_bdev s r)" "bd_block_size (the_bdev s r) = bd_block_size (the_bdev s d)"
          "unat ab + unat count \<le> unat (bd_block_count (the_bdev s r))" by metis
        have S: "read_step content s 0 (sectors (content (st_hw s) rid) (unat ab) (unat count)) buf st buf' s1"
          using read_loop_step [OF ok _ assms(3) run] by simp
        have "length (sectors (content (st_hw s) rid) (unat ab) (unat count)) = length buf"
          using honest_sectors_length [OF r(1,4)] r(2,3) assms(3) by simp
        moreover have g: "same_devices s1 s'" using s' by (intro same_devices_eq) simp_all
        moreover have "coherent content s'"
          using coherent_same [OF g, of content] S s' coherentD(3) [of content s1] by (simp add: read_step_def)
        ultimately show ?thesis
          using S p s' same_devices_trans [of s s1 s'] by (simp add: read_step_def overlay_whole)
      qed
    qed
  qed
  then show "same_devices s s'" "coherent content s'" "content (st_hw s') = content (st_hw s)" "length buf' = length buf"
    "st = BLOCK_OK \<Longrightarrow> count \<noteq> 0 \<Longrightarrow> \<exists>rid rgen ab. block_resolve s (Some d) lba count = Inr (rid, rgen, ab) \<and>
      buf' = sectors (content (st_hw s) rid) (unat ab) (unat count)" by blast+
qed

end
