(* ===== verification/Cached_Write.thy ===== *)
theory Cached_Write
  imports Cached_Read
begin

text \<open>
  Writing: the block layer drops what the cache holds of a range before the disk changes there,
  so the cache stays true whether the write succeeds, fails or tears; and what \<^verbatim>\<open>bcache_write\<close>
  then puts into the cache is what the disk accepted.
\<close>

section \<open>Invalidation\<close>

lemma invalidate_entries_good:
  assumes "cache_good P c" "\<And>e. P e \<Longrightarrow> P (forget e)" "\<And>e. P e \<Longrightarrow> en_state e \<noteq> ENTRY_LOADING"
  shows "cache_good (\<lambda>e. P e \<and> (en_state e \<noteq> ENTRY_EMPTY \<longrightarrow> \<not> hit e)) (invalidate_entries hit c)"
  using assms by (auto simp: cache_good_def invalidate_entries_def drop_entry_def Let_def)

lemma entry_good_not_loading: "entry_good content s e \<Longrightarrow> en_state e \<noteq> ENTRY_LOADING"
  by (simp add: entry_good_def)

text \<open>An entry that says nothing of blocks \<open>ab\<close> to \<open>ab + n\<close> of disk \<open>rid\<close>.\<close>

definition clear_of :: "'hw storage \<Rightarrow> u32 \<Rightarrow> nat \<Rightarrow> nat \<Rightarrow> entry \<Rightarrow> bool" where
  "clear_of s rid ab n e \<longleftrightarrow> (en_state e = ENTRY_VALID \<longrightarrow> en_root_id e = rid \<longrightarrow>
     (\<exists>r. block_device_by_id rid (en_root_generation e) s = Some r \<and> bd_parent (the_bdev s r) = 0) \<longrightarrow>
     (let B = unat (en_blocks_per_unit e) in unat (en_unit e) * B + B \<le> ab \<or> ab + n \<le> unat (en_unit e) * B))"

lemma clear_after_invalidate:
  assumes "coherent content s" "d < length (st_devices s)" "count \<noteq> 0"
    and "block_resolve s (Some d) lba count = Inr (rid, rgen, ab)"
  shows "cache_good (\<lambda>e. entry_good content s e \<and> clear_of s rid (unat ab) (unat count) e)
    (st_cache (bcache_invalidate (Some d) lba (ucast count) s))"
proof -
  have nz: "(ucast count :: u64) \<noteq> 0" using assms(3) by (simp add: word_unat_eq_iff)
  obtain r where w: "to_root s d lba = Some (r, ab)" and r: "r < length (st_devices s)" "bd_parent (the_bdev s r) = 0"
    "rid = bd_id (the_bdev s r)" "rgen = bd_generation (the_bdev s r)" "block_device_by_id rid rgen s = Some r"
    "bd_block_size (the_bdev s r) = bd_block_size (the_bdev s d)" "unat ab + unat count \<le> unat (bd_block_count (the_bdev s r))"
    and pd: "bd_present (the_bdev s d)" "unat lba + unat count \<le> unat (bd_block_count (the_bdev s d))"
    using resolved [OF coherentD(1) [OF assms(1)] coherentD(2) [OF assms(1)] assms(2-4)] by metis
  have cnt: "0 < unat count" using assms(3) by (simp add: unat_gt_0)
  have "check_range s (Some d) lba 1 = BLOCK_OK"
    using pd cnt by (auto simp: check_range_def word_le_nat_alt word_less_nat_alt unat_sub)
  then have one: "block_resolve s (Some d) lba 1 = Inr (rid, rgen, ab)"
    using w r(3,4) by (simp add: block_resolve_def)
  have same_root: "q = r \<and> en_root_generation e = rgen"
    if "block_device_by_id rid (en_root_generation e) s = Some q" for e q
  proof -
    note Q = by_id_Some [OF that]
    have "q = r" using Q(1,2) r(1,3) registryD(1) [OF coherentD(1) [OF assms(1)]] registry_size [OF coherentD(1) [OF assms(1)]]
        small_id_eq [of q r] by simp
    then show ?thesis using Q(3) r(4) by simp
  qed
  have P: "cache_good (entry_good content s) (st_cache s)" by (rule coherentD(3) [OF assms(1)])
  show ?thesis
  proof (cases "bc_ready (st_cache s) \<and> cacheable (the_bdev s d) \<noteq> None")
    case False
    then have e: "bcache_invalidate (Some d) lba (ucast count) s = s" by (auto simp: bcache_invalidate_def)
    have "clear_of s rid (unat ab) (unat count) e" if m: "e \<in> set (bc_entries (st_cache s))" for e
      unfolding clear_of_def
    proof (intro impI; elim exE conjE)
      fix q assume v: "en_state e = ENTRY_VALID" "en_root_id e = rid"
        "block_device_by_id rid (en_root_generation e) s = Some q" "bd_parent (the_bdev s q) = 0"
      have "bc_ready (st_cache s)" using P m v(1) by (auto simp: cache_good_def)
      moreover have "entry_true content s e" using P m v(1) by (auto simp: cache_good_def entry_good_def)
      then have "cacheable (the_bdev s q) \<noteq> None" using v by (auto simp: entry_true_def)
      then have "cacheable (the_bdev s d) \<noteq> None" using same_root [OF v(3)] cacheable_cong [OF r(6)] by simp
      ultimately show "let B = unat (en_blocks_per_unit e) in unat (en_unit e) * B + B \<le> unat ab \<or> unat ab + unat count \<le> unat (en_unit e) * B"
        using False by simp
    qed
    then show ?thesis using P unfolding e by (simp add: cache_good_def)
  next
    case True
    then obtain bpu where bpu: "cacheable (the_bdev s d) = Some bpu" by blast
    let ?hit = "\<lambda>e. en_root_id e = rid \<and> en_root_generation e = rgen \<and> en_blocks_per_unit e = bpu
      \<and> \<not> (en_unit e < ab div ucast bpu \<or> en_unit e > (ab + ucast count - 1) div ucast bpu)"
    have e: "st_cache (bcache_invalidate (Some d) lba (ucast count) s) = invalidate_entries ?hit (st_cache s)"
      using True bpu one nz by (simp add: bcache_invalidate_def Let_def)
    have B: "0 < unat bpu" using cacheable_unit(2) [OF bpu] .
    have lim: "unat ab + unat count < 2 ^ 64" using r(7) unat_u64_lt [of "bd_block_count (the_bdev s r)"] by simp
    have u1: "unat (ab + ucast count :: u64) = unat ab + unat count" using lim by (subst unat_add_lem [THEN iffD1]) simp_all
    have "ab + ucast count \<noteq> 0" using u1 cnt by (auto simp: word_unat_eq_iff)
    then have u2: "unat (ab + ucast count - 1 :: u64) = unat ab + unat count - 1" using u1 unat_minus_one by metis
    have "clear_of s rid (unat ab) (unat count) e"
      if g: "entry_good content s e" and h: "en_state e \<noteq> ENTRY_EMPTY \<longrightarrow> \<not> ?hit e" for e
      unfolding clear_of_def
    proof (intro impI; elim exE conjE)
      fix q assume v: "en_state e = ENTRY_VALID" "en_root_id e = rid"
        "block_device_by_id rid (en_root_generation e) s = Some q" "bd_parent (the_bdev s q) = 0"
      have "entry_true content s e" using g v(1) by (simp add: entry_good_def)
      then have "cacheable (the_bdev s r) = Some (en_blocks_per_unit e)" using v same_root [OF v(3)] by (simp add: entry_true_def)
      then have b: "en_blocks_per_unit e = bpu" using bpu cacheable_cong [OF r(6)] by simp
      then have "en_unit e < ab div ucast bpu \<or> (ab + ucast count - 1) div ucast bpu < en_unit e"
        using h v same_root [OF v(3)] by auto
      then have "unat (en_unit e) < unat ab div unat bpu \<or> (unat ab + unat count - 1) div unat bpu < unat (en_unit e)"
        using u2 by (simp add: word_less_nat_alt unat_div)
      then have "unat (en_unit e) * unat bpu + unat bpu \<le> unat ab \<or> unat ab + unat count \<le> unat (en_unit e) * unat bpu"
      proof (elim disjE)
        assume "unat (en_unit e) < unat ab div unat bpu"
        then have "(unat (en_unit e) + 1) * unat bpu \<le> unat ab div unat bpu * unat bpu" by (intro mult_right_mono) simp_all
        also have "\<dots> \<le> unat ab" by (rule div_times_less_eq_dividend)
        finally show ?thesis by simp
      next
        assume "(unat ab + unat count - 1) div unat bpu < unat (en_unit e)"
        then have "unat ab + unat count - 1 < unat (en_unit e) * unat bpu" using B by (simp add: div_less_iff_less_mult)
        then show ?thesis using cnt by linarith
      qed
      then show "let B = unat (en_blocks_per_unit e) in unat (en_unit e) * B + B \<le> unat ab \<or> unat ab + unat count \<le> unat (en_unit e) * B"
        by (simp add: b Let_def)
    qed
    moreover have "cache_good (\<lambda>e. entry_good content s e \<and> (en_state e \<noteq> ENTRY_EMPTY \<longrightarrow> \<not> ?hit e)) (invalidate_entries ?hit (st_cache s))"
      by (rule invalidate_entries_good [OF P]) (simp_all add: entry_good_forget entry_good_not_loading)
    ultimately show ?thesis unfolding e by (elim cache_good_mono) blast
  qed
qed

text \<open>After that, the disk may change there.\<close>

lemma coherent_after_change:
  assumes "coherent content s" "same_devices s s'" "differs_in content rid ab n (st_hw s) (st_hw s')"
    and "cache_good (\<lambda>e. entry_good content s e \<and> clear_of s rid ab n e) (st_cache s')"
  shows "coherent content s'"
proof (rule coherentI [OF assms(2,1)], rule cache_good_mono [OF assms(4)])
  fix e assume e: "entry_good content s e \<and> clear_of s rid ab n e"
  let ?B = "unat (en_blocks_per_unit e)"
  show "entry_good content s' e"
  proof (rule entry_good_keep [OF conjunct1 [OF e] assms(2)])
    assume v: "en_state e = ENTRY_VALID"
    show "sectors (content (st_hw s') (en_root_id e)) (unat (en_unit e) * ?B) ?B = sectors (content (st_hw s) (en_root_id e)) (unat (en_unit e) * ?B) ?B
      \<or> (\<forall>r. block_device_by_id (en_root_id e) (en_root_generation e) s = Some r \<longrightarrow> bd_parent (the_bdev s r) \<noteq> 0)"
    proof (cases "en_root_id e = rid")
      case False
      then have "content (st_hw s') (en_root_id e) = content (st_hw s) (en_root_id e)"
        using assms(3) by (auto simp: differs_in_def)
      then show ?thesis by simp
    next
      case True
      then show ?thesis using e v differs_in_sectors [OF assms(3), of "unat (en_unit e) * ?B" ?B]
        by (auto simp: clear_of_def Let_def)
    qed
  qed
qed

section \<open>Writes past the cache\<close>

lemma block_write_coherent:
  assumes "coherent content s" "d < length (st_devices s)" "length buf = unat count * unat (bd_block_size (the_bdev s d))"
    and "block_write (Some d) lba count (Some buf) s = (st, s')"
  shows "same_devices s s'" "coherent content s'" "bc_ready (st_cache s') = bc_ready (st_cache s)"
    and "st = BLOCK_OK \<Longrightarrow> count \<noteq> 0 \<Longrightarrow> \<exists>rid rgen ab. block_resolve s (Some d) lba count = Inr (rid, rgen, ab) \<and>
      sectors (content (st_hw s') rid) (unat ab) (unat count) = buf"
    and "(\<exists>rid rgen ab. block_resolve s (Some d) lba count = Inr (rid, rgen, ab) \<and>
      differs_in content rid (unat ab) (unat count) (st_hw s) (st_hw s')) \<or> st_hw s' = st_hw s"
proof -
  note W = block_write_spec [OF coherentD(1) [OF assms(1)] coherentD(2) [OF assms(1)] assms(2,3,4)]
  then show sd: "same_devices s s'" ..
  have rd: "bc_ready (st_cache (bcache_invalidate (Some d) lba c s)) = bc_ready (st_cache s)" for c
    by (simp add: bcache_invalidate_def invalidate_entries_def Let_def split: option.splits sum.splits)
  consider "st_hw s' = st_hw s" "st_cache s' = st_cache s" "st = BLOCK_OK \<longrightarrow> count = 0"
    | rid rgen ab where "count \<noteq> 0" "block_resolve s (Some d) lba count = Inr (rid, rgen, ab)"
      "st_cache s' = st_cache (bcache_invalidate (Some d) lba (ucast count) s)"
      "differs_in content rid (unat ab) (unat count) (st_hw s) (st_hw s')"
      "st = BLOCK_OK \<longrightarrow> sectors (content (st_hw s') rid) (unat ab) (unat count) = buf"
    using W by blast
  then have "coherent content s' \<and> bc_ready (st_cache s') = bc_ready (st_cache s) \<and>
    (st = BLOCK_OK \<longrightarrow> count \<noteq> 0 \<longrightarrow> (\<exists>rid rgen ab. block_resolve s (Some d) lba count = Inr (rid, rgen, ab) \<and>
      sectors (content (st_hw s') rid) (unat ab) (unat count) = buf)) \<and>
    ((\<exists>rid rgen ab. block_resolve s (Some d) lba count = Inr (rid, rgen, ab) \<and>
      differs_in content rid (unat ab) (unat count) (st_hw s) (st_hw s')) \<or> st_hw s' = st_hw s)"
  proof cases
    case 1
    then show ?thesis using coherent_same [OF sd assms(1)] coherentD(3) [OF assms(1)] by simp
  next
    case 2
    have "coherent content s'"
      using clear_after_invalidate [OF assms(1,2) 2(1,2)] 2(3) by (intro coherent_after_change [OF assms(1) sd 2(4)]) simp
    then show ?thesis using 2 rd by simp
  qed
  then show "coherent content s'" "bc_ready (st_cache s') = bc_ready (st_cache s)"
    "st = BLOCK_OK \<Longrightarrow> count \<noteq> 0 \<Longrightarrow> \<exists>rid rgen ab. block_resolve s (Some d) lba count = Inr (rid, rgen, ab) \<and>
      sectors (content (st_hw s') rid) (unat ab) (unat count) = buf"
    "(\<exists>rid rgen ab. block_resolve s (Some d) lba count = Inr (rid, rgen, ab) \<and>
      differs_in content rid (unat ab) (unat count) (st_hw s) (st_hw s')) \<or> st_hw s' = st_hw s"
    by blast+
qed

section \<open>Writes through the cache\<close>

lemma overlay_own_slice: "a + n \<le> length xs \<Longrightarrow> overlay a (slice_of a n xs) xs = xs"
  by (rule nth_equalityI) (auto simp: length_overlay overlay_nth slice_of_def)

lemma write_unit_frame [simp]:
  "st_devices (write_unit k bs t buf s) = st_devices s" "st_hw (write_unit k bs t buf s) = st_hw s"
  "st_next_id (write_unit k bs t buf s) = st_next_id s"
  by (simp_all add: write_unit_def Let_def split: option.splits prod.splits)

lemma write_unit_good:
  assumes "turn_ok content s d k bs lba count" "dn < count" "t = turn_at k bs lba count dn"
    and "length buf = unat count * unat bs" "sectors (content (st_hw s) (k_root_id k)) (unat (k_abs_lba k)) (unat count) = buf"
  shows "cache_good (entry_good content s) (st_cache (write_unit k bs t buf s)) \<and> bc_ready (st_cache (write_unit k bs t buf s))"
proof -
  have co: "coherent content s" and rdy: "bc_ready (st_cache s)" using assms(1) by (simp_all add: turn_ok_def)
  obtain q where q: "q < length (st_devices s)" "k_root_id k = bd_id (the_bdev s q)" "bd_parent (the_bdev s q) = 0" "honest content (the_bdev s q)"
    "block_device_by_id (k_root_id k) (k_root_generation k) s = Some q" "bd_block_size (the_bdev s q) = bs"
    "cacheable (the_bdev s q) = Some (k_blocks_per_unit k)"
    and blk: "unat (k_blocks_per_unit k) * unat bs = PAGE_SIZE" "0 < unat (k_blocks_per_unit k)"
    "unat (k_abs_lba k) + unat count \<le> unat (bd_block_count (the_bdev s q))"
    "unat lba + unat count \<le> unat (bd_block_count (the_bdev s d))"
    using assms(1-3) by (rule turn_setting) metis
  note F = turn_facts [OF blk(2-4) assms(2,3)]
  let ?C = "content (st_hw s) (k_root_id k)" and ?B = "unat (k_blocks_per_unit k)"
  let ?bytes = "slice_of (t_at t) (unat (t_n t) * unat bs) buf"
  have len: "j < unat (bd_block_count (the_bdev s q)) \<Longrightarrow> length (?C j) = unat bs" for j
    using honest_length [OF q(4)] q(2,6) by simp
  have bytes: "?bytes = sectors ?C (unat (k_abs_lba k) + unat dn) (unat (t_n t))"
    unfolding assms(5) [symmetric] F(5) by (rule sectors_part) (use len blk(3) F(4) in simp_all)
  have P: "cache_good (entry_good content s) (st_cache s)" by (rule coherentD(3) [OF co])
  show ?thesis
  proof (cases "find_unit k (t_unit t) (st_cache s)")
    case (Some i)
    note E = find_unit_Some [OF Some P]
    let ?e = "bc_entries (st_cache s) ! i"
    have tr: "unat (t_unit t) * ?B + ?B \<le> unat (bd_block_count (the_bdev s q))" "en_data ?e = sectors ?C (unat (t_unit t) * ?B) ?B"
      using E(2-4) q(3,5) by (simp_all add: entry_good_def entry_true_def same_unit_def Let_def)
    have "?bytes = slice_of (unat (t_within t) * unat bs) (unat (t_n t) * unat bs) (en_data ?e)"
      unfolding bytes tr(2) using sectors_part [of "unat (t_unit t) * ?B" ?B ?C "unat bs" "unat (t_within t)" "unat (t_n t)"] len tr(1) F(1,2) by simp
    moreover have "length (en_data ?e) = ?B * unat bs" unfolding tr(2) by (rule length_sectors) (use len tr(1) in simp)
    then have "unat (t_within t) * unat bs + unat (t_n t) * unat bs \<le> length (en_data ?e)"
      using F(2) by (simp flip: distrib_right)
    ultimately have "overlay (unat (t_within t) * unat bs) ?bytes (en_data ?e) = en_data ?e" by (simp add: overlay_own_slice)
    then have "entry_good content s (?e\<lparr>en_data := overlay (unat (t_within t) * unat bs) ?bytes (en_data ?e), en_referenced := True\<rparr>)"
      using E(4) by simp
    then show ?thesis
      using Some E(2) rdy by (simp add: write_unit_def Let_def) (intro cache_good_upd_entry [OF P E(1)]; simp)
  next
    case None
    obtain v c1 where v: "victim (st_cache s) = (v, c1)" by fastforce
    have rf: "entry_good content s e \<Longrightarrow> entry_good content s (e\<lparr>en_referenced := False\<rparr>)" for e by simp
    note V = victim_good [OF P rf entry_good_forget v]
    have c1: "cache_good (entry_good content s) c1" "bc_ready c1 = bc_ready (st_cache s)" using V [of 0] by blast+
    have hole: "cache_good (entry_good content s) (count_up bc_write_holes_update c1) \<and> bc_ready (count_up bc_write_holes_update c1)"
      "cache_good (entry_good content s) (count_up bc_write_holes_update (st_cache s)) \<and> bc_ready (count_up bc_write_holes_update (st_cache s))"
      using c1 P rdy by (simp_all add: count_up_def cache_good_def)
    show ?thesis
    proof (cases "t_n t = k_blocks_per_unit k \<and> unit_fits k (t_unit t) s \<and> (\<exists>i. v = Some i \<and> en_page (bc_entries c1 ! i) \<noteq> 0)")
      case False
      then show ?thesis using None v hole by (auto simp: write_unit_def Let_def split: option.splits)
    next
      case True
      then obtain i where i: "v = Some i" "en_page (bc_entries c1 ! i) \<noteq> 0" by blast
      have ilt: "i < BCACHE_UNITS" "i < length (bc_entries c1)" using V [of i] i c1(1) by (simp_all add: cache_good_def)
      let ?f = "\<lambda>e. (claim_entry k (t_unit t) ENTRY_VALID e)\<lparr>en_data := ?bytes\<rparr>"
      have n: "unat (t_n t) = ?B" using True by simp
      then have w: "unat (t_within t) = 0" "unat (k_abs_lba k) + unat dn = unat (t_unit t) * ?B" using F(1,2) by simp_all
      have "unat (t_unit t) * ?B + ?B \<le> unat (bd_block_count (the_bdev s q))" using w(2) n F(4) blk(3) by simp
      moreover have "?bytes = sectors ?C (unat (t_unit t) * ?B) ?B" using bytes w(2) n by (simp only:)
      moreover have "t_at t + unat (t_n t) * unat bs \<le> length buf" using F(4,5) assms(4) by (simp flip: distrib_right)
      then have "length ?bytes = PAGE_SIZE" using n blk(1) by (simp only: length_slice_of)
      ultimately have "entry_good content s (?f (bc_entries c1 ! i))"
        using q(1,2,5,7) registryD(1) [OF coherentD(1) [OF co] q(1)]
        by (auto simp: entry_good_def entry_true_def claim_entry_def Let_def intro!: exI [of _ q])
      then have "cache_good (entry_good content s) (upd_entry i ?f (count_up bc_fills_update c1))"
        using c1 rdy by (intro cache_good_upd_entry) (simp_all add: ilt)
      then show ?thesis using None v True i c1(2) rdy by (simp add: write_unit_def Let_def)
    qed
  qed
qed

lemma write_loop_good:
  assumes "turn_ok content s d k bs lba count" "length buf = unat count * unat bs"
    and "sectors (content (st_hw s) (k_root_id k)) (unat (k_abs_lba k)) (unat count) = buf"
  shows "same_devices s (bcache_write_loop k bs lba count dn buf s) \<and> coherent content (bcache_write_loop k bs lba count dn buf s)
    \<and> st_hw (bcache_write_loop k bs lba count dn buf s) = st_hw s"
  using assms
proof (induction k bs lba count dn buf s rule: bcache_write_loop.induct)
  case (1 k bs lba count dn buf s)
  let ?t = "turn_at k bs lba count dn"
  let ?s1 = "write_unit k bs ?t buf s"
  show ?case
  proof (cases "dn < count \<and> t_n ?t \<noteq> 0")
    case False
    then have "bcache_write_loop k bs lba count dn buf s = s" by (subst bcache_write_loop.simps) (auto simp: Let_def)
    then show ?thesis using "1.prems"(1) by (simp add: turn_ok_def)
  next
    case True
    then have run: "bcache_write_loop k bs lba count dn buf s = bcache_write_loop k bs lba count (dn + t_n ?t) buf ?s1"
      by (subst bcache_write_loop.simps) (simp add: Let_def not_le [symmetric])
    note G = write_unit_good [OF "1.prems"(1) conjunct1 [OF True] refl "1.prems"(2,3)]
    have sd: "same_devices s ?s1" by (rule same_devices_eq) simp_all
    have rdy: "bc_ready (st_cache s)" using "1.prems"(1) by (simp add: turn_ok_def)
    have co: "coherent content ?s1"
      using G "1.prems"(1) by (intro coherent_same [OF sd]) (simp_all add: turn_ok_def)
    have ok: "turn_ok content ?s1 d k bs lba count" using turn_ok_step [OF "1.prems"(1) sd co] G rdy by simp
    have "\<not> count \<le> dn" using True by (simp add: not_le)
    from "1.IH" [OF this refl conjunct2 [OF True] ok "1.prems"(2)] "1.prems"(3)
    show ?thesis unfolding run using same_devices_trans [OF sd] by simp
  qed
qed

lemma bcache_write_spec:
  assumes "coherent content s" "d < length (st_devices s)" "length buf = unat count * unat (bd_block_size (the_bdev s d))"
    and "bcache_write (Some d) lba count (Some buf) s = (st, s')"
  shows "same_devices s s'" "coherent content s'"
    and "st = BLOCK_OK \<Longrightarrow> count \<noteq> 0 \<Longrightarrow> \<exists>rid rgen ab. block_resolve s (Some d) lba count = Inr (rid, rgen, ab) \<and>
      sectors (content (st_hw s') rid) (unat ab) (unat count) = buf"
    and "(\<exists>rid rgen ab. block_resolve s (Some d) lba count = Inr (rid, rgen, ab) \<and>
      differs_in content rid (unat ab) (unat count) (st_hw s) (st_hw s')) \<or> st_hw s' = st_hw s"
proof -
  let ?ok = "\<lambda>s'. (st = BLOCK_OK \<longrightarrow> count \<noteq> 0 \<longrightarrow> (\<exists>rid rgen ab. block_resolve s (Some d) lba count = Inr (rid, rgen, ab) \<and>
      sectors (content (st_hw s') rid) (unat ab) (unat count) = buf)) \<and>
    ((\<exists>rid rgen ab. block_resolve s (Some d) lba count = Inr (rid, rgen, ab) \<and>
      differs_in content rid (unat ab) (unat count) (st_hw s) (st_hw s')) \<or> st_hw s' = st_hw s)"
  have "same_devices s s' \<and> coherent content s' \<and> ?ok s'"
  proof (cases "count = 0")
    case True
    then show ?thesis using assms(1,4) by (simp add: bcache_write_def)
  next
    case nz: False
    obtain st1 s1 where w: "block_write (Some d) lba count (Some buf) s = (st1, s1)" by fastforce
    note W = block_write_coherent [OF assms(1-3) w]
    note F = same_devices_fields [OF W(1) assms(2)]
    consider "s' = s1" "st = st1"
      | bpu rid rgen ab where "st = BLOCK_OK" "st1 = BLOCK_OK" "bc_ready (st_cache s1)" "cacheable (the_bdev s1 d) = Some bpu"
        "block_resolve s1 (Some d) lba count = Inr (rid, rgen, ab)"
        "s' = bcache_write_loop \<lparr>k_root_id = rid, k_root_generation = rgen, k_abs_lba = ab, k_blocks_per_unit = bpu\<rparr>
                (bd_block_size (the_bdev s1 d)) lba count 0 buf s1"
      using assms(4) nz w by (auto simp: bcache_write_def split: if_splits option.splits sum.splits)
    then show ?thesis
    proof cases
      case 1
      then show ?thesis using W nz by simp
    next
      case 2
      let ?k = "\<lparr>k_root_id = rid, k_root_generation = rgen, k_abs_lba = ab, k_blocks_per_unit = bpu\<rparr>"
      have rs: "block_resolve s (Some d) lba count = Inr (rid, rgen, ab)"
        using 2(5) same_devices_resolve [OF W(1) coherentD(1) [OF assms(1)] assms(2)] by simp
      have ok: "turn_ok content s1 d ?k (bd_block_size (the_bdev s1 d)) lba count"
        using W(2) 2(3-5) nz assms(2) same_devices_length [OF W(1)] by (simp add: turn_ok_def)
      have buf: "sectors (content (st_hw s1) rid) (unat ab) (unat count) = buf" using W(4) [OF 2(2) nz] rs by auto
      have "same_devices s1 s' \<and> coherent content s' \<and> st_hw s' = st_hw s1"
        unfolding 2(6) using write_loop_good [OF ok] buf assms(3) F by simp
      then show ?thesis using W 2 nz rs buf same_devices_trans [OF W(1)] by auto
    qed
  qed
  then show "same_devices s s'" "coherent content s'"
    "st = BLOCK_OK \<Longrightarrow> count \<noteq> 0 \<Longrightarrow> \<exists>rid rgen ab. block_resolve s (Some d) lba count = Inr (rid, rgen, ab) \<and>
      sectors (content (st_hw s') rid) (unat ab) (unat count) = buf"
    "(\<exists>rid rgen ab. block_resolve s (Some d) lba count = Inr (rid, rgen, ab) \<and>
      differs_in content rid (unat ab) (unat count) (st_hw s) (st_hw s')) \<or> st_hw s' = st_hw s"
    by blast+
qed

end
