(* ===== verification/Storage.thy ===== *)
theory Storage
  imports Cached_Write
begin

text \<open>
  The storage stack as a whole: devices and partitions come and go, programs read and write
  through the cache and past it, discard, flush, claim disks, and memory is taken back from the
  cache. In every state this reaches the cache is true of the disks.
\<close>

section \<open>Changes of the registry\<close>

lemma by_id_iff:
  assumes "registry_ok s"
  shows "block_device_by_id i g s = Some r \<longleftrightarrow>
    r < length (st_devices s) \<and> bd_id (the_bdev s r) = i \<and> bd_generation (the_bdev s r) = g \<and> bd_present (the_bdev s r)"
  using by_id_self [OF assms, of r] by_id_Some [of i g s r] by auto

text \<open>What a change of the registry must leave alone for the cache to stay true: every disk that
  is there afterwards under a known identity was there before, with the same blocks.\<close>

lemma coherent_registry:
  assumes "coherent content s" "registry_ok s'" "all_honest content s'" "st_hw s' = st_hw s"
    and "cache_good (entry_good content s) (st_cache s')" "length (st_devices s) \<le> length (st_devices s')"
    and "\<And>r. r < length (st_devices s) \<Longrightarrow> bd_present (the_bdev s' r) \<Longrightarrow> bd_parent (the_bdev s' r) = 0 \<Longrightarrow>
      bd_present (the_bdev s r) \<and> bd_generation (the_bdev s' r) = bd_generation (the_bdev s r) \<and> bd_parent (the_bdev s r) = 0 \<and>
      bd_block_size (the_bdev s' r) = bd_block_size (the_bdev s r) \<and> bd_block_count (the_bdev s' r) = bd_block_count (the_bdev s r)"
  shows "coherent content s'"
  unfolding coherent_def
proof (intro conjI assms(2,3), rule cache_good_mono [OF assms(5)])
  fix e assume e: "entry_good content s e"
  have "entry_true content s' e" if v: "en_state e = ENTRY_VALID"
    unfolding entry_true_def
  proof (intro allI impI)
    fix r assume r: "block_device_by_id (en_root_id e) (en_root_generation e) s' = Some r" "bd_parent (the_bdev s' r) = 0"
    obtain j where j: "j < length (st_devices s)" "en_root_id e = of_nat (Suc j)" using e v by (auto simp: entry_good_def)
    note R = by_id_Some [OF r(1)]
    have "r = j"
      using R(1,2) j registryD(1) [OF assms(2) R(1)] registry_size [OF assms(2)] assms(6) small_id_eq [of r j] by simp
    then have rl: "r < length (st_devices s)" using j by simp
    note K = assms(7) [OF rl R(4) r(2)]
    have "block_device_by_id (en_root_id e) (en_root_generation e) s = Some r"
      using K R(2,3) rl registryD(1) [OF assms(2) R(1)] registryD(1) [OF coherentD(1) [OF assms(1)] rl]
      by (simp add: by_id_iff [OF coherentD(1) [OF assms(1)]])
    moreover have "entry_true content s e" using e v by (simp add: entry_good_def)
    ultimately show "cacheable (the_bdev s' r) = Some (en_blocks_per_unit e) \<and> (let B = unat (en_blocks_per_unit e) in
        unat (en_unit e) * B + B \<le> unat (bd_block_count (the_bdev s' r)) \<and>
        en_data e = sectors (content (st_hw s') (en_root_id e)) (unat (en_unit e) * B) B)"
      using K assms(4) cacheable_cong [of "the_bdev s' r" "the_bdev s r"] by (simp add: entry_true_def)
  qed
  moreover have "en_state e = ENTRY_VALID \<Longrightarrow> \<exists>j<length (st_devices s'). en_root_id e = of_nat (Suc j)"
    using e assms(6) less_le_trans by (auto simp: entry_good_def)
  ultimately show "entry_good content s' e" using e by (simp add: entry_good_def)
qed

text \<open>The fields of a device its place in the registry depends on.\<close>

definition same_place :: "'hw block_device \<Rightarrow> 'hw block_device \<Rightarrow> bool" where
  "same_place D D' \<longleftrightarrow> bd_id D' = bd_id D \<and> bd_queue D' = bd_queue D \<and> bd_block_size D' = bd_block_size D \<and>
     bd_block_count D' = bd_block_count D \<and> bd_parent D' = bd_parent D \<and> bd_first_lba D' = bd_first_lba D \<and> bd_ops D' = bd_ops D"

lemma registry_places:
  assumes "registry_ok s" "length (st_devices s') = length (st_devices s)" "st_next_id s' = st_next_id s"
    and "\<And>i. i < length (st_devices s) \<Longrightarrow> same_place (the_bdev s i) (the_bdev s' i)"
  shows "registry_ok s'"
proof -
  have "bd_id (the_bdev s' i) = of_nat (Suc i) \<and> bd_queue (the_bdev s' i) = [] \<and> bd_block_size (the_bdev s' i) \<noteq> 0
    \<and> bd_block_size (the_bdev s' i) AND (bd_block_size (the_bdev s' i) - 1) = 0
    \<and> (bd_parent (the_bdev s' i) \<noteq> 0 \<longrightarrow> (\<exists>p<i. bd_parent (the_bdev s' i) = of_nat (Suc p) \<and> slice_inside (the_bdev s' i) (the_bdev s' p)))"
    if i: "i < length (st_devices s)" for i
  proof -
    have "\<exists>p<i. bd_parent (the_bdev s' i) = of_nat (Suc p) \<and> slice_inside (the_bdev s' i) (the_bdev s' p)"
      if p: "bd_parent (the_bdev s' i) \<noteq> 0"
    proof -
      obtain p where "p < i" "bd_parent (the_bdev s i) = of_nat (Suc p)" "slice_inside (the_bdev s i) (the_bdev s p)"
        using registryD(5) [OF assms(1) i] p assms(4) [OF i] by (auto simp: same_place_def)
      then show ?thesis using assms(4) [OF i] assms(4) [of p] i by (intro exI [of _ p]) (simp add: slice_inside_def same_place_def)
    qed
    then show ?thesis using registryD(1-4) [OF assms(1) i] assms(4) [OF i] by (simp add: same_place_def)
  qed
  then show ?thesis using assms(1-3) by (simp add: registry_ok_def Let_def)
qed

lemma honest_place: "same_place D D' \<Longrightarrow> honest content D' = honest content D"
  by (simp add: honest_def same_place_def)

lemma honest_places:
  assumes "all_honest content s" "length (st_devices s') = length (st_devices s)"
    and "\<And>i. i < length (st_devices s) \<Longrightarrow> same_place (the_bdev s i) (the_bdev s' i)"
  shows "all_honest content s'"
  using assms honest_place [OF assms(3)] by (auto simp: all_honest_def same_place_def)

text \<open>One device is updated, its place kept, and at most taken away.\<close>

lemma coherent_upd_bdev:
  assumes "coherent content s" "same_place (the_bdev s d) (f (the_bdev s d))"
    and "bd_present (f (the_bdev s d)) \<Longrightarrow> bd_present (the_bdev s d) \<and> bd_generation (f (the_bdev s d)) = bd_generation (the_bdev s d)"
  shows "coherent content (upd_bdev d f s)"
proof (cases "d < length (st_devices s)")
  case False
  then have "upd_bdev d f s = s" by (simp add: upd_bdev_def list_update_beyond)
  then show ?thesis using assms(1) by simp
next
  case True
  have pl: "same_place (the_bdev s i) (the_bdev (upd_bdev d f s) i)" if "i < length (st_devices s)" for i
    using assms(2) True by (simp add: the_bdev_upd_bdev) (simp add: same_place_def)
  show ?thesis
  proof (rule coherent_registry [OF assms(1)])
    show "registry_ok (upd_bdev d f s)" by (rule registry_places [OF coherentD(1) [OF assms(1)]]) (simp_all add: pl)
    show "all_honest content (upd_bdev d f s)" by (rule honest_places [OF coherentD(2) [OF assms(1)]]) (simp_all add: pl)
    fix r assume "r < length (st_devices s)" "bd_present (the_bdev (upd_bdev d f s) r)" "bd_parent (the_bdev (upd_bdev d f s) r) = 0"
    then show "bd_present (the_bdev s r) \<and> bd_generation (the_bdev (upd_bdev d f s) r) = bd_generation (the_bdev s r) \<and> bd_parent (the_bdev s r) = 0 \<and>
      bd_block_size (the_bdev (upd_bdev d f s) r) = bd_block_size (the_bdev s r) \<and> bd_block_count (the_bdev (upd_bdev d f s) r) = bd_block_count (the_bdev s r)"
      using assms(2,3) True pl [of r] by (auto simp: the_bdev_upd_bdev same_place_def split: if_splits)
  qed (use coherentD(3) [OF assms(1)] in simp_all)
qed

text \<open>One device is added.\<close>

lemma coherent_append:
  assumes "coherent content s" "st_devices s' = st_devices s @ [D]" "st_next_id s' = st_next_id s + 1" "st_hw s' = st_hw s"
    and "st_cache s' = st_cache s" "length (st_devices s) < BLOCK_MAX_DEVICES"
    and "bd_id D = st_next_id s" "bd_queue D = []" "bd_block_size D \<noteq> 0" "bd_block_size D AND (bd_block_size D - 1) = 0"
    and "bd_parent D \<noteq> 0 \<Longrightarrow> \<exists>p<length (st_devices s). bd_parent D = of_nat (Suc p) \<and> slice_inside D (the_bdev s p)"
    and "bd_parent D = 0 \<Longrightarrow> honest content D"
  shows "coherent content s'"
proof (rule coherent_registry [OF assms(1)])
  have old: "the_bdev s' i = the_bdev s i" if "i < length (st_devices s)" for i using that assms(2) by (simp add: the_bdev_def nth_append)
  have new: "the_bdev s' (length (st_devices s)) = D" using assms(2) by (simp add: the_bdev_def)
  have len: "length (st_devices s') = Suc (length (st_devices s))" using assms(2) by simp
  note R = coherentD(1) [OF assms(1)]
  have id: "st_next_id s = of_nat (Suc (length (st_devices s)))" using R by (simp add: registry_ok_def)
  have "let E = the_bdev s' i in bd_id E = of_nat (Suc i) \<and> bd_queue E = [] \<and> bd_block_size E \<noteq> 0
      \<and> bd_block_size E AND (bd_block_size E - 1) = 0
      \<and> (bd_parent E \<noteq> 0 \<longrightarrow> (\<exists>p<i. bd_parent E = of_nat (Suc p) \<and> slice_inside E (the_bdev s' p)))"
    if "i < Suc (length (st_devices s))" for i
  proof (cases "i < length (st_devices s)")
    case True
    have "\<exists>p<i. bd_parent (the_bdev s i) = of_nat (Suc p) \<and> slice_inside (the_bdev s i) (the_bdev s' p)"
      if p: "bd_parent (the_bdev s i) \<noteq> 0"
    proof -
      obtain p where "p < i" "bd_parent (the_bdev s i) = of_nat (Suc p)" "slice_inside (the_bdev s i) (the_bdev s p)"
        using registryD(5) [OF R True p] by blast
      then show ?thesis using old [of p] True by (intro exI [of _ p]) simp
    qed
    then show ?thesis using registryD(1-4) [OF R True] old [OF True] by (simp add: Let_def)
  next
    case False
    then have i: "i = length (st_devices s)" using that by simp
    have "\<exists>p<i. bd_parent D = of_nat (Suc p) \<and> slice_inside D (the_bdev s' p)" if p: "bd_parent D \<noteq> 0"
    proof -
      obtain p where "p < length (st_devices s)" "bd_parent D = of_nat (Suc p)" "slice_inside D (the_bdev s p)"
        using assms(11) [OF p] by blast
      then show ?thesis using old [of p] i by (intro exI [of _ p]) simp
    qed
    then show ?thesis using new assms(7-10) id i by (simp add: Let_def)
  qed
  then show "registry_ok s'" unfolding registry_ok_def len using assms(3,6) id by simp
  show "all_honest content s'"
    unfolding all_honest_def
  proof (intro allI impI)
    fix i assume "i < length (st_devices s')" "bd_parent (the_bdev s' i) = 0"
    then show "honest content (the_bdev s' i)"
      using old [of i] new assms(12) coherentD(2) [OF assms(1)] len by (cases "i = length (st_devices s)") (auto simp: all_honest_def)
  qed
  show "length (st_devices s) \<le> length (st_devices s')" using len by simp
  fix r assume "r < length (st_devices s)" "bd_present (the_bdev s' r)" "bd_parent (the_bdev s' r) = 0"
  then show "bd_present (the_bdev s r) \<and> bd_generation (the_bdev s' r) = bd_generation (the_bdev s r) \<and> bd_parent (the_bdev s r) = 0 \<and>
      bd_block_size (the_bdev s' r) = bd_block_size (the_bdev s r) \<and> bd_block_count (the_bdev s' r) = bd_block_count (the_bdev s r)"
    using old by simp
qed (use assms(4,5) coherentD(3) [OF assms(1)] in simp_all)

lemma register_coherent:
  assumes "coherent content s" "block_register name ops bs n s = (r, s')"
    and "r \<noteq> None \<Longrightarrow> honest content (fresh_bdev name ops bs n (st_next_id s))"
  shows "coherent content s'"
proof (cases "r = None")
  case True
  then show ?thesis using assms(1,2) by (auto simp: block_register_def split: if_splits)
next
  case False
  then have g: "length (st_devices s) < BLOCK_MAX_DEVICES" "bs \<noteq> 0" "bs AND (bs - 1) = 0"
    and s': "s' = s\<lparr>st_devices := st_devices s @ [fresh_bdev name ops bs n (st_next_id s)], st_next_id := st_next_id s + 1\<rparr>"
    using assms(2) by (auto simp: block_register_def not_le split: if_splits)
  show ?thesis
    by (rule coherent_append [OF assms(1), where D = "fresh_bdev name ops bs n (st_next_id s)"])
      (use g s' assms(3) [OF False] in \<open>simp_all add: fresh_bdev_def\<close>)
qed

lemma same_place_refl [simp]: "same_place D D"
  by (simp add: same_place_def)

lemma slice_coherent:
  assumes "coherent content s" "p < length (st_devices s)" "block_register_slice (Some p) index first n scheme s = (r, s')"
  shows "coherent content s'"
proof -
  let ?P = "the_bdev s p" and ?L = "length (st_devices s)"
  let ?D0 = "fresh_bdev (slice_name (bd_name ?P) index) (bd_ops ?P) (bd_block_size ?P) n (st_next_id s)"
  let ?D = "?D0\<lparr>bd_parent := bd_id ?P, bd_parent_generation := bd_generation ?P,
                  bd_first_lba := first, bd_slice_index := index, bd_scheme := scheme,
                  bd_removable := bd_removable ?P, bd_read_only := bd_read_only ?P, bd_max_blocks := bd_max_blocks ?P\<rparr>"
  show ?thesis
  proof (cases "r = None")
    case True
    then show ?thesis using assms(1,3)
      by (auto simp: block_register_slice_def block_register_def Let_def split: if_splits)
  next
    case False
    let ?s1 = "s\<lparr>st_devices := st_devices s @ [?D], st_next_id := st_next_id s + 1\<rparr>"
    have g: "n \<noteq> 0" "first < bd_block_count ?P" "n \<le> bd_block_count ?P - first" "?L < BLOCK_MAX_DEVICES"
      using assms(3) False by (auto simp: block_register_slice_def block_register_def Let_def not_le not_less split: if_splits)
    have s': "s' = upd_bdev p (\<lambda>b. b\<lparr>bd_slice_count := bd_slice_count b + 1\<rparr>) ?s1"
      using assms(3) False
      by (auto simp: block_register_slice_def block_register_def Let_def upd_bdev_def the_bdev_def split: if_splits)
    have in1: "unat first + unat n \<le> unat (bd_block_count ?P)"
      using g(2,3) by (simp add: word_le_nat_alt word_less_nat_alt unat_sub)
    note R = registryD [OF coherentD(1) [OF assms(1)] assms(2)]
    have "coherent content ?s1"
    proof (rule coherent_append [OF assms(1), where D = ?D])
      show "\<exists>q<?L. bd_parent ?D = of_nat (Suc q) \<and> slice_inside ?D (the_bdev s q)" if "bd_parent ?D \<noteq> 0"
        using assms(2) R(1) in1 by (intro exI [of _ p]) (simp add: slice_inside_def fresh_bdev_def)
      have "unat (of_nat (Suc p) :: u32) = Suc p"
        using assms(2) registry_size [OF coherentD(1) [OF assms(1)]] by (intro unat_of_nat_u32) simp
      then have "bd_id ?P \<noteq> 0" using R(1) by (auto simp: word_unat_eq_iff)
      then show "honest content ?D" if "bd_parent ?D = 0" using that by simp
    qed (use g R in \<open>simp_all add: fresh_bdev_def\<close>)
    then show ?thesis unfolding s' by (rule coherent_upd_bdev) (simp_all add: same_place_def)
  qed
qed

section \<open>The other operations\<close>

lemma invalidate_entries_keeps:
  assumes "coherent content s" "st_devices s' = st_devices s" "st_next_id s' = st_next_id s" "st_hw s' = st_hw s"
    and "\<exists>hit. st_cache s' = invalidate_entries hit (st_cache s)"
  shows "coherent content s'"
proof (rule coherent_same [OF same_devices_eq [OF assms(2,3)] assms(1)])
  obtain hit where hit: "st_cache s' = invalidate_entries hit (st_cache s)" using assms(5) by blast
  have "cache_good (\<lambda>e. entry_good content s e \<and> (en_state e \<noteq> ENTRY_EMPTY \<longrightarrow> \<not> hit e)) (invalidate_entries hit (st_cache s))"
    by (rule invalidate_entries_good [OF coherentD(3) [OF assms(1)]]) (simp_all add: entry_good_forget entry_good_not_loading)
  then show "cache_good (entry_good content s) (st_cache s')" unfolding hit by (rule cache_good_mono) simp
qed (simp add: assms(4))

lemma invalidate_device_coherent: "coherent content s \<Longrightarrow> coherent content (bcache_invalidate_device dev s)"
proof (cases "bcache_invalidate_device dev s = s")
  case False
  assume co: "coherent content s"
  show ?thesis
    by (rule invalidate_entries_keeps [OF co])
      (use False in \<open>auto simp: bcache_invalidate_device_def Let_def split: option.splits sum.splits\<close>)
qed simp

lemma invalidate_coherent: "coherent content s \<Longrightarrow> coherent content (bcache_invalidate dev lba n s)"
proof (cases "bcache_invalidate dev lba n s = s")
  case False
  assume co: "coherent content s"
  show ?thesis
    by (rule invalidate_entries_keeps [OF co])
      (use False in \<open>auto simp: bcache_invalidate_def Let_def split: option.splits sum.splits\<close>)
qed simp

lemma retire_slice_coherent: "coherent content s \<Longrightarrow> coherent content (retire_slice d i s)"
  unfolding retire_slice_def Let_def
  by (auto intro!: coherent_upd_bdev invalidate_device_coherent simp: same_place_def)

lemma fold_coherent:
  "(\<And>i s. coherent content s \<Longrightarrow> coherent content (f i s)) \<Longrightarrow> coherent content s \<Longrightarrow> coherent content (fold f xs s)"
  by (induction xs arbitrary: s) simp_all

lemma unregister_coherent: "coherent content s \<Longrightarrow> coherent content (block_unregister dev s)"
  unfolding block_unregister_def
  by (auto intro!: coherent_upd_bdev invalidate_device_coherent fold_coherent retire_slice_coherent
      simp: same_place_def split: option.split)

lemma claim_coherent: "coherent content s \<Longrightarrow> coherent content (snd (block_claim_raw cap dev s))"
  unfolding block_claim_raw_def
  by (auto intro!: coherent_upd_bdev invalidate_device_coherent simp: same_place_def split: option.split)

lemma release_raw_coherent: "coherent content s \<Longrightarrow> coherent content (block_release_raw dev s)"
  unfolding block_release_raw_def by (auto intro!: coherent_upd_bdev simp: same_place_def split: option.split)

lemma release_entry_frame [simp]:
  "st_devices (release_entry i s) = st_devices s" "st_hw (release_entry i s) = st_hw s" "st_next_id (release_entry i s) = st_next_id s"
  by (simp_all add: release_entry_def Let_def split: sum.splits)

lemma release_entry_coherent:
  assumes "coherent content s" "i < BCACHE_UNITS"
  shows "coherent content (release_entry i s)"
proof (rule coherent_same [OF same_devices_eq assms(1)])
  let ?c = "if en_page (bc_entries (st_cache s) ! i) \<noteq> 0 then (st_cache s)\<lparr>bc_pages_held := bc_pages_held (st_cache s) - 1\<rparr> else st_cache s"
  have "st_cache (release_entry i s) = upd_entry i (\<lambda>e. forget (e\<lparr>en_page := 0\<rparr>)) ?c"
    by (simp add: release_entry_def Let_def upd_entry_def st_panics_def split: sum.split)
  moreover have "cache_good (entry_good content s) ?c" using coherentD(3) [OF assms(1)] by simp
  then have "cache_good (entry_good content s) (upd_entry i (\<lambda>e. forget (e\<lparr>en_page := 0\<rparr>)) ?c)"
    by (rule cache_good_upd_entry [OF _ assms(2)]) (simp_all add: entry_good_def)
  ultimately show "cache_good (entry_good content s) (st_cache (release_entry i s))" by simp
qed simp_all

lemma reclaim_coherent: "coherent content s \<Longrightarrow> coherent content (snd (bcache_reclaim n s))"
proof -
  have "set is \<subseteq> {..<BCACHE_UNITS} \<Longrightarrow> coherent content s \<Longrightarrow> coherent content (snd (reclaim_scan n is k s))" for "is" k s
    by (induction "is" arbitrary: k s) (simp_all add: Let_def release_entry_coherent)
  then show "coherent content s \<Longrightarrow> coherent content (snd (bcache_reclaim n s))"
    by (simp add: bcache_reclaim_def lessThan_atLeast0)
qed

lemma init_coherent:
  assumes "coherent content s"
  shows "coherent content (bcache_init s)"
proof (rule coherent_same [OF same_devices_eq assms])
  show "cache_good (entry_good content s) (st_cache (bcache_init s))"
    using coherentD(3) [OF assms] by (auto simp: bcache_init_def cache_good_def entry_good_def BCACHE_UNITS_def)
qed (simp_all add: bcache_init_def)

lemma flush_coherent:
  assumes "coherent content s" "d < length (st_devices s)" "block_flush (Some d) s = (st, s')"
  shows "coherent content s'" "content (st_hw s') = content (st_hw s)" "same_devices s s'" "st_cache s' = st_cache s"
proof -
  have *: "st_devices s' = st_devices s \<and> st_next_id s' = st_next_id s \<and> st_cache s' = st_cache s \<and> content (st_hw s') = content (st_hw s)"
  proof (cases "bd_present (the_bdev s d) \<and> op_flush (bd_ops (the_bdev s d)) \<noteq> None \<and> to_root s d 0 \<noteq> None")
    case False
    then show ?thesis using assms(3) by (auto simp: block_flush_def split: if_splits option.splits)
  next
    case True
    then obtain r ab where w: "to_root s d 0 = Some (r, ab)" by (auto simp: not_None_eq)
    have z: "unat (0 :: u64) + 0 \<le> unat (bd_block_count (the_bdev s d))" by simp
    note R = to_root_spec [OF coherentD(1) [OF assms(1)] assms(2) conjunct1 [OF True] z w]
    obtain f where f: "op_flush (bd_ops (the_bdev s r)) = Some f" using True R(5) by auto
    obtain h where h: "f (st_hw s) = (st, h)" and s': "s' = (count_up st_flushes_update s)\<lparr>st_hw := h\<rparr>"
      using assms(3) True w f by (auto simp: block_flush_def Let_def count_up_def split: prod.splits)
    have "honest content (the_bdev s r)" using coherentD(2) [OF assms(1)] R(1,3) by (simp add: all_honest_def)
    from disk_driver.flush_keeps [OF this [unfolded honest_def] f h]
    have "content h = content (st_hw s)" by (auto intro: whole_content)
    then show ?thesis using s' by (simp add: count_up_def)
  qed
  then show "content (st_hw s') = content (st_hw s)" "st_cache s' = st_cache s" by simp_all
  show "same_devices s s'" using * by (intro same_devices_eq) simp_all
  then show "coherent content s'" using coherent_same [OF _ assms(1)] * coherentD(3) [OF assms(1)] by simp
qed

text \<open>A discard leaves every block outside its range as it was, and drops the cached units first.\<close>

lemma discard_cases:
  assumes "block_discard (Some d) lba n s = (st, s')" "s' \<noteq> s"
  defines "s1 \<equiv> bcache_invalidate (Some d) lba (ucast n) s"
  shows "n \<noteq> 0" "check_range s (Some d) lba n = BLOCK_OK" "\<not> bd_read_only (the_bdev s d)"
    "(case to_root s1 d lba of None \<Rightarrow> (BLOCK_ERR_IO, st_panics ''null root'' s1)
      | Some (r, ab) \<Rightarrow> (case op_discard (bd_ops (the_bdev s1 r)) of None \<Rightarrow> (BLOCK_ERR_UNSUPPORTED, s1)
         | Some f \<Rightarrow> (case f ab n (st_hw s1) of (st, h) \<Rightarrow> (st, s1\<lparr>st_hw := h\<rparr>)))) = (st, s')"
  using assms(1,2) unfolding block_discard_def option.case Let_def s1_def [symmetric]
  by (simp_all add: check_range_def split: if_split_asm del: prod.case_eq_if)

lemma discard_coherent:
  assumes "coherent content s" "d < length (st_devices s)" "block_discard (Some d) lba n s = (st, s')"
  shows "coherent content s' \<and> same_devices s s' \<and> ((\<exists>rid rgen ab. block_resolve s (Some d) lba n = Inr (rid, rgen, ab) \<and>
      differs_in content rid (unat ab) (unat n) (st_hw s) (st_hw s')) \<or> st_hw s' = st_hw s)"
proof -
  let ?D = "the_bdev s d" and ?s1 = "bcache_invalidate (Some d) lba (ucast n) s"
  have sd1: "same_devices s ?s1" by (rule same_devices_eq) simp_all
  have co1: "coherent content ?s1" by (rule invalidate_coherent [OF assms(1)])
  have the1: "the_bdev ?s1 = the_bdev s" by (simp add: the_bdev_def fun_eq_iff)
  show ?thesis
  proof (cases "s' = s")
    case True
    then show ?thesis using assms(1) by simp
  next
    case False
    note nz = discard_cases(1) [OF assms(3) False] and chk = discard_cases(2) [OF assms(3) False]
    have w1: "to_root ?s1 d lba = to_root s d lba" by (rule to_root_same) simp
    note run = discard_cases(4) [OF assms(3) False, unfolded w1 the1]
    show ?thesis
    proof (cases "to_root s d lba")
      case None
      have "same_devices s (st_panics ''null root'' ?s1)" "same_devices ?s1 (st_panics ''null root'' ?s1)"
        by (rule same_devices_eq; simp)+
      then show ?thesis using run None coherent_same [of ?s1 _ content] co1 coherentD(3) [OF co1] by auto
    next
      case (Some q)
      then obtain r ab where w: "to_root s d lba = Some (r, ab)" by (cases q) auto
      have rs: "block_resolve s (Some d) lba n = Inr (bd_id (the_bdev s r), bd_generation (the_bdev s r), ab)"
        using chk w by (simp add: block_resolve_def)
      note C = check_range_OK [OF chk nz]
      note R = to_root_spec [OF coherentD(1) [OF assms(1)] assms(2) C w]
      show ?thesis
      proof (cases "op_discard (bd_ops (the_bdev s r))")
        case None
        then show ?thesis using run w sd1 co1 by auto
      next
        case (Some f)
        then obtain h where h: "f ab n (st_hw s) = (st, h)" and s': "s' = ?s1\<lparr>st_hw := h\<rparr>"
          using run w by (auto split: prod.splits)
        have "honest content (the_bdev s r)" using coherentD(2) [OF assms(1)] R(1,3) by (simp add: all_honest_def)
        from disk_driver.discard_keeps [OF this [unfolded honest_def] R(6) Some h]
        have df: "differs_in content (bd_id (the_bdev s r)) (unat ab) (unat n) (st_hw s) (st_hw s')"
          using s' by (intro others_differ) auto
        have sd: "same_devices s s'" using s' by (intro same_devices_eq) simp_all
        from clear_after_invalidate [OF assms(1,2) nz rs]
        have "coherent content s'" using s' by (intro coherent_after_change [OF assms(1) sd df]) simp
        then show ?thesis using sd rs df by blast
      qed
    qed
  qed
qed

end
