(* ===== verification/Storage_Runs.thy ===== *)
theory Storage_Runs
  imports Storage
begin

text \<open>
  Runs of the storage stack: every sequence of the calls the rest of the kernel makes, with the
  drivers any that keep their contract, and what holds whatever the sequence was. The disk of
  the concrete runs is a stretch of memory with a driver that always succeeds.
\<close>

section \<open>Every run\<close>

text \<open>The static data before anything was called.\<close>

definition blank_entry :: entry where
  "blank_entry = \<lparr>en_root_id = 0, en_root_generation = 0, en_unit = 0, en_blocks_per_unit = 0, en_page = 0, en_data = [],
     en_state = ENTRY_EMPTY, en_referenced = False, en_poisoned = False\<rparr>"

definition blank_cache :: bcache where
  "blank_cache = \<lparr>bc_entries = replicate BCACHE_UNITS blank_entry, bc_hand = 0, bc_pages_held = 0, bc_ready = False,
     bc_hits = 0, bc_misses = 0, bc_fills = 0, bc_evictions = 0, bc_invalidations = 0, bc_passthrough_size = 0,
     bc_passthrough_memory = 0, bc_fill_failures = 0, bc_race_uncached = 0, bc_poisoned_fills = 0, bc_write_holes = 0,
     bc_passthrough_tail = 0\<rparr>"

definition storage_start :: "pmm \<Rightarrow> 'hw \<Rightarrow> 'hw storage" where
  "storage_start p h = \<lparr>st_devices = [], st_next_id = 1, st_reads = 0, st_writes = 0, st_flushes = 0, st_blocks_read = 0,
     st_blocks_written = 0, st_cache = blank_cache, st_pages = p, st_hw = h, st_panic = None\<rparr>"

text \<open>What a driver or a partition reader notes in a device it registered.\<close>

definition describe :: "bool \<Rightarrow> bool \<Rightarrow> bool \<Rightarrow> bool \<Rightarrow> bool \<Rightarrow> u32 \<Rightarrow> u32 \<Rightarrow> block_scheme \<Rightarrow> 'hw block_device \<Rightarrow> 'hw block_device" where
  "describe removable read_only durable seek_free discards hint limit scheme b = b\<lparr>bd_removable := removable,
     bd_read_only := read_only, bd_flush_is_durable := durable, bd_seek_is_free := seek_free,
     bd_discard_supported := discards, bd_transfer_hint := hint, bd_max_blocks := limit, bd_scheme := scheme\<rparr>"

text \<open>A buffer has as many bytes as its call moves.\<close>

definition fits :: "'hw storage \<Rightarrow> nat \<Rightarrow> u32 \<Rightarrow> u8 list \<Rightarrow> bool" where
  "fits s d n buf \<longleftrightarrow> d < length (st_devices s) \<and> length buf = unat n * unat (bd_block_size (the_bdev s d))"

inductive storage_reached :: "('hw \<Rightarrow> u32 \<Rightarrow> nat \<Rightarrow> u8 list) \<Rightarrow> 'hw storage \<Rightarrow> bool"
  for content :: "'hw \<Rightarrow> u32 \<Rightarrow> nat \<Rightarrow> u8 list" where
  Start: "storage_reached content (storage_start p h)"
| Register: "storage_reached content s \<Longrightarrow> honest content (fresh_bdev name ops bs n (st_next_id s)) \<Longrightarrow>
    storage_reached content (snd (block_register name ops bs n s))"
| Slice: "storage_reached content s \<Longrightarrow> p < length (st_devices s) \<Longrightarrow>
    storage_reached content (snd (block_register_slice (Some p) index first n scheme s))"
| Describe: "storage_reached content s \<Longrightarrow> storage_reached content (upd_bdev d (describe a b c e g hint limit scheme) s)"
| Unregister: "storage_reached content s \<Longrightarrow> storage_reached content (block_unregister dev s)"
| Init: "storage_reached content s \<Longrightarrow> storage_reached content (bcache_init s)"
| Raw_read: "storage_reached content s \<Longrightarrow> fits s d n buf \<Longrightarrow>
    storage_reached content (snd (snd (block_read (Some d) lba n (Some buf) s)))"
| Raw_write: "storage_reached content s \<Longrightarrow> fits s d n buf \<Longrightarrow>
    storage_reached content (snd (block_write (Some d) lba n (Some buf) s))"
| Read: "storage_reached content s \<Longrightarrow> fits s d n buf \<Longrightarrow>
    storage_reached content (snd (snd (bcache_read (Some d) lba n (Some buf) s)))"
| Write: "storage_reached content s \<Longrightarrow> fits s d n buf \<Longrightarrow>
    storage_reached content (snd (bcache_write (Some d) lba n (Some buf) s))"
| Discard: "storage_reached content s \<Longrightarrow> d < length (st_devices s) \<Longrightarrow>
    storage_reached content (snd (block_discard (Some d) lba n s))"
| Flush: "storage_reached content s \<Longrightarrow> d < length (st_devices s) \<Longrightarrow>
    storage_reached content (snd (block_flush (Some d) s))"
| Claim: "storage_reached content s \<Longrightarrow> storage_reached content (snd (block_claim_raw capable dev s))"
| Release: "storage_reached content s \<Longrightarrow> storage_reached content (block_release_raw dev s)"
| Reclaim: "storage_reached content s \<Longrightarrow> storage_reached content (snd (bcache_reclaim k s))"
| Pages: "storage_reached content s \<Longrightarrow> storage_reached content (s\<lparr>st_pages := p\<rparr>)"
| Panic: "storage_reached content s \<Longrightarrow> storage_reached content (st_panics msg s)"

lemma start_coherent: "coherent content (storage_start p h)"
  by (simp add: coherent_def storage_start_def registry_ok_def all_honest_def cache_good_def blank_cache_def blank_entry_def
      entry_good_def BCACHE_UNITS_def BLOCK_MAX_DEVICES_def set_replicate_conv_if)

lemma pages_coherent: "coherent content s \<Longrightarrow> coherent content (s\<lparr>st_pages := p\<rparr>)"
  by (rule coherent_same [OF same_devices_eq]) (simp, simp, assumption, simp, simp, rule coherentD(3))

lemma panics_coherent: "coherent content s \<Longrightarrow> coherent content (st_panics msg s)"
  by (rule coherent_same [OF same_devices_eq]) (simp, simp, assumption, simp, simp, rule coherentD(3))

text \<open>In every state reached, the registry is in order and the cache is true of the disks.\<close>

lemma reached_coherent: "storage_reached content s \<Longrightarrow> coherent content s"
proof (induction rule: storage_reached.induct)
  case (Register s name ops bs n)
  show ?case by (rule register_coherent [OF Register.IH surjective_pairing Register.hyps(2)])
next
  case (Slice s p index first n scheme)
  show ?case by (rule slice_coherent [OF Slice.IH Slice.hyps(2) surjective_pairing])
next
  case (Describe s d a b c e g hint limit scheme)
  show ?case by (rule coherent_upd_bdev [OF Describe.IH]) (simp_all add: same_place_def describe_def)
next
  case (Raw_read s d n buf lba)
  obtain st b s' where r: "block_read (Some d) lba n (Some buf) s = (st, b, s')" by (metis prod_cases3)
  have "d < length (st_devices s)" "length buf = unat n * unat (bd_block_size (the_bdev s d))" using Raw_read.hyps(2) by (simp_all add: fits_def)
  note R = block_read_spec [OF coherentD(1,2) [OF Raw_read.IH] this r]
  show ?case unfolding r using coherent_same [OF R(1) Raw_read.IH] R(2,3) coherentD(3) [OF Raw_read.IH] by simp
next
  case (Raw_write s d n buf lba)
  then show ?case using block_write_coherent(2) [OF Raw_write.IH _ _ surjective_pairing] by (simp add: fits_def)
next
  case (Read s d n buf lba)
  obtain st b s' where r: "bcache_read (Some d) lba n (Some buf) s = (st, b, s')" by (metis prod_cases3)
  have "d < length (st_devices s)" "length buf = unat n * unat (bd_block_size (the_bdev s d))" using Read.hyps(2) by (simp_all add: fits_def)
  then show ?case unfolding r using bcache_read_spec(2) [OF Read.IH _ _ r] by simp
next
  case (Write s d n buf lba)
  then show ?case using bcache_write_spec(2) [OF Write.IH _ _ surjective_pairing] by (simp add: fits_def)
next
  case (Discard s d lba n)
  then show ?case using discard_coherent [OF Discard.IH Discard.hyps(2) surjective_pairing] by blast
next
  case (Flush s d)
  show ?case by (rule flush_coherent(1) [OF Flush.IH Flush.hyps(2) surjective_pairing])
qed (simp_all add: start_coherent unregister_coherent init_coherent claim_coherent release_raw_coherent reclaim_coherent pages_coherent panics_coherent)

section \<open>A disk in memory\<close>

definition ram_ops :: "nat \<Rightarrow> mem block_ops" where
  "ram_ops bs = \<lparr>op_read = (\<lambda>lba n h. (BLOCK_OK, bytes_at h (unat lba * bs) (unat n * bs), h)),
     op_write = Some (\<lambda>lba n data h. (BLOCK_OK, store h (unat lba * bs) (take (unat n * bs) data))),
     op_flush = Some (\<lambda>h. (BLOCK_OK, h)), op_discard = Some (\<lambda>lba n h. (BLOCK_OK, h))\<rparr>"

definition ram_content :: "nat \<Rightarrow> mem \<Rightarrow> u32 \<Rightarrow> nat \<Rightarrow> u8 list" where
  "ram_content bs h i k = (if i = 1 then bytes_at h (k * bs) bs else [])"

interpretation ram: disk_driver "ram_ops bs" "\<lambda>h. ram_content bs h 1" "\<lambda>h. (ram_content bs h)(1 := \<lambda>_. [])" bs blocks
  for bs blocks :: nat
proof -
  have oth: "(ram_content bs h)(1 := z) = (ram_content bs h')(1 := z)" for h h' z
    by (simp add: fun_eq_iff ram_content_def)
  have out: "ram_content bs (store h (l * bs) (take (n * bs) data)) 1 k = ram_content bs h 1 k"
    if "k < l \<or> l + n \<le> k" for h l n data k
  proof -
    have "k * bs + bs \<le> l * bs \<or> l * bs + n * bs \<le> k * bs"
      using that mult_le_mono1 [of "Suc k" l bs] mult_le_mono1 [of "l + n" k bs] by (auto simp: add_mult_distrib)
    then show ?thesis by (auto simp: ram_content_def intro!: bytes_at_store_other)
  qed
  show "disk_driver (ram_ops bs) (\<lambda>h. ram_content bs h 1) (\<lambda>h. (ram_content bs h)(1 := \<lambda>_. [])) bs blocks"
  proof unfold_locales
    show "k < blocks \<Longrightarrow> length (ram_content bs h 1 k) = bs" for k h by (simp add: ram_content_def)
  next
    fix lba :: u64 and n :: u32 and h h' :: mem and st bytes
    assume "op_read (ram_ops bs) lba n h = (st, bytes, h')"
    then show "ram_content bs h' 1 = ram_content bs h 1 \<and> (ram_content bs h')(1 := \<lambda>_. []) = (ram_content bs h)(1 := \<lambda>_. []) \<and>
       length bytes \<le> unat n * bs" by (auto simp: ram_ops_def)
  next
    fix lba :: u64 and n :: u32 and h h' :: mem and bytes
    assume "op_read (ram_ops bs) lba n h = (BLOCK_OK, bytes, h')"
    then show "bytes = sectors (ram_content bs h 1) (unat lba) (unat n)"
      by (auto simp: ram_ops_def ram_content_def [abs_def] sectors_bytes_at)
  next
    fix lba :: u64 and n :: u32 and h h' :: mem and st w data k
    assume "op_write (ram_ops bs) = Some w" "w lba n data h = (st, h')"
    then have h': "h' = store h (unat lba * bs) (take (unat n * bs) data)" by (auto simp: ram_ops_def)
    show "(ram_content bs h')(1 := \<lambda>_. []) = (ram_content bs h)(1 := \<lambda>_. []) \<and>
       (k < unat lba \<or> unat lba + unat n \<le> k \<longrightarrow> ram_content bs h' 1 k = ram_content bs h 1 k)"
      unfolding h' using oth out by blast
  next
    fix lba :: u64 and n :: u32 and h h' :: mem and w data
    assume "op_write (ram_ops bs) = Some w" "w lba n data h = (BLOCK_OK, h')" and len: "length data = unat n * bs"
    then have "h' = store h (unat lba * bs) data" by (auto simp: ram_ops_def)
    then show "sectors (ram_content bs h' 1) (unat lba) (unat n) = data"
      using len bytes_at_store [of h "unat lba * bs" data] by (simp add: ram_content_def [abs_def] sectors_bytes_at)
  qed (auto simp: ram_ops_def)
qed

lemma ram_honest: "bs = unat b \<Longrightarrow> honest (ram_content bs) (fresh_bdev name (ram_ops bs) b n 1)"
  unfolding honest_def by (simp add: fresh_bdev_def ram.disk_driver_axioms)

end
