(* ===== verification/Crc32.thy ===== *)
theory Crc32
  imports Prelude
begin

text \<open>
  \<^verbatim>\<open>kernel/core/crc32.c\<close>: the checksum of the partition tables, bit by bit. Feeding a buffer in
  pieces is feeding it whole; the published check value comes out; and any change confined to four
  consecutive bytes changes the checksum.
\<close>

section \<open>The code\<close>

definition POLY :: u32 where "POLY = 0xEDB88320"
definition CRC32_INIT :: u32 where "CRC32_INIT = 0xFFFFFFFF"

definition crc_bit :: "u32 \<Rightarrow> u32" where
  "crc_bit running = (if running AND 1 \<noteq> 0 then drop_bit 1 running XOR POLY else drop_bit 1 running)"

fun crc32_update :: "u32 \<Rightarrow> u8 list \<Rightarrow> u32" where
  "crc32_update running [] = running"
| "crc32_update running (b # data) = crc32_update ((crc_bit ^^ 8) (running XOR ucast b)) data"

definition crc32_final :: "u32 \<Rightarrow> u32" where
  "crc32_final running = running XOR 0xFFFFFFFF"

definition crc32 :: "u8 list \<Rightarrow> u32" where
  "crc32 data = crc32_final (crc32_update CRC32_INIT data)"

section \<open>Pieces\<close>

lemma crc32_update_append: "crc32_update r (xs @ ys) = crc32_update (crc32_update r xs) ys"
  by (induction xs arbitrary: r) simp_all

lemma xor_cancel [simp]: "(a :: 'a::len word) XOR c = b XOR c \<longleftrightarrow> a = b"
proof
  assume "a XOR c = b XOR c"
  then have "(a XOR c) XOR c = (b XOR c) XOR c" by simp
  then show "a = b" by (simp add: xor.assoc)
qed simp

lemma crc32_final_inject: "crc32_final a = crc32_final b \<longleftrightarrow> a = b"
  by (simp only: crc32_final_def xor_cancel)

section \<open>The step is linear and one-to-one\<close>

lemma bit_0_and: "(x :: u32) AND 1 \<noteq> 0 \<longleftrightarrow> bit x 0"
  by (simp add: and_one_eq bit_0 odd_iff_mod_2_eq_one)

lemma crc_bit_bit: "crc_bit x = (if bit x 0 then drop_bit 1 x XOR POLY else drop_bit 1 x)"
  by (simp only: crc_bit_def bit_0_and)

lemma drop_bit_xor_u32: "drop_bit n (a XOR b :: u32) = drop_bit n a XOR drop_bit n b"
  by (rule bit_word_eqI) (auto simp: bit_simps)

lemma crc_bit_xor: "crc_bit (a XOR b) = crc_bit a XOR crc_bit b"
  by (rule bit_word_eqI) (auto simp: crc_bit_bit drop_bit_xor_u32 bit_simps)

lemma crc_bit_0 [simp]: "crc_bit 0 = 0"
  by (simp add: crc_bit_def)

lemma crc_bit_eq_0: "crc_bit x = 0 \<Longrightarrow> x = 0"
proof (rule ccontr)
  assume z: "crc_bit x = 0" and "x \<noteq> 0"
  have "\<not> bit x 32" using bit_imp_le_length [of x 32] by auto
  then have top: "bit POLY 31" "\<not> bit (drop_bit 1 x) 31" by (simp_all add: POLY_def bit_drop_bit_eq)
  show False
  proof (cases "bit x 0")
    case True
    then have "bit (crc_bit x) 31" using top by (simp add: crc_bit_bit bit_simps)
    then show False using z by simp
  next
    case False
    then have d: "drop_bit 1 x = 0" using z by (simp add: crc_bit_bit)
    have "\<not> bit x n" for n
    proof (cases n)
      case (Suc m)
      then show ?thesis using arg_cong [OF d, of "\<lambda>w. bit w m"] by (simp add: bit_simps)
    qed (use False in simp)
    then have "x = 0" by (intro bit_word_eqI) simp
    then show False using \<open>x \<noteq> 0\<close> by simp
  qed
qed

lemma crc_bit_inject: "crc_bit a = crc_bit b \<longleftrightarrow> a = b"
proof
  assume "crc_bit a = crc_bit b"
  then have "crc_bit (a XOR b) = 0" by (simp add: crc_bit_xor)
  from crc_bit_eq_0 [OF this] have "a XOR b = b XOR b" by simp
  then show "a = b" by (simp only: xor_cancel)
qed simp

lemma crc_bits_xor: "(crc_bit ^^ n) (a XOR b) = (crc_bit ^^ n) a XOR (crc_bit ^^ n) b"
  by (induction n) (simp_all add: crc_bit_xor)

lemma crc_bits_inject: "(crc_bit ^^ n) a = (crc_bit ^^ n) b \<longleftrightarrow> a = b"
  by (induction n) (simp_all add: crc_bit_inject)

lemma crc32_update_inject: "crc32_update a xs = crc32_update b xs \<longleftrightarrow> a = b"
proof (induction xs arbitrary: a b)
  case (Cons x xs)
  show ?case by (simp add: Cons crc_bits_inject)
qed simp

section \<open>Four bytes at a time\<close>

fun le_word :: "u8 list \<Rightarrow> u32" where
  "le_word [] = 0"
| "le_word (b # bs) = ucast b XOR push_bit 8 (le_word bs)"

lemma push_bit_bit: "bit (push_bit k (y :: u32)) i \<longleftrightarrow> k \<le> i \<and> i < 32 \<and> bit y (i - k)"
  by (auto simp: bit_push_bit_iff)

lemma crc_bit_push: "\<not> bit y 31 \<Longrightarrow> crc_bit (push_bit 1 y) = y"
proof -
  assume y: "\<not> bit y 31"
  have "drop_bit 1 (push_bit 1 y) = y"
  proof (rule bit_word_eqI)
    fix n assume "n < LENGTH(32)"
    then show "bit (drop_bit 1 (push_bit 1 y)) n = bit y n"
      using y unfolding bit_drop_bit_eq comp_def push_bit_bit by (cases "n = 31") auto
  qed
  then show ?thesis unfolding crc_bit_bit push_bit_bit by simp
qed

lemma crc_bits_push:
  assumes "\<And>i. 32 - k \<le> i \<Longrightarrow> \<not> bit y i" "k \<le> 32"
  shows "(crc_bit ^^ k) (push_bit k y) = y"
  using assms
proof (induction k)
  case (Suc k)
  have p: "push_bit (Suc k) y = push_bit 1 (push_bit k y)" by simp
  have "\<not> bit (push_bit k y) 31" using Suc.prems(1) [of "31 - k"] Suc.prems(2) by (auto simp: push_bit_bit)
  then have c: "crc_bit (push_bit (Suc k) y) = push_bit k y" unfolding p by (rule crc_bit_push)
  have "(crc_bit ^^ Suc k) (push_bit (Suc k) y) = (crc_bit ^^ k) (crc_bit (push_bit (Suc k) y))" by (simp only: funpow_Suc_right comp_def)
  also have "\<dots> = y" unfolding c using Suc.prems by (intro Suc.IH) auto
  finally show ?case .
qed simp

lemma le_word_low: "8 * length bs \<le> i \<Longrightarrow> \<not> bit (le_word bs) i"
proof (induction bs arbitrary: i)
  case (Cons b bs)
  have "\<not> bit (ucast b :: u32) i" using Cons.prems bit_imp_le_length [of b i] by (auto simp: bit_ucast_iff)
  moreover have "\<not> bit (le_word bs) (i - 8)" using Cons.prems by (intro Cons.IH) simp
  ultimately show ?case by (simp add: bit_xor_iff push_bit_bit)
qed simp

text \<open>Up to four bytes are one exclusive or and as many turns.\<close>

lemma crc32_update_word:
  "length bs \<le> 4 \<Longrightarrow> crc32_update r bs = (crc_bit ^^ (8 * length bs)) (r XOR le_word bs)"
proof (induction bs arbitrary: r)
  case (Cons b bs)
  have n: "\<not> bit (le_word bs) i" if "32 - 8 \<le> i" for i using le_word_low [of bs i] Cons.prems that by simp
  have "crc32_update r (b # bs) = (crc_bit ^^ (8 * length bs)) ((crc_bit ^^ 8) (r XOR ucast b) XOR le_word bs)"
    using Cons by simp
  also have "(crc_bit ^^ 8) (r XOR ucast b) XOR le_word bs = (crc_bit ^^ 8) (r XOR ucast b XOR push_bit 8 (le_word bs))"
    by (simp only: crc_bits_xor crc_bits_push [of 8 "le_word bs", OF n, simplified] xor.assoc)
  also have "(crc_bit ^^ (8 * length bs)) \<dots> = (crc_bit ^^ (8 * length bs + 8)) (r XOR ucast b XOR push_bit 8 (le_word bs))"
    by (simp only: funpow_add comp_def)
  finally show ?case by (simp only: list.size le_word.simps xor.assoc mult_Suc_right add.commute Suc_eq_plus1 distrib_left mult_1_right mult_0_right add_0_right)
qed simp

lemma le_word_inject: "length xs = length ys \<Longrightarrow> length xs \<le> 4 \<Longrightarrow> le_word xs = le_word ys \<Longrightarrow> xs = ys"
proof (induction xs ys rule: list_induct2)
  case (Cons x xs y ys)
  have e: "bit (le_word (x # xs)) i = bit (le_word (y # ys)) i" for i using Cons.prems(2) by simp
  have "bit x i = bit y i" if "i < 8" for i
    using e [of i] that by (simp add: bit_xor_iff push_bit_bit bit_ucast_iff)
  then have "x = y" by (intro bit_word_eqI) simp
  have "bit (le_word xs) i = bit (le_word ys) i" if "i < 32" for i
  proof (cases "i < 24")
    case True
    have "\<not> bit x (i + 8)" "\<not> bit y (i + 8)" using bit_imp_le_length [of x "i + 8"] bit_imp_le_length [of y "i + 8"] by auto
    then show ?thesis using e [of "i + 8"] True by (simp add: bit_xor_iff push_bit_bit bit_ucast_iff)
  next
    case False
    then show ?thesis using le_word_low [of xs i] le_word_low [of ys i] Cons.prems(1) Cons.hyps by simp
  qed
  then have "le_word xs = le_word ys" by (intro bit_word_eqI) simp
  then show ?case using Cons \<open>x = y\<close> by simp
qed simp

lemma crc32_burst:
  assumes "length w = length w'" "length w \<le> 4" "w \<noteq> w'"
  shows "crc32 (pre @ w @ post) \<noteq> crc32 (pre @ w' @ post)"
proof
  assume "crc32 (pre @ w @ post) = crc32 (pre @ w' @ post)"
  then have "crc32_update (crc32_update CRC32_INIT pre) w = crc32_update (crc32_update CRC32_INIT pre) w'"
    by (simp only: crc32_def crc32_final_inject crc32_update_append crc32_update_inject)
  moreover have "crc32_update r w = (crc_bit ^^ (8 * length w)) (r XOR le_word w)"
    "crc32_update r w' = (crc_bit ^^ (8 * length w)) (r XOR le_word w')" for r
    by (rule crc32_update_word [OF assms(2)], unfold assms(1), rule crc32_update_word) (use assms(1,2) in linarith)
  ultimately have "crc32_update CRC32_INIT pre XOR le_word w = crc32_update CRC32_INIT pre XOR le_word w'"
    by (simp only: crc_bits_inject)
  then have "le_word w XOR crc32_update CRC32_INIT pre = le_word w' XOR crc32_update CRC32_INIT pre"
    by (simp only: xor.commute)
  then have "le_word w = le_word w'" by (simp only: xor_cancel)
  from le_word_inject [OF assms(1,2) this] show False using assms(3) by simp
qed

text \<open>C40: a change confined to at most four consecutive bytes always changes the checksum, whatever
  surrounds it.\<close>

theorem crc32_detects_burst:
  assumes "length w = length w'" "length w \<le> 4" "w \<noteq> w'"
  shows "crc32 (pre @ w @ post) \<noteq> crc32 (pre @ w' @ post)"
  by (rule crc32_burst [OF assms])

theorem crc32_detects_burst_witness:
  "crc32 ([1, 2] @ [3, 4, 5, 6] @ [7]) \<noteq> crc32 ([1, 2] @ [9, 9, 5, 9] @ [7])"
  by (rule crc32_detects_burst) simp_all

text \<open>The check value the specification publishes, over the digits one to nine.\<close>

lemma crc_bit_8: "(crc_bit ^^ 8) x = crc_bit (crc_bit (crc_bit (crc_bit (crc_bit (crc_bit (crc_bit (crc_bit x)))))))"
  by (simp add: eval_nat_numeral)

lemma crc32_check_value: "crc32 [49, 50, 51, 52, 53, 54, 55, 56, 57] = 0xCBF43926"
  by (simp add: crc32_def CRC32_INIT_def crc32_final_def crc_bit_8 crc_bit_def POLY_def)

end
