(* ===== verification/Partition.thy ===== *)
theory Partition
  imports Storage_Runs Crc32
begin

text \<open>
  \<^verbatim>\<open>kernel/core/partition.c\<close>: reading a disk's partition table, the master boot record with its
  chain of logical partitions or the GUID partition table with its backup, and registering a slice
  for each partition. Every number in a table is whatever the disk holds.

  A page the allocator gave is the list of its bytes, all zero at first; a pointer into it is an
  offset. A read of blocks overwrites its front.
\<close>

section \<open>Numbers in a buffer\<close>

definition le16 :: "u8 list \<Rightarrow> nat \<Rightarrow> u16" where
  "le16 p i = ucast (p ! i) OR push_bit 8 (ucast (p ! (i + 1)))"

definition le32 :: "u8 list \<Rightarrow> nat \<Rightarrow> u32" where
  "le32 p i = ucast (p ! i) OR push_bit 8 (ucast (p ! (i + 1))) OR push_bit 16 (ucast (p ! (i + 2))) OR push_bit 24 (ucast (p ! (i + 3)))"

definition le64 :: "u8 list \<Rightarrow> nat \<Rightarrow> u64" where
  "le64 p i = ucast (le32 p i) OR push_bit 32 (ucast (le32 p (i + 4)))"

definition all_zero :: "u8 list \<Rightarrow> nat \<Rightarrow> nat \<Rightarrow> bool" where
  "all_zero p i n = list_all (\<lambda>x. x = 0) (slice_of i n p)"

text \<open>\<^verbatim>\<open>block_read\<close> into a page.\<close>

definition page_read :: "nat \<Rightarrow> u64 \<Rightarrow> u32 \<Rightarrow> u8 list \<Rightarrow> 'hw storage \<Rightarrow> block_status \<times> u8 list \<times> 'hw storage" where
  "page_read d lba n page s =
     (case block_read (Some d) lba n (Some (take (unat n * unat (bd_block_size (the_bdev s d))) page)) s of
        (st, b, s1) \<Rightarrow> (st, overlay 0 b page, s1))"

text \<open>Pages given back.\<close>

definition pages_back :: "paddr \<Rightarrow> nat \<Rightarrow> 'hw storage \<Rightarrow> 'hw storage" where
  "pages_back at n s = (case pmm_free_pages at n (st_pages s) of Inl msg \<Rightarrow> st_panics msg s | Inr p \<Rightarrow> s\<lparr>st_pages := p\<rparr>)"

section \<open>The master boot record\<close>

definition MBR_TABLE_OFFSET :: nat where "MBR_TABLE_OFFSET = 446"
definition MBR_ENTRY_SIZE :: nat where "MBR_ENTRY_SIZE = 16"
definition MBR_SIGNATURE_OFFSET :: nat where "MBR_SIGNATURE_OFFSET = 510"
definition MBR_TYPE_EMPTY :: u8 where "MBR_TYPE_EMPTY = 0"
definition MBR_TYPE_PROTECTIVE :: u8 where "MBR_TYPE_PROTECTIVE = 0xEE"

definition is_extended :: "u8 \<Rightarrow> bool" where
  "is_extended type = (type = 0x05 \<or> type = 0x0F \<or> type = 0x85)"

text \<open>The partition a link describes: whether the walk goes on, and the next number.\<close>

definition link_partition :: "nat \<Rightarrow> u64 \<Rightarrow> u8 \<Rightarrow> u8 list \<Rightarrow> 'hw storage \<Rightarrow> bool \<times> u8 \<times> 'hw storage" where
  "link_partition d link index block s =
     (let e0 = MBR_TABLE_OFFSET; start = ucast (le32 block (e0 + 8)); count = ucast (le32 block (e0 + 12)) in
      if block ! (e0 + 4) \<noteq> MBR_TYPE_EMPTY \<and> count \<noteq> 0
      then (case block_register_slice (Some d) index (link + start) count BLOCK_SCHEME_MBR s of
              (None, s1) \<Rightarrow> (False, index, s1) | (Some _, s1) \<Rightarrow> (True, index + 1, s1))
      else (True, index, s))"

text \<open>\<^verbatim>\<open>walk_extended\<close> at one link, with the turns its guard leaves.\<close>

fun walk_extended :: "nat \<Rightarrow> nat \<Rightarrow> u64 \<Rightarrow> u64 \<Rightarrow> u64 \<Rightarrow> u8 \<Rightarrow> u8 list \<Rightarrow> 'hw storage \<Rightarrow> u8 list \<times> 'hw storage" where
  "walk_extended 0 d container_lba container_count link index block s = (block, s)"
| "walk_extended (Suc guard) d container_lba container_count link index block s =
     (if link < container_lba \<or> link - container_lba \<ge> container_count then (block, s)
      else case page_read d link 1 block s of (st, blk, s1) \<Rightarrow>
        if st \<noteq> BLOCK_OK then (blk, s1)
        else if le16 blk MBR_SIGNATURE_OFFSET \<noteq> 0xAA55 then (blk, s1)
        else case link_partition d link index blk s1 of (made, index1, s2) \<Rightarrow>
          let e1 = MBR_TABLE_OFFSET + MBR_ENTRY_SIZE; nxt = container_lba + ucast (le32 blk (e1 + 8)) in
          if \<not> made then (blk, s2)
          else if \<not> is_extended (blk ! (e1 + 4)) then (blk, s2)
          else if nxt \<le> link then (blk, s2)
          else walk_extended guard d container_lba container_count nxt index1 blk s2)"

definition mbr_primary :: "nat \<Rightarrow> u8 list \<Rightarrow> nat \<Rightarrow> 'hw storage \<Rightarrow> 'hw storage" where
  "mbr_primary d block i s =
     (let e = MBR_TABLE_OFFSET + i * MBR_ENTRY_SIZE; type = block ! (e + 4);
          start = ucast (le32 block (e + 8)); count = ucast (le32 block (e + 12)) in
      if type = MBR_TYPE_EMPTY \<or> count = 0 then s
      else if is_extended type then s
      else snd (block_register_slice (Some d) (of_nat (i + 1)) start count BLOCK_SCHEME_MBR s))"

definition read_mbr :: "nat \<Rightarrow> u8 list \<Rightarrow> 'hw storage \<Rightarrow> bool \<times> u8 list \<times> 'hw storage" where
  "read_mbr d block s =
     (case page_read d 0 1 block s of (st, blk, s1) \<Rightarrow>
        if st \<noteq> BLOCK_OK then (False, blk, s1)
        else if le16 blk MBR_SIGNATURE_OFFSET \<noteq> 0xAA55 then (False, blk, s1)
        else let s2 = fold (mbr_primary d blk) [0..<4] s1 in
          case find (\<lambda>i. is_extended (blk ! (MBR_TABLE_OFFSET + i * MBR_ENTRY_SIZE + 4))) [0..<4] of
            None \<Rightarrow> (True, blk, s2)
          | Some i \<Rightarrow> let e = MBR_TABLE_OFFSET + i * MBR_ENTRY_SIZE; container = ucast (le32 blk (e + 8)) in
              (case walk_extended (BLOCK_MAX_SLICES + 8) d container (ucast (le32 blk (e + 12))) container 5 blk s2 of
                 (blk2, s3) \<Rightarrow> (True, blk2, s3)))"

definition has_protective_entry :: "u8 list \<Rightarrow> bool" where
  "has_protective_entry block = list_ex (\<lambda>i. block ! (MBR_TABLE_OFFSET + i * MBR_ENTRY_SIZE + 4) = MBR_TYPE_PROTECTIVE) [0..<4]"

section \<open>The GUID partition table\<close>

definition GPT_SIGNATURE_0 :: u32 where "GPT_SIGNATURE_0 = 0x20494645"
definition GPT_SIGNATURE_1 :: u32 where "GPT_SIGNATURE_1 = 0x54524150"
definition GPT_HEADER_SIZE :: nat where "GPT_HEADER_SIZE = 0x0C"
definition GPT_HEADER_CRC :: nat where "GPT_HEADER_CRC = 0x10"
definition GPT_MY_LBA :: nat where "GPT_MY_LBA = 0x18"
definition GPT_ENTRIES_LBA :: nat where "GPT_ENTRIES_LBA = 0x48"
definition GPT_ENTRY_COUNT :: nat where "GPT_ENTRY_COUNT = 0x50"
definition GPT_ENTRY_SIZE :: nat where "GPT_ENTRY_SIZE = 0x54"
definition GPT_ENTRIES_CRC :: nat where "GPT_ENTRIES_CRC = 0x58"
definition GPT_ENTRY_FIRST :: nat where "GPT_ENTRY_FIRST = 0x20"
definition GPT_ENTRY_LAST :: nat where "GPT_ENTRY_LAST = 0x28"
definition GPT_MAX_ENTRIES :: u32 where "GPT_MAX_ENTRIES = 512"
definition GPT_MAX_ENTRY_SIZE :: u32 where "GPT_MAX_ENTRY_SIZE = 512"

text \<open>\<^verbatim>\<open>header_ok\<close>: where the entries are, how many, how far apart, and their checksum.\<close>

definition header_ok :: "u8 list \<Rightarrow> u32 \<Rightarrow> u64 \<Rightarrow> (u64 \<times> u32 \<times> u32 \<times> u32) option" where
  "header_ok hdr block_size at =
     (if le32 hdr 0 \<noteq> GPT_SIGNATURE_0 \<or> le32 hdr 4 \<noteq> GPT_SIGNATURE_1 then None
      else let header_size = le32 hdr GPT_HEADER_SIZE in
        if header_size < 92 \<or> header_size > block_size then None
        else if le64 hdr GPT_MY_LBA \<noteq> at then None
        else let running = crc32_update CRC32_INIT (take GPT_HEADER_CRC hdr);
                 running = crc32_update running [0, 0, 0, 0];
                 running = crc32_update running (slice_of (GPT_HEADER_CRC + 4) (unat header_size - (GPT_HEADER_CRC + 4)) hdr)
             in if crc32_final running \<noteq> le32 hdr GPT_HEADER_CRC then None
                else let count = le32 hdr GPT_ENTRY_COUNT; stride = le32 hdr GPT_ENTRY_SIZE in
                  if stride < 128 \<or> stride > GPT_MAX_ENTRY_SIZE then None
                  else if count = 0 \<or> count > GPT_MAX_ENTRIES then None
                  else Some (le64 hdr GPT_ENTRIES_LBA, count, stride, le32 hdr GPT_ENTRIES_CRC))"

text \<open>The loop over the entries; it breaks off where a slice cannot be registered.\<close>

fun gpt_register :: "nat \<Rightarrow> u8 list \<Rightarrow> nat \<Rightarrow> nat list \<Rightarrow> 'hw storage \<Rightarrow> 'hw storage" where
  "gpt_register d entries stride [] s = s"
| "gpt_register d entries stride (i # rest) s =
     (let e = i * stride in
      if all_zero entries e 16 then gpt_register d entries stride rest s
      else let first = le64 entries (e + GPT_ENTRY_FIRST); final = le64 entries (e + GPT_ENTRY_LAST) in
        if final < first then gpt_register d entries stride rest s
        else case block_register_slice (Some d) (of_nat (i + 1)) first (final - first + 1) BLOCK_SCHEME_GPT s of
            (None, s1) \<Rightarrow> s1
          | (Some _, s1) \<Rightarrow> gpt_register d entries stride rest s1)"

text \<open>\<^verbatim>\<open>read_gpt\<close> after a header was accepted.\<close>

definition pages_for :: "u64 \<Rightarrow> nat" where
  "pages_for entry_bytes = unat ((entry_bytes + of_nat PAGE_SIZE - 1) div of_nat PAGE_SIZE)"

definition read_entries :: "nat \<Rightarrow> u64 \<Rightarrow> u32 \<Rightarrow> u32 \<Rightarrow> u32 \<Rightarrow> 'hw storage \<Rightarrow> bool \<times> 'hw storage" where
  "read_entries d entries_lba count stride entries_crc s =
     (let D = the_bdev s d; entry_bytes = ucast count * ucast stride;
          entry_blocks = (entry_bytes + ucast (bd_block_size D) - 1) div ucast (bd_block_size D) in
      if entries_lba \<ge> bd_block_count D \<or> entry_blocks > bd_block_count D - entries_lba then (False, s)
      else let n = pages_for entry_bytes; (at, p) = pmm_alloc_pages n (st_pages s); s1 = s\<lparr>st_pages := p\<rparr> in
        if at = 0 then (False, s1)
        else case page_read d entries_lba (ucast entry_blocks) (replicate (n * PAGE_SIZE) 0) s1 of (st, entries, s2) \<Rightarrow>
          if st \<noteq> BLOCK_OK then (False, pages_back at n s2)
          else if crc32 (take (unat entry_bytes) entries) \<noteq> entries_crc then (False, pages_back at n s2)
          else (True, pages_back at n (gpt_register d entries (unat stride) [0..<unat count] s2)))"

definition read_gpt :: "nat \<Rightarrow> u8 list \<Rightarrow> 'hw storage \<Rightarrow> bool \<times> u8 list \<times> 'hw storage" where
  "read_gpt d block s =
     (case page_read d 1 1 block s of (st, blk1, s1) \<Rightarrow>
        let bs = bd_block_size (the_bdev s d); final = bd_block_count (the_bdev s d) - 1;
            (hdr, blk, s2) = (case (if st = BLOCK_OK then header_ok blk1 bs 1 else None) of
                Some h \<Rightarrow> (Some h, blk1, s1)
              | None \<Rightarrow>
                  if bd_block_count (the_bdev s d) \<noteq> 0
                  then (case page_read d final 1 blk1 s1 of (st2, blk2, s2) \<Rightarrow>
                          (if st2 = BLOCK_OK then header_ok blk2 bs final else None, blk2, s2))
                  else (None, blk1, s1))
        in case hdr of None \<Rightarrow> (False, blk, s2)
           | Some (entries_lba, count, stride, entries_crc) \<Rightarrow>
               (case read_entries d entries_lba count stride entries_crc s2 of (ok, s3) \<Rightarrow> (ok, blk, s3)))"

section \<open>The scan\<close>

definition set_scheme :: "nat \<Rightarrow> block_scheme \<Rightarrow> 'hw storage \<Rightarrow> 'hw storage" where
  "set_scheme d sch = upd_bdev d (\<lambda>b. b\<lparr>bd_scheme := sch\<rparr>)"

text \<open>\<^verbatim>\<open>partition_scan\<close> once it has its page.\<close>

definition scan_page :: "nat \<Rightarrow> u8 list \<Rightarrow> 'hw storage \<Rightarrow> 'hw storage" where
  "scan_page d block s =
     (case page_read d 0 1 block s of (st, blk, s1) \<Rightarrow>
        if st \<noteq> BLOCK_OK then s1
        else if le16 blk MBR_SIGNATURE_OFFSET \<noteq> 0xAA55 then set_scheme d BLOCK_SCHEME_NONE s1
        else if has_protective_entry blk
        then (case read_gpt d blk s1 of (ok, _, s2) \<Rightarrow> set_scheme d (if ok then BLOCK_SCHEME_GPT else BLOCK_SCHEME_UNREADABLE) s2)
        else case read_gpt d blk s1 of (ok, blk2, s2) \<Rightarrow>
          if ok then set_scheme d BLOCK_SCHEME_GPT s2
          else case read_mbr d blk2 s2 of (ok2, _, s3) \<Rightarrow>
            if ok2 then set_scheme d (if bd_slice_count (the_bdev s3 d) \<noteq> 0 then BLOCK_SCHEME_MBR else BLOCK_SCHEME_NONE) s3
            else s3)"

definition partition_scan :: "nat option \<Rightarrow> 'hw storage \<Rightarrow> 'hw storage" where
  "partition_scan dev s =
     (case dev of None \<Rightarrow> s | Some d \<Rightarrow>
        if \<not> bd_present (the_bdev s d) \<or> bd_parent (the_bdev s d) \<noteq> 0 then s
        else let s1 = set_scheme d BLOCK_SCHEME_NONE s in
          if bd_block_size (the_bdev s d) > of_nat PAGE_SIZE \<or> bd_block_count (the_bdev s d) < 2 then s1
          else let (page, p) = pmm_alloc_page (st_pages s1); s2 = s1\<lparr>st_pages := p\<rparr> in
            if page = 0 then s2
            else pages_back page 1 (scan_page d (replicate PAGE_SIZE 0) s2))"

end
