(* ===== verification/Gpt_Write.thy ===== *)
theory Gpt_Write
  imports Partition
begin

text \<open>
  \<^verbatim>\<open>kernel/core/install_gpt.c\<close>: adding partitions to a disk's GUID partition table, or making the
  table of a blank disk. The three answers of the kernel's heap are arguments, and so is the clock,
  as the time read when the counter of identifiers has a given value.

  The array of entries is an allocation of exactly \<open>entry_count * entry_size\<close> bytes. Where the code
  hands the block layer more sectors than that allocation holds, it reads or writes outside it; the
  model stops there with a panic, since nothing is known of what follows.
\<close>

section \<open>Bytes\<close>

definition bytes32 :: "u32 \<Rightarrow> u8 list" where
  "bytes32 v = [ucast v, ucast (drop_bit 8 v), ucast (drop_bit 16 v), ucast (drop_bit 24 v)]"

definition put32 :: "nat \<Rightarrow> u32 \<Rightarrow> u8 list \<Rightarrow> u8 list" where
  "put32 at v p = overlay at (bytes32 v) p"

definition put64 :: "nat \<Rightarrow> u64 \<Rightarrow> u8 list \<Rightarrow> u8 list" where
  "put64 at v p = put32 (at + 4) (ucast (drop_bit 32 v)) (put32 at (ucast v) p)"

definition type_esp :: "u8 list" where
  "type_esp = [0x28, 0x73, 0x2A, 0xC1, 0x1F, 0xF8, 0xD2, 0x11, 0xBA, 0x4B, 0x00, 0xA0, 0xC9, 0x3E, 0xC9, 0x3B]"

definition type_reconos :: "u8 list" where
  "type_reconos = [0x52, 0x65, 0x63, 0x6F, 0x6E, 0x4F, 0x53, 0x00, 0x53, 0x79, 0x73, 0x74, 0x65, 0x6D, 0x00, 0x01]"

definition type_bios_boot :: "u8 list" where
  "type_bios_boot = [0x48, 0x61, 0x68, 0x21, 0x49, 0x64, 0x6F, 0x6E, 0x74, 0x4E, 0x65, 0x65, 0x64, 0x45, 0x46, 0x49]"

section \<open>Identifiers\<close>

definition mix :: "u64 \<Rightarrow> u64" where
  "mix x = (let x = x XOR drop_bit 33 x; x = x * 0xFF51AFD7ED558CCD; x = x XOR drop_bit 33 x;
              x = x * 0xC4CEB9FE1A85EC53 in x XOR drop_bit 33 x)"

definition name_hash :: "string \<Rightarrow> u64" where
  "name_hash n = fold (\<lambda>c h. (h XOR of_nat (of_char c)) * 0x100000001B3) n 0xCBF29CE484222325"

definition make_guid :: "(u64 \<Rightarrow> u64) \<Rightarrow> 'hw block_device \<Rightarrow> u64 \<Rightarrow> u8 list \<times> u64" where
  "make_guid clock disk counter =
     (let counter = counter + 1;
          a = mix (name_hash (bd_name disk) XOR (bd_block_count disk * 0x9E3779B97F4A7C15));
          b = mix (clock counter XOR (counter * 0xD6E8FEB86659FD93));
          out = put64 8 b (put64 0 a (replicate 16 0));
          out = out[7 := (out ! 7 AND 0x0F) OR 0x40]
      in (out[8 := (out ! 8 AND 0x3F) OR 0x80], counter))"

section \<open>The table\<close>

definition protective_mbr :: "u8 list \<Rightarrow> u64 \<Rightarrow> u8 list" where
  "protective_mbr sector blocks =
     (let span = blocks - 1; s = overlay 0 (replicate 512 0) sector;
          s = s[446 + 4 := 0xEE];
          s = put32 (446 + 8) 1 s;
          s = put32 (446 + 12) (if span > 0xFFFFFFFF then 0xFFFFFFFF else ucast span) s;
          s = s[446 + 1 := 0, 446 + 2 := 2, 446 + 3 := 0, 446 + 5 := 0xFF, 446 + 6 := 0xFF, 446 + 7 := 0xFF]
      in s[510 := 0x55, 511 := 0xAA])"

record gpt_table =
  gt_entry_count :: u32
  gt_entry_size :: u32
  gt_first_usable :: u64
  gt_last_usable :: u64
  gt_entry_lba :: u64
  gt_disk_guid :: "u8 list"
  gt_entries :: "u8 list"

datatype install_verdict = INSTALL_OK | INSTALL_NO_TABLE_READABLE | INSTALL_NOT_GPT | INSTALL_NO_ROOM_SYSTEM
  | INSTALL_NO_ROOM_PROGRAMS | INSTALL_NO_ROOM_ESP | INSTALL_ESP_TOO_FULL | INSTALL_TOO_MANY_SLICES | INSTALL_IO

record plan_record =
  pl_verdict :: install_verdict
  pl_fresh_table :: bool
  pl_reuse_esp :: bool
  pl_reuse_esp_index :: u8
  pl_reuse_esp_free_blocks :: u64
  pl_esp :: "u64 \<times> u64"
  pl_system :: "u64 \<times> u64"
  pl_programs :: "u64 \<times> u64"
  pl_bios_boot :: "u64 \<times> u64"
  pl_untouched_slices :: nat
  pl_untouched_blocks :: u64

definition entries_bytes :: "gpt_table \<Rightarrow> nat" where
  "entries_bytes t = unat (gt_entry_count t) * unat (gt_entry_size t)"

text \<open>The sectors the code moves for the array of entries; a size of zero or more than a block is
  refused before.\<close>

definition entry_sectors :: "u32 \<Rightarrow> u32 \<Rightarrow> u32 \<Rightarrow> u32" where
  "entry_sectors block_size entry_count entry_size =
     (let per = block_size div entry_size in (entry_count + per - 1) div per)"

definition kzalloc :: "bool \<Rightarrow> nat \<Rightarrow> u8 list option" where
  "kzalloc granted n = (if granted then Some (replicate n 0) else None)"

text \<open>\<^verbatim>\<open>load_table\<close>: the verdict, the table, the counter of identifiers and the state.\<close>

definition fresh_entries :: gpt_table where
  "fresh_entries = \<lparr>gt_entry_count = 128, gt_entry_size = 128, gt_first_usable = 0, gt_last_usable = 0, gt_entry_lba = 2,
     gt_disk_guid = replicate 16 0, gt_entries = []\<rparr>"

definition table_of_header :: "u8 list \<Rightarrow> gpt_table" where
  "table_of_header sector = \<lparr>gt_entry_count = le32 sector 80, gt_entry_size = le32 sector 84,
     gt_first_usable = le64 sector 40, gt_last_usable = le64 sector 48, gt_entry_lba = le64 sector 72,
     gt_disk_guid = slice_of 56 16 sector, gt_entries = []\<rparr>"

definition load_table :: "(u64 \<Rightarrow> u64) \<Rightarrow> bool \<Rightarrow> bool \<Rightarrow> nat \<Rightarrow> bool \<Rightarrow> u64 \<Rightarrow> 'hw storage
    \<Rightarrow> install_verdict \<times> gpt_table \<times> u64 \<times> 'hw storage" where
  "load_table clock mem_sector mem_entries d fresh counter s =
     (let D = the_bdev s d in
      if fresh
      then (case kzalloc mem_entries (entries_bytes fresh_entries) of
              None \<Rightarrow> (INSTALL_IO, fresh_entries, counter, s)
            | Some buf \<Rightarrow>
                let (guid, counter1) = make_guid clock D counter in
                (INSTALL_OK, fresh_entries\<lparr>gt_first_usable := 34, gt_last_usable := bd_block_count D - 34,
                   gt_disk_guid := guid, gt_entries := buf\<rparr>, counter1, s))
      else case kzalloc mem_sector (unat (bd_block_size D)) of None \<Rightarrow> (INSTALL_IO, fresh_entries, counter, s)
      | Some sector0 \<Rightarrow>
        (case block_read (Some d) 1 1 (Some sector0) s of (st, sector, s1) \<Rightarrow>
          if st \<noteq> BLOCK_OK then (INSTALL_IO, fresh_entries, counter, s1)
          else let t = table_of_header sector in
            if gt_entry_count t = 0 \<or> gt_entry_count t > 128 \<or> gt_entry_size t < 128 \<or> gt_entry_size t > bd_block_size D
            then (INSTALL_NO_TABLE_READABLE, t, counter, s1)
            else case kzalloc mem_entries (entries_bytes t) of None \<Rightarrow> (INSTALL_IO, t, counter, s1)
            | Some buf \<Rightarrow>
                let sectors = entry_sectors (bd_block_size D) (gt_entry_count t) (gt_entry_size t);
                    moved = unat sectors * unat (bd_block_size D) in
                if moved > entries_bytes t
                then (INSTALL_IO, t, counter, st_panics ''write past the end of the array of entries'' s1)
                else (case block_read (Some d) (gt_entry_lba t) sectors (Some (take moved buf)) s1 of (st2, part, s2) \<Rightarrow>
                  if st2 \<noteq> BLOCK_OK then (INSTALL_IO, t, counter, s2)
                  else (INSTALL_OK, t\<lparr>gt_entries := overlay 0 part buf\<rparr>, counter, s2))))"

text \<open>The first entry without a type.\<close>

definition free_slot :: "gpt_table \<Rightarrow> nat option" where
  "free_slot t = find (\<lambda>i. all_zero (gt_entries t) (i * unat (gt_entry_size t)) 16) [0..<unat (gt_entry_count t)]"

definition entry_name :: "string \<Rightarrow> u8 list" where
  "entry_name name = concat (map (\<lambda>c. [of_nat (of_char c), 0]) (take 35 name))"

definition fill_entry_at :: "nat \<Rightarrow> u8 list \<Rightarrow> u8 list \<Rightarrow> u64 \<Rightarrow> u64 \<Rightarrow> string \<Rightarrow> u8 list \<Rightarrow> u8 list" where
  "fill_entry_at e type guid first count name p =
     (let p = overlay e (replicate 128 0) p; p = overlay e type p; p = overlay (e + 16) guid p;
          p = put64 (e + 32) first p; p = put64 (e + 40) (first + count - 1) p
      in overlay (e + 56) (entry_name name) p)"

text \<open>One partition put into the table: a free slot is found, an identifier made, the entry filled.\<close>

definition add_entry :: "(u64 \<Rightarrow> u64) \<Rightarrow> 'hw block_device \<Rightarrow> u8 list \<Rightarrow> u64 \<times> u64 \<Rightarrow> string \<Rightarrow> gpt_table \<Rightarrow> u64 \<Rightarrow> bool \<times> gpt_table \<times> u64" where
  "add_entry clock disk type extent name t counter =
     (case free_slot t of None \<Rightarrow> (False, t, counter)
      | Some i \<Rightarrow> (case make_guid clock disk counter of (guid, counter1) \<Rightarrow>
          (True, t\<lparr>gt_entries := fill_entry_at (i * unat (gt_entry_size t)) type guid (fst extent) (snd extent) name (gt_entries t)\<rparr>, counter1)))"

definition build_header :: "u8 list \<Rightarrow> gpt_table \<Rightarrow> u64 \<Rightarrow> u64 \<Rightarrow> u64 \<Rightarrow> u32 \<Rightarrow> u8 list" where
  "build_header sector t my_lba alt_lba entry_lba entries_crc =
     (let s = replicate (length sector) 0;
          s = overlay 0 [0x45, 0x46, 0x49, 0x20, 0x50, 0x41, 0x52, 0x54] s;
          s = put32 8 0x00010000 s; s = put32 12 92 s;
          s = put64 24 my_lba s; s = put64 32 alt_lba s;
          s = put64 40 (gt_first_usable t) s; s = put64 48 (gt_last_usable t) s;
          s = overlay 56 (gt_disk_guid t) s;
          s = put64 72 entry_lba s; s = put32 80 (gt_entry_count t) s; s = put32 84 (gt_entry_size t) s;
          s = put32 88 entries_crc s;
          s = put32 16 0 s
      in put32 16 (crc32 (take 92 s)) s)"

text \<open>The partitions of the plan, in the order the code adds them.\<close>

definition plan_entries :: "plan_record \<Rightarrow> (u8 list \<times> (u64 \<times> u64) \<times> string) list" where
  "plan_entries plan =
     (if snd (pl_bios_boot plan) \<noteq> 0 then [(type_bios_boot, pl_bios_boot plan, ''BIOS boot'')] else []) @
     (if \<not> pl_reuse_esp plan then [(type_esp, pl_esp plan, ''ReconOS Boot'')] else []) @
     [(type_reconos, pl_system plan, ''ReconOS System''), (type_reconos, pl_programs plan, ''ReconOS Programs'')]"

fun add_entries :: "(u64 \<Rightarrow> u64) \<Rightarrow> 'hw block_device \<Rightarrow> (u8 list \<times> (u64 \<times> u64) \<times> string) list \<Rightarrow> gpt_table \<Rightarrow> u64 \<Rightarrow> bool \<times> gpt_table \<times> u64" where
  "add_entries clock disk [] t counter = (True, t, counter)"
| "add_entries clock disk ((type, extent, name) # rest) t counter =
     (case add_entry clock disk type extent name t counter of (ok, t1, counter1) \<Rightarrow>
        if ok then add_entries clock disk rest t1 counter1 else (False, t1, counter1))"

section \<open>Writing\<close>

text \<open>The six writes and flushes in their order, each ending the installation when it fails. The list
  of steps is cut short by a failure, or by the power.\<close>

definition write_step :: "nat \<Rightarrow> u64 \<Rightarrow> u32 \<Rightarrow> u8 list \<Rightarrow> 'hw storage \<Rightarrow> block_status \<times> 'hw storage" where
  "write_step d lba n bytes s = block_write (Some d) lba n (Some bytes) s"

fun run_steps :: "('hw storage \<Rightarrow> block_status \<times> 'hw storage) list \<Rightarrow> 'hw storage \<Rightarrow> block_status \<times> 'hw storage" where
  "run_steps [] s = (BLOCK_OK, s)"
| "run_steps (f # fs) s = (case f s of (st, s1) \<Rightarrow> if st \<noteq> BLOCK_OK then (st, s1) else run_steps fs s1)"

definition table_steps :: "nat \<Rightarrow> 'hw block_device \<Rightarrow> bool \<Rightarrow> gpt_table \<Rightarrow> ('hw storage \<Rightarrow> block_status \<times> 'hw storage) list" where
  "table_steps d D fresh t =
     (let sector = replicate (unat (bd_block_size D)) 0; entries_crc = crc32 (gt_entries t);
          sectors = entry_sectors (bd_block_size D) (gt_entry_count t) (gt_entry_size t);
          final = bd_block_count D - 1; backup_entry_lba = final - ucast sectors;
          sector1 = (if fresh then protective_mbr sector (bd_block_count D) else sector)
      in (if fresh then [write_step d 0 1 sector1] else []) @
         [write_step d (gt_entry_lba t) sectors (gt_entries t),
          write_step d 1 1 (build_header sector1 t 1 final (gt_entry_lba t) entries_crc),
          block_flush (Some d),
          write_step d backup_entry_lba sectors (gt_entries t),
          write_step d final 1 (build_header sector1 t final 1 backup_entry_lba entries_crc),
          block_flush (Some d)])"

text \<open>\<^verbatim>\<open>install_write_gpt\<close> after the disk was claimed.\<close>

definition write_table :: "(u64 \<Rightarrow> u64) \<Rightarrow> bool \<Rightarrow> bool \<Rightarrow> bool \<Rightarrow> nat \<Rightarrow> plan_record \<Rightarrow> u64 \<Rightarrow> 'hw storage \<Rightarrow> install_verdict \<times> u64 \<times> 'hw storage" where
  "write_table clock mem_load mem_entries mem_sector d plan counter s =
     (case load_table clock mem_load mem_entries d (pl_fresh_table plan) counter s of (v, t, counter1, s1) \<Rightarrow>
        if v \<noteq> INSTALL_OK then (v, counter1, s1)
        else if \<not> mem_sector then (INSTALL_IO, counter1, s1)
        else case add_entries clock (the_bdev s d) (plan_entries plan) t counter1 of (ok, t2, counter2) \<Rightarrow>
          let bs = bd_block_size (the_bdev s d) in
          if \<not> ok then (INSTALL_TOO_MANY_SLICES, counter2, s1)
          else if bs div gt_entry_size t2 = 0 then (INSTALL_IO, counter2, st_panics ''division by zero'' s1)
          else if unat (entry_sectors bs (gt_entry_count t2) (gt_entry_size t2)) * unat bs > entries_bytes t2
          then (INSTALL_IO, counter2, st_panics ''read past the end of the array of entries'' s1)
          else if pl_fresh_table plan \<and> bs < 512 then (INSTALL_IO, counter2, st_panics ''write past the end of a sector'' s1)
          else case run_steps (table_steps d (the_bdev s d) (pl_fresh_table plan) t2) s1 of (st, s2) \<Rightarrow>
            (if st = BLOCK_OK then INSTALL_OK else INSTALL_IO, counter2, s2))"

definition install_write_gpt :: "(u64 \<Rightarrow> u64) \<Rightarrow> bool \<Rightarrow> bool \<Rightarrow> bool \<Rightarrow> bool \<Rightarrow> nat \<Rightarrow> plan_record \<Rightarrow> u64 \<Rightarrow> 'hw storage
    \<Rightarrow> install_verdict \<times> u64 \<times> 'hw storage" where
  "install_write_gpt clock capable mem_load mem_entries mem_sector d plan counter s =
     (if pl_verdict plan \<noteq> INSTALL_OK then (pl_verdict plan, counter, s)
      else case block_claim_raw capable (Some d) s of (st, s1) \<Rightarrow>
        if st \<noteq> BLOCK_OK then (INSTALL_IO, counter, s1)
        else case write_table clock mem_load mem_entries mem_sector d plan counter s1 of
          (v, counter1, s2) \<Rightarrow> (v, counter1, block_release_raw (Some d) s2))"

end
