(* ===== verification/Gpt_Bytes.thy ===== *)
theory Gpt_Bytes
  imports Gpt_Write
begin

text \<open>
  What the writer of the table puts, the reader of the table gets: numbers, headers and entries.
\<close>

section \<open>Numbers\<close>

lemma length_bytes32 [simp]: "length (bytes32 v) = 4"
  by (simp add: bytes32_def)

lemma u8_cases: "(k :: nat) < 32 \<Longrightarrow> k < 8 \<or> 8 \<le> k \<and> k < 16 \<or> 16 \<le> k \<and> k < 24 \<or> 24 \<le> k"
  by linarith

lemma le32_bytes32:
  assumes "p ! i = bytes32 v ! 0" "p ! (i + 1) = bytes32 v ! 1" "p ! (i + 2) = bytes32 v ! 2" "p ! (i + 3) = bytes32 v ! 3"
  shows "le32 p i = v"
proof (rule bit_word_eqI)
  fix k assume "k < LENGTH(32)"
  then have k: "k < 32" by simp
  have b: "bit (ucast (ucast (drop_bit n v) :: u8) :: u32) j \<longleftrightarrow> j < 8 \<and> bit v (n + j)" for n j
    by (auto simp: bit_ucast_iff bit_drop_bit_eq)
  have b0: "bit (ucast (ucast v :: u8) :: u32) j \<longleftrightarrow> j < 8 \<and> bit v j" for j
    by (auto simp: bit_ucast_iff)
  have e: "le32 p i = ucast (ucast v :: u8) OR push_bit 8 (ucast (ucast (drop_bit 8 v) :: u8)) OR
      push_bit 16 (ucast (ucast (drop_bit 16 v) :: u8)) OR push_bit 24 (ucast (ucast (drop_bit 24 v) :: u8))"
    unfolding le32_def assms by (simp add: bytes32_def)
  have "bit (le32 p i) k \<longleftrightarrow> ((k < 8 \<and> bit v k \<or> (8 \<le> k \<and> k < 32 \<and> k - 8 < 8 \<and> bit v (8 + (k - 8)))) \<or>
      (16 \<le> k \<and> k < 32 \<and> k - 16 < 8 \<and> bit v (16 + (k - 16)))) \<or> (24 \<le> k \<and> k < 32 \<and> k - 24 < 8 \<and> bit v (24 + (k - 24)))"
    unfolding e bit_or_iff push_bit_bit b b0 by blast
  then show "bit (le32 p i) k = bit v k" using u8_cases [OF k] k by (elim disjE) (simp_all, linarith+)
qed

lemma le64_parts:
  assumes "le32 p i = ucast v" "le32 p (i + 4) = ucast (drop_bit 32 v)"
  shows "le64 p i = v"
proof (rule bit_word_eqI)
  fix k assume "k < LENGTH(64)"
  then show "bit (le64 p i) k = bit v k"
    using assms by (auto simp: le64_def bit_or_iff bit_push_bit_iff bit_ucast_iff bit_drop_bit_eq)
qed

lemma length_put32: "at + 4 \<le> length p \<Longrightarrow> length (put32 at v p) = length p"
  by (simp add: put32_def length_overlay)

lemma length_put64: "at + 8 \<le> length p \<Longrightarrow> length (put64 at v p) = length p"
  by (simp add: put64_def length_put32)

lemma le32_cong: "(\<And>j. j < 4 \<Longrightarrow> p ! (i + j) = q ! (i + j)) \<Longrightarrow> le32 p i = le32 q i"
proof -
  assume e: "\<And>j. j < 4 \<Longrightarrow> p ! (i + j) = q ! (i + j)"
  show ?thesis using e [of 0] e [of 1] e [of 2] e [of 3] by (simp add: le32_def)
qed

lemma le64_cong: "(\<And>j. j < 8 \<Longrightarrow> p ! (i + j) = q ! (i + j)) \<Longrightarrow> le64 p i = le64 q i"
proof -
  assume e: "\<And>j. j < 8 \<Longrightarrow> p ! (i + j) = q ! (i + j)"
  have "le32 p i = le32 q i" by (rule le32_cong) (use e in simp)
  moreover have "le32 p (i + 4) = le32 q (i + 4)"
    by (rule le32_cong) (use e in \<open>simp add: add.assoc\<close>)
  ultimately show ?thesis by (simp add: le64_def)
qed

lemma overlay_outside:
  "at + length xs \<le> length p \<Longrightarrow> j < at \<or> at + length xs \<le> j \<Longrightarrow> j < length p \<Longrightarrow> overlay at xs p ! j = p ! j"
  by (auto simp: overlay_nth)

lemma le32_overlay: "at + length xs \<le> length p \<Longrightarrow> i + 4 \<le> at \<or> at + length xs \<le> i \<Longrightarrow> i + 4 \<le> length p \<Longrightarrow> le32 (overlay at xs p) i = le32 p i"
  by (rule le32_cong) (auto intro: overlay_outside)

lemma le64_overlay: "at + length xs \<le> length p \<Longrightarrow> i + 8 \<le> at \<or> at + length xs \<le> i \<Longrightarrow> i + 8 \<le> length p \<Longrightarrow> le64 (overlay at xs p) i = le64 p i"
  by (rule le64_cong) (auto intro: overlay_outside)

lemma le32_put32: "at + 4 \<le> length p \<Longrightarrow> le32 (put32 at v p) at = v"
  by (rule le32_bytes32) (simp_all add: put32_def overlay_nth)

lemma le32_put32_other: "at + 4 \<le> length p \<Longrightarrow> i + 4 \<le> at \<or> at + 4 \<le> i \<Longrightarrow> i + 4 \<le> length p \<Longrightarrow> le32 (put32 at v p) i = le32 p i"
  by (simp add: put32_def le32_overlay)

lemma le64_put32_other: "at + 4 \<le> length p \<Longrightarrow> i + 8 \<le> at \<or> at + 4 \<le> i \<Longrightarrow> i + 8 \<le> length p \<Longrightarrow> le64 (put32 at v p) i = le64 p i"
  by (simp add: put32_def le64_overlay)

lemma le32_put64_other: "at + 8 \<le> length p \<Longrightarrow> i + 4 \<le> at \<or> at + 8 \<le> i \<Longrightarrow> i + 4 \<le> length p \<Longrightarrow> le32 (put64 at v p) i = le32 p i"
  by (auto simp: put64_def le32_put32_other length_put32)

lemma le64_put64_other: "at + 8 \<le> length p \<Longrightarrow> i + 8 \<le> at \<or> at + 8 \<le> i \<Longrightarrow> i + 8 \<le> length p \<Longrightarrow> le64 (put64 at v p) i = le64 p i"
  by (auto simp: put64_def le64_put32_other length_put32)

lemma le64_put64: "at + 8 \<le> length p \<Longrightarrow> le64 (put64 at v p) at = v"
proof (rule le64_parts)
  assume l: "at + 8 \<le> length p"
  show "le32 (put64 at v p) at = ucast v" using l by (simp add: put64_def le32_put32_other le32_put32 length_put32)
  show "le32 (put64 at v p) (at + 4) = ucast (drop_bit 32 v)" using l by (simp add: put64_def le32_put32 length_put32)
qed

text \<open>The same for a buffer of a known length, so that a chain of writes is read in one pass.\<close>

lemma put_length:
  "length p = n \<Longrightarrow> at + 4 \<le> n \<Longrightarrow> length (put32 at v p) = n"
  "length p = n \<Longrightarrow> at + 8 \<le> n \<Longrightarrow> length (put64 at w p) = n"
  "length p = n \<Longrightarrow> at + length xs \<le> n \<Longrightarrow> length (overlay at xs p) = n"
  by (simp_all add: length_put32 length_put64 length_overlay)

lemma put_get:
  "length p = n \<Longrightarrow> at + 4 \<le> n \<Longrightarrow> le32 (put32 at v p) at = v"
  "length p = n \<Longrightarrow> at + 8 \<le> n \<Longrightarrow> le64 (put64 at w p) at = w"
  "length p = n \<Longrightarrow> at + 4 \<le> n \<Longrightarrow> i + 4 \<le> at \<or> at + 4 \<le> i \<Longrightarrow> i + 4 \<le> n \<Longrightarrow> le32 (put32 at v p) i = le32 p i"
  "length p = n \<Longrightarrow> at + 4 \<le> n \<Longrightarrow> i + 8 \<le> at \<or> at + 4 \<le> i \<Longrightarrow> i + 8 \<le> n \<Longrightarrow> le64 (put32 at v p) i = le64 p i"
  "length p = n \<Longrightarrow> at + 8 \<le> n \<Longrightarrow> i + 4 \<le> at \<or> at + 8 \<le> i \<Longrightarrow> i + 4 \<le> n \<Longrightarrow> le32 (put64 at w p) i = le32 p i"
  "length p = n \<Longrightarrow> at + 8 \<le> n \<Longrightarrow> i + 8 \<le> at \<or> at + 8 \<le> i \<Longrightarrow> i + 8 \<le> n \<Longrightarrow> le64 (put64 at w p) i = le64 p i"
  "length p = n \<Longrightarrow> at + length xs \<le> n \<Longrightarrow> i + 4 \<le> at \<or> at + length xs \<le> i \<Longrightarrow> i + 4 \<le> n \<Longrightarrow> le32 (overlay at xs p) i = le32 p i"
  "length p = n \<Longrightarrow> at + length xs \<le> n \<Longrightarrow> i + 8 \<le> at \<or> at + length xs \<le> i \<Longrightarrow> i + 8 \<le> n \<Longrightarrow> le64 (overlay at xs p) i = le64 p i"
  by (simp_all add: le32_put32 le64_put64 le32_put32_other le64_put32_other le32_put64_other le64_put64_other le32_overlay le64_overlay)

section \<open>The header\<close>

lemma length_build_header:
  "92 \<le> length sector \<Longrightarrow> length (gt_disk_guid t) = 16 \<Longrightarrow> length (build_header sector t my alt el crc) = length sector"
  by (simp add: build_header_def Let_def put_length [where n = "length sector"])

lemma take_overlay_after: "n \<le> at \<Longrightarrow> at \<le> length p \<Longrightarrow> take n (overlay at xs p) = take n p"
  by (simp add: overlay_def min_def)

lemma slice_overlay_before: "at + length xs \<le> i \<Longrightarrow> at + length xs \<le> length p \<Longrightarrow> slice_of i n (overlay at xs p) = slice_of i n p"
proof -
  assume "at + length xs \<le> i" "at + length xs \<le> length p"
  then have "drop i (overlay at xs p) = drop i p" by (simp add: overlay_def)
  then show ?thesis by (simp add: slice_of_def)
qed

text \<open>The sum with the checksum's own field read as zero.\<close>

lemma crc_with_hole:
  assumes "92 \<le> length s" "h = put32 16 c (put32 16 0 s)"
  shows "crc32_final (crc32_update (crc32_update (crc32_update CRC32_INIT (take 16 h)) [0, 0, 0, 0]) (slice_of 20 72 h))
    = crc32 (take 92 (put32 16 0 s))"
proof -
  let ?z = "put32 16 0 s"
  have l: "length ?z = length s" using assms(1) by (simp add: length_put32)
  have h: "take 16 h = take 16 ?z" "slice_of 20 72 h = slice_of 20 72 ?z"
    unfolding assms(2) put32_def [of 16 c] using assms(1) l by (simp_all add: take_overlay_after slice_overlay_before)
  have z: "slice_of 16 4 ?z = [0, 0, 0, 0]"
    using assms(1) by (simp add: put32_def overlay_def slice_of_def bytes32_def)
  have "take 92 ?z = take 16 ?z @ slice_of 16 4 ?z @ slice_of 20 72 ?z"
    using take_add [of 16 76 ?z] take_add [of 4 72 "drop 16 ?z"] by (simp add: slice_of_def)
  then show ?thesis by (simp only: h z crc32_def crc32_update_append)
qed

lemma header_fields:
  assumes "92 \<le> length sector" "length (gt_disk_guid t) = 16" "h = build_header sector t my alt el crc"
  shows "le32 h 0 = GPT_SIGNATURE_0" "le32 h 4 = GPT_SIGNATURE_1" "le32 h 12 = 92" "le64 h 24 = my"
    "le64 h 72 = el" "le32 h 80 = gt_entry_count t" "le32 h 84 = gt_entry_size t" "le32 h 88 = crc"
proof -
  let ?e = "[0x45, 0x46, 0x49, 0x20, 0x50, 0x41, 0x52, 0x54] :: u8 list"
  let ?z = "overlay 0 ?e (replicate (length sector) (0 :: u8))"
  have z: "le32 ?z 0 = GPT_SIGNATURE_0" "le32 ?z 4 = GPT_SIGNATURE_1"
    using assms(1) by (simp_all add: le32_def overlay_def GPT_SIGNATURE_0_def GPT_SIGNATURE_1_def)
  note PL = put_length [where n = "length sector"] and PG = put_get [where n = "length sector"]
  show "le32 h 0 = GPT_SIGNATURE_0" "le32 h 4 = GPT_SIGNATURE_1"
    using assms(1,2) by (simp_all add: assms(3) build_header_def Let_def PL PG(1-6) PG(7) [where at = 56] z)
  show "le32 h 12 = 92" "le64 h 24 = my" "le64 h 72 = el" "le32 h 80 = gt_entry_count t" "le32 h 84 = gt_entry_size t" "le32 h 88 = crc"
    using assms(1,2) by (simp_all add: assms(3) build_header_def Let_def PL PG)
qed

text \<open>A header the installer builds is accepted by the partition reader at the block it was built
  for, and read back as the table it describes.\<close>

theorem gpt_header_roundtrip:
  assumes "length sector = unat bs" "92 \<le> unat bs" "length (gt_disk_guid t) = 16"
    and "128 \<le> gt_entry_size t" "gt_entry_size t \<le> 512" "gt_entry_count t \<noteq> 0" "gt_entry_count t \<le> 512"
  shows "header_ok (build_header sector t my alt el crc) bs my = Some (el, gt_entry_count t, gt_entry_size t, crc)"
proof -
  let ?h = "build_header sector t my alt el crc"
  have l: "92 \<le> length sector" using assms(1,2) by simp
  note F = header_fields [OF l assms(3) refl, of my alt el crc]
  obtain s0 where s0: "?h = put32 16 (crc32 (take 92 (put32 16 0 s0))) (put32 16 0 s0)" "length s0 = length sector"
    using l assms(3) by (simp add: build_header_def Let_def put_length [where n = "length sector"])
  have "le32 ?h 16 = crc32 (take 92 (put32 16 0 s0))" using s0 l by (simp add: le32_put32 length_put32)
  moreover have "92 \<le> length s0" using s0(2) l by simp
  from crc_with_hole [OF this s0(1)]
  have "crc32_final (crc32_update (crc32_update (crc32_update CRC32_INIT (take 16 ?h)) [0, 0, 0, 0]) (slice_of 20 72 ?h))
    = crc32 (take 92 (put32 16 0 s0))" .
  moreover have "\<not> bs < 92" using assms(2) by (simp add: word_less_nat_alt)
  ultimately show ?thesis
    using assms(4-7) F
    by (simp add: header_ok_def Let_def GPT_HEADER_SIZE_def GPT_MY_LBA_def GPT_HEADER_CRC_def GPT_ENTRIES_LBA_def GPT_ENTRY_COUNT_def
        GPT_ENTRY_SIZE_def GPT_ENTRIES_CRC_def GPT_MAX_ENTRIES_def GPT_MAX_ENTRY_SIZE_def not_less not_le)
qed

theorem gpt_header_roundtrip_witness:
  "header_ok (build_header (replicate 512 0) (fresh_entries\<lparr>gt_first_usable := 34\<rparr>) 1 63 2 7) 512 1 = Some (2, 128, 128, 7)"
  using gpt_header_roundtrip [of "replicate 512 0" 512 "fresh_entries\<lparr>gt_first_usable := 34\<rparr>" 1 63 2 7]
  by (simp add: fresh_entries_def)

end
