(* ===== verification/Gpt_Entries.thy ===== *)
theory Gpt_Entries
  imports Gpt_Bytes
begin

text \<open>
  The array of entries: what filling a slot in puts there and what it leaves alone, which slot is
  taken, and what a series of additions does to the whole array.
\<close>

section \<open>One entry\<close>

lemma put64_nth_outside: "at + 8 \<le> length p \<Longrightarrow> j < at \<or> at + 8 \<le> j \<Longrightarrow> j < length p \<Longrightarrow> put64 at v p ! j = p ! j"
  by (auto simp: put64_def put32_def overlay_nth length_overlay)

lemma length_entry_name: "length (entry_name name) \<le> 70"
  by (simp add: entry_name_def length_concat comp_def sum_list_triv)

lemma length_fill_entry:
  assumes "e + 128 \<le> length p" "length type = 16" "length guid = 16"
  shows "length (fill_entry_at e type guid first n name p) = length p"
  using assms length_entry_name [of name] by (simp add: fill_entry_at_def Let_def length_overlay length_put64)

lemma fill_entry_fields:
  assumes "e + 128 \<le> length p" "length type = 16" "length guid = 16" "q = fill_entry_at e type guid first n name p"
  shows "le64 q (e + 32) = first" "le64 q (e + 40) = first + n - 1" "slice_of e 16 q = type" "slice_of (e + 16) 16 q = guid"
    "\<And>j. j < length p \<Longrightarrow> j < e \<or> e + 128 \<le> j \<Longrightarrow> q ! j = p ! j"
proof -
  define p1 where "p1 = overlay e type (overlay e (replicate 128 0) p)"
  define p2 where "p2 = overlay (e + 16) guid p1"
  define p3 where "p3 = put64 (e + 32) first p2"
  define p4 where "p4 = put64 (e + 40) (first + n - 1) p3"
  have q: "q = overlay (e + 56) (entry_name name) p4" by (simp add: assms(4) fill_entry_at_def Let_def p1_def p2_def p3_def p4_def)
  have l: "length p1 = length p" "length p2 = length p" "length p3 = length p" "length p4 = length p"
    using assms(1-3) by (simp_all add: p1_def p2_def p3_def p4_def length_overlay length_put64)
  have nm: "e + 56 + length (entry_name name) \<le> length p4" "length (entry_name name) \<le> 70"
    using assms(1) length_entry_name [of name] l by simp_all
  have front: "q ! j = p4 ! j" if "j < e + 56" "j < length p" for j
    unfolding q using overlay_nth [OF nm(1)] that l by simp
  show "le64 q (e + 40) = first + n - 1"
  proof -
    have "le64 q (e + 40) = le64 p4 (e + 40)" by (rule le64_cong) (use front assms(1) in simp)
    also have "\<dots> = first + n - 1" unfolding p4_def by (rule le64_put64) (use assms(1) l in simp)
    finally show ?thesis .
  qed
  show "le64 q (e + 32) = first"
  proof -
    have "le64 q (e + 32) = le64 p4 (e + 32)" by (rule le64_cong) (use front assms(1) in simp)
    also have "\<dots> = le64 p3 (e + 32)" unfolding p4_def by (rule le64_put64_other) (use assms(1) l in simp_all)
    also have "\<dots> = first" unfolding p3_def by (rule le64_put64) (use assms(1) l in simp)
    finally show ?thesis .
  qed
  have low: "q ! j = p2 ! j" if "j < e + 32" "j < length p" for j
    using front [of j] that put64_nth_outside [of "e + 40" p3 j] put64_nth_outside [of "e + 32" p2 j] assms(1) l
    by (simp add: p3_def p4_def)
  have g16: "e + 16 + length guid \<le> length p1" and t16: "e + length type \<le> length (overlay e (replicate 128 0) p)"
    using assms(1-3) l by (simp_all add: length_overlay)
  have lq: "length q = length p" using length_fill_entry [OF assms(1-3)] assms(4) by simp
  have p2: "p2 ! j = (if e + 16 \<le> j \<and> j < e + 32 then guid ! (j - (e + 16)) else p1 ! j)" if "j < length p" for j
    using overlay_nth [OF g16, of j] that l assms(3) by (simp add: p2_def add.commute)
  have p1: "p1 ! j = type ! (j - e)" if "e \<le> j" "j < e + 16" for j
    using overlay_nth [OF t16, of j] that assms(1,2) by (simp add: p1_def length_overlay)
  show "slice_of (e + 16) 16 q = guid"
  proof (rule nth_equalityI)
    fix i assume "i < length (slice_of (e + 16) 16 q)"
    then have "i < 16" by (simp add: slice_of_def)
    then show "slice_of (e + 16) 16 q ! i = guid ! i" using assms(1) lq low p2 by (simp add: slice_of_nth)
  qed (use assms(1,3) lq in simp)
  show "slice_of e 16 q = type"
  proof (rule nth_equalityI)
    fix i assume "i < length (slice_of e 16 q)"
    then have "i < 16" by (simp add: slice_of_def)
    then show "slice_of e 16 q ! i = type ! i" using assms(1) lq low p2 p1 by (simp add: slice_of_nth)
  qed (use assms(1,2) lq in simp)
  show "q ! j = p ! j" if j: "j < length p" "j < e \<or> e + 128 \<le> j" for j
  proof -
    have z: "overlay e (replicate 128 0) p ! j = p ! j" using assms(1) j by (auto simp: overlay_nth)
    have "p1 ! j = p ! j" using overlay_nth [OF t16, of j] j z assms(1,2) by (auto simp: p1_def length_overlay)
    moreover have "p2 ! j = p1 ! j" using overlay_nth [OF g16, of j] j l assms(3) by (auto simp: p2_def)
    moreover have "p3 ! j = p2 ! j" unfolding p3_def by (rule put64_nth_outside) (use j l assms(1) in auto)
    moreover have "p4 ! j = p3 ! j" unfolding p4_def by (rule put64_nth_outside) (use j l assms(1) in auto)
    moreover have "q ! j = p4 ! j" unfolding q using overlay_nth [OF nm(1), of j] j l nm(2) by auto
    ultimately show ?thesis by simp
  qed
qed

lemma all_zero_cong: "(\<And>j. j < n \<Longrightarrow> p ! (i + j) = q ! (i + j)) \<Longrightarrow> i + n \<le> length p \<Longrightarrow> i + n \<le> length q \<Longrightarrow> all_zero p i n = all_zero q i n"
  by (simp add: all_zero_def list_all_length slice_of_nth)

lemma all_zero_slice: "all_zero p i n \<longleftrightarrow> (\<forall>x\<in>set (slice_of i n p). x = 0)"
  by (simp add: all_zero_def list_all_iff)

section \<open>The array\<close>

text \<open>Slot \<open>i\<close> as the bytes of its stride.\<close>

definition slot_of :: "nat \<Rightarrow> u8 list \<Rightarrow> nat \<Rightarrow> u8 list" where
  "slot_of stride entries i = slice_of (i * stride) stride entries"

lemma slot_fits: "i < n \<Longrightarrow> i * stride + stride \<le> n * stride" for n stride :: nat
  using mult_le_mono1 [of "Suc i" n stride] by simp

lemma slots_apart: "i \<noteq> j \<Longrightarrow> i * stride + stride \<le> j * stride \<or> j * stride + stride \<le> i * stride" for i j stride :: nat
  by (metis linorder_neqE_nat slot_fits)

text \<open>An entry that is there is kept whole; one that is new has its type and its extent.\<close>

definition entry_is :: "nat \<Rightarrow> u8 list \<Rightarrow> nat \<Rightarrow> u8 list \<Rightarrow> u64 \<times> u64 \<Rightarrow> bool" where
  "entry_is stride entries i type ext \<longleftrightarrow> slice_of (i * stride) 16 entries = type \<and>
     le64 entries (i * stride + 32) = fst ext \<and> le64 entries (i * stride + 40) = fst ext + snd ext - 1"

definition table_ok :: "gpt_table \<Rightarrow> bool" where
  "table_ok t \<longleftrightarrow> 128 \<le> unat (gt_entry_size t) \<and> length (gt_entries t) = entries_bytes t"

definition real_type :: "u8 list \<Rightarrow> bool" where
  "real_type type \<longleftrightarrow> length type = 16 \<and> (\<exists>x\<in>set type. x \<noteq> 0)"

lemma length_make_guid: "length (fst (make_guid clock disk counter)) = 16"
  by (simp add: make_guid_def Let_def length_put64)

lemma add_entry_spec:
  assumes "table_ok t" "real_type type" "add_entry clock disk type ext name t counter = (True, t', counter')"
  shows "table_ok t' \<and> t' = t\<lparr>gt_entries := gt_entries t'\<rparr> \<and>
    (\<exists>i<unat (gt_entry_count t). all_zero (gt_entries t) (i * unat (gt_entry_size t)) 16 \<and>
       entry_is (unat (gt_entry_size t)) (gt_entries t') i type ext \<and>
       (\<forall>j<unat (gt_entry_count t). j \<noteq> i \<longrightarrow> slot_of (unat (gt_entry_size t)) (gt_entries t') j = slot_of (unat (gt_entry_size t)) (gt_entries t) j))"
proof -
  let ?z = "unat (gt_entry_size t)" and ?n = "unat (gt_entry_count t)"
  obtain i where i: "free_slot t = Some i" using assms(3) by (auto simp: add_entry_def split: option.splits)
  have i1: "i < ?n" "all_zero (gt_entries t) (i * ?z) 16"
    using i by (auto simp: free_slot_def find_Some_iff)
  obtain guid where g: "make_guid clock disk counter = (guid, counter')" "length guid = 16"
    and t': "t' = t\<lparr>gt_entries := fill_entry_at (i * ?z) type guid (fst ext) (snd ext) name (gt_entries t)\<rparr>"
    using assms(3) i length_make_guid [of clock disk counter] by (auto simp: add_entry_def split: prod.splits)
  have len: "length (gt_entries t) = ?n * ?z" "128 \<le> ?z" using assms(1) by (simp_all add: table_ok_def entries_bytes_def)
  have fit: "i * ?z + 128 \<le> length (gt_entries t)" using slot_fits [OF i1(1), of ?z] len by simp
  have ty: "length type = 16" using assms(2) by (simp add: real_type_def)
  note F = fill_entry_fields [OF fit ty g(2) refl, where first = "fst ext" and n = "snd ext" and name = name]
  have l: "length (gt_entries t') = length (gt_entries t)" using length_fill_entry [OF fit ty g(2)] by (simp add: t')
  have ei: "entry_is ?z (gt_entries t') i type ext" using F(1-3) by (simp add: entry_is_def t')
  have keep: "slot_of ?z (gt_entries t') j = slot_of ?z (gt_entries t) j" if j: "j < ?n" "j \<noteq> i" for j
  proof (rule nth_equalityI)
    show "length (slot_of ?z (gt_entries t') j) = length (slot_of ?z (gt_entries t) j)" using l by (simp add: slot_of_def slice_of_def)
    fix k assume "k < length (slot_of ?z (gt_entries t') j)"
    then have k: "k < ?z" by (simp add: slot_of_def slice_of_def)
    have bound: "j * ?z + ?z \<le> length (gt_entries t)" using slot_fits [OF j(1), of ?z] len by simp
    have "j * ?z + k < i * ?z \<or> i * ?z + 128 \<le> j * ?z + k" using slots_apart [OF j(2), of ?z] k len(2) by linarith
    moreover have "j * ?z + k < length (gt_entries t)" using bound k by linarith
    ultimately have "gt_entries t' ! (j * ?z + k) = gt_entries t ! (j * ?z + k)" using F(5) [of "j * ?z + k"] by (simp add: t')
    then show "slot_of ?z (gt_entries t') j ! k = slot_of ?z (gt_entries t) j ! k"
      using bound k l by (simp add: slot_of_def slice_of_nth)
  qed
  have "table_ok t'" using assms(1) l by (simp add: table_ok_def entries_bytes_def t')
  then show ?thesis using ei keep i1 by (auto simp: t')
qed

section \<open>A series of entries\<close>

lemma entry_is_slot:
  assumes "slot_of z E' i = slot_of z E i" "128 \<le> z" "i * z + z \<le> length E" "length E' = length E" "entry_is z E i type ext"
  shows "entry_is z E' i type ext"
proof -
  have at: "E' ! (i * z + k) = E ! (i * z + k)" if "k < z" for k
    using arg_cong [OF assms(1), of "\<lambda>x. x ! k"] that assms(3,4) by (simp add: slot_of_def slice_of_nth)
  have "slice_of (i * z) 16 E' = slice_of (i * z) 16 E"
    using at assms(2-4) by (intro nth_equalityI) (simp_all add: slice_of_nth)
  moreover have "le64 E' (i * z + 32) = le64 E (i * z + 32)"
  proof (rule le64_cong)
    fix j :: nat assume "j < 8"
    then show "E' ! (i * z + 32 + j) = E ! (i * z + 32 + j)" using at [of "32 + j"] assms(2) by (simp add: add.assoc)
  qed
  moreover have "le64 E' (i * z + 40) = le64 E (i * z + 40)"
  proof (rule le64_cong)
    fix j :: nat assume "j < 8"
    then show "E' ! (i * z + 40 + j) = E ! (i * z + 40 + j)" using at [of "40 + j"] assms(2) by (simp add: add.assoc)
  qed
  ultimately show ?thesis using assms(5) by (simp add: entry_is_def)
qed

lemma all_zero_slot:
  assumes "slot_of z E' i = slot_of z E i" "128 \<le> z"
  shows "all_zero E' (i * z) 16 = all_zero E (i * z) 16"
proof -
  have "slice_of (i * z) 16 F = take 16 (slot_of z F i)" for F using assms(2) by (simp add: slot_of_def slice_of_def)
  then show ?thesis using assms(1) by (simp add: all_zero_def)
qed

lemma entry_is_used: "entry_is z E i type ext \<Longrightarrow> real_type type \<Longrightarrow> \<not> all_zero E (i * z) 16"
  by (auto simp: entry_is_def real_type_def all_zero_slice)

lemma same_shape:
  assumes "t' = t\<lparr>gt_entries := E\<rparr>"
  shows "gt_entry_count t' = gt_entry_count t" "gt_entry_size t' = gt_entry_size t" "gt_first_usable t' = gt_first_usable t"
    "gt_last_usable t' = gt_last_usable t" "gt_entry_lba t' = gt_entry_lba t" "gt_disk_guid t' = gt_disk_guid t" "gt_entries t' = E"
    "t'\<lparr>gt_entries := F\<rparr> = t\<lparr>gt_entries := F\<rparr>"
  by (simp_all add: assms)

text \<open>What a series of additions does: each finds its own free slot, and every other slot stays.\<close>

definition added :: "nat \<Rightarrow> nat \<Rightarrow> u8 list \<Rightarrow> u8 list \<Rightarrow> (u8 list \<times> (u64 \<times> u64) \<times> string) list \<Rightarrow> bool" where
  "added n z E E' es \<longleftrightarrow> (\<exists>slots. length slots = length es \<and> distinct slots \<and> (\<forall>i\<in>set slots. i < n \<and> all_zero E (i * z) 16) \<and>
     (\<forall>k<length es. entry_is z E' (slots ! k) (fst (es ! k)) (fst (snd (es ! k)))) \<and>
     (\<forall>j<n. j \<notin> set slots \<longrightarrow> slot_of z E' j = slot_of z E j))"

lemma added_keeps: "added n z E E' es \<Longrightarrow> i < n \<Longrightarrow> \<not> all_zero E (i * z) 16 \<Longrightarrow> slot_of z E' i = slot_of z E i"
  by (auto simp: added_def)

lemma add_entries_spec:
  "table_ok t \<Longrightarrow> \<forall>e\<in>set es. real_type (fst e) \<Longrightarrow> add_entries clock disk es t counter = (True, t', counter') \<Longrightarrow>
   table_ok t' \<and> t' = t\<lparr>gt_entries := gt_entries t'\<rparr> \<and>
   added (unat (gt_entry_count t)) (unat (gt_entry_size t)) (gt_entries t) (gt_entries t') es"
proof (induction clock disk es t counter rule: add_entries.induct)
  case (1 clock disk t counter)
  then show ?case by (simp add: added_def)
next
  case (2 clock disk type extent name rest t counter)
  let ?n = "unat (gt_entry_count t)" and ?z = "unat (gt_entry_size t)"
  obtain ok t1 c1 where a: "add_entry clock disk type extent name t counter = (ok, t1, c1)" by (metis prod_cases3)
  then have ok: ok and r: "add_entries clock disk rest t1 c1 = (True, t', counter')" using "2.prems"(3) by (auto split: if_splits)
  have ty: "real_type type" using "2.prems"(2) by simp
  note A = add_entry_spec [OF "2.prems"(1) ty a [unfolded eqTrueI [OF ok]]]
  obtain i where i: "i < ?n" "all_zero (gt_entries t) (i * ?z) 16" "entry_is ?z (gt_entries t1) i type extent"
    "\<forall>j<?n. j \<noteq> i \<longrightarrow> slot_of ?z (gt_entries t1) j = slot_of ?z (gt_entries t) j" using A by blast
  have t1: "table_ok t1" and sh: "t1 = t\<lparr>gt_entries := gt_entries t1\<rparr>" using A by blast+
  note H = same_shape [OF sh]
  have IH: "table_ok t'" "t' = t1\<lparr>gt_entries := gt_entries t'\<rparr>" "added ?n ?z (gt_entries t1) (gt_entries t') rest"
    using "2.IH" [OF a [symmetric] refl ok t1(1) _ r] "2.prems"(2) H(1,2) by simp_all
  obtain slots where s: "length slots = length rest" "distinct slots" "\<forall>i\<in>set slots. i < ?n \<and> all_zero (gt_entries t1) (i * ?z) 16"
    "\<forall>k<length rest. entry_is ?z (gt_entries t') (slots ! k) (fst (rest ! k)) (fst (snd (rest ! k)))"
    "\<forall>j<?n. j \<notin> set slots \<longrightarrow> slot_of ?z (gt_entries t') j = slot_of ?z (gt_entries t1) j" using IH(3) by (auto simp: added_def)
  note H' = same_shape [OF IH(2)]
  have z: "128 \<le> ?z" and len: "length (gt_entries t1) = ?n * ?z" "length (gt_entries t') = ?n * ?z"
    using t1 IH(1) "2.prems"(1) H(1,2) H'(1,2) by (simp_all add: table_ok_def entries_bytes_def)
  have new: "i \<notin> set slots" using s(3) entry_is_used [OF i(3) ty] by blast
  have "slot_of ?z (gt_entries t') i = slot_of ?z (gt_entries t1) i" using s(5) i(1) new by simp
  then have ei: "entry_is ?z (gt_entries t') i type extent"
    by (rule entry_is_slot [OF _ z _ _ i(3)]) (use slot_fits [OF i(1), of ?z] len in simp_all)
  have free: "\<forall>j\<in>set slots. j < ?n \<and> all_zero (gt_entries t) (j * ?z) 16"
    using s(3) i(4) new all_zero_slot [OF _ z] by (metis)
  have "added ?n ?z (gt_entries t) (gt_entries t') ((type, extent, name) # rest)"
    unfolding added_def
  proof (rule exI [of _ "i # slots"], intro conjI)
    show "\<forall>k<length ((type, extent, name) # rest). entry_is ?z (gt_entries t') ((i # slots) ! k) (fst (((type, extent, name) # rest) ! k))
        (fst (snd (((type, extent, name) # rest) ! k)))"
      using ei s(4) by (auto simp: nth_Cons split: nat.split)
  qed (use s(1,2,5) new free i in auto)
  moreover have "t' = t\<lparr>gt_entries := gt_entries t'\<rparr>" using IH(2) H(8) by simp
  ultimately show ?case using IH(1) by blast
qed

end
