(* ===== verification/Install_Plan.thy ===== *)
theory Install_Plan
  imports Gpt_Write
begin

text \<open>
  \<^verbatim>\<open>kernel/core/install.c\<close>: what an installation would do to a disk, worked out by reading it. The
  answers of the kernel's heap are arguments. Asking a FAT file system how much room it has is an
  argument too: a function from the device to the clusters it has free and their size, or to
  nothing when it could not be mounted, which reads the disk and so gives a new state.
\<close>

section \<open>The survey\<close>

definition INSTALL_ALIGN_BLOCKS :: u64 where "INSTALL_ALIGN_BLOCKS = 2048"
definition INSTALL_ESP_CREATE :: u64 where "INSTALL_ESP_CREATE = 256 * 2048"
definition INSTALL_BIOS_BOOT :: u64 where "INSTALL_BIOS_BOOT = 1 * 2048"
definition INSTALL_ESP_MIN_FREE :: u64 where "INSTALL_ESP_MIN_FREE = 16 * 2048"
definition INSTALL_SYSTEM_MIN :: u64 where "INSTALL_SYSTEM_MIN = 2048 * 2048"
definition INSTALL_PROGRAMS_MIN :: u64 where "INSTALL_PROGRAMS_MIN = 1024 * 2048"
definition INSTALL_SYSTEM_SHARE :: u64 where "INSTALL_SYSTEM_SHARE = 4"
definition INSTALL_SYSTEM_CAP :: u64 where "INSTALL_SYSTEM_CAP = 65536 * 2048"
definition MAX_ENTRIES :: u32 where "MAX_ENTRIES = 128"

definition esp_type :: "u8 list" where
  "esp_type = [0x28, 0x73, 0x2A, 0xC1, 0x1F, 0xF8, 0xD2, 0x11, 0xBA, 0x4B, 0x00, 0xA0, 0xC9, 0x3E, 0xC9, 0x3B]"

text \<open>A gap or an extent is its first block and its length.\<close>

record survey =
  sv_first_usable :: u64
  sv_last_usable :: u64
  sv_gaps :: "(u64 \<times> u64) list"
  sv_used :: nat
  sv_used_blocks :: u64
  sv_esp_found :: bool
  sv_esp_index :: u8
  sv_esp_first :: u64
  sv_esp_count :: u64

definition blank_survey :: survey where
  "blank_survey = \<lparr>sv_first_usable = 0, sv_last_usable = 0, sv_gaps = [], sv_used = 0, sv_used_blocks = 0,
     sv_esp_found = False, sv_esp_index = 0, sv_esp_first = 0, sv_esp_count = 0\<rparr>"

definition note_esp :: "nat \<Rightarrow> u8 list \<Rightarrow> u64 \<times> u64 \<Rightarrow> survey \<Rightarrow> survey" where
  "note_esp i type ext sv =
     (if type = esp_type \<and> \<not> sv_esp_found sv
      then sv\<lparr>sv_esp_found := True, sv_esp_index := of_nat (i + 1), sv_esp_first := fst ext, sv_esp_count := snd ext\<rparr> else sv)"

text \<open>The entries in use, in the order of the table, or \<open>None\<close> where one lies outside.\<close>

fun collect_used :: "u8 list \<Rightarrow> nat \<Rightarrow> nat list \<Rightarrow> survey \<Rightarrow> (u64 \<times> u64) list \<Rightarrow> (survey \<times> (u64 \<times> u64) list) option" where
  "collect_used entries stride [] sv used = Some (sv, used)"
| "collect_used entries stride (i # rest) sv used =
     (let e = i * stride; first = le64 entries (e + 32); final = le64 entries (e + 40); ext = (first, final - first + 1) in
      if all_zero entries e 16 then collect_used entries stride rest sv used
      else if first > final \<or> first < sv_first_usable sv \<or> final > sv_last_usable sv then None
      else let sv1 = note_esp i (slice_of e 16 entries) ext sv in
        collect_used entries stride rest (sv1\<lparr>sv_used_blocks := sv_used_blocks sv1 + (final - first + 1)\<rparr>) (used @ [ext]))"

text \<open>The insertion sort: one key moved to the left past those that begin after it.\<close>

definition place_used :: "u64 \<times> u64 \<Rightarrow> (u64 \<times> u64) list \<Rightarrow> (u64 \<times> u64) list" where
  "place_used key xs = rev (dropWhile (\<lambda>g. fst g > fst key) (rev xs)) @ key # rev (takeWhile (\<lambda>g. fst g > fst key) (rev xs))"

definition sort_used :: "(u64 \<times> u64) list \<Rightarrow> (u64 \<times> u64) list" where
  "sort_used used = fold place_used used []"

fun used_overlap :: "(u64 \<times> u64) list \<Rightarrow> bool" where
  "used_overlap (a # b # rest) = (fst b < fst a + snd a \<or> used_overlap (b # rest))"
| "used_overlap _ = False"

fun gaps_from :: "u64 \<Rightarrow> u64 \<Rightarrow> (u64 \<times> u64) list \<Rightarrow> (u64 \<times> u64) list" where
  "gaps_from cursor final [] = (if cursor \<le> final then [(cursor, final - cursor + 1)] else [])"
| "gaps_from cursor final (u # us) =
     (if fst u > cursor then [(cursor, fst u - cursor)] else []) @ gaps_from (fst u + snd u) final us"

definition survey_entries :: "u8 list \<Rightarrow> u32 \<Rightarrow> u32 \<Rightarrow> survey \<Rightarrow> install_verdict \<times> survey" where
  "survey_entries entries count stride sv =
     (case collect_used entries (unat stride) [0..<unat count] sv [] of
        None \<Rightarrow> (INSTALL_NO_TABLE_READABLE, sv)
      | Some (sv1, used) \<Rightarrow> let sv2 = sv1\<lparr>sv_used := length used\<rparr>; sorted = sort_used used in
          if used_overlap sorted then (INSTALL_NO_TABLE_READABLE, sv2)
          else (INSTALL_OK, sv2\<lparr>sv_gaps := gaps_from (sv_first_usable sv2) (sv_last_usable sv2) sorted\<rparr>))"

definition survey_gpt :: "bool \<Rightarrow> bool \<Rightarrow> nat \<Rightarrow> 'hw storage \<Rightarrow> install_verdict \<times> survey \<times> 'hw storage" where
  "survey_gpt mem_sector mem_entries d s =
     (let D = the_bdev s d; bs = bd_block_size D in
      case kzalloc mem_sector (unat bs) of None \<Rightarrow> (INSTALL_IO, blank_survey, s)
      | Some sector0 \<Rightarrow> (case block_read (Some d) 1 1 (Some sector0) s of (st, sector, s1) \<Rightarrow>
          if st \<noteq> BLOCK_OK then (INSTALL_IO, blank_survey, s1)
          else if take 8 sector \<noteq> [0x45, 0x46, 0x49, 0x20, 0x50, 0x41, 0x52, 0x54] then (INSTALL_NOT_GPT, blank_survey, s1)
          else let sv = blank_survey\<lparr>sv_first_usable := le64 sector 40, sv_last_usable := le64 sector 48\<rparr>;
                   entry_lba = le64 sector 72; count = le32 sector 80; stride = le32 sector 84 in
            if count = 0 \<or> count > MAX_ENTRIES \<or> stride < 128 \<or> stride > bs \<or> sv_first_usable sv \<ge> sv_last_usable sv \<or>
               sv_last_usable sv \<ge> bd_block_count D
            then (INSTALL_NO_TABLE_READABLE, sv, s1)
            else let sectors = entry_sectors bs count stride in
              case kzalloc mem_entries (unat sectors * unat bs) of None \<Rightarrow> (INSTALL_IO, sv, s1)
              | Some buf \<Rightarrow> (case block_read (Some d) entry_lba sectors (Some buf) s1 of (st2, entries, s2) \<Rightarrow>
                  if st2 \<noteq> BLOCK_OK then (INSTALL_IO, sv, s2)
                  else case survey_entries entries count stride sv of (v, sv1) \<Rightarrow> (v, sv1, s2))))"

section \<open>Room\<close>

definition aligned_fit :: "u64 \<times> u64 \<Rightarrow> u64 \<Rightarrow> (u64 \<times> u64) option" where
  "aligned_fit g need =
     (let end_of = fst g + snd g; pad = fst g mod INSTALL_ALIGN_BLOCKS;
          first = (if pad \<noteq> 0 then fst g + (INSTALL_ALIGN_BLOCKS - pad) else fst g)
      in if first \<ge> end_of \<or> end_of - first < need then None else Some (first, need))"

text \<open>The first device in the order of the registry with a property.\<close>

definition find_device :: "('hw block_device \<Rightarrow> bool) \<Rightarrow> 'hw storage \<Rightarrow> nat option" where
  "find_device p s = find (\<lambda>d. p (the_bdev s d)) (List.map_filter (\<lambda>i. block_device_at i s) [0..<block_device_count s])"

type_synonym 'hw fat_room = "nat \<Rightarrow> 'hw storage \<Rightarrow> (u32 \<times> u32) option \<times> 'hw storage"

definition esp_has_room :: "'hw fat_room \<Rightarrow> nat \<Rightarrow> survey \<Rightarrow> 'hw storage \<Rightarrow> u64 option \<times> 'hw storage" where
  "esp_has_room room d sv s =
     (case find_device (\<lambda>b. bd_parent b = bd_id (the_bdev s d) \<and> bd_first_lba b = sv_esp_first sv) s of
        None \<Rightarrow> (None, s)
      | Some esp \<Rightarrow> (case room esp s of
          (None, s1) \<Rightarrow> (None, s1)
        | (Some (free_clusters, bytes_per_cluster), s1) \<Rightarrow>
            let free_blocks = ucast free_clusters * ucast (bytes_per_cluster div bd_block_size (the_bdev s1 d)) in
            (if free_blocks \<ge> INSTALL_ESP_MIN_FREE then Some free_blocks else None, s1)))"

definition split_rest :: "u64 \<Rightarrow> u64 \<Rightarrow> (u64 \<times> u64) \<times> (u64 \<times> u64)" where
  "split_rest first count =
     (let sys = count div INSTALL_SYSTEM_SHARE;
          sys = (if sys < INSTALL_SYSTEM_MIN then INSTALL_SYSTEM_MIN else sys);
          sys = (if sys > INSTALL_SYSTEM_CAP then INSTALL_SYSTEM_CAP else sys);
          sys = (if sys > count - INSTALL_PROGRAMS_MIN then count - INSTALL_PROGRAMS_MIN else sys);
          sys = sys - sys mod INSTALL_ALIGN_BLOCKS;
          programs = count - sys
      in ((first, sys), (first + sys, programs - programs mod INSTALL_ALIGN_BLOCKS)))"

section \<open>The plan\<close>

definition blank_plan :: plan_record where
  "blank_plan = \<lparr>pl_verdict = INSTALL_OK, pl_fresh_table = False, pl_reuse_esp = False, pl_reuse_esp_index = 0,
     pl_reuse_esp_free_blocks = 0, pl_esp = (0, 0), pl_system = (0, 0), pl_programs = (0, 0), pl_bios_boot = (0, 0),
     pl_untouched_slices = 0, pl_untouched_blocks = 0\<rparr>"

definition with_rest :: "u64 \<Rightarrow> u64 \<Rightarrow> plan_record \<Rightarrow> plan_record" where
  "with_rest first count p = p\<lparr>pl_system := fst (split_rest first count), pl_programs := snd (split_rest first count)\<rparr>"

text \<open>The plan of a blank disk.\<close>

definition plan_blank :: "u64 \<Rightarrow> plan_record" where
  "plan_blank blocks =
     (let out = blank_plan\<lparr>pl_fresh_table := True\<rparr>; first = INSTALL_ALIGN_BLOCKS; usable = blocks - 33 - first in
      if blocks < 34 + first then out\<lparr>pl_verdict := INSTALL_NO_ROOM_ESP\<rparr>
      else if usable < INSTALL_BIOS_BOOT + INSTALL_ESP_CREATE + INSTALL_SYSTEM_MIN + INSTALL_PROGRAMS_MIN
      then out\<lparr>pl_verdict := (if usable < INSTALL_ESP_CREATE then INSTALL_NO_ROOM_ESP else INSTALL_NO_ROOM_PROGRAMS)\<rparr>
      else with_rest (first + INSTALL_BIOS_BOOT + INSTALL_ESP_CREATE) (usable - INSTALL_BIOS_BOOT - INSTALL_ESP_CREATE)
        (out\<lparr>pl_bios_boot := (first, INSTALL_BIOS_BOOT), pl_esp := (first + INSTALL_BIOS_BOOT, INSTALL_ESP_CREATE)\<rparr>))"

text \<open>The first gap that takes an EFI partition, and the gaps with that part of it consumed.\<close>

fun take_esp :: "(u64 \<times> u64) list \<Rightarrow> ((u64 \<times> u64) \<times> (u64 \<times> u64) list) option" where
  "take_esp [] = None"
| "take_esp (g # gs) =
     (case aligned_fit g INSTALL_ESP_CREATE of
        Some e \<Rightarrow> Some (e, (fst e + snd e, snd g - ((fst e + snd e) - fst g)) # gs)
      | None \<Rightarrow> (case take_esp gs of None \<Rightarrow> None | Some (e, gs1) \<Rightarrow> Some (e, g # gs1)))"

definition better_gap :: "u64 \<times> u64 \<Rightarrow> u64 \<times> u64 \<Rightarrow> u64 \<times> u64" where
  "better_gap g best =
     (case aligned_fit g (INSTALL_SYSTEM_MIN + INSTALL_PROGRAMS_MIN) of
        None \<Rightarrow> best
      | Some got \<Rightarrow> let count = fst g + snd g - fst got; count = count - count mod INSTALL_ALIGN_BLOCKS in
          if count > snd best then (fst got, count) else best)"

definition best_gap :: "(u64 \<times> u64) list \<Rightarrow> u64 \<times> u64" where
  "best_gap gaps = fold better_gap gaps (0, 0)"

text \<open>The array handed to the check of the layout.\<close>

definition plan_extents :: "plan_record \<Rightarrow> (u64 \<times> u64) list" where
  "plan_extents p = (if snd (pl_bios_boot p) \<noteq> 0 then [pl_bios_boot p] else []) @ (if \<not> pl_reuse_esp p then [pl_esp p] else []) @
     [pl_system p, pl_programs p]"

text \<open>The system and the programs in the chosen gap, after a megabyte for the BIOS where there is
  room for it, and the check of the whole layout.\<close>

definition place_system :: "'hw storage \<Rightarrow> nat \<Rightarrow> (u64 \<times> u64) list \<Rightarrow> plan_record \<Rightarrow> plan_record" where
  "place_system s d gaps out =
     (let best = best_gap gaps in
      if snd best = 0 then out\<lparr>pl_verdict := INSTALL_NO_ROOM_SYSTEM\<rparr>
      else let out1 = (if snd best \<ge> INSTALL_BIOS_BOOT + INSTALL_SYSTEM_MIN + INSTALL_PROGRAMS_MIN
             then with_rest (fst best + INSTALL_BIOS_BOOT) (snd best - INSTALL_BIOS_BOOT) (out\<lparr>pl_bios_boot := (fst best, INSTALL_BIOS_BOOT)\<rparr>)
             else with_rest (fst best) (snd best) out) in
        if block_check_layout s (Some d) (Some (plan_extents out1)) (length (plan_extents out1)) \<noteq> BLOCK_OK
        then out1\<lparr>pl_verdict := INSTALL_NO_ROOM_SYSTEM\<rparr> else out1)"

definition place_all :: "'hw storage \<Rightarrow> nat \<Rightarrow> (u64 \<times> u64) list \<Rightarrow> plan_record \<Rightarrow> plan_record" where
  "place_all s d gaps out =
     (if pl_reuse_esp out then place_system s d gaps out
      else case take_esp gaps of None \<Rightarrow> out\<lparr>pl_verdict := INSTALL_NO_ROOM_ESP\<rparr>
        | Some (esp, gaps1) \<Rightarrow> place_system s d gaps1 (out\<lparr>pl_esp := esp\<rparr>))"

definition install_plan :: "'hw fat_room \<Rightarrow> bool \<Rightarrow> bool \<Rightarrow> nat \<Rightarrow> 'hw storage \<Rightarrow> plan_record \<times> 'hw storage" where
  "install_plan room mem_sector mem_entries d s =
     (let D = the_bdev s d in
      if bd_parent D \<noteq> 0 then (blank_plan\<lparr>pl_verdict := INSTALL_NO_TABLE_READABLE\<rparr>, s)
      else if bd_scheme D = BLOCK_SCHEME_UNREADABLE then (blank_plan\<lparr>pl_verdict := INSTALL_NO_TABLE_READABLE\<rparr>, s)
      else if bd_scheme D = BLOCK_SCHEME_NONE then (plan_blank (bd_block_count D), s)
      else case survey_gpt mem_sector mem_entries d s of (v, sv, s1) \<Rightarrow>
        if v \<noteq> INSTALL_OK then (blank_plan\<lparr>pl_verdict := v\<rparr>, s1)
        else let out = blank_plan\<lparr>pl_untouched_slices := sv_used sv, pl_untouched_blocks := sv_used_blocks sv\<rparr> in
          if \<not> sv_esp_found sv then (place_all s1 d (sv_gaps sv) out, s1)
          else case esp_has_room room d sv s1 of
            (None, s2) \<Rightarrow> (out\<lparr>pl_verdict := INSTALL_ESP_TOO_FULL\<rparr>, s2)
          | (Some free_blocks, s2) \<Rightarrow>
              (place_all s2 d (sv_gaps sv) (out\<lparr>pl_reuse_esp := True, pl_reuse_esp_index := sv_esp_index sv,
                 pl_reuse_esp_free_blocks := free_blocks\<rparr>), s2))"

end
