(* ===== verification/Cached_Progress.thy ===== *)
theory Cached_Progress
  imports Storage_Runs
begin

text \<open>
  Reads come back: when the drivers answer every read, a read in range of a device whose disk is
  still there succeeds, through the cache and past it, whatever the cache holds and however
  little memory is left for it.
\<close>

text \<open>A disk of nearly 2^64 blocks would make the test of \<^verbatim>\<open>unit_fits\<close> wrap around.\<close>

definition sizes_sane :: "'hw storage \<Rightarrow> bool" where
  "sizes_sane s \<longleftrightarrow> (\<forall>i<length (st_devices s). unat (bd_block_count (the_bdev s i)) + PAGE_SIZE < 2 ^ 64)"

lemma sizes_sane_same: "same_devices s s' \<Longrightarrow> sizes_sane s' = sizes_sane s"
  by (simp add: sizes_sane_def same_devices_length same_devices_fields)

definition reads_succeed :: "'hw storage \<Rightarrow> bool" where
  "reads_succeed s \<longleftrightarrow> (\<forall>i<length (st_devices s). \<forall>lba n h. fst (op_read (bd_ops (the_bdev s i)) lba n h) = BLOCK_OK)"

lemma reads_succeed_same: "same_devices s s' \<Longrightarrow> reads_succeed s' = reads_succeed s"
  by (simp add: reads_succeed_def same_devices_length same_devices_fields)

lemma issue_succeeds:
  assumes "\<And>lba n h. fst (op_read (bd_ops (the_bdev s d)) lba n h) = BLOCK_OK"
  shows "fst (issue_loop False d lba count at buf s) = BLOCK_OK"
  using assms
proof (induction False d lba count at buf s rule: issue_loop.induct)
  case (1 d lba count at buf s)
  let ?c = "next_chunk (the_bdev s d) count"
  obtain st b s1 where t: "op_transfer False d lba ?c at buf s = (st, b, s1)" by (metis prod_cases3)
  have "the_bdev s1 d = the_bdev s d" using the_bdev_op_transfer [of False d lba ?c at buf s d] t by simp
  moreover have "st = BLOCK_OK"
    using t "1.prems" [of lba ?c "st_hw s"] by (auto simp: op_transfer_def Let_def split: prod.splits)
  ultimately show ?case
    using "1.hyps" [OF _ refl t [symmetric] refl] "1.prems" t by (subst issue_loop.simps) (simp add: Let_def)
qed

lemma block_read_succeeds:
  assumes "reads_succeed s" "registry_ok s" "d < length (st_devices s)" "count \<noteq> 0"
    and "check_range s (Some d) lba count = BLOCK_OK" "to_root s d lba = Some (r, ab)"
  shows "fst (block_read (Some d) lba count (Some buf) s) = BLOCK_OK"
proof -
  note C = check_range_OK [OF assms(5,4)]
  note R = to_root_spec [OF assms(2,3) C assms(6)]
  let ?r = "\<lparr>rq_tag = 0, rq_lba = ab, rq_count = count, rq_buf = buf, rq_write = False\<rparr>"
  obtain s0 where s0: "submit r ?r s = issue r ?r s0"
    "st_devices s0 = (st_devices s)[r := (the_bdev s r)\<lparr>bd_queued := bd_queued (the_bdev s r) + 1\<rparr>]"
    using submit_alone [OF R(1) registryD(2) [OF assms(2) R(1)], of ?r] by blast
  have "bd_ops (the_bdev s0 r) = bd_ops (the_bdev s r)" using s0(2) R(1) by (simp add: the_bdev_def)
  then have "fst (issue r ?r s0) = BLOCK_OK"
    unfolding issue_def using issue_succeeds [of s0 r] assms(1) R(1) by (simp add: reads_succeed_def)
  then show ?thesis using assms(4-6) s0(1) by (simp add: block_read_def Let_def)
qed

lemma range_inside:
  assumes "bd_present (the_bdev s d)" "unat lba + unat count \<le> unat (bd_block_count (the_bdev s d))"
  shows "check_range s (Some d) lba count = BLOCK_OK"
proof (cases "count = 0")
  case False
  then have "0 < unat count" by (simp add: unat_gt_0)
  then show ?thesis using assms by (auto simp: check_range_def word_le_nat_alt word_less_nat_alt unat_sub)
qed (use assms in \<open>simp add: check_range_def\<close>)

lemma read_uncached_succeeds:
  assumes "reads_succeed s" "turn_ok content s d k bs lba count" "dn < count" "t = turn_at k bs lba count dn"
  shows "fst (read_uncached reason d bs t buf s) = BLOCK_OK"
proof -
  obtain r where r: "to_root s d lba = Some (r, k_abs_lba k)"
    and blk: "0 < unat (k_blocks_per_unit k)" "unat (k_abs_lba k) + unat count \<le> unat (bd_block_count (the_bdev s r))"
    "unat lba + unat count \<le> unat (bd_block_count (the_bdev s d))" "bd_present (the_bdev s d)"
    using assms(2-4) by (rule turn_setting)
  note F = turn_facts [OF blk(1,2,3) assms(3,4)]
  have co: "coherent content s" and dl: "d < length (st_devices s)" using assms(2) by (simp_all add: turn_ok_def)
  let ?s0 = "upd_cache (\<lambda>c. count_up reason (count_up bc_misses_update c)) s"
  have same: "same_devices s ?s0" by (rule same_devices_eq) simp_all
  have "unat (t_lba t) \<le> unat (bd_block_count (the_bdev s d))" using F(4,6) blk(3) by simp
  from to_root_spec(7) [OF coherentD(1) [OF co] dl blk(4) blk(3) r this]
  obtain a where "to_root ?s0 d (t_lba t) = Some (r, a)" using to_root_same [of ?s0 s] by auto
  moreover have "check_range ?s0 (Some d) (t_lba t) (t_n t) = BLOCK_OK"
    using blk(3,4) F(4,6) by (intro range_inside) simp_all
  ultimately have "fst (block_read (Some d) (t_lba t) (t_n t) (Some (slice_of (t_at t) (unat (t_n t) * unat bs) buf)) ?s0) = BLOCK_OK"
    using block_read_succeeds [of ?s0 d "t_n t" "t_lba t" r a] reads_succeed_same [OF same] assms(1)
      same_devices_registry [OF same coherentD(1) [OF co]] dl F(3) by simp
  then show ?thesis by (simp add: read_uncached_def case_prod_beta)
qed

lemma fill_entry_succeeds:
  assumes "reads_succeed s" "turn_ok content s d k bs lba count" "dn < count" "t = turn_at k bs lba count dn" "sizes_sane s"
    and "unit_fits k (t_unit t) s" "block_device_by_id (k_root_id k) (k_root_generation k) s = Some r"
  shows "fst (fill_entry k bs t r i buf (s\<lparr>st_cache := c\<rparr>)) = BLOCK_OK"
proof -
  obtain q where q: "q < length (st_devices s)" "bd_present (the_bdev s q)" "bd_parent (the_bdev s q) = 0"
    "block_device_by_id (k_root_id k) (k_root_generation k) s = Some q"
    and blk: "0 < unat (k_blocks_per_unit k)" "unat (k_abs_lba k) + unat count \<le> unat (bd_block_count (the_bdev s q))"
      "unat lba + unat count \<le> unat (bd_block_count (the_bdev s d))"
    and cu: "cacheable (the_bdev s q) = Some (k_blocks_per_unit k)"
    using assms(2-4) by (rule turn_setting) metis
  note F = turn_facts [OF blk assms(3,4)]
  have rq: "r = q" using q(4) assms(7) by simp
  have co: "coherent content s" using assms(2) by (simp add: turn_ok_def)
  let ?s0 = "s\<lparr>st_cache := c\<rparr>" and ?B = "k_blocks_per_unit k"
  have same: "same_devices s ?s0" by (rule same_devices_eq) simp_all
  have the0: "the_bdev ?s0 = the_bdev s" by (simp add: the_bdev_def fun_eq_iff)
  have B: "unat ?B \<le> PAGE_SIZE" using cacheable_unit(3) [OF cu] .
  have u: "unat (t_unit t) * unat ?B \<le> unat (k_abs_lba k) + unat dn" using F(1) by simp
  have "unat (k_abs_lba k) + unat dn < unat (bd_block_count (the_bdev s q))" using blk(2) assms(3) by (simp add: word_less_nat_alt)
  then have lim: "unat (t_unit t) * unat ?B + unat ?B < 2 ^ 64"
    using u B assms(5) q(1) by (auto simp: sizes_sane_def dest!: spec [of _ q])
  then have m: "unat (t_unit t * ucast ?B) = unat (t_unit t) * unat ?B"
    by (subst unat_mult_lem [THEN iffD1]) simp_all
  moreover have "unat (t_unit t * ucast ?B + ucast ?B) = unat (t_unit t * ucast ?B) + unat ?B"
    using lim m by (subst unat_add_lem [THEN iffD1]) simp_all
  moreover have "t_unit t * ucast ?B + ucast ?B \<le> bd_block_count (the_bdev s q)"
    using assms(6) q(4) by (simp add: unit_fits_def)
  ultimately have "unat (t_unit t * ucast ?B) + unat ?B \<le> unat (bd_block_count (the_bdev s q))"
    by (simp add: word_le_nat_alt)
  then have c: "check_range ?s0 (Some q) (t_unit t * ucast ?B) ?B = BLOCK_OK"
    using q(2) by (intro range_inside) (simp_all only: the0)
  have "?B \<noteq> 0" using blk(1) by (auto simp: unat_eq_zero)
  from block_read_succeeds [OF _ _ _ this c to_root_root]
  have "fst (block_read (Some q) (t_unit t * ucast ?B) ?B (Some (en_data (bc_entries c ! i))) ?s0) = BLOCK_OK"
    using reads_succeed_same [OF same] assms(1) same_devices_registry [OF same coherentD(1) [OF co]] q(1,3) the0 by simp
  then show ?thesis using rq by (simp add: fill_entry_def case_prod_beta)
qed

lemma claim_and_fill_succeeds:
  assumes "reads_succeed s" "turn_ok content s d k bs lba count" "dn < count" "t = turn_at k bs lba count dn" "sizes_sane s"
    and "unit_fits k (t_unit t) s" "block_device_by_id (k_root_id k) (k_root_generation k) s = Some r"
  shows "fst (claim_and_fill d k bs t r spare buf s) = BLOCK_OK"
proof -
  obtain v c1 where v: "victim (st_cache s) = (v, c1)" by fastforce
  let ?s1 = "s\<lparr>st_cache := c1\<rparr>"
  have cg: "cache_good (entry_good content s) (st_cache s)" using assms(2) by (simp add: turn_ok_def coherentD)
  have rf: "entry_good content s e \<Longrightarrow> entry_good content s (e\<lparr>en_referenced := False\<rparr>)" for e by simp
  note V = victim_good [OF cg rf entry_good_forget v]
  have c1: "cache_good (entry_good content s) c1" "bc_ready c1 = bc_ready (st_cache s)" using V [of 0] by blast+
  note T1 = turn_ok_cache [OF assms(2) c1]
  have un: "fst (read_uncached reason d bs t buf ?s1) = BLOCK_OK" for reason
    using read_uncached_succeeds [OF _ T1(1) assms(3,4)] reads_succeed_same [OF T1(2)] assms(1) by simp
  have fl: "fst (fill_entry k bs t r i buf (s\<lparr>st_cache := c\<rparr>)) = BLOCK_OK" for i c
    by (rule fill_entry_succeeds [OF assms])
  show ?thesis
    using v un fl by (simp add: claim_and_fill_def Let_def case_prod_beta split: option.split)
qed

lemma read_turn_succeeds:
  assumes "reads_succeed s" "turn_ok content s d k bs lba count" "dn < count" "t = turn_at k bs lba count dn" "sizes_sane s"
  shows "fst (bcache_read_turn d k bs t spare buf s) = BLOCK_OK"
proof -
  have un: "fst (read_uncached reason d bs t buf s) = BLOCK_OK" for reason
    by (rule read_uncached_succeeds [OF assms(1-4)])
  have unp: "fst (read_uncached reason d bs t buf (s\<lparr>st_pages := p\<rparr>)) = BLOCK_OK" for reason p
    using read_uncached_succeeds [OF _ turn_ok_pages(1) [OF assms(2)] assms(3,4)]
      reads_succeed_same [OF turn_ok_pages(2) [OF assms(2)]] assms(1) by simp
  have cf: "fst (claim_and_fill d k bs t r sp buf s) = BLOCK_OK"
    if "unit_fits k (t_unit t) s" "block_device_by_id (k_root_id k) (k_root_generation k) s = Some r" for r sp
    by (rule claim_and_fill_succeeds [OF assms that])
  have cfp: "fst (claim_and_fill d k bs t r sp buf (s\<lparr>st_pages := p\<rparr>)) = BLOCK_OK"
    if "unit_fits k (t_unit t) s" "block_device_by_id (k_root_id k) (k_root_generation k) s = Some r" for r sp p
    using claim_and_fill_succeeds [OF _ turn_ok_pages(1) [OF assms(2)] assms(3,4), of p r]
      reads_succeed_same [OF turn_ok_pages(2) [OF assms(2)], of p] sizes_sane_same [OF turn_ok_pages(2) [OF assms(2)], of p] assms(1,5) that
      unit_fits_cong [of "s\<lparr>st_pages := p\<rparr>" s] by_id_cong [of "s\<lparr>st_pages := p\<rparr>" s] by simp
  show ?thesis
    unfolding bcache_read_turn_def Let_def case_prod_beta
    by (auto simp: un unp cf cfp split: option.split)
qed

lemma read_loop_succeeds:
  assumes "reads_succeed s" "turn_ok content s d k bs lba count" "sizes_sane s" "length buf = unat count * unat bs"
  shows "fst (bcache_read_loop d k bs lba count dn spare buf s) = BLOCK_OK"
  using assms
proof (induction d k bs lba count dn spare buf s rule: bcache_read_loop.induct)
  case (1 d k bs lba count dn spare buf s)
  show ?case
  proof (cases "dn \<ge> count")
    case True
    then show ?thesis by (subst bcache_read_loop.simps) simp
  next
    case False
    then have lt: "dn < count" by simp
    let ?t = "turn_at k bs lba count dn"
    obtain r where blk: "0 < unat (k_blocks_per_unit k)" "unat (k_abs_lba k) + unat count \<le> unat (bd_block_count (the_bdev s r))"
      "unat lba + unat count \<le> unat (bd_block_count (the_bdev s d))"
      using "1.prems"(2) lt refl by (rule turn_setting)
    note F = turn_facts [OF blk lt refl, of bs]
    obtain st1 buf1 spare1 s1 where t: "bcache_read_turn d k bs ?t spare buf s = (st1, buf1, spare1, s1)" by (metis surj_pair)
    have ok: "st1 = BLOCK_OK" using read_turn_succeeds [OF "1.prems"(1,2) lt refl "1.prems"(3), of spare buf] t by simp
    note S = read_turn_step [OF "1.prems"(2) lt refl "1.prems"(4) t, unfolded read_step_def]
    have l1: "length buf1 = unat count * unat bs" using S "1.prems"(4) by simp
    have ok1: "turn_ok content s1 d k bs lba count" using turn_ok_step [OF "1.prems"(2)] S by simp
    have "fst (bcache_read_loop d k bs lba count (dn + t_n ?t) spare1 buf1 s1) = BLOCK_OK"
      by (rule "1.IH" [OF _ refl _ t [symmetric] refl refl])
        (use lt F(3) ok ok1 l1 "1.prems" conjunct1 [OF S] reads_succeed_same [of s s1] sizes_sane_same [of s s1] in simp_all)
    then show ?thesis
      using lt F(3) t ok by (subst bcache_read_loop.simps) (simp add: Let_def not_le [symmetric])
  qed
qed

lemma bcache_read_succeeds:
  assumes "coherent content s" "reads_succeed s" "sizes_sane s" "d < length (st_devices s)"
    and "length buf = unat count * unat (bd_block_size (the_bdev s d))"
    and "block_resolve s (Some d) lba count = Inr p"
  shows "fst (bcache_read (Some d) lba count (Some buf) s) = BLOCK_OK"
proof (cases "count = 0")
  case True
  then show ?thesis by (simp add: bcache_read_def)
next
  case nz: False
  obtain rid rgen ab where p: "block_resolve s (Some d) lba count = Inr (rid, rgen, ab)" using assms(6) by (cases p) auto
  show ?thesis
  proof (cases "bc_ready (st_cache s) \<and> cacheable (the_bdev s d) \<noteq> None")
    case False
    have *: "fst (block_read (Some d) lba count (Some buf) (upd_cache f s)) = BLOCK_OK" for f
    proof -
      have same: "same_devices s (upd_cache f s)" by (rule same_devices_eq) simp_all
      obtain r where "check_range s (Some d) lba count = BLOCK_OK" "to_root s d lba = Some (r, ab)"
        using p by (rule block_resolve_Inr) simp
      moreover have "check_range (upd_cache f s) (Some d) lba count = check_range s (Some d) lba count" by (simp add: check_range_def)
      ultimately show ?thesis
        using block_read_succeeds [of "upd_cache f s" d count lba r ab] reads_succeed_same [OF same] assms(2,4) nz
          same_devices_registry [OF same coherentD(1) [OF assms(1)]] to_root_same [of "upd_cache f s" s] by simp
    qed
    show ?thesis using False nz * by (auto simp: bcache_read_def)
  next
    case True
    then obtain bpu where bpu: "cacheable (the_bdev s d) = Some bpu" and rdy: "bc_ready (st_cache s)" by auto
    let ?k = "\<lparr>k_root_id = rid, k_root_generation = rgen, k_abs_lba = ab, k_blocks_per_unit = bpu\<rparr>"
    have ok: "turn_ok content s d ?k (bd_block_size (the_bdev s d)) lba count"
      using assms(1,4) nz rdy bpu p by (simp add: turn_ok_def)
    show ?thesis
      using read_loop_succeeds [OF assms(2) ok assms(3,5), of 0 0] nz rdy bpu p by (simp add: bcache_read_def case_prod_beta)
  qed
qed

section \<open>Writes\<close>

lemma issue_write_succeeds:
  assumes "op_write (bd_ops (the_bdev s d)) = Some w" "\<And>lba n data h. fst (w lba n data h) = BLOCK_OK"
  shows "fst (issue_loop True d lba count at buf s) = BLOCK_OK"
  using assms
proof (induction True d lba count at buf s rule: issue_loop.induct)
  case (1 d lba count at buf s)
  let ?c = "next_chunk (the_bdev s d) count"
  obtain st b s1 where t: "op_transfer True d lba ?c at buf s = (st, b, s1)" by (metis prod_cases3)
  have "the_bdev s1 d = the_bdev s d" using the_bdev_op_transfer [of True d lba ?c at buf s d] t by simp
  moreover have "st = BLOCK_OK"
    using t "1.prems"(1) "1.prems"(2) [of lba ?c "slice_of at (unat ?c * unat (bd_block_size (the_bdev s d))) buf" "st_hw s"]
    by (auto simp: op_transfer_def Let_def split: prod.splits)
  ultimately show ?case
    using "1.hyps" [OF _ refl t [symmetric] refl] "1.prems" t by (subst issue_loop.simps) (simp add: Let_def)
qed

lemma block_write_succeeds:
  assumes "registry_ok s" "d < length (st_devices s)" "n \<noteq> 0" "write_refused (the_bdev s d) = BLOCK_OK"
    and "check_range s (Some d) lba n = BLOCK_OK" "to_root s d lba = Some (r, ab)"
    and "op_write (bd_ops (the_bdev s r)) = Some w" "\<And>lba n data h. fst (w lba n data h) = BLOCK_OK"
  shows "fst (block_write (Some d) lba n (Some buf) s) = BLOCK_OK"
proof -
  note R = to_root_spec [OF assms(1,2) check_range_OK [OF assms(5,3)] assms(6)]
  let ?r = "\<lparr>rq_tag = 0, rq_lba = ab, rq_count = n, rq_buf = buf, rq_write = True\<rparr>"
  let ?s1 = "bcache_invalidate (Some d) lba (ucast n) s"
  have the1: "the_bdev ?s1 = the_bdev s" by (simp add: the_bdev_def fun_eq_iff)
  have q: "r < length (st_devices ?s1)" "bd_queue (the_bdev ?s1 r) = []" using R(1) registryD(2) [OF assms(1) R(1)] the1 by simp_all
  obtain s0 where s0: "submit r ?r ?s1 = issue r ?r s0"
    "st_devices s0 = (st_devices ?s1)[r := (the_bdev ?s1 r)\<lparr>bd_queued := bd_queued (the_bdev ?s1 r) + 1\<rparr>]"
    using submit_alone [OF q, of ?r] by blast
  have "bd_ops (the_bdev s0 r) = bd_ops (the_bdev s r)" using s0(2) R(1) by (simp add: the_bdev_def)
  then have "fst (issue r ?r s0) = BLOCK_OK"
    unfolding issue_def using issue_write_succeeds [of s0 r w] assms(7,8) by simp
  then have "fst (write_transfer (Some d) lba n buf ?s1) = BLOCK_OK"
    using assms(6) s0(1) to_root_same [of ?s1 s] by (simp add: write_transfer_def case_prod_beta)
  then show ?thesis using assms(3-5) by (simp add: block_write_def Let_def)
qed

lemma bcache_write_status:
  "fst (block_write dev lba n (Some buf) s) = BLOCK_OK \<Longrightarrow> fst (bcache_write dev lba n (Some buf) s) = BLOCK_OK"
  by (auto simp: bcache_write_def case_prod_beta split: option.split sum.split)

end
