(* ===== verification/Storage_Props.thy ===== *)
theory Storage_Props
  imports Cached_Progress
begin

text \<open>
  The properties of the storage stack, each over every run of it: what reads give, what writes
  change, what the registry, the queue and the check of a layout keep. The disk of the concrete
  instances has 64 blocks of 512 bytes in memory, one partition of 16 blocks from block 8 on, and
  one page of memory for the cache.
\<close>

section \<open>A machine with one disk\<close>

definition demo_pages :: pmm where
  "demo_pages = \<lparr>bitmap = (\<lambda>_. 1), bitmap_bytes = 1, total_pages = 2, usable_pages = 2, free_pages = 1, base_paddr = 0,
     bitmap_base = 0, search_hint = 1, ram = (\<lambda>_. 0)\<rparr>"

definition demo_disk :: "mem storage" where
  "demo_disk = bcache_init (snd (block_register ''ram0'' (ram_ops 512) 512 64 (storage_start demo_pages (\<lambda>_. 7))))"

definition demo_parts :: "mem storage" where
  "demo_parts = snd (block_register_slice (Some 0) 1 8 16 BLOCK_SCHEME_GPT demo_disk)"

lemma demo_disk_reached: "storage_reached (ram_content 512) demo_disk"
  unfolding demo_disk_def
  by (intro storage_reached.Init storage_reached.Register storage_reached.Start ram_honest) (simp add: storage_start_def, rule ram_honest, simp)

lemma demo_disk_devices: "st_devices demo_disk = [fresh_bdev ''ram0'' (ram_ops 512) 512 64 1]" "st_next_id demo_disk = 2"
  by (simp_all add: demo_disk_def bcache_init_def block_register_def storage_start_def BLOCK_MAX_DEVICES_def)

lemma demo_parts_reached: "storage_reached (ram_content 512) demo_parts"
  unfolding demo_parts_def by (rule storage_reached.Slice [OF demo_disk_reached]) (simp add: demo_disk_devices)

lemma demo_slice_name: "slice_name (kstrlcpy ''ram0'' BLOCK_NAME_MAX) 1 = ''ram0p1''"
  by code_simp

lemma demo_parts_devices:
  "st_devices demo_parts = [(fresh_bdev ''ram0'' (ram_ops 512) 512 64 1)\<lparr>bd_slice_count := 1\<rparr>,
     (fresh_bdev ''ram0p1'' (ram_ops 512) 512 16 2)\<lparr>bd_parent := 1, bd_parent_generation := 1, bd_first_lba := 8,
        bd_slice_index := 1, bd_scheme := BLOCK_SCHEME_GPT\<rparr>]"
  by (simp add: demo_parts_def block_register_slice_def block_register_def demo_disk_devices BLOCK_MAX_DEVICES_def BLOCK_MAX_SLICES_def
      the_bdev_def upd_bdev_def fresh_bdev_def demo_slice_name Let_def)

lemma demo_parts_bdev:
  "length (st_devices demo_parts) = 2"
  "the_bdev demo_parts 0 = (fresh_bdev ''ram0'' (ram_ops 512) 512 64 1)\<lparr>bd_slice_count := 1\<rparr>"
  "the_bdev demo_parts 1 = (fresh_bdev ''ram0p1'' (ram_ops 512) 512 16 2)\<lparr>bd_parent := 1, bd_parent_generation := 1, bd_first_lba := 8,
        bd_slice_index := 1, bd_scheme := BLOCK_SCHEME_GPT\<rparr>"
  by (simp_all add: the_bdev_def demo_parts_devices)

lemmas demo_bdev = demo_parts_bdev demo_parts_bdev(3) [unfolded One_nat_def]

lemma demo_by_id: "block_device_by_id 1 1 demo_parts = Some 0"
  by (simp add: block_device_by_id_def demo_parts_devices fresh_bdev_def)

lemma demo_roots: "to_root demo_parts 0 l = Some (0, l)" "to_root demo_parts 1 l = Some (0, l + 8)"
  by (simp_all add: to_root_def BLOCK_MAX_DEVICES_def numeral_eq_Suc demo_parts_bdev fresh_bdev_def demo_by_id del: One_nat_def)

lemma demo_resolve:
  "block_resolve demo_parts (Some 1) 0 2 = Inr (1, 1, 8)" "block_resolve demo_parts (Some 0) 9 1 = Inr (1, 1, 9)"
  by (simp_all add: block_resolve_def check_range_def demo_roots demo_roots [unfolded One_nat_def] demo_bdev fresh_bdev_def)

lemma demo_reads: "reads_succeed demo_parts" "sizes_sane demo_parts"
  by (auto simp: reads_succeed_def sizes_sane_def demo_parts_bdev(1) less_2_cases_iff demo_parts_bdev(2,3) [unfolded One_nat_def]
      fresh_bdev_def ram_ops_def PAGE_SIZE_def)

lemma demo_read:
  obtains out s' where "bcache_read (Some 0) 9 1 (Some (replicate 512 0)) demo_parts = (BLOCK_OK, out, s')"
proof -
  have "fst (bcache_read (Some 0) 9 1 (Some (replicate 512 0)) demo_parts) = BLOCK_OK"
    by (rule bcache_read_succeeds [OF reached_coherent [OF demo_parts_reached] demo_reads _ _ demo_resolve(2)])
      (simp_all add: demo_bdev fresh_bdev_def)
  then show ?thesis using that by (metis prod.collapse)
qed

section \<open>What a read gives\<close>

text \<open>C6: in every state reached, a read through the cache that succeeds gives exactly what the disk
  holds in the blocks its range names, whichever device or partition it was asked of and whatever
  the cache held, and changes no disk.\<close>

theorem cached_read_returns_disk:
  assumes "storage_reached content s" "fits s d n buf" "n \<noteq> 0"
    and "bcache_read (Some d) lba n (Some buf) s = (BLOCK_OK, out, s')"
  shows "\<exists>rid rgen ab. block_resolve s (Some d) lba n = Inr (rid, rgen, ab) \<and>
    out = sectors (content (st_hw s) rid) (unat ab) (unat n) \<and> content (st_hw s') = content (st_hw s)"
proof -
  note R = bcache_read_spec [OF reached_coherent [OF assms(1)] _ _ assms(4)]
  show ?thesis using R(5) assms(2,3) R(3) by (auto simp: fits_def)
qed

theorem cached_read_returns_disk_witness:
  "\<exists>out s'. bcache_read (Some 0) 9 1 (Some (replicate 512 0)) demo_parts = (BLOCK_OK, out, s') \<and>
     out = sectors (ram_content 512 (st_hw demo_parts) 1) 9 1 \<and> ram_content 512 (st_hw s') = ram_content 512 (st_hw demo_parts)"
proof -
  obtain out s' where r: "bcache_read (Some 0) 9 1 (Some (replicate 512 0)) demo_parts = (BLOCK_OK, out, s')" by (rule demo_read)
  have "fits demo_parts 0 1 (replicate 512 0)" by (simp add: fits_def demo_bdev fresh_bdev_def)
  from cached_read_returns_disk [OF demo_parts_reached this _ r] show ?thesis
    using r by (simp add: demo_resolve)
qed

text \<open>C10: reads come back. If the drivers answer every read and no disk comes within a page of 2^64
  blocks, a read through the cache of a range that resolves succeeds, whatever the cache holds and
  however little memory is left for it.\<close>

theorem cached_read_completes:
  assumes "storage_reached content s" "reads_succeed s" "sizes_sane s" "fits s d n buf"
    and "block_resolve s (Some d) lba n = Inr p"
  shows "\<exists>out s'. bcache_read (Some d) lba n (Some buf) s = (BLOCK_OK, out, s') \<and> length out = length buf"
proof -
  obtain st out s' where r: "bcache_read (Some d) lba n (Some buf) s = (st, out, s')" by (metis prod_cases3)
  have "st = BLOCK_OK"
    using bcache_read_succeeds [OF reached_coherent [OF assms(1)] assms(2,3) _ _ assms(5), of buf] assms(4) r by (simp add: fits_def)
  then show ?thesis
    using r bcache_read_spec(4) [OF reached_coherent [OF assms(1)] _ _ r] assms(4) by (simp add: fits_def)
qed

theorem cached_read_completes_witness:
  "\<exists>out s'. bcache_read (Some 1) 0 2 (Some (replicate 1024 0)) demo_parts = (BLOCK_OK, out, s') \<and> length out = 1024"
proof -
  have "fits demo_parts 1 2 (replicate 1024 0)" by (simp add: fits_def demo_bdev fresh_bdev_def)
  from cached_read_completes [OF demo_parts_reached demo_reads this demo_resolve(1)] show ?thesis by simp
qed

section \<open>What a write changes\<close>

lemma demo_write:
  obtains s' where "bcache_write (Some 1) 0 2 (Some (replicate 1024 9)) demo_parts = (BLOCK_OK, s')"
proof -
  have "fst (block_write (Some 1) 0 2 (Some (replicate 1024 9)) demo_parts) = BLOCK_OK"
  proof (rule block_write_succeeds [where r = 0 and ab = 8 and w = "\<lambda>lba n data h. (BLOCK_OK, store h (unat lba * 512) (take (unat n * 512) data))"])
    show "check_range demo_parts (Some 1) 0 2 = BLOCK_OK" by (rule block_resolve_Inr [OF demo_resolve(1)]) simp
  qed (use reached_coherent [OF demo_parts_reached] in
      \<open>simp_all add: demo_bdev fresh_bdev_def demo_roots [unfolded One_nat_def] ram_ops_def write_refused_def coherentD\<close>)
  from bcache_write_status [OF this] show ?thesis using that by (metis prod.collapse)
qed

text \<open>C7: after a write through the cache succeeds, every read of any part of what it wrote gives the
  bytes written, under whatever name it is asked: the partition, the disk it lies on, or another
  partition over the same blocks.\<close>

theorem read_after_write:
  assumes "storage_reached content s" "fits s d n data" "n \<noteq> 0" "fits s e m buf" "m \<noteq> 0"
    and "bcache_write (Some d) lba n (Some data) s = (BLOCK_OK, s1)"
    and "bcache_read (Some e) lba' m (Some buf) s1 = (BLOCK_OK, out, s2)"
    and "block_resolve s (Some d) lba n = Inr (rid, rgen, ab)" "block_resolve s (Some e) lba' m = Inr (rid, rgen', ab')"
    and "unat ab \<le> unat ab'" "unat ab' + unat m \<le> unat ab + unat n"
  shows "out = slice_of ((unat ab' - unat ab) * unat (bd_block_size (the_bdev s d)))
           (unat m * unat (bd_block_size (the_bdev s d))) data"
proof -
  let ?bs = "unat (bd_block_size (the_bdev s d))"
  have co: "coherent content s" by (rule reached_coherent [OF assms(1)])
  have dl: "d < length (st_devices s)" "length data = unat n * ?bs" and el: "e < length (st_devices s)"
    "length buf = unat m * unat (bd_block_size (the_bdev s e))" using assms(2,4) by (simp_all add: fits_def)
  note W = bcache_write_spec [OF co dl assms(6)]
  have wrote: "sectors (content (st_hw s1) rid) (unat ab) (unat n) = data" using W(3) [OF refl assms(3)] assms(8) by simp
  have el1: "e < length (st_devices s1)" "length buf = unat m * unat (bd_block_size (the_bdev s1 e))"
    using el same_devices_length [OF W(1)] same_devices_fields [OF W(1) el(1)] by simp_all
  have "block_resolve s1 (Some e) lba' m = Inr (rid, rgen', ab')"
    using same_devices_resolve [OF W(1) coherentD(1) [OF co] el(1)] assms(9) by simp
  then have out: "out = sectors (content (st_hw s1) rid) (unat ab') (unat m)"
    using bcache_read_spec(5) [OF W(2) el1 assms(7) refl assms(5)] by simp
  obtain r where r: "r < length (st_devices s)" "rid = bd_id (the_bdev s r)" "honest content (the_bdev s r)"
    "bd_block_size (the_bdev s r) = bd_block_size (the_bdev s d)" "unat ab + unat n \<le> unat (bd_block_count (the_bdev s r))"
    using resolved [OF coherentD(1,2) [OF co] dl(1) assms(3,8)] by metis
  have len: "length (content (st_hw s1) rid k) = ?bs" if "unat ab \<le> k" "k < unat ab + unat n" for k
    using honest_length [OF r(3), of k "st_hw s1"] that r(2,4,5) by simp
  have "slice_of ((unat ab' - unat ab) * ?bs) (unat m * ?bs) data = sectors (content (st_hw s1) rid) (unat ab + (unat ab' - unat ab)) (unat m)"
    unfolding wrote [symmetric] by (rule sectors_part [OF len]) (use assms(10,11) in simp_all)
  then show ?thesis using out assms(10) by simp
qed

theorem read_after_write_witness:
  "\<exists>s1 out s2. bcache_write (Some 1) 0 2 (Some (replicate 1024 9)) demo_parts = (BLOCK_OK, s1) \<and>
     bcache_read (Some 0) 9 1 (Some (replicate 512 0)) s1 = (BLOCK_OK, out, s2) \<and> out = replicate 512 9"
proof -
  obtain s1 where w: "bcache_write (Some 1) 0 2 (Some (replicate 1024 9)) demo_parts = (BLOCK_OK, s1)" by (rule demo_write)
  have f: "fits demo_parts 1 2 (replicate 1024 9)" "fits demo_parts 0 1 (replicate 512 0)"
    by (simp_all add: fits_def demo_bdev fresh_bdev_def)
  then have dl: "1 < length (st_devices demo_parts)" "length (replicate 1024 9) = unat (2 :: u32) * unat (bd_block_size (the_bdev demo_parts 1))"
    and el: "0 < length (st_devices demo_parts)" by (simp_all add: fits_def)
  have co: "coherent (ram_content 512) demo_parts" by (rule reached_coherent [OF demo_parts_reached])
  note W = bcache_write_spec [OF co dl w]
  have "fst (bcache_read (Some 0) 9 1 (Some (replicate 512 0)) s1) = BLOCK_OK"
    using bcache_read_succeeds [OF W(2), of 0 "replicate 512 0" 1 9 "(1, 1, 9)"] reads_succeed_same [OF W(1)] sizes_sane_same [OF W(1)]
      demo_reads same_devices_length [OF W(1)] same_devices_fields [OF W(1) el] el f(2) demo_resolve(2)
      same_devices_resolve [OF W(1) coherentD(1) [OF co] el, of 9 1] by (simp add: fits_def)
  then obtain out s2 where r: "bcache_read (Some 0) 9 1 (Some (replicate 512 0)) s1 = (BLOCK_OK, out, s2)" by (metis prod.collapse)
  from read_after_write [OF demo_parts_reached f(1) _ f(2) _ w r demo_resolve]
  have "out = replicate 512 9" by (simp add: slice_of_def demo_bdev fresh_bdev_def)
  then show ?thesis using w r by blast
qed

text \<open>C8: a partition is a wall. Whatever is written or discarded through a device, in range or not,
  whether it succeeds, fails or stops halfway, no block of any disk outside the device's own blocks
  changes.\<close>

theorem partition_isolated:
  assumes "storage_reached content s" "d < length (st_devices s)" "to_root s d 0 = Some (r, base)"
    and "fits s d n data"
    and "s' = snd (block_write (Some d) lba n (Some data) s) \<or> s' = snd (bcache_write (Some d) lba n (Some data) s) \<or>
      s' = snd (block_discard (Some d) lba n s)"
    and "j \<noteq> bd_id (the_bdev s r) \<or> k < unat base \<or> unat base + unat (bd_block_count (the_bdev s d)) \<le> k"
  shows "content (st_hw s') j k = content (st_hw s) j k"
proof -
  have co: "coherent content s" by (rule reached_coherent [OF assms(1)])
  note rg = coherentD(1) [OF co]
  have len: "length data = unat n * unat (bd_block_size (the_bdev s d))" using assms(4) by (simp add: fits_def)
  have "st_hw s' = st_hw s \<or> (\<exists>rid rgen ab. n \<noteq> 0 \<and> block_resolve s (Some d) lba n = Inr (rid, rgen, ab) \<and>
      differs_in content rid (unat ab) (unat n) (st_hw s) (st_hw s'))"
    using assms(5)
  proof (elim disjE)
    assume "s' = snd (block_write (Some d) lba n (Some data) s)"
    then show ?thesis using block_write_spec [OF rg coherentD(2) [OF co] assms(2) len surjective_pairing] by blast
  next
    assume s': "s' = snd (bcache_write (Some d) lba n (Some data) s)"
    show ?thesis
    proof (cases "n = 0")
      case True
      then show ?thesis using s' by (simp add: bcache_write_def)
    next
      case False
      then show ?thesis using bcache_write_spec(4) [OF co assms(2) len surjective_pairing] s' by blast
    qed
  next
    assume s': "s' = snd (block_discard (Some d) lba n s)"
    show ?thesis
    proof (cases "n = 0")
      case True
      then have "s' = s" using s' by (simp add: block_discard_def split: option.split)
      then show ?thesis by simp
    next
      case False
      then show ?thesis using discard_coherent [OF co assms(2) surjective_pairing] s' by blast
    qed
  qed
  then show ?thesis
  proof (elim disjE exE conjE)
    fix rid rgen ab
    assume nz: "n \<noteq> 0" and rs: "block_resolve s (Some d) lba n = Inr (rid, rgen, ab)"
      and df: "differs_in content rid (unat ab) (unat n) (st_hw s) (st_hw s')"
    obtain q where q: "to_root s d lba = Some (q, ab)" "rid = bd_id (the_bdev s q)" "bd_present (the_bdev s d)"
      "unat lba + unat n \<le> unat (bd_block_count (the_bdev s d))"
      using resolved [OF rg coherentD(2) [OF co] assms(2) nz rs] by metis
    have "unat (0 :: u64) \<le> unat (bd_block_count (the_bdev s d))" by simp
    from to_root_spec(7) [OF rg assms(2) q(3,4,1) this] assms(3)
    have "q = r" "unat base + unat lba = unat ab" by auto
    then show ?thesis using df assms(6) q(2,4) by (auto simp: differs_in_def)
  qed simp
qed

theorem partition_isolated_witness:
  "ram_content 512 (st_hw (snd (bcache_write (Some 1) 0 2 (Some (replicate 1024 9)) demo_parts))) 1 7
     = ram_content 512 (st_hw demo_parts) 1 7"
proof (rule partition_isolated [OF demo_parts_reached _ demo_roots(2), where lba = 0])
  show "fits demo_parts 1 2 (replicate 1024 9)" by (simp add: fits_def demo_bdev fresh_bdev_def)
qed (simp_all add: demo_bdev)

end
