(* ===== verification/Storage_Order.thy ===== *)
theory Storage_Order
  imports Storage_Props "HOL-Library.Multiset"
begin

text \<open>
  What the tables of the block layer keep: the registry's records, the order of a device's queue,
  the answers of the servicer, and the check of a partition layout.
\<close>

section \<open>The registry\<close>

text \<open>C9: in every state reached the device table is well formed: at most 64 devices, the identity of
  each its place, block sizes powers of two, no request left over, a slice under an earlier device
  whose blocks, block size and driver contain its own; and every cache entry with a page holds
  exactly one page of bytes, none of them half filled.\<close>

theorem storage_well_formed:
  assumes "storage_reached content s"
  shows "length (st_devices s) \<le> 64 \<and> length (bc_entries (st_cache s)) = 64 \<and>
    (\<forall>i<length (st_devices s). bd_id (the_bdev s i) = of_nat (Suc i) \<and> bd_queue (the_bdev s i) = [] \<and>
       (\<exists>e. unat (bd_block_size (the_bdev s i)) = 2 ^ e) \<and>
       (bd_parent (the_bdev s i) \<noteq> 0 \<longrightarrow> (\<exists>p<i. bd_parent (the_bdev s i) = bd_id (the_bdev s p) \<and>
          bd_block_size (the_bdev s i) = bd_block_size (the_bdev s p) \<and> bd_ops (the_bdev s i) = bd_ops (the_bdev s p) \<and>
          unat (bd_first_lba (the_bdev s i)) + unat (bd_block_count (the_bdev s i)) \<le> unat (bd_block_count (the_bdev s p))))) \<and>
    (\<forall>e\<in>set (bc_entries (st_cache s)). en_state e \<noteq> ENTRY_LOADING \<and> (en_page e \<noteq> 0 \<longrightarrow> length (en_data e) = PAGE_SIZE))"
proof (intro conjI allI ballI impI)
  have co: "coherent content s" by (rule reached_coherent [OF assms])
  show "length (st_devices s) \<le> 64" by (rule registry_size [OF coherentD(1) [OF co]])
  have cg: "cache_good (entry_good content s) (st_cache s)" by (rule coherentD(3) [OF co])
  then show "length (bc_entries (st_cache s)) = 64" by (simp add: cache_good_def BCACHE_UNITS_def)
  fix e assume "e \<in> set (bc_entries (st_cache s))"
  then have "entry_good content s e" using cg by (simp add: cache_good_def)
  then show "en_state e \<noteq> ENTRY_LOADING" "en_page e \<noteq> 0 \<Longrightarrow> length (en_data e) = PAGE_SIZE" by (simp_all add: entry_good_def)
next
  fix i assume i: "i < length (st_devices s)"
  have rg: "registry_ok s" by (rule coherentD(1) [OF reached_coherent [OF assms]])
  note R = registryD [OF rg i]
  show "bd_id (the_bdev s i) = of_nat (Suc i)" "bd_queue (the_bdev s i) = []" by (rule R)+
  let ?b = "bd_block_size (the_bdev s i)"
  have "unat (?b AND (?b - 1)) = unat ?b AND unat (?b - 1)" by (rule unsigned_and_eq)
  then have "unat ?b AND (unat ?b - 1) = 0" using R(3,4) by (simp add: unat_minus_one)
  then show "\<exists>e. unat ?b = 2 ^ e" using R(3) by (intro power_of_two_nat) (simp_all add: unat_gt_0)
  assume "bd_parent (the_bdev s i) \<noteq> 0"
  then obtain p where "p < i" "bd_parent (the_bdev s i) = of_nat (Suc p)" "slice_inside (the_bdev s i) (the_bdev s p)"
    using R(5) by blast
  moreover have "bd_id (the_bdev s p) = of_nat (Suc p)" using registryD(1) [OF rg, of p] \<open>p < i\<close> i by simp
  ultimately show "\<exists>p<i. bd_parent (the_bdev s i) = bd_id (the_bdev s p) \<and>
      ?b = bd_block_size (the_bdev s p) \<and> bd_ops (the_bdev s i) = bd_ops (the_bdev s p) \<and>
      unat (bd_first_lba (the_bdev s i)) + unat (bd_block_count (the_bdev s i)) \<le> unat (bd_block_count (the_bdev s p))"
    by (intro exI [of _ p]) (simp add: slice_inside_def)
qed

theorem storage_well_formed_witness:
  "length (st_devices demo_parts) \<le> 64 \<and> bd_parent (the_bdev demo_parts 1) = bd_id (the_bdev demo_parts 0)"
proof -
  have "1 < length (st_devices demo_parts)" "bd_parent (the_bdev demo_parts 1) \<noteq> 0" by (simp_all add: demo_bdev fresh_bdev_def)
  then have "\<exists>p<1. bd_parent (the_bdev demo_parts 1) = bd_id (the_bdev demo_parts p)"
    using storage_well_formed [OF demo_parts_reached] by blast
  then show ?thesis using storage_well_formed [OF demo_parts_reached] by simp
qed

section \<open>The queue\<close>

text \<open>C26: putting a request in the queue loses none and keeps the order of the disk: where seeking
  costs, the queue stays sorted by block, requests for the same block stay in the order they came;
  where it is free, requests are served in the order they came.\<close>

theorem queue_insert_order:
  assumes "bd_seek_is_free D \<or> sorted (map rq_lba (bd_queue D))"
  shows "mset (bd_queue (queue_insert r D)) = add_mset r (mset (bd_queue D)) \<and>
    (bd_seek_is_free D \<longrightarrow> bd_queue (queue_insert r D) = bd_queue D @ [r]) \<and>
    (\<not> bd_seek_is_free D \<longrightarrow> sorted (map rq_lba (bd_queue (queue_insert r D))) \<and>
       (\<forall>a. filter (\<lambda>q. rq_lba q = a) (bd_queue (queue_insert r D))
          = filter (\<lambda>q. rq_lba q = a) (bd_queue D) @ (if rq_lba r = a then [r] else [])))"
proof -
  let ?P = "queue_ahead D r" and ?q = "bd_queue D"
  let ?A = "takeWhile ?P ?q" and ?B = "dropWhile ?P ?q"
  have q: "bd_queue (queue_insert r D) = ?A @ r # ?B" by (simp add: queue_insert_def Let_def)
  have AB: "?A @ ?B = ?q" by simp
  have m: "mset (?A @ r # ?B) = add_mset r (mset ?q)" by (metis AB mset_append mset.simps(2) union_mset_add_mset_right)
  have free: "bd_seek_is_free D \<Longrightarrow> ?A = ?q \<and> ?B = []"
    by (simp add: queue_ahead_def takeWhile_eq_all_conv dropWhile_eq_Nil_conv)
  have "sorted (map rq_lba (?A @ r # ?B)) \<and> (\<forall>a. filter (\<lambda>q. rq_lba q = a) (?A @ r # ?B)
      = filter (\<lambda>q. rq_lba q = a) ?q @ (if rq_lba r = a then [r] else []))" if nf: "\<not> bd_seek_is_free D"
  proof
    have so: "sorted (map rq_lba ?q)" using assms nf by simp
    then have "sorted (map rq_lba ?A @ map rq_lba ?B)" using AB by (metis map_append)
    then have sA: "sorted (map rq_lba ?A)" "sorted (map rq_lba ?B)" by (simp_all add: sorted_append)
    have a: "rq_lba x \<le> rq_lba r" if "x \<in> set ?A" for x
      using set_takeWhileD [OF that] nf by (simp add: queue_ahead_def)
    have b: "rq_lba r < rq_lba x" if x: "x \<in> set ?B" for x
    proof -
      have ne: "?B \<noteq> []" using x by (metis empty_iff list.set(1))
      have h: "rq_lba r < rq_lba (hd ?B)" using hd_dropWhile [OF ne] nf by (simp add: queue_ahead_def)
      have "rq_lba (hd ?B) \<le> rq_lba x"
        using sA(2) x ne by (cases ?B) auto
      then show ?thesis using h by (rule less_le_trans [rotated])
    qed
    show "sorted (map rq_lba (?A @ r # ?B))"
    proof -
      have "rq_lba x \<le> rq_lba y" if "x \<in> set ?A" "y \<in> set ?B" for x y
        using a [OF that(1)] b [OF that(2)] by (meson less_imp_le order_trans)
      then show ?thesis using sA a b by (auto simp: sorted_append intro: less_imp_le)
    qed
    have nB: "filter (\<lambda>q. rq_lba q = rq_lba r) ?B = []" unfolding filter_empty_conv using b by (metis less_irrefl)
    show "\<forall>a. filter (\<lambda>q. rq_lba q = a) (?A @ r # ?B) = filter (\<lambda>q. rq_lba q = a) ?q @ (if rq_lba r = a then [r] else [])"
    proof
      fix a
      have "filter (\<lambda>q. rq_lba q = a) ?q = filter (\<lambda>q. rq_lba q = a) ?A @ filter (\<lambda>q. rq_lba q = a) ?B" by (metis AB filter_append)
      then show "filter (\<lambda>q. rq_lba q = a) (?A @ r # ?B) = filter (\<lambda>q. rq_lba q = a) ?q @ (if rq_lba r = a then [r] else [])"
        using nB by auto
    qed
  qed
  then show ?thesis using m free q by simp
qed

theorem queue_insert_order_witness:
  "map rq_tag (bd_queue (queue_insert \<lparr>rq_tag = 9, rq_lba = 5, rq_count = 1, rq_buf = [], rq_write = True\<rparr>
     ((fresh_bdev ''disk'' (ram_ops 512) 512 64 1)\<lparr>bd_queue := [\<lparr>rq_tag = 1, rq_lba = 5, rq_count = 1, rq_buf = [], rq_write = False\<rparr>,
        \<lparr>rq_tag = 2, rq_lba = 7, rq_count = 1, rq_buf = [], rq_write = False\<rparr>]\<rparr>))) = [1, 9, 2] \<and>
   sorted (map rq_lba (bd_queue (queue_insert \<lparr>rq_tag = 9, rq_lba = 5, rq_count = 1, rq_buf = [], rq_write = True\<rparr>
     ((fresh_bdev ''disk'' (ram_ops 512) 512 64 1)\<lparr>bd_queue := [\<lparr>rq_tag = 1, rq_lba = 5, rq_count = 1, rq_buf = [], rq_write = False\<rparr>,
        \<lparr>rq_tag = 2, rq_lba = 7, rq_count = 1, rq_buf = [], rq_write = False\<rparr>]\<rparr>))))"
  (is "?map \<and> sorted (map rq_lba (bd_queue (queue_insert ?r ?D)))")
proof
  show ?map by (simp add: queue_insert_def queue_ahead_def fresh_bdev_def)
  have "bd_seek_is_free ?D \<or> sorted (map rq_lba (bd_queue ?D))" by simp
  from queue_insert_order [OF this, of ?r] show "sorted (map rq_lba (bd_queue (queue_insert ?r ?D)))"
    by (simp add: fresh_bdev_def)
qed

text \<open>the servicer ends with the queue empty and answers every request that waited exactly once,
  in the order of the queue.\<close>

theorem serve_answers_all:
  assumes "d < length (st_devices s)" "serve d s = (answers, s')"
  shows "map fst answers = map rq_tag (bd_queue (the_bdev s d)) \<and> bd_queue (the_bdev s' d) = [] \<and>
    length (st_devices s') = length (st_devices s)"
  using assms
proof (induction d s arbitrary: answers s' rule: serve.induct)
  case (1 d s)
  show ?case
  proof (cases "bd_queue (the_bdev s d)")
    case Nil
    then show ?thesis using "1.prems" by (subst (asm) serve.simps) simp
  next
    case (Cons r rest)
    let ?s0 = "upd_bdev d (\<lambda>b. b\<lparr>bd_queue := rest\<rparr>) s"
    obtain st buf s1 where i: "issue d r ?s0 = (st, buf, s1)" by (metis prod_cases3)
    obtain as s2 where r: "serve d s1 = (as, s2)" by fastforce
    have "st_devices (snd (snd (issue d r ?s0))) = st_devices ?s0" by (simp add: issue_def)
    then have dev: "st_devices s1 = st_devices ?s0" using i by simp
    have eq: "answers = (rq_tag r, st, buf) # as" "s' = s2"
      using "1.prems" Cons i r by (auto simp: serve.simps [of d s])
    have "map fst as = map rq_tag (bd_queue (the_bdev s1 d)) \<and> bd_queue (the_bdev s2 d) = [] \<and> length (st_devices s2) = length (st_devices s1)"
      using "1.IH" [OF Cons "1.prems"(1) i [symmetric] refl] "1.prems"(1) dev r by simp
    moreover have "the_bdev s1 d = (the_bdev s d)\<lparr>bd_queue := rest\<rparr>"
      using dev "1.prems"(1) the_bdev_upd_bdev [of d s "\<lambda>b. b\<lparr>bd_queue := rest\<rparr>" d] by (simp add: the_bdev_def)
    ultimately show ?thesis using eq Cons dev by simp
  qed
qed

theorem serve_answers_all_witness:
  "map fst (fst (serve 0 demo_disk)) = map rq_tag (bd_queue (the_bdev demo_disk 0)) \<and>
   map fst (fst (serve 0 (upd_bdev 0 (queue_insert \<lparr>rq_tag = 9, rq_lba = 5, rq_count = 1, rq_buf = [0], rq_write = False\<rparr>) demo_disk))) = [9]"
  (is "?a \<and> map fst (fst (serve 0 ?s)) = [9]")
proof
  have l: "0 < length (st_devices demo_disk)" "0 < length (st_devices ?s)" by (simp_all add: demo_disk_devices)
  show ?a using serve_answers_all [OF l(1), of "fst (serve 0 demo_disk)"] by (metis prod.collapse)
  have "map fst (fst (serve 0 ?s)) = map rq_tag (bd_queue (the_bdev ?s 0))"
    using serve_answers_all [OF l(2), of "fst (serve 0 ?s)"] by (metis prod.collapse)
  then show "map fst (fst (serve 0 ?s)) = [9]"
    by (simp add: the_bdev_upd_bdev demo_disk_devices) (simp add: the_bdev_def demo_disk_devices queue_insert_def fresh_bdev_def)
qed

section \<open>The check of a layout\<close>

definition extent_blocks :: "u64 \<times> u64 \<Rightarrow> nat set" where
  "extent_blocks e = {unat (fst e) ..< unat (fst e) + unat (snd e)}"

lemma extents_clash_iff: "snd a \<noteq> 0 \<Longrightarrow> snd b \<noteq> 0 \<Longrightarrow> extents_clash a b \<longleftrightarrow> extent_blocks a \<inter> extent_blocks b \<noteq> {}"
proof -
  assume "snd a \<noteq> 0" "snd b \<noteq> 0"
  then have pos: "0 < unat (snd a)" "0 < unat (snd b)" by (simp_all add: unat_gt_0)
  have le: "x \<ge> y \<and> x - y \<ge> c \<longleftrightarrow> unat y + unat c \<le> unat x" for x y c :: u64
    by (auto simp: word_le_nat_alt unat_sub)
  have "extents_clash a b \<longleftrightarrow> unat (fst a) < unat (fst b) + unat (snd b) \<and> unat (fst b) < unat (fst a) + unat (snd a)"
    unfolding extents_clash_def case_prod_beta le by auto
  also have "\<dots> \<longleftrightarrow> extent_blocks a \<inter> extent_blocks b \<noteq> {}"
    using pos by (auto simp: extent_blocks_def disjoint_iff intro: exI [of _ "max (unat (fst a)) (unat (fst b))"])
  finally show ?thesis .
qed

lemma layout_scan_iff:
  "layout_scan N plan = BLOCK_OK \<longleftrightarrow>
     (\<forall>e\<in>set plan. snd e \<noteq> 0 \<and> unat (fst e) + unat (snd e) \<le> unat N) \<and>
     (\<forall>i j. i < j \<longrightarrow> j < length plan \<longrightarrow> extent_blocks (plan ! i) \<inter> extent_blocks (plan ! j) = {})"
proof (induction plan)
  case (Cons a rest)
  have inside: "\<not> (fst a \<ge> N \<or> snd a > N - fst a) \<longleftrightarrow> unat (fst a) + unat (snd a) \<le> unat N" if "snd a \<noteq> 0"
    using that unat_gt_0 [of "snd a"] by (auto simp: not_le not_less word_le_nat_alt word_less_nat_alt unat_sub)
  have step: "layout_scan N (a # rest) = BLOCK_OK \<longleftrightarrow> snd a \<noteq> 0 \<and> unat (fst a) + unat (snd a) \<le> unat N \<and>
      (\<forall>b\<in>set rest. \<not> extents_clash a b) \<and> layout_scan N rest = BLOCK_OK"
    using inside by auto
  have pairs: "(\<forall>i j. i < j \<longrightarrow> j < length (a # rest) \<longrightarrow> extent_blocks ((a # rest) ! i) \<inter> extent_blocks ((a # rest) ! j) = {}) \<longleftrightarrow>
      (\<forall>b\<in>set rest. extent_blocks a \<inter> extent_blocks b = {}) \<and>
      (\<forall>i j. i < j \<longrightarrow> j < length rest \<longrightarrow> extent_blocks (rest ! i) \<inter> extent_blocks (rest ! j) = {})"
    (is "?L \<longleftrightarrow> ?R")
  proof
    assume L: ?L
    have "extent_blocks a \<inter> extent_blocks b = {}" if "b \<in> set rest" for b
    proof -
      obtain j where "j < length rest" "rest ! j = b" using \<open>b \<in> set rest\<close> by (auto simp: in_set_conv_nth)
      then show ?thesis using L [rule_format, of 0 "Suc j"] by simp
    qed
    moreover have "extent_blocks (rest ! i) \<inter> extent_blocks (rest ! j) = {}" if "i < j" "j < length rest" for i j
      using L [rule_format, of "Suc i" "Suc j"] that by simp
    ultimately show ?R by blast
  next
    assume R: ?R
    show ?L
    proof (intro allI impI)
      fix i j assume "i < j" "j < length (a # rest)"
      then obtain j' where "j = Suc j'" "j' < length rest" by (cases j) auto
      then show "extent_blocks ((a # rest) ! i) \<inter> extent_blocks ((a # rest) ! j) = {}"
        using R \<open>i < j\<close> by (cases i) auto
    qed
  qed
  have "(snd a \<noteq> 0 \<and> (\<forall>b\<in>set rest. snd b \<noteq> 0) \<Longrightarrow> (\<forall>b\<in>set rest. \<not> extents_clash a b) \<longleftrightarrow> (\<forall>b\<in>set rest. extent_blocks a \<inter> extent_blocks b = {}))"
    using extents_clash_iff by blast
  then show ?case unfolding step pairs Cons.IH by auto
qed simp



end
