(* ===== verification/Install_Layout.thy ===== *)
theory Install_Layout
  imports Install_Plan Storage_Order
begin

text \<open>
  What an installation would do stays clear of what is there: every extent of a plan lies in the
  space the table calls usable, shares no block with an entry in use, and has the size and the
  alignment the installer promises.
\<close>

section \<open>Extents inside free space\<close>

definition sub_extent :: "u64 \<times> u64 \<Rightarrow> u64 \<times> u64 \<Rightarrow> bool" where
  "sub_extent a g \<longleftrightarrow> unat (fst g) \<le> unat (fst a) \<and> unat (fst a) + unat (snd a) \<le> unat (fst g) + unat (snd g)"

definition free_gap :: "nat \<Rightarrow> nat \<Rightarrow> (u64 \<times> u64) set \<Rightarrow> u64 \<times> u64 \<Rightarrow> bool" where
  "free_gap lo hi U g \<longleftrightarrow> lo \<le> unat (fst g) \<and> unat (fst g) + unat (snd g) \<le> hi \<and> (\<forall>u\<in>U. extent_blocks u \<inter> extent_blocks g = {})"

lemma sub_extent_trans: "sub_extent a b \<Longrightarrow> sub_extent b c \<Longrightarrow> sub_extent a c"
  by (simp add: sub_extent_def)

lemma free_gap_sub:
  assumes "free_gap lo hi U g" "sub_extent a g"
  shows "free_gap lo hi U a"
proof -
  have "extent_blocks a \<subseteq> extent_blocks g" using assms(2) by (auto simp: sub_extent_def extent_blocks_def)
  then show ?thesis using assms by (auto simp: free_gap_def sub_extent_def)
qed

lemma unat_u64_mod: "unat (a mod b :: u64) = unat a mod unat b"
  by (simp add: unat_mod)

lemma unat_align [simp]: "unat INSTALL_ALIGN_BLOCKS = 2048"
  by (simp add: INSTALL_ALIGN_BLOCKS_def)

lemma unat_sizes [simp]:
  "unat INSTALL_ESP_CREATE = 524288" "unat INSTALL_BIOS_BOOT = 2048" "unat INSTALL_SYSTEM_MIN = 4194304"
  "unat INSTALL_PROGRAMS_MIN = 2097152" "unat INSTALL_SYSTEM_CAP = 134217728" "unat (INSTALL_SYSTEM_MIN + INSTALL_PROGRAMS_MIN) = 6291456"
  "unat INSTALL_SYSTEM_SHARE = 4"
  by (simp_all add: INSTALL_ESP_CREATE_def INSTALL_BIOS_BOOT_def INSTALL_SYSTEM_MIN_def INSTALL_PROGRAMS_MIN_def
      INSTALL_SYSTEM_CAP_def INSTALL_SYSTEM_SHARE_def)

lemma unat_plus: "unat a + unat b < 2 ^ 64 \<Longrightarrow> unat (a + b :: u64) = unat a + unat b"
  by (simp add: unat_plus_if')

lemma unat_minus: "unat b \<le> unat a \<Longrightarrow> unat (a - b :: u64) = unat a - unat b"
  by (simp add: unat_sub word_le_nat_alt)

lemma round_up_mod: "(m + (2048 - m mod 2048)) mod 2048 = (0 :: nat)"
proof -
  have "m mod 2048 < 2048" "m mod 2048 \<le> m" by simp_all
  then have "m + (2048 - m mod 2048) = m - m mod 2048 + 2048" by linarith
  also have "\<dots> = m div 2048 * 2048 + 2048" by (simp only: minus_mod_eq_div_mult)
  finally show ?thesis by simp
qed

lemma aligned_fit_spec:
  assumes "aligned_fit g need = Some e" "unat (fst g) + unat (snd g) + 2048 \<le> 2 ^ 64"
  shows "sub_extent e g" "snd e = need" "unat (fst e) mod 2048 = 0"
proof -
  let ?m = "unat (fst g) mod 2048"
  define first where "first = (if fst g mod INSTALL_ALIGN_BLOCKS \<noteq> 0 then fst g + (INSTALL_ALIGN_BLOCKS - fst g mod INSTALL_ALIGN_BLOCKS) else fst g)"
  have e: "e = (first, need)" "\<not> first \<ge> fst g + snd g" "\<not> fst g + snd g - first < need"
    using assms(1) by (auto simp: aligned_fit_def Let_def first_def split: if_splits)
  have m: "unat (fst g mod INSTALL_ALIGN_BLOCKS) = ?m" by (simp add: unat_u64_mod)
  then have z: "fst g mod INSTALL_ALIGN_BLOCKS = 0 \<longleftrightarrow> ?m = 0" by (simp add: unat_eq_zero [symmetric])
  have pad: "unat (INSTALL_ALIGN_BLOCKS - fst g mod INSTALL_ALIGN_BLOCKS) = 2048 - ?m" using m by (subst unat_minus) simp_all
  have lim: "unat (fst g) + (2048 - ?m) < 2 ^ 64 \<or> ?m = 0" using assms(2) by (cases "?m = 0") linarith+
  have f: "unat first = (if ?m = 0 then unat (fst g) else unat (fst g) + (2048 - ?m))"
  proof (cases "?m = 0")
    case False
    then have "unat (fst g + (INSTALL_ALIGN_BLOCKS - fst g mod INSTALL_ALIGN_BLOCKS)) = unat (fst g) + (2048 - ?m)"
      using pad lim by (subst unat_plus) simp_all
    with False z show ?thesis by (simp add: first_def)
  qed (simp add: first_def z)
  have en: "unat (fst g + snd g) = unat (fst g) + unat (snd g)" by (rule unat_plus) (use assms(2) in simp)
  have lt: "unat first < unat (fst g) + unat (snd g)" using e(2) en by (simp add: word_le_nat_alt)
  have "unat (fst g + snd g - first) = unat (fst g) + unat (snd g) - unat first" using lt en by (simp add: unat_minus)
  then have room: "unat need \<le> unat (fst g) + unat (snd g) - unat first" using e(3) by (simp add: word_less_nat_alt)
  show "snd e = need" using e by simp
  have "unat (fst g) \<le> unat first" using f by (metis le_add1 order_refl)
  then show "sub_extent e g" using e(1) lt room by (simp add: sub_extent_def)
  show "unat (fst e) mod 2048 = 0" using e(1) f round_up_mod [of "unat (fst g)"] by (simp split: if_splits)
qed

section \<open>Choosing\<close>

definition gaps_good :: "nat \<Rightarrow> nat \<Rightarrow> (u64 \<times> u64) set \<Rightarrow> (u64 \<times> u64) list \<Rightarrow> bool" where
  "gaps_good lo hi U gaps \<longleftrightarrow> hi + 2048 \<le> 2 ^ 64 \<and> (\<forall>g\<in>set gaps. free_gap lo hi U g)"

lemma gaps_good_fit:
  assumes "free_gap lo hi U g" "hi + 2048 \<le> 2 ^ 64" "aligned_fit g need = Some e"
  shows "sub_extent e g" "free_gap lo hi U e" "snd e = need" "unat (fst e) mod 2048 = 0"
proof -
  have "unat (fst g) + unat (snd g) + 2048 \<le> 2 ^ 64" using assms(1,2) by (simp add: free_gap_def)
  note A = aligned_fit_spec [OF assms(3) this]
  show "sub_extent e g" "snd e = need" "unat (fst e) mod 2048 = 0" by (rule A)+
  show "free_gap lo hi U e" by (rule free_gap_sub [OF assms(1) A(1)])
qed

lemma take_esp_spec:
  "gaps_good lo hi U gaps \<Longrightarrow> take_esp gaps = Some (e, gaps1) \<Longrightarrow>
   gaps_good lo hi U gaps1 \<and> free_gap lo hi U e \<and> snd e = INSTALL_ESP_CREATE \<and> unat (fst e) mod 2048 = 0"
proof (induction gaps arbitrary: gaps1)
  case (Cons g gs)
  have g: "free_gap lo hi U g" "hi + 2048 \<le> 2 ^ 64" and gs: "gaps_good lo hi U gs" using Cons.prems(1) by (simp_all add: gaps_good_def)
  show ?case
  proof (cases "aligned_fit g INSTALL_ESP_CREATE")
    case None
    then obtain gs1 where "take_esp gs = Some (e, gs1)" "gaps1 = g # gs1" using Cons.prems(2) by (auto split: option.splits)
    with Cons.IH [OF gs this(1)] g show ?thesis by (simp add: gaps_good_def)
  next
    case (Some x)
    then have x: "x = e" and g1: "gaps1 = (fst e + snd e, snd g - ((fst e + snd e) - fst g)) # gs" using Cons.prems(2) by auto
    note F = gaps_good_fit [OF g Some [unfolded x]]
    have le: "unat (fst e) + unat (snd e) \<le> unat (fst g) + unat (snd g)" "unat (fst g) \<le> unat (fst e)" using F(1) by (simp_all add: sub_extent_def)
    have hi: "unat (fst g) + unat (snd g) \<le> hi" using g(1) by (simp add: free_gap_def)
    have f: "unat (fst e + snd e) = unat (fst e) + unat (snd e)" by (rule unat_plus) (use le hi g(2) in simp)
    have df: "unat (fst e + snd e - fst g) = unat (fst e) + unat (snd e) - unat (fst g)" using f le by (simp add: unat_minus)
    have "unat (snd g - (fst e + snd e - fst g)) = unat (snd g) - (unat (fst e) + unat (snd e) - unat (fst g))"
      using df le by (subst unat_minus) simp_all
    then have "sub_extent (fst e + snd e, snd g - ((fst e + snd e) - fst g)) g" using f le by (simp add: sub_extent_def)
    then have "free_gap lo hi U (fst e + snd e, snd g - ((fst e + snd e) - fst g))" by (rule free_gap_sub [OF g(1)])
    then show ?thesis using F g1 gs g(2) by (simp add: gaps_good_def)
  qed
qed simp

text \<open>A gap fit for the two volumes.\<close>

definition big_gap :: "nat \<Rightarrow> nat \<Rightarrow> (u64 \<times> u64) set \<Rightarrow> u64 \<times> u64 \<Rightarrow> bool" where
  "big_gap lo hi U g \<longleftrightarrow> free_gap lo hi U g \<and> unat (fst g) mod 2048 = 0 \<and> 6291456 \<le> unat (snd g)"

lemma round_down_ge:
  assumes "m dvd a" "a \<le> (n :: nat)"
  shows "a \<le> n - n mod m"
proof -
  have "m * (a div m) \<le> m * (n div m)" using assms(2) by (intro mult_le_mono2 div_le_mono)
  with assms(1) show ?thesis by (simp add: minus_mod_eq_mult_div)
qed

lemma better_gap_spec:
  assumes "free_gap lo hi U g" "hi + 2048 \<le> 2 ^ 64" "snd best = 0 \<or> big_gap lo hi U best"
  shows "snd (better_gap g best) = 0 \<or> big_gap lo hi U (better_gap g best)"
proof (cases "aligned_fit g (INSTALL_SYSTEM_MIN + INSTALL_PROGRAMS_MIN)")
  case None
  then show ?thesis using assms(3) by (simp add: better_gap_def)
next
  case (Some e)
  note F = gaps_good_fit [OF assms(1,2) Some]
  let ?n = "unat (fst g) + unat (snd g) - unat (fst e)"
  define len where "len = fst g + snd g - fst e - (fst g + snd g - fst e) mod INSTALL_ALIGN_BLOCKS"
  have hi: "unat (fst g) + unat (snd g) \<le> hi" using assms(1) by (simp add: free_gap_def)
  have le: "unat (fst e) + 6291456 \<le> unat (fst g) + unat (snd g)" "unat (fst g) \<le> unat (fst e)"
    using F(1,3) by (simp_all add: sub_extent_def)
  have "unat (fst g + snd g) = unat (fst g) + unat (snd g)" by (rule unat_plus) (use hi assms(2) in simp)
  then have "unat (fst g + snd g - fst e) = ?n" using le by (simp add: unat_minus)
  then have c: "unat len = ?n - ?n mod 2048"
    unfolding len_def by (subst unat_minus) (simp_all add: unat_u64_mod)
  have ge: "6291456 \<le> ?n" using le(1) by simp
  have "unat (fst e) + unat len \<le> unat (fst g) + unat (snd g)" using c le by simp
  then have "sub_extent (fst e, len) g" using le by (simp add: sub_extent_def)
  then have "big_gap lo hi U (fst e, len)"
    using free_gap_sub [OF assms(1)] F(4) c round_down_ge [of 2048 6291456, OF _ ge] by (simp add: big_gap_def)
  moreover have "better_gap g best = (if len > snd best then (fst e, len) else best)"
    using Some by (simp add: better_gap_def Let_def len_def)
  ultimately show ?thesis using assms(3) by simp
qed

lemma best_gap_spec:
  assumes "gaps_good lo hi U gaps" "snd (best_gap gaps) \<noteq> 0"
  shows "big_gap lo hi U (best_gap gaps)"
proof -
  have "snd (fold better_gap gaps b) = 0 \<or> big_gap lo hi U (fold better_gap gaps b)"
    if "\<forall>g\<in>set gaps. free_gap lo hi U g" "snd b = 0 \<or> big_gap lo hi U b" for b
    using that
  proof (induction gaps arbitrary: b)
    case (Cons g gs)
    have "snd (better_gap g b) = 0 \<or> big_gap lo hi U (better_gap g b)"
      using better_gap_spec [of lo hi U g b] Cons.prems assms(1) by (simp add: gaps_good_def)
    then show ?case using Cons.IH Cons.prems(1) by simp
  qed simp
  from this [of "(0, 0)"] assms show ?thesis by (simp add: gaps_good_def best_gap_def)
qed

text \<open>The division of a run between the two volumes.\<close>

lemma system_share:
  fixes n :: nat
  assumes "6291456 \<le> n" "a = n div 4" "b = max a 4194304" "c = min b 134217728" "e = min c (n - 2097152)" "sys = e - e mod 2048"
  shows "4194304 \<le> sys" "sys \<le> 134217728" "sys + 2097152 \<le> n" "sys mod 2048 = 0"
proof -
  have e: "4194304 \<le> e" "e \<le> 134217728" "e + 2097152 \<le> n" using assms(1-5) by (auto simp: max_def min_def)
  show "4194304 \<le> sys" using round_down_ge [of 2048 4194304 e] e(1) assms(6) by simp
  show "sys \<le> 134217728" "sys + 2097152 \<le> n" using e assms(6) by simp_all
  show "sys mod 2048 = 0" using assms(6) by (simp add: minus_mod_eq_mult_div)
qed

lemma unat_if_max: "unat (if (x :: u64) < y then y else x) = max (unat x) (unat y)"
  by (simp add: word_less_nat_alt max_def)

lemma unat_if_min: "unat (if (x :: u64) > y then y else x) = min (unat x) (unat y)"
  by (simp add: word_less_nat_alt min_def)

lemma split_rest_spec:
  assumes "unat first + unat len < 2 ^ 64" "6291456 \<le> unat len" "split_rest first len = (sys, prog)"
  shows "sub_extent sys (first, len)" "sub_extent prog (first, len)" "fst sys = first" "unat (fst prog) = unat first + unat (snd sys)"
    "4194304 \<le> unat (snd sys)" "unat (snd sys) \<le> 134217728" "unat (snd sys) mod 2048 = 0" "2097152 \<le> unat (snd prog)"
proof -
  let ?n = "unat len"
  define a where "a = len div INSTALL_SYSTEM_SHARE"
  define b where "b = (if a < INSTALL_SYSTEM_MIN then INSTALL_SYSTEM_MIN else a)"
  define c where "c = (if b > INSTALL_SYSTEM_CAP then INSTALL_SYSTEM_CAP else b)"
  define e where "e = (if c > len - INSTALL_PROGRAMS_MIN then len - INSTALL_PROGRAMS_MIN else c)"
  define z where "z = e - e mod INSTALL_ALIGN_BLOCKS"
  define p where "p = len - z"
  have r: "sys = (first, z)" "prog = (first + z, p - p mod INSTALL_ALIGN_BLOCKS)"
    using assms(3) unfolding split_rest_def Let_def a_def [symmetric] b_def [symmetric] c_def [symmetric] e_def [symmetric]
      z_def [symmetric] p_def [symmetric] by simp_all
  have ua: "unat a = ?n div 4" by (simp add: a_def unat_div)
  have ub: "unat b = max (unat a) 4194304" by (simp add: b_def unat_if_max)
  have uc: "unat c = min (unat b) 134217728" by (simp add: c_def unat_if_min)
  have ue: "unat e = min (unat c) (?n - 2097152)" using assms(2) by (simp add: e_def unat_if_min unat_minus)
  have uz: "unat z = unat e - unat e mod 2048" unfolding z_def by (subst unat_minus) (simp_all add: unat_u64_mod)
  note S = system_share [OF assms(2) ua ub uc ue uz]
  have up: "unat p = ?n - unat z" using S(3) by (simp add: p_def unat_minus)
  have uq: "unat (p - p mod INSTALL_ALIGN_BLOCKS) = unat p - unat p mod 2048" by (subst unat_minus) (simp_all add: unat_u64_mod)
  have uf: "unat (first + z) = unat first + unat z" by (rule unat_plus) (use S(3) assms(1) in simp)
  show "fst sys = first" "unat (fst prog) = unat first + unat (snd sys)" "4194304 \<le> unat (snd sys)" "unat (snd sys) \<le> 134217728"
    "unat (snd sys) mod 2048 = 0" using r uf S by simp_all
  show "sub_extent sys (first, len)" using r S(3) by (simp add: sub_extent_def)
  show "sub_extent prog (first, len)" using r S(3) uf uq up by (simp add: sub_extent_def)
  have "2097152 \<le> unat p" using up S(3) by simp
  from round_down_ge [of 2048 2097152, OF _ this] show "2097152 \<le> unat (snd prog)" using r uq by simp
qed

end
