(* ===== verification/Partition_Scan.thy ===== *)
theory Partition_Scan
  imports Partition Storage_Props
begin

text \<open>
  What a scan does whatever the disk holds: it is a run of reads and registrations, so every
  property of the storage stack survives it; it writes nothing, touches no other device, and what
  it adds are slices of the scanned disk.
\<close>

section \<open>Steps of a scan\<close>

definition scan_step :: "('hw \<Rightarrow> u32 \<Rightarrow> nat \<Rightarrow> u8 list) \<Rightarrow> nat \<Rightarrow> 'hw storage \<Rightarrow> 'hw storage \<Rightarrow> bool" where
  "scan_step content d s s' \<longleftrightarrow> storage_reached content s' \<and> content (st_hw s') = content (st_hw s) \<and>
     length (st_devices s) \<le> length (st_devices s') \<and>
     (\<forall>i<length (st_devices s). same_place (the_bdev s i) (the_bdev s' i) \<and> bd_present (the_bdev s' i) = bd_present (the_bdev s i) \<and>
        bd_generation (the_bdev s' i) = bd_generation (the_bdev s i) \<and>
        (i \<noteq> d \<longrightarrow> bd_slice_count (the_bdev s' i) = bd_slice_count (the_bdev s i) \<and> bd_scheme (the_bdev s' i) = bd_scheme (the_bdev s i))) \<and>
     (\<forall>i<length (st_devices s'). length (st_devices s) \<le> i \<longrightarrow> bd_parent (the_bdev s' i) = bd_id (the_bdev s d)) \<and>
     (bd_slice_count (the_bdev s d) \<le> BLOCK_MAX_SLICES \<longrightarrow> bd_slice_count (the_bdev s' d) \<le> BLOCK_MAX_SLICES)"

lemma scan_step_refl: "storage_reached content s \<Longrightarrow> scan_step content d s s"
  by (simp add: scan_step_def)

lemma same_place_trans: "same_place A B \<Longrightarrow> same_place B C \<Longrightarrow> same_place A C"
  by (simp add: same_place_def)

lemma scan_step_trans:
  assumes "scan_step content d s s1" "scan_step content d s1 s2" "d < length (st_devices s)"
  shows "scan_step content d s s2"
  unfolding scan_step_def
proof (intro conjI allI impI)
  note A = assms(1) [unfolded scan_step_def] and B = assms(2) [unfolded scan_step_def]
  show "storage_reached content s2" "content (st_hw s2) = content (st_hw s)"
    "length (st_devices s) \<le> length (st_devices s2)" using A B by auto
  show "bd_slice_count (the_bdev s d) \<le> BLOCK_MAX_SLICES \<Longrightarrow> bd_slice_count (the_bdev s2 d) \<le> BLOCK_MAX_SLICES" using A B by blast
  {
    fix i assume i: "i < length (st_devices s)"
    then have i1: "i < length (st_devices s1)" using A by simp
    have a: "same_place (the_bdev s i) (the_bdev s1 i)" and b: "same_place (the_bdev s1 i) (the_bdev s2 i)" using A B i i1 by blast+
    show "same_place (the_bdev s i) (the_bdev s2 i)" by (rule same_place_trans [OF a b])
    show "bd_present (the_bdev s2 i) = bd_present (the_bdev s i)" "bd_generation (the_bdev s2 i) = bd_generation (the_bdev s i)"
      "i \<noteq> d \<Longrightarrow> bd_slice_count (the_bdev s2 i) = bd_slice_count (the_bdev s i)" "i \<noteq> d \<Longrightarrow> bd_scheme (the_bdev s2 i) = bd_scheme (the_bdev s i)"
      using A B i i1 by simp_all
  }
  fix i assume i: "i < length (st_devices s2)" "length (st_devices s) \<le> i"
  have id: "bd_id (the_bdev s1 d) = bd_id (the_bdev s d)" using A assms(3) by (auto simp: same_place_def)
  show "bd_parent (the_bdev s2 i) = bd_id (the_bdev s d)"
  proof (cases "i < length (st_devices s1)")
    case True
    then have "same_place (the_bdev s1 i) (the_bdev s2 i)" "bd_parent (the_bdev s1 i) = bd_id (the_bdev s d)" using A B i by blast+
    then show ?thesis by (simp add: same_place_def)
  next
    case False
    then show ?thesis using B i id by simp
  qed
qed

lemma scan_step_D:
  assumes "scan_step content d s s'" "d < length (st_devices s)"
  shows "storage_reached content s'" "d < length (st_devices s')" "bd_block_size (the_bdev s' d) = bd_block_size (the_bdev s d)"
    "bd_block_count (the_bdev s' d) = bd_block_count (the_bdev s d)" "bd_parent (the_bdev s' d) = bd_parent (the_bdev s d)"
    "bd_present (the_bdev s' d) = bd_present (the_bdev s d)" "bd_ops (the_bdev s' d) = bd_ops (the_bdev s d)"
    "bd_id (the_bdev s' d) = bd_id (the_bdev s d)"
proof -
  note A = assms(1) [unfolded scan_step_def]
  have "same_place (the_bdev s d) (the_bdev s' d) \<and> bd_present (the_bdev s' d) = bd_present (the_bdev s d)" using A assms(2) by blast
  then show "storage_reached content s'" "d < length (st_devices s')" "bd_block_size (the_bdev s' d) = bd_block_size (the_bdev s d)"
    "bd_block_count (the_bdev s' d) = bd_block_count (the_bdev s d)" "bd_parent (the_bdev s' d) = bd_parent (the_bdev s d)"
    "bd_present (the_bdev s' d) = bd_present (the_bdev s d)" "bd_ops (the_bdev s' d) = bd_ops (the_bdev s d)"
    "bd_id (the_bdev s' d) = bd_id (the_bdev s d)" using A assms(2) by (simp_all add: same_place_def)
qed

text \<open>The four kinds of step.\<close>

lemma scan_step_pages: "storage_reached content s \<Longrightarrow> scan_step content d s (s\<lparr>st_pages := p\<rparr>)"
  unfolding scan_step_def by (intro conjI storage_reached.Pages) (auto simp: the_bdev_def)

lemma scan_step_panic: "storage_reached content s \<Longrightarrow> scan_step content d s (st_panics m s)"
  unfolding scan_step_def by (intro conjI storage_reached.Panic) (auto simp: the_bdev_def)

lemma scan_step_back: "storage_reached content s \<Longrightarrow> scan_step content d s (pages_back at n s)"
  by (auto simp: pages_back_def scan_step_pages scan_step_panic split: sum.split)

lemma scan_step_scheme:
  assumes "storage_reached content s"
  shows "scan_step content d s (set_scheme d sch s)"
proof (cases "d < length (st_devices s)")
  case True
  let ?D = "the_bdev s d"
  have "set_scheme d sch s = upd_bdev d (describe (bd_removable ?D) (bd_read_only ?D) (bd_flush_is_durable ?D) (bd_seek_is_free ?D)
      (bd_discard_supported ?D) (bd_transfer_hint ?D) (bd_max_blocks ?D) sch) s"
    by (simp add: set_scheme_def upd_bdev_def describe_def)
  then have "storage_reached content (set_scheme d sch s)" using storage_reached.Describe [OF assms] by simp
  then show ?thesis using True by (simp add: scan_step_def set_scheme_def the_bdev_upd_bdev same_place_def)
next
  case False
  then show ?thesis using scan_step_refl [OF assms] by (simp add: set_scheme_def upd_bdev_def list_update_beyond)
qed

lemma scan_step_read:
  assumes "storage_reached content s" "d < length (st_devices s)" "unat n * unat (bd_block_size (the_bdev s d)) \<le> length page"
    and "page_read d lba n page s = (st, page', s')"
  shows "scan_step content d s s'" "length page' = length page"
proof -
  let ?buf = "take (unat n * unat (bd_block_size (the_bdev s d))) page"
  obtain b where r: "block_read (Some d) lba n (Some ?buf) s = (st, b, s')" and p': "page' = overlay 0 b page"
    using assms(4) by (auto simp: page_read_def split: prod.splits)
  have fit: "fits s d n ?buf" using assms(2,3) by (simp add: fits_def)
  have len: "length ?buf = unat n * unat (bd_block_size (the_bdev s d))" using assms(3) by simp
  note R = block_read_spec [OF coherentD(1,2) [OF reached_coherent [OF assms(1)]] assms(2) len r]
  show "length page' = length page" using R(4) assms(3) p' by (simp add: length_overlay)
  have re: "storage_reached content s'" using storage_reached.Raw_read [OF assms(1) fit, of lba] r by simp
  have dv: "bd_slice_count (the_bdev s' i) = bd_slice_count (the_bdev s i) \<and> bd_scheme (the_bdev s' i) = bd_scheme (the_bdev s i)"
    if "i < length (st_devices s)" for i
  proof -
    have "the_bdev s' i = (the_bdev s i)\<lparr>bd_queued := bd_queued (the_bdev s' i)\<rparr>" using R(1) that by (simp add: same_devices_def)
    from arg_cong [OF this, of bd_scheme] arg_cong [OF this, of bd_slice_count] show ?thesis by simp
  qed
  show "scan_step content d s s'"
    using re R(1,3) dv assms(2) same_devices_fields [OF R(1)] same_devices_length [OF R(1)] registryD(2) [OF coherentD(1) [OF reached_coherent [OF re]]]
      registryD(2) [OF coherentD(1) [OF reached_coherent [OF assms(1)]]]
    by (simp add: scan_step_def same_place_def)
qed

lemma scan_step_slice:
  assumes "storage_reached content s" "d < length (st_devices s)"
  shows "scan_step content d s (snd (block_register_slice (Some d) index first n sch s))"
proof -
  let ?s' = "snd (block_register_slice (Some d) index first n sch s)" and ?r = "fst (block_register_slice (Some d) index first n sch s)"
  have re: "storage_reached content ?s'" by (rule storage_reached.Slice [OF assms])
  show ?thesis
  proof (cases "?r = None")
    case True
    then have "?s' = s" by (auto simp: block_register_slice_def block_register_def Let_def split: if_splits)
    then show ?thesis using scan_step_refl [OF assms(1)] by simp
  next
    case False
    let ?P = "the_bdev s d" and ?L = "length (st_devices s)"
    have g: "bd_slice_count ?P < BLOCK_MAX_SLICES"
      using False by (auto simp: block_register_slice_def block_register_def Let_def not_le split: if_splits)
    obtain D where D: "bd_parent D = bd_id ?P" "st_devices ?s' = (st_devices s @ [D])[d := ?P\<lparr>bd_slice_count := bd_slice_count ?P + 1\<rparr>]"
        "st_hw ?s' = st_hw s"
    proof
      show "bd_parent ((fresh_bdev (slice_name (bd_name ?P) index) (bd_ops ?P) (bd_block_size ?P) n (st_next_id s))
          \<lparr>bd_parent := bd_id ?P, bd_parent_generation := bd_generation ?P, bd_first_lba := first, bd_slice_index := index, bd_scheme := sch,
           bd_removable := bd_removable ?P, bd_read_only := bd_read_only ?P, bd_max_blocks := bd_max_blocks ?P\<rparr>) = bd_id ?P" by simp
    qed (use False assms(2) in \<open>auto simp: block_register_slice_def block_register_def Let_def upd_bdev_def the_bdev_def nth_append split: if_splits\<close>)
    have old: "the_bdev ?s' i = (if i = d then ?P\<lparr>bd_slice_count := bd_slice_count ?P + 1\<rparr> else the_bdev s i)" if "i < ?L" for i
      using that D(2) by (simp add: the_bdev_def nth_append nth_list_update)
    have new: "the_bdev ?s' ?L = D" using D(2) assms(2) by (simp add: the_bdev_def nth_list_update nth_append)
    have len: "length (st_devices ?s') = Suc ?L" using D(2) by simp
    show ?thesis
      unfolding scan_step_def len
      using re D(1,3) g old new assms(2) by (auto simp: same_place_def less_Suc_eq)
  qed
qed

section \<open>The parts of a scan\<close>

text \<open>The page stays a page, and every part is a step.\<close>

definition scan_part :: "('hw \<Rightarrow> u32 \<Rightarrow> nat \<Rightarrow> u8 list) \<Rightarrow> nat \<Rightarrow> 'hw storage \<Rightarrow> bool" where
  "scan_part content d s \<longleftrightarrow> storage_reached content s \<and> d < length (st_devices s) \<and> unat (bd_block_size (the_bdev s d)) \<le> PAGE_SIZE"

lemma scan_part_step:
  assumes "scan_part content d s" "scan_step content d s s'"
  shows "scan_part content d s'"
  using assms(1) scan_step_D [OF assms(2)] by (simp add: scan_part_def)

lemma scan_part_trans:
  assumes "scan_step content d s s1" "scan_part content d s" "scan_part content d s1 \<Longrightarrow> scan_step content d s1 s2"
  shows "scan_step content d s s2"
  using scan_step_trans [OF assms(1)] assms(2,3) scan_part_step [OF assms(2,1)] by (auto simp: scan_part_def)

lemma scan_part_read:
  assumes "scan_part content d s" "length page = PAGE_SIZE" "page_read d lba 1 page s = (st, page', s')"
  shows "scan_step content d s s'" "length page' = PAGE_SIZE"
  using scan_step_read [OF _ _ _ assms(3)] assms(1,2) by (auto simp: scan_part_def)

lemma scan_part_slice:
  "scan_part content d s \<Longrightarrow> scan_step content d s (snd (block_register_slice (Some d) index first n sch s))"
  by (simp add: scan_part_def scan_step_slice)

lemma gpt_register_step: "scan_part content d s \<Longrightarrow> scan_step content d s (gpt_register d entries stride is s)"
proof (induction d entries stride "is" s rule: gpt_register.induct)
  case (1 d entries stride s)
  then show ?case by (simp add: scan_step_refl scan_part_def)
next
  case (2 d entries stride i rest s)
  let ?e = "i * stride"
  let ?first = "le64 entries (?e + GPT_ENTRY_FIRST)" and ?final = "le64 entries (?e + GPT_ENTRY_LAST)"
  consider "all_zero entries ?e 16 \<or> ?final < ?first" | "\<not> all_zero entries ?e 16" "\<not> ?final < ?first" by blast
  then show ?case
  proof cases
    case 1
    then show ?thesis using "2.IH"(1,2) "2.prems" by (auto simp: Let_def)
  next
    case 2
    obtain r s1 where r: "block_register_slice (Some d) (of_nat (i + 1)) ?first (?final - ?first + 1) BLOCK_SCHEME_GPT s = (r, s1)" by fastforce
    have S: "scan_step content d s s1" using scan_part_slice [OF "2.prems"] r by (metis snd_conv)
    show ?thesis
    proof (cases r)
      case None
      then show ?thesis using 2 r S by (simp add: Let_def)
    next
      case (Some x)
      have "scan_step content d s1 (gpt_register d entries stride rest s1)"
        using "2.IH"(3) [OF refl 2(1) refl refl 2(2) r [symmetric] Some] scan_part_step [OF "2.prems" S] by simp
      then have "scan_step content d s (gpt_register d entries stride rest s1)"
        using scan_part_trans [OF S "2.prems"] by simp
      then show ?thesis using 2 r Some by (simp add: Let_def)
    qed
  qed
qed

lemma fold_step:
  assumes "\<And>i s. scan_part content d s \<Longrightarrow> scan_step content d s (f i s)" "scan_part content d s"
  shows "scan_step content d s (fold f is s)"
  using assms(2)
proof (induction "is" arbitrary: s)
  case (Cons i "is")
  have "scan_step content d s (f i s)" by (rule assms(1) [OF Cons.prems])
  then show ?case using scan_part_trans [OF _ Cons.prems Cons.IH] by simp
qed (simp add: scan_step_refl scan_part_def)

lemma mbr_primary_step: "scan_part content d s \<Longrightarrow> scan_step content d s (mbr_primary d block i s)"
  by (auto simp: mbr_primary_def Let_def scan_part_slice intro: scan_step_refl simp: scan_part_def)

lemma link_partition_step:
  "scan_part content d s \<Longrightarrow> link_partition d link index block s = (made, index1, s') \<Longrightarrow> scan_step content d s s'"
  using scan_part_slice [of content d s]
  by (auto simp: link_partition_def Let_def scan_part_def scan_step_refl split: if_splits prod.splits option.splits) (metis snd_conv)+

lemma walk_extended_step:
  "scan_part content d s \<Longrightarrow> length block = PAGE_SIZE \<Longrightarrow> walk_extended g d cl cc link index block s = (block', s') \<Longrightarrow>
   scan_step content d s s' \<and> length block' = PAGE_SIZE"
proof (induction g d cl cc link index block s arbitrary: block' s' rule: walk_extended.induct)
  case (1 d cl cc link index block s)
  then show ?case by (auto intro: scan_step_refl simp: scan_part_def)
next
  case (2 guard d cl cc link index block s)
  show ?case
  proof (cases "link < cl \<or> link - cl \<ge> cc")
    case True
    then show ?thesis using "2.prems" by (auto intro: scan_step_refl simp: scan_part_def)
  next
    case inside: False
    obtain st blk s1 where r: "page_read d link 1 block s = (st, blk, s1)" by (metis prod_cases3)
    note R = scan_part_read [OF "2.prems"(1,2) r]
    note P1 = scan_part_step [OF "2.prems"(1) R(1)]
    show ?thesis
    proof (cases "st = BLOCK_OK \<and> le16 blk MBR_SIGNATURE_OFFSET = 0xAA55")
      case False
      then show ?thesis using "2.prems"(3) inside r R by (auto split: if_splits)
    next
      case True
      obtain made index1 s2 where l: "link_partition d link index blk s1 = (made, index1, s2)" by (metis prod_cases3)
      note L = scan_part_trans [OF R(1) "2.prems"(1) link_partition_step [OF _ l]]
      let ?e1 = "MBR_TABLE_OFFSET + MBR_ENTRY_SIZE"
      let ?nxt = "cl + ucast (le32 blk (?e1 + 8))"
      show ?thesis
      proof (cases "made \<and> is_extended (blk ! (?e1 + 4)) \<and> \<not> ?nxt \<le> link")
        case False
        then have "(block', s') = (blk, s2)" using "2.prems"(3) inside r True l by (auto simp: Let_def split: if_splits)
        then show ?thesis using L R by simp
      next
        case go: True
        then have w: "walk_extended guard d cl cc ?nxt index1 blk s2 = (block', s')"
          using "2.prems"(3) inside r True l by (simp add: Let_def not_less [symmetric])
        have "scan_step content d s2 s' \<and> length block' = PAGE_SIZE"
          by (rule "2.IH" [OF inside r [symmetric] refl _ _ l [symmetric] refl refl refl _ _ _ scan_part_step [OF "2.prems"(1) L] R(2) w])
            (use True go in simp_all)
        then show ?thesis using scan_part_trans [OF L "2.prems"(1), of s'] by blast
      qed
    qed
  qed
qed

lemma read_mbr_step:
  assumes "scan_part content d s" "length block = PAGE_SIZE" "read_mbr d block s = (ok, block', s')"
  shows "scan_step content d s s'"
proof -
  obtain st blk s1 where r: "page_read d 0 1 block s = (st, blk, s1)" by (metis prod_cases3)
  note R = scan_part_read [OF assms(1,2) r]
  let ?s2 = "fold (mbr_primary d blk) [0..<4] s1"
  have F: "scan_step content d s ?s2"
    by (rule scan_part_trans [OF R(1) assms(1)]) (rule fold_step [OF mbr_primary_step])
  note P2 = scan_part_step [OF assms(1) F]
  show ?thesis
  proof (cases "st = BLOCK_OK \<and> le16 blk MBR_SIGNATURE_OFFSET = 0xAA55")
    case False
    then show ?thesis using assms(3) r R by (auto simp: read_mbr_def split: if_splits)
  next
    case True
    show ?thesis
    proof (cases "find (\<lambda>i. is_extended (blk ! (MBR_TABLE_OFFSET + i * MBR_ENTRY_SIZE + 4))) [0..<4]")
      case None
      then have "s' = ?s2" using assms(3) r True by (auto simp: read_mbr_def Let_def)
      then show ?thesis using F by simp
    next
      case (Some i)
      let ?c = "ucast (le32 blk (MBR_TABLE_OFFSET + i * MBR_ENTRY_SIZE + 8))"
      obtain b w where w: "walk_extended (BLOCK_MAX_SLICES + 8) d ?c (ucast (le32 blk (MBR_TABLE_OFFSET + i * MBR_ENTRY_SIZE + 12))) ?c 5 blk ?s2 = (b, w)"
        by fastforce
      then have "s' = w" using assms(3) r True Some by (auto simp: read_mbr_def Let_def)
      then show ?thesis using scan_part_trans [OF F assms(1)] walk_extended_step [OF P2 R(2) w] by blast
    qed
  qed
qed

lemma header_ok_bounds:
  assumes "header_ok hdr bs at = Some (el, count, stride, crc)"
  shows "0 < unat count" "unat count \<le> 512" "128 \<le> unat stride" "unat stride \<le> 512"
proof -
  have "count \<noteq> 0" "count \<le> 512" "128 \<le> stride" "stride \<le> 512"
    using assms by (auto simp: header_ok_def Let_def GPT_MAX_ENTRIES_def GPT_MAX_ENTRY_SIZE_def not_less split: if_splits)
  then show "0 < unat count" "unat count \<le> 512" "128 \<le> unat stride" "unat stride \<le> 512"
    by (simp_all add: word_le_nat_alt unat_gt_0)
qed

lemma round_up_mono:
  fixes E bs n m :: nat
  assumes "0 < bs" "E \<le> n * (bs * m)"
  shows "(E + bs - 1) div bs * bs \<le> n * (bs * m)"
proof -
  have "E + bs - 1 < (n * m + 1) * bs" using assms by (simp add: algebra_simps)
  then have "(E + bs - 1) div bs < n * m + 1" using assms(1) by (simp add: div_less_iff_less_mult)
  then have "(E + bs - 1) div bs * bs \<le> n * m * bs" by simp
  then show ?thesis by (simp add: algebra_simps)
qed

text \<open>The array of entries fits the pages allocated for it.\<close>

lemma entries_fit:
  fixes count stride :: u32
  assumes "0 < unat count" "unat count \<le> 512" "128 \<le> unat stride" "unat stride \<le> 512"
    and "unat bs dvd PAGE_SIZE" "(bs :: u32) \<noteq> 0"
  defines "E \<equiv> (ucast count * ucast stride :: u64)"
  defines "b \<equiv> (E + ucast bs - 1) div ucast bs"
  shows "unat E = unat count * unat stride" "unat (ucast b :: u32) = unat b"
    "unat b = (unat E + unat bs - 1) div unat bs"
    "unat b * unat bs \<le> pages_for E * PAGE_SIZE" "unat E \<le> unat b * unat bs" "pages_for E * PAGE_SIZE \<le> 2 ^ 20"
proof -
  have le: "unat count * unat stride \<le> 512 * 512" using assms(2,4) by (rule mult_le_mono)
  show E: "unat E = unat count * unat stride" unfolding E_def using le by (subst unat_mult_lem [THEN iffD1]) simp_all
  have bs0: "0 < unat bs" using assms(6) by (simp add: unat_gt_0)
  have bsle: "unat bs \<le> 4096" using assms(5) by (auto simp: PAGE_SIZE_def intro: dvd_imp_le)
  have s1: "unat (E + ucast bs) = unat E + unat bs" using E le bsle by (subst unat_add_lem [THEN iffD1]) simp_all
  have "E + ucast bs \<noteq> 0" using s1 bs0 by (auto simp: word_unat_eq_iff)
  then have "unat (E + ucast bs - 1) = unat E + unat bs - 1" using s1 unat_minus_one by metis
  then show b: "unat b = (unat E + unat bs - 1) div unat bs" unfolding b_def by (simp add: unat_div)
  have "unat b \<le> unat E + unat bs - 1" unfolding b by (rule div_le_dividend)
  then have "unat b < 2 ^ 32" using E le bsle by simp
  then show "unat (ucast b :: u32) = unat b" by (simp add: unat_ucast_mod)
  have p: "pages_for E = (unat E + 4095) div 4096"
  proof -
    have "unat (E + 4096) = unat E + 4096" using E le by (subst unat_add_lem [THEN iffD1]) simp_all
    moreover have "E + 4096 \<noteq> 0" using calculation by (auto simp: word_unat_eq_iff)
    ultimately have "unat (E + 4096 - 1) = unat E + 4095" using unat_minus_one by fastforce
    then show ?thesis by (simp add: pages_for_def PAGE_SIZE_def unat_div)
  qed
  obtain m where m: "4096 = unat bs * m" using assms(5) unfolding PAGE_SIZE_def by (rule dvdE)
  have up: "unat E \<le> pages_for E * 4096"
  proof -
    have "unat E + 4095 = (unat E + 4095) div 4096 * 4096 + (unat E + 4095) mod 4096" by simp
    moreover have "(unat E + 4095) mod 4096 < 4096" by simp
    ultimately show ?thesis unfolding p by linarith
  qed
  then have "unat E \<le> pages_for E * (unat bs * m)" by (simp only: m)
  from round_up_mono [OF bs0 this] show "unat b * unat bs \<le> pages_for E * PAGE_SIZE" by (simp only: b PAGE_SIZE_def m)
  have "unat E + unat bs - 1 = (unat E + unat bs - 1) div unat bs * unat bs + (unat E + unat bs - 1) mod unat bs" by simp
  moreover have "(unat E + unat bs - 1) mod unat bs < unat bs" using bs0 by simp
  ultimately show "unat E \<le> unat b * unat bs" unfolding b by linarith
  have "(unat E + 4095) div 4096 \<le> 65" using E le by simp
  then show "pages_for E * PAGE_SIZE \<le> 2 ^ 20" unfolding p PAGE_SIZE_def by simp
qed

lemma scan_part_block_size:
  assumes "scan_part content d s"
  shows "unat (bd_block_size (the_bdev s d)) dvd PAGE_SIZE" "bd_block_size (the_bdev s d) \<noteq> 0"
proof -
  let ?D = "the_bdev s d"
  have re: "storage_reached content s" and dl: "d < length (st_devices s)" and le: "unat (bd_block_size ?D) \<le> PAGE_SIZE"
    using assms by (simp_all add: scan_part_def)
  have r: "registry_ok s" "d < length (st_devices s)" using coherentD(1) [OF reached_coherent [OF re]] dl by simp_all
  note R = registryD(3,4) [OF r]
  show "bd_block_size ?D \<noteq> 0" by (rule R)
  have "bd_block_size ?D \<le> of_nat PAGE_SIZE" using le by (simp add: word_le_nat_alt PAGE_SIZE_def)
  then have "cacheable ?D = Some (of_nat PAGE_SIZE div bd_block_size ?D)" using R by (simp add: cacheable_def Let_def not_less)
  from cacheable_unit(1) [OF this] show "unat (bd_block_size ?D) dvd PAGE_SIZE" by (metis dvd_triv_right)
qed

lemma read_entries_step:
  assumes "scan_part content d s" "0 < unat count" "unat count \<le> 512" "128 \<le> unat stride" "unat stride \<le> 512"
    and "read_entries d el count stride crc s = (ok, s')"
  shows "scan_step content d s s'"
proof -
  let ?D = "the_bdev s d" and ?E = "ucast count * ucast stride :: u64"
  let ?b = "(?E + ucast (bd_block_size ?D) - 1) div ucast (bd_block_size ?D)" and ?n = "pages_for ?E"
  note EF = entries_fit [OF assms(2-5) scan_part_block_size [OF assms(1)]]
  have re: "storage_reached content s" and dl: "d < length (st_devices s)" using assms(1) by (simp_all add: scan_part_def)
  show ?thesis
  proof (cases "el \<ge> bd_block_count ?D \<or> ?b > bd_block_count ?D - el")
    case True
    then show ?thesis using assms(6) scan_step_refl [OF re] by (auto simp: read_entries_def Let_def)
  next
    case inside: False
    obtain at p where al: "pmm_alloc_pages ?n (st_pages s) = (at, p)" by fastforce
    let ?s1 = "s\<lparr>st_pages := p\<rparr>"
    have S1: "scan_step content d s ?s1" by (rule scan_step_pages [OF re])
    note P1 = scan_part_step [OF assms(1) S1]
    obtain st ents s2 where r: "page_read d el (ucast ?b) (replicate (?n * PAGE_SIZE) 0) ?s1 = (st, ents, s2)" by (metis prod_cases3)
    have "unat (ucast ?b :: u32) * unat (bd_block_size (the_bdev ?s1 d)) \<le> length (replicate (?n * PAGE_SIZE) (0 :: u8))"
      using EF(2,4) by (simp add: the_bdev_def)
    from scan_step_read(1) [OF _ _ this r] P1 have R: "scan_step content d ?s1 s2" by (simp add: scan_part_def)
    have S2: "scan_step content d s s2" using scan_part_trans [OF S1 assms(1)] R by blast
    note P2 = scan_part_step [OF assms(1) S2]
    have B2: "scan_step content d s (pages_back at ?n s2)"
      by (rule scan_part_trans [OF S2 assms(1)]) (simp add: scan_step_back scan_part_def)
    have S3: "scan_step content d s (gpt_register d ents (unat stride) [0..<unat count] s2)"
      by (rule scan_part_trans [OF S2 assms(1)]) (rule gpt_register_step)
    have B3: "scan_step content d s (pages_back at ?n (gpt_register d ents (unat stride) [0..<unat count] s2))"
      by (rule scan_part_trans [OF S3 assms(1)]) (simp add: scan_step_back scan_part_def)
    have "s' = ?s1 \<or> s' = pages_back at ?n s2 \<or> s' = pages_back at ?n (gpt_register d ents (unat stride) [0..<unat count] s2)"
      using assms(6) inside al r by (auto simp: read_entries_def Let_def split: if_splits)
    then show ?thesis using S1 B2 B3 by blast
  qed
qed

lemma read_gpt_step:
  assumes "scan_part content d s" "length block = PAGE_SIZE" "read_gpt d block s = (ok, block', s')"
  shows "scan_step content d s s' \<and> length block' = PAGE_SIZE"
proof -
  obtain st blk1 s1 where r1: "page_read d 1 1 block s = (st, blk1, s1)" by (metis prod_cases3)
  note R1 = scan_part_read [OF assms(1,2) r1]
  note P1 = scan_part_step [OF assms(1) R1(1)]
  let ?final = "bd_block_count (the_bdev s d) - 1"
  obtain st2 blk2 s2 where r2: "page_read d ?final 1 blk1 s1 = (st2, blk2, s2)" by (metis prod_cases3)
  note R2 = scan_part_read [OF P1 R1(2) r2]
  have S2: "scan_step content d s s2" using scan_part_trans [OF R1(1) assms(1)] R2(1) by blast
  have ent: "scan_step content d s w"
    if "scan_step content d s t" "header_ok h bs at = Some (el, c, str, crc)" "read_entries d el c str crc t = (ok, w)"
    for t h bs at el c str crc w ok
    using scan_part_trans [OF that(1) assms(1)] read_entries_step [OF scan_part_step [OF assms(1) that(1)] header_ok_bounds [OF that(2)] that(3)] by blast
  let ?bs = "bd_block_size (the_bdev s d)"
  have "\<exists>hdr blk t. (hdr = None \<or> (\<exists>h at. header_ok h ?bs at = hdr)) \<and> scan_step content d s t \<and> length blk = PAGE_SIZE \<and>
      (case hdr of None \<Rightarrow> (False, blk, t)
       | Some (el, c, str, crc) \<Rightarrow> (case read_entries d el c str crc t of (ok, s3) \<Rightarrow> (ok, blk, s3))) = (ok, block', s')"
  proof (cases "if st = BLOCK_OK then header_ok blk1 ?bs 1 else None")
    case (Some h)
    then show ?thesis using assms(3) r1 R1
      by (intro exI [of _ "Some h"] exI [of _ blk1] exI [of _ s1]) (auto simp: read_gpt_def Let_def split: if_splits)
  next
    case None
    show ?thesis
    proof (cases "bd_block_count (the_bdev s d) = 0")
      case True
      then show ?thesis using assms(3) r1 R1 None
        by (intro exI [of _ None] exI [of _ blk1] exI [of _ s1]) (simp add: read_gpt_def Let_def)
    next
      case False
      show ?thesis
        by (rule exI [of _ "if st2 = BLOCK_OK then header_ok blk2 ?bs ?final else None"], rule exI [of _ blk2], rule exI [of _ s2])
          (use assms(3) r1 r2 R2 S2 None False in \<open>auto simp: read_gpt_def Let_def\<close>)
    qed
  qed
  then obtain hdr blk t where h: "hdr = None \<or> (\<exists>h at. header_ok h ?bs at = hdr)" and T: "scan_step content d s t" "length blk = PAGE_SIZE"
    and run: "(case hdr of None \<Rightarrow> (False, blk, t)
       | Some (el, c, str, crc) \<Rightarrow> (case read_entries d el c str crc t of (ok, s3) \<Rightarrow> (ok, blk, s3))) = (ok, block', s')" by blast
  show ?thesis
  proof (cases hdr)
    case None
    then show ?thesis using run T by simp
  next
    case (Some q)
    obtain el c str crc where q: "q = (el, c, str, crc)" by (cases q) auto
    obtain ok3 s3 where e: "read_entries d el c str crc t = (ok3, s3)" by fastforce
    obtain h' at where "header_ok h' ?bs at = Some (el, c, str, crc)" using h Some q by blast
    from ent [OF T(1) this e] show ?thesis using run Some q e T(2) by simp
  qed
qed

lemma scan_page_step:
  assumes "scan_part content d s" "length block = PAGE_SIZE"
  shows "scan_step content d s (scan_page d block s)"
proof -
  obtain st blk s1 where r: "page_read d 0 1 block s = (st, blk, s1)" by (metis prod_cases3)
  note R = scan_part_read [OF assms r]
  note P1 = scan_part_step [OF assms(1) R(1)]
  obtain ok blk2 s2 where g: "read_gpt d blk s1 = (ok, blk2, s2)" by (metis prod_cases3)
  note G = read_gpt_step [OF P1 R(2) g]
  have S2: "scan_step content d s s2" using scan_part_trans [OF R(1) assms(1)] G by blast
  note P2 = scan_part_step [OF assms(1) S2]
  obtain ok2 blk3 s3 where m: "read_mbr d blk2 s2 = (ok2, blk3, s3)" by (metis prod_cases3)
  have S3: "scan_step content d s s3"
    using scan_part_trans [OF S2 assms(1)] read_mbr_step [OF P2 conjunct2 [OF G] m] by blast
  have sc: "scan_step content d s (set_scheme d sch t)" if "scan_step content d s t" for sch t
    by (rule scan_part_trans [OF that assms(1)]) (simp add: scan_step_scheme scan_part_def)
  have "scan_page d block s = s1 \<or> scan_page d block s = s3 \<or> (\<exists>sch. scan_page d block s = set_scheme d sch s1 \<or>
      scan_page d block s = set_scheme d sch s2 \<or> scan_page d block s = set_scheme d sch s3)"
    by (simp add: scan_page_def r g m) blast
  then show ?thesis using R(1) S3 sc [OF R(1)] sc [OF S2] sc [OF S3] by fastforce
qed

lemma partition_scan_step:
  assumes "storage_reached content s" "d < length (st_devices s)"
  shows "scan_step content d s (partition_scan (Some d) s)"
proof (cases "bd_present (the_bdev s d) \<and> bd_parent (the_bdev s d) = 0")
  case False
  then show ?thesis using scan_step_refl [OF assms(1)] by (auto simp: partition_scan_def)
next
  case True
  let ?s1 = "set_scheme d BLOCK_SCHEME_NONE s"
  have S1: "scan_step content d s ?s1" by (rule scan_step_scheme [OF assms(1)])
  have bs: "bd_block_size (the_bdev ?s1 d) = bd_block_size (the_bdev s d)" by (rule scan_step_D(3) [OF S1 assms(2)])
  show ?thesis
  proof (cases "bd_block_size (the_bdev s d) > of_nat PAGE_SIZE \<or> bd_block_count (the_bdev s d) < 2")
    case True': True
    have "partition_scan (Some d) s = ?s1" using True True' by (auto simp: partition_scan_def)
    then show ?thesis using S1 by simp
  next
    case False
    obtain page p where pg: "pmm_alloc_page (st_pages ?s1) = (page, p)" by fastforce
    let ?s2 = "?s1\<lparr>st_pages := p\<rparr>"
    have "unat (bd_block_size (the_bdev s d)) \<le> PAGE_SIZE" using False by (simp add: word_le_nat_alt not_less PAGE_SIZE_def)
    then have P1: "scan_part content d ?s1" using scan_step_D(1,2) [OF S1 assms(2)] bs by (simp add: scan_part_def)
    have T2: "scan_step content d ?s1 ?s2" using P1 by (simp add: scan_step_pages scan_part_def)
    note P2 = scan_part_step [OF P1 T2]
    have T3: "scan_step content d ?s2 (scan_page d (replicate PAGE_SIZE 0) ?s2)" by (rule scan_page_step [OF P2]) simp
    note P3 = scan_part_step [OF P2 T3]
    have T4: "scan_step content d ?s1 (pages_back page 1 (scan_page d (replicate PAGE_SIZE 0) ?s2))"
      by (rule scan_part_trans [OF T2 P1], rule scan_part_trans [OF T3 P2]) (simp add: scan_step_back scan_part_def)
    have "partition_scan (Some d) s = (if page = 0 then ?s2 else pages_back page 1 (scan_page d (replicate PAGE_SIZE 0) ?s2))"
      using True False pg by (simp add: partition_scan_def Let_def)
    then show ?thesis using scan_step_trans [OF S1 _ assms(2)] T2 T4 by simp
  qed
qed



end
