(* ===== verification/Install_Safe.thy ===== *)
theory Install_Safe
  imports Install_Layout Partition_Scan
begin

text \<open>
  The survey of a table and the plan made from it, over what the disk holds.
\<close>

section \<open>The plan from the gaps\<close>

definition plan_ok :: "nat \<Rightarrow> nat \<Rightarrow> (u64 \<times> u64) set \<Rightarrow> plan_record \<Rightarrow> bool" where
  "plan_ok lo hi U p \<longleftrightarrow> (\<forall>e\<in>set (plan_extents p). free_gap lo hi U e \<and> unat (fst e) mod 2048 = 0) \<and>
     (\<forall>i j. i < j \<longrightarrow> j < length (plan_extents p) \<longrightarrow> extent_blocks (plan_extents p ! i) \<inter> extent_blocks (plan_extents p ! j) = {}) \<and>
     4194304 \<le> unat (snd (pl_system p)) \<and> unat (snd (pl_system p)) \<le> 134217728 \<and> 2097152 \<le> unat (snd (pl_programs p)) \<and>
     (pl_reuse_esp p \<or> unat (snd (pl_esp p)) = 524288)"

lemma with_rest_fields [simp]:
  "pl_bios_boot (with_rest first len p) = pl_bios_boot p" "pl_esp (with_rest first len p) = pl_esp p"
  "pl_reuse_esp (with_rest first len p) = pl_reuse_esp p" "pl_verdict (with_rest first len p) = pl_verdict p"
  "pl_fresh_table (with_rest first len p) = pl_fresh_table p"
  "pl_system (with_rest first len p) = fst (split_rest first len)" "pl_programs (with_rest first len p) = snd (split_rest first len)"
  by (simp_all add: with_rest_def)

lemma with_rest_ok:
  assumes "free_gap lo hi U (first, len)" "hi + 2048 \<le> 2 ^ 64" "6291456 \<le> unat len" "unat first mod 2048 = 0"
    and "q = with_rest first len p"
  shows "free_gap lo hi U (pl_system q)" "unat (fst (pl_system q)) mod 2048 = 0" "free_gap lo hi U (pl_programs q)"
    "unat (fst (pl_programs q)) mod 2048 = 0" "4194304 \<le> unat (snd (pl_system q))" "unat (snd (pl_system q)) \<le> 134217728"
    "2097152 \<le> unat (snd (pl_programs q))"
proof -
  have lt: "unat first + unat len < 2 ^ 64" using assms(1,2) by (simp add: free_gap_def)
  note S = split_rest_spec [OF lt assms(3) prod.collapse [symmetric]]
  show "free_gap lo hi U (pl_system q)" "free_gap lo hi U (pl_programs q)"
    using free_gap_sub [OF assms(1)] S(1,2) by (simp_all add: assms(5))
  show "unat (fst (pl_system q)) mod 2048 = 0" "4194304 \<le> unat (snd (pl_system q))" "unat (snd (pl_system q)) \<le> 134217728"
    "2097152 \<le> unat (snd (pl_programs q))" using S(3,5,6,8) assms(4) by (simp_all add: assms(5))
  have "(unat first + unat (snd (fst (split_rest first len)))) mod 2048 = 0"
    using assms(4) S(7) by (metis mod_add_eq add_0 mod_0)
  then show "unat (fst (pl_programs q)) mod 2048 = 0" using S(4) by (simp add: assms(5))
qed

lemma place_system_spec:
  assumes "gaps_good lo hi U gaps" "pl_bios_boot out = (0, 0)" "P = place_system s d gaps out" "pl_verdict P = INSTALL_OK"
    and "pl_reuse_esp out \<or> free_gap lo hi U (pl_esp out) \<and> unat (fst (pl_esp out)) mod 2048 = 0 \<and> snd (pl_esp out) = INSTALL_ESP_CREATE"
  shows "plan_ok lo hi U P"
proof -
  let ?b = "best_gap gaps"
  define q where "q = (if snd ?b \<ge> INSTALL_BIOS_BOOT + INSTALL_SYSTEM_MIN + INSTALL_PROGRAMS_MIN
     then with_rest (fst ?b + INSTALL_BIOS_BOOT) (snd ?b - INSTALL_BIOS_BOOT) (out\<lparr>pl_bios_boot := (fst ?b, INSTALL_BIOS_BOOT)\<rparr>)
     else with_rest (fst ?b) (snd ?b) out)"
  have hi: "hi + 2048 \<le> 2 ^ 64" using assms(1) by (simp add: gaps_good_def)
  have b0: "snd ?b \<noteq> 0" using assms(3,4) by (auto simp: place_system_def Let_def)
  have P: "P = q" "block_check_layout s (Some d) (Some (plan_extents q)) (length (plan_extents q)) = BLOCK_OK"
    using assms(3,4) b0 by (simp_all add: place_system_def Let_def q_def [symmetric] split: if_splits)
  have "layout_scan (bd_block_count (the_bdev s d)) (plan_extents q) = BLOCK_OK"
    using P(2) by (simp add: block_check_layout_def split: if_splits)
  then have dis: "\<forall>i j. i < j \<longrightarrow> j < length (plan_extents q) \<longrightarrow> extent_blocks (plan_extents q ! i) \<inter> extent_blocks (plan_extents q ! j) = {}"
    by (simp add: layout_scan_iff)
  have B: "free_gap lo hi U ?b" "unat (fst ?b) mod 2048 = 0" "6291456 \<le> unat (snd ?b)"
    using best_gap_spec [OF assms(1) b0] by (simp_all add: big_gap_def)
  have re: "pl_reuse_esp q = pl_reuse_esp out" "pl_esp q = pl_esp out" by (simp_all add: q_def)
  have V: "free_gap lo hi U (pl_system q) \<and> unat (fst (pl_system q)) mod 2048 = 0 \<and> free_gap lo hi U (pl_programs q) \<and>
      unat (fst (pl_programs q)) mod 2048 = 0 \<and> 4194304 \<le> unat (snd (pl_system q)) \<and> unat (snd (pl_system q)) \<le> 134217728 \<and>
      2097152 \<le> unat (snd (pl_programs q)) \<and>
      (snd (pl_bios_boot q) \<noteq> 0 \<longrightarrow> free_gap lo hi U (pl_bios_boot q) \<and> unat (fst (pl_bios_boot q)) mod 2048 = 0)"
  proof (cases "snd ?b \<ge> INSTALL_BIOS_BOOT + INSTALL_SYSTEM_MIN + INSTALL_PROGRAMS_MIN")
    case False
    then have q: "q = with_rest (fst ?b) (snd ?b) out" by (simp add: q_def)
    have "free_gap lo hi U (fst ?b, snd ?b)" using B(1) by simp
    note W = with_rest_ok [OF this hi B(3,2) q]
    show ?thesis using W assms(2) q by simp
  next
    case True
    then have q: "q = with_rest (fst ?b + INSTALL_BIOS_BOOT) (snd ?b - INSTALL_BIOS_BOOT) (out\<lparr>pl_bios_boot := (fst ?b, INSTALL_BIOS_BOOT)\<rparr>)"
      by (simp add: q_def)
    have sum: "unat (INSTALL_BIOS_BOOT + INSTALL_SYSTEM_MIN + INSTALL_PROGRAMS_MIN) = 6293504"
      by (simp add: INSTALL_BIOS_BOOT_def INSTALL_SYSTEM_MIN_def INSTALL_PROGRAMS_MIN_def)
    have big: "6293504 \<le> unat (snd ?b)" using True sum by (simp add: word_le_nat_alt)
    have lim: "unat (fst ?b) + unat (snd ?b) \<le> hi" using B(1) by (simp add: free_gap_def)
    have f: "unat (fst ?b + INSTALL_BIOS_BOOT) = unat (fst ?b) + 2048" by (subst unat_plus) (use lim hi big in simp_all)
    have l: "unat (snd ?b - INSTALL_BIOS_BOOT) = unat (snd ?b) - 2048" by (subst unat_minus) (use big in simp_all)
    have "sub_extent (fst ?b + INSTALL_BIOS_BOOT, snd ?b - INSTALL_BIOS_BOOT) ?b" using f l big by (simp add: sub_extent_def)
    note r = free_gap_sub [OF B(1) this]
    have "sub_extent (fst ?b, INSTALL_BIOS_BOOT) ?b" using big by (simp add: sub_extent_def)
    note bb = free_gap_sub [OF B(1) this]
    have "6291456 \<le> unat (snd ?b - INSTALL_BIOS_BOOT)" "unat (fst ?b + INSTALL_BIOS_BOOT) mod 2048 = 0" using f l big B(2) by simp_all
    note W = with_rest_ok [OF r hi this q]
    show ?thesis using W bb B(2) q by simp
  qed
  have "\<forall>e\<in>set (plan_extents q). free_gap lo hi U e \<and> unat (fst e) mod 2048 = 0"
    using V assms(5) re by (auto simp: plan_extents_def split: if_splits)
  then show ?thesis unfolding P plan_ok_def using V dis assms(5) re by auto
qed

lemma place_all_spec:
  assumes "gaps_good lo hi U gaps" "pl_bios_boot out = (0, 0)" "P = place_all s d gaps out" "pl_verdict P = INSTALL_OK"
  shows "plan_ok lo hi U P"
proof (cases "pl_reuse_esp out")
  case True
  then have p: "P = place_system s d gaps out" using assms(3) by (simp add: place_all_def)
  show ?thesis by (rule place_system_spec [OF assms(1,2) p assms(4)]) (simp add: True)
next
  case False
  then obtain esp gaps1 where t: "take_esp gaps = Some (esp, gaps1)" "P = place_system s d gaps1 (out\<lparr>pl_esp := esp\<rparr>)"
    using assms(3,4) by (auto simp: place_all_def split: option.splits)
  note T = take_esp_spec [OF assms(1) t(1)]
  show ?thesis by (rule place_system_spec [OF _ _ t(2) assms(4)]) (use T assms(2) in simp_all)
qed

section \<open>The survey\<close>

lemma set_place_used [simp]: "set (place_used key xs) = insert key (set xs)"
proof -
  have "set (dropWhile p ys) \<union> set (takeWhile p ys) = set ys" for p and ys :: "(u64 \<times> u64) list"
    by (metis set_append takeWhile_dropWhile_id sup_commute)
  then show ?thesis by (auto simp: place_used_def)
qed

lemma set_sort_used [simp]: "set (sort_used xs) = set xs"
proof -
  have "set (fold place_used xs ys) = set xs \<union> set ys" for ys
    by (induction xs arbitrary: ys) auto
  then show ?thesis by (simp add: sort_used_def)
qed

text \<open>An extent whose end is a block.\<close>

definition ends_by :: "nat \<Rightarrow> u64 \<times> u64 \<Rightarrow> bool" where
  "ends_by hi u \<longleftrightarrow> unat (fst u) + unat (snd u) \<le> hi"

text \<open>What lies between entries that do not overlap is free of all of them.\<close>

lemma gaps_from_spec:
  assumes "\<forall>u\<in>set us. ends_by (unat final + 1) u" "unat final + 1 < 2 ^ 64" "\<not> used_overlap us"
    and "us \<noteq> [] \<Longrightarrow> cursor \<le> fst (hd us)" "g \<in> set (gaps_from cursor final us)"
  shows "unat cursor \<le> unat (fst g) \<and> unat (fst g) + unat (snd g) \<le> unat final + 1 \<and>
     (\<forall>u\<in>set us. extent_blocks u \<inter> extent_blocks g = {}) \<and> (\<forall>u\<in>set us. unat cursor \<le> unat (fst u))"
  using assms
proof (induction us arbitrary: cursor)
  case Nil
  then have c: "cursor \<le> final" and g: "g = (cursor, final - cursor + 1)" by (auto split: if_splits)
  have "unat (final - cursor) = unat final - unat cursor" using c by (simp add: unat_minus word_le_nat_alt)
  then have "unat (final - cursor + 1) = unat final - unat cursor + 1" using Nil(2) by (subst unat_plus) simp_all
  then show ?case using c g by (simp add: word_le_nat_alt)
next
  case (Cons u us)
  have c: "unat cursor \<le> unat (fst u)" using Cons.prems(4) by (simp add: word_le_nat_alt)
  have u: "unat (fst u) + unat (snd u) \<le> unat final + 1" using Cons.prems(1) by (simp add: ends_by_def)
  then have e: "unat (fst u + snd u) = unat (fst u) + unat (snd u)" by (intro unat_plus) (use Cons.prems(2) in simp)
  have nxt: "us \<noteq> [] \<Longrightarrow> fst u + snd u \<le> fst (hd us)" using Cons.prems(3) by (cases us) auto
  have no: "\<not> used_overlap us" using Cons.prems(3) by (cases us) auto
  note IH = Cons.IH [OF _ Cons.prems(2) no, of "fst u + snd u"]
  have later: "\<forall>v\<in>set us. unat (fst u) + unat (snd u) \<le> unat (fst v)"
    using Cons.prems(1) no nxt e
  proof (induction us arbitrary: u)
    case (Cons v vs)
    have v: "unat (fst v) + unat (snd v) \<le> unat final + 1" using Cons.prems(1) by (simp add: ends_by_def)
    then have ev: "unat (fst v + snd v) = unat (fst v) + unat (snd v)" by (intro unat_plus) (use assms(2) in simp)
    have uv: "unat (fst u) + unat (snd u) \<le> unat (fst v)" using Cons.prems(3,4) by (simp add: word_le_nat_alt)
    have "\<forall>w\<in>set vs. unat (fst v) + unat (snd v) \<le> unat (fst w)"
      by (rule Cons.IH) (use Cons.prems ev in \<open>cases vs; auto\<close>)+
    then show ?case using uv by fastforce
  qed simp
  show ?case
  proof (cases "g \<in> set (gaps_from (fst u + snd u) final us)")
    case True
    have A: "\<forall>u\<in>set us. ends_by (unat final + 1) u" using Cons.prems(1) by simp
    note I = IH [OF A nxt True]
    show ?thesis using I e c later by (auto simp: extent_blocks_def)
  next
    case False
    then have g: "g = (cursor, fst u - cursor)" "fst u > cursor" using Cons.prems(5) by (auto split: if_splits)
    have "unat (fst u - cursor) = unat (fst u) - unat cursor" using c by (simp add: unat_minus)
    then show ?thesis using g c u later by (auto simp: extent_blocks_def)
  qed
qed

definition entry_extent :: "u8 list \<Rightarrow> nat \<Rightarrow> u64 \<times> u64" where
  "entry_extent entries e = (le64 entries (e + 32), le64 entries (e + 40) - le64 entries (e + 32) + 1)"

lemma collect_used_spec:
  "collect_used entries stride is sv used = Some (sv', used') \<Longrightarrow>
   sv_first_usable sv' = sv_first_usable sv \<and> sv_last_usable sv' = sv_last_usable sv \<and> sv_gaps sv' = sv_gaps sv \<and>
   set used' = set used \<union> (\<lambda>i. entry_extent entries (i * stride)) ` {i \<in> set is. \<not> all_zero entries (i * stride) 16} \<and>
   (\<forall>i\<in>set is. \<not> all_zero entries (i * stride) 16 \<longrightarrow>
      le64 entries (i * stride + 32) \<le> le64 entries (i * stride + 40) \<and> sv_first_usable sv \<le> le64 entries (i * stride + 32) \<and>
      le64 entries (i * stride + 40) \<le> sv_last_usable sv)"
proof (induction entries stride "is" sv used rule: collect_used.induct)
  case (1 entries stride sv used)
  then show ?case by auto
next
  case (2 entries stride i rest sv used)
  let ?e = "i * stride"
  let ?first = "le64 entries (?e + 32)" and ?final = "le64 entries (?e + 40)"
  show ?case
  proof (cases "all_zero entries ?e 16")
    case True
    then have "collect_used entries stride rest sv used = Some (sv', used')" using "2.prems" by (simp add: Let_def)
    from "2.IH"(1) [OF refl refl refl refl True this] True show ?thesis by auto
  next
    case False
    then have in_range: "\<not> (?first > ?final \<or> ?first < sv_first_usable sv \<or> ?final > sv_last_usable sv)"
      using "2.prems" by (auto simp: Let_def split: if_splits)
    define sv1 where "sv1 = note_esp i (slice_of ?e 16 entries) (?first, ?final - ?first + 1) sv"
    have f: "sv_first_usable sv1 = sv_first_usable sv" "sv_last_usable sv1 = sv_last_usable sv" "sv_gaps sv1 = sv_gaps sv"
      by (simp_all add: sv1_def note_esp_def)
    have "collect_used entries stride rest (sv1\<lparr>sv_used_blocks := sv_used_blocks sv1 + (?final - ?first + 1)\<rparr>)
        (used @ [(?first, ?final - ?first + 1)]) = Some (sv', used')"
      using "2.prems" False in_range by (simp add: Let_def sv1_def)
    from "2.IH"(2) [OF refl refl refl refl False in_range sv1_def this] False in_range f show ?thesis
      by (auto simp: entry_extent_def not_less)
  qed
qed

lemma entry_extent_blocks:
  assumes "le64 entries (e + 32) \<le> le64 entries (e + 40)" "unat (le64 entries (e + 40)) + 1 < 2 ^ 64"
  shows "extent_blocks (entry_extent entries e) = {unat (le64 entries (e + 32)) .. unat (le64 entries (e + 40))}"
    "ends_by (Suc (unat (le64 entries (e + 40)))) (entry_extent entries e)"
proof -
  let ?a = "le64 entries (e + 32)" and ?b = "le64 entries (e + 40)"
  have ab: "unat ?a \<le> unat ?b" using assms(1) by (simp add: word_le_nat_alt)
  then have "unat (?b - ?a) = unat ?b - unat ?a" by (simp add: unat_minus)
  then have n: "unat (?b - ?a + 1) = unat ?b - unat ?a + 1" by (subst unat_plus) (use assms(2) in simp_all)
  then show "extent_blocks (entry_extent entries e) = {unat ?a .. unat ?b}" using ab by (auto simp: extent_blocks_def entry_extent_def)
  show "ends_by (Suc (unat ?b)) (entry_extent entries e)" using n ab by (simp add: ends_by_def entry_extent_def)
qed

lemma survey_entries_spec:
  assumes "survey_entries entries n stride sv = (INSTALL_OK, sv')" "unat (sv_last_usable sv) + 2049 \<le> 2 ^ 64"
    and "U = {entry_extent entries (i * unat stride) |i. i < unat n \<and> \<not> all_zero entries (i * unat stride) 16}"
  shows "gaps_good (unat (sv_first_usable sv)) (unat (sv_last_usable sv) + 1) U (sv_gaps sv')"
    and "\<forall>i<unat n. \<not> all_zero entries (i * unat stride) 16 \<longrightarrow>
      extent_blocks (entry_extent entries (i * unat stride)) =
        {unat (le64 entries (i * unat stride + 32)) .. unat (le64 entries (i * unat stride + 40))}"
proof -
  obtain sv1 used where c: "collect_used entries (unat stride) [0..<unat n] sv [] = Some (sv1, used)"
    using assms(1) by (auto simp: survey_entries_def split: option.splits)
  note C = collect_used_spec [OF c]
  have set: "set used = U" using C assms(3) by auto
  have r: "\<not> used_overlap (sort_used used)" "sv_gaps sv' = gaps_from (sv_first_usable sv) (sv_last_usable sv) (sort_used used)"
    using assms(1) c C by (auto simp: survey_entries_def Let_def split: if_splits)
  have E: "extent_blocks (entry_extent entries (i * unat stride)) =
        {unat (le64 entries (i * unat stride + 32)) .. unat (le64 entries (i * unat stride + 40))} \<and>
      ends_by (unat (sv_last_usable sv) + 1) (entry_extent entries (i * unat stride)) \<and> sv_first_usable sv \<le> fst (entry_extent entries (i * unat stride))"
    if "i < unat n" "\<not> all_zero entries (i * unat stride) 16" for i
  proof -
    have b: "le64 entries (i * unat stride + 32) \<le> le64 entries (i * unat stride + 40)" "sv_first_usable sv \<le> le64 entries (i * unat stride + 32)"
      "le64 entries (i * unat stride + 40) \<le> sv_last_usable sv" using C that by auto
    have le: "unat (le64 entries (i * unat stride + 40)) \<le> unat (sv_last_usable sv)" using b(3) by (simp add: word_le_nat_alt)
    have "unat (le64 entries (i * unat stride + 40)) + 1 < 2 ^ 64" using le assms(2) by simp
    note B = entry_extent_blocks [OF b(1) this]
    show ?thesis using B b(2) le by (auto simp: ends_by_def entry_extent_def)
  qed
  then show "\<forall>i<unat n. \<not> all_zero entries (i * unat stride) 16 \<longrightarrow>
      extent_blocks (entry_extent entries (i * unat stride)) =
        {unat (le64 entries (i * unat stride + 32)) .. unat (le64 entries (i * unat stride + 40))}" by blast
  have ends: "\<forall>u\<in>set (sort_used used). ends_by (unat (sv_last_usable sv) + 1) u \<and> sv_first_usable sv \<le> fst u"
    using E unfolding set_sort_used set assms(3) by blast
  have hd: "sv_first_usable sv \<le> fst (hd (sort_used used))" if "sort_used used \<noteq> []"
    using ends that by (metis list.set_sel(1))
  have "free_gap (unat (sv_first_usable sv)) (unat (sv_last_usable sv) + 1) U g" if "g \<in> set (sv_gaps sv')" for g
    using gaps_from_spec [of "sort_used used" "sv_last_usable sv" "sv_first_usable sv" g] ends assms(2) r hd that set
    by (simp add: free_gap_def)
  then show "gaps_good (unat (sv_first_usable sv)) (unat (sv_last_usable sv) + 1) U (sv_gaps sv')"
    using assms(2) by (simp add: gaps_good_def)
qed

section \<open>What the disk holds\<close>

text \<open>A read of a whole disk that succeeds gives what the disk holds.\<close>

lemma root_read:
  assumes "coherent content s" "d < length (st_devices s)" "bd_parent (the_bdev s d) = 0" "n \<noteq> 0"
    and "length buf = unat n * unat (bd_block_size (the_bdev s d))" "block_read (Some d) lba n (Some buf) s = (BLOCK_OK, b, s')"
  shows "b = sectors (content (st_hw s) (bd_id (the_bdev s d))) (unat lba) (unat n)" "coherent content s'" "same_devices s s'"
    "content (st_hw s') = content (st_hw s)" "unat lba + unat n \<le> unat (bd_block_count (the_bdev s d))"
proof -
  note R = block_read_spec [OF coherentD(1,2) [OF assms(1)] assms(2,5,6)]
  obtain rid rgen ab where r: "block_resolve s (Some d) lba n = Inr (rid, rgen, ab)"
      "b = sectors (content (st_hw s) rid) (unat ab) (unat n)" using R(5) assms(4) by blast
  have ok: "check_range s (Some d) lba n = BLOCK_OK" using r(1) by (auto simp: block_resolve_def Let_def split: if_splits)
  have "rid = bd_id (the_bdev s d)" "ab = lba" using r(1) ok to_root_root [OF assms(3)] by (auto simp: block_resolve_def)
  with r(2) show "b = sectors (content (st_hw s) (bd_id (the_bdev s d))) (unat lba) (unat n)" by simp
  show "same_devices s s'" "content (st_hw s') = content (st_hw s)" by (rule R)+
  show "coherent content s'" using coherent_same [OF R(1) assms(1)] R(2,3) coherentD(3) [OF assms(1)] by simp
  show "unat lba + unat n \<le> unat (bd_block_count (the_bdev s d))" by (rule check_range_OK(2) [OF ok assms(4)])
qed

lemma entry_sectors_pos:
  assumes "n \<noteq> 0" "n \<le> 128" "128 \<le> stride" "stride \<le> bs"
  shows "entry_sectors bs n stride \<noteq> 0"
proof -
  let ?p = "bs div stride"
  have s: "128 \<le> unat stride" "unat stride \<le> unat bs" using assms(3,4) by (simp_all add: word_le_nat_alt)
  have p: "unat ?p = unat bs div unat stride" by (rule unat_div)
  have p1: "1 \<le> unat ?p" using s p by (simp add: Suc_le_eq div_greater_zero_iff)
  have "unat ?p \<le> unat bs div 128" using div_le_mono2 [of 128 "unat stride" "unat bs"] s(1) p by simp
  also have "\<dots> < 2 ^ 26" using unat_u32_lt [of bs] by (simp add: less_mult_imp_div_less)
  finally have p2: "unat ?p < 2 ^ 26" .
  have n: "1 \<le> unat n" "unat n \<le> 128" using assms(1,2) by (simp_all add: word_le_nat_alt Suc_le_eq unat_gt_0)
  have a: "unat (n + ?p) = unat n + unat ?p" using n p2 by (simp add: unat_plus_if')
  have "unat (n + ?p - 1) = unat n + unat ?p - 1" using a n by (subst unat_sub) (simp_all add: word_le_nat_alt)
  then have "unat (entry_sectors bs n stride) = (unat n + unat ?p - 1) div unat ?p"
    by (simp add: entry_sectors_def Let_def unat_div)
  moreover have "unat ?p \<le> unat n + unat ?p - 1" using n by simp
  ultimately have "1 \<le> unat (entry_sectors bs n stride)" using p1 by (simp add: Suc_le_eq div_greater_zero_iff)
  then show ?thesis by auto
qed

text \<open>The survey of a disk whose table was accepted.\<close>

lemma survey_gpt_spec:
  assumes "coherent content s" "d < length (st_devices s)" "bd_parent (the_bdev s d) = 0"
    and "unat (bd_block_count (the_bdev s d)) + 2048 \<le> 2 ^ 64"
    and "survey_gpt m1 m2 d s = (INSTALL_OK, sv, s')"
    and "disk = content (st_hw s) (bd_id (the_bdev s d))" "n = le32 (disk 1) 80" "stride = le32 (disk 1) 84"
    and "entries = sectors disk (unat (le64 (disk 1) 72)) (unat (entry_sectors (bd_block_size (the_bdev s d)) n stride))"
  shows "\<exists>sv0. survey_entries entries n stride sv0 = (INSTALL_OK, sv) \<and> sv_first_usable sv0 = le64 (disk 1) 40 \<and>
      sv_last_usable sv0 = le64 (disk 1) 48 \<and> unat (sv_last_usable sv0) + 2049 \<le> 2 ^ 64"
    and "unat (le64 (disk 1) 48) < unat (bd_block_count (the_bdev s d))"
proof -
  let ?D = "the_bdev s d"
  let ?bs = "bd_block_size ?D"
  have m1: m1 using assms(5) by (cases m1) (simp_all add: survey_gpt_def kzalloc_def Let_def)
  obtain st sector s1 where r1: "block_read (Some d) 1 1 (Some (replicate (unat ?bs) 0)) s = (st, sector, s1)" by (metis prod_cases3)
  have st: "st = BLOCK_OK" using assms(5) m1 r1 by (auto simp: survey_gpt_def kzalloc_def Let_def split: if_splits)
  have buf: "length (replicate (unat ?bs) (0 :: u8)) = unat (1 :: u32) * unat ?bs" by simp
  note R1 = root_read [OF assms(1-3) _ buf r1 [unfolded st]]
  have sec: "sector = disk 1" using R1(1) assms(6) by (simp add: sectors_def)
  let ?sv = "blank_survey\<lparr>sv_first_usable := le64 sector 40, sv_last_usable := le64 sector 48\<rparr>"
  have g: "\<not> (n = 0 \<or> n > MAX_ENTRIES \<or> stride < 128 \<or> stride > ?bs \<or> le64 sector 40 \<ge> le64 sector 48 \<or> le64 sector 48 \<ge> bd_block_count ?D)"
    using assms(5) m1 r1 st by (auto simp: survey_gpt_def kzalloc_def Let_def sec assms(7,8) split: if_splits)
  then have nz: "entry_sectors ?bs n stride \<noteq> 0" by (intro entry_sectors_pos) (simp_all add: MAX_ENTRIES_def not_less not_le)
  have m2: m2 using assms(5) m1 r1 st g by (cases m2) (auto simp: survey_gpt_def kzalloc_def Let_def sec assms(7,8) split: if_splits)
  let ?buf = "replicate (unat (entry_sectors ?bs n stride) * unat ?bs) (0 :: u8)"
  obtain st2 ent s2 where r2: "block_read (Some d) (le64 sector 72) (entry_sectors ?bs n stride) (Some ?buf) s1 = (st2, ent, s2)" by (metis prod_cases3)
  have r: "st2 = BLOCK_OK" "survey_entries ent n stride ?sv = (INSTALL_OK, sv)"
    using assms(5) m1 m2 r1 st g r2 by (auto simp: survey_gpt_def kzalloc_def Let_def sec assms(7,8) split: if_splits prod.splits)
  have d1: "d < length (st_devices s1)" "bd_parent (the_bdev s1 d) = 0"
    using same_devices_length [OF R1(3)] same_devices_fields [OF R1(3) assms(2)] assms(2,3) by simp_all
  have "length ?buf = unat (entry_sectors ?bs n stride) * unat (bd_block_size (the_bdev s1 d))"
    using same_devices_fields(3) [OF R1(3) assms(2)] by simp
  from root_read(1) [OF R1(2) d1 nz this r2 [unfolded r(1)]]
  have "ent = entries" using R1(4) same_devices_fields(1) [OF R1(3) assms(2)] assms(6,9) sec by simp
  moreover show "unat (le64 (disk 1) 48) < unat (bd_block_count ?D)" using g sec by (simp add: word_le_nat_alt)
  ultimately show "\<exists>sv0. survey_entries entries n stride sv0 = (INSTALL_OK, sv) \<and> sv_first_usable sv0 = le64 (disk 1) 40 \<and>
      sv_last_usable sv0 = le64 (disk 1) 48 \<and> unat (sv_last_usable sv0) + 2049 \<le> 2 ^ 64"
    using r(2) assms(4) sec by (intro exI [of _ ?sv]) simp
qed

section \<open>Plans\<close>

text \<open>The plan of a blank disk.\<close>

lemma plan_blank_spec:
  assumes "pl_verdict (plan_blank blocks) = INSTALL_OK" "unat blocks + 2048 \<le> 2 ^ 64"
  shows "plan_ok 2048 (unat blocks - 33) {} (plan_blank blocks)" "pl_fresh_table (plan_blank blocks)"
proof -
  let ?usable = "blocks - 33 - INSTALL_ALIGN_BLOCKS"
  let ?first = "INSTALL_ALIGN_BLOCKS + INSTALL_BIOS_BOOT + INSTALL_ESP_CREATE" and ?len = "?usable - INSTALL_BIOS_BOOT - INSTALL_ESP_CREATE"
  let ?out = "blank_plan\<lparr>pl_fresh_table := True, pl_bios_boot := (INSTALL_ALIGN_BLOCKS, INSTALL_BIOS_BOOT),
     pl_esp := (INSTALL_ALIGN_BLOCKS + INSTALL_BIOS_BOOT, INSTALL_ESP_CREATE)\<rparr>"
  have sum: "INSTALL_BIOS_BOOT + INSTALL_ESP_CREATE + INSTALL_SYSTEM_MIN + INSTALL_PROGRAMS_MIN = 6817792" "34 + INSTALL_ALIGN_BLOCKS = 2082"
    "unat ?first = 528384" "unat (INSTALL_ALIGN_BLOCKS + INSTALL_BIOS_BOOT) = 4096"
    by (simp_all add: INSTALL_BIOS_BOOT_def INSTALL_ESP_CREATE_def INSTALL_SYSTEM_MIN_def INSTALL_PROGRAMS_MIN_def INSTALL_ALIGN_BLOCKS_def)
  have g: "\<not> blocks < 2082" "\<not> ?usable < 6817792" and q: "plan_blank blocks = with_rest ?first ?len ?out"
    using assms(1) by (auto simp: plan_blank_def Let_def sum split: if_splits)
  have b: "2082 \<le> unat blocks" using g(1) by (simp add: word_less_nat_alt)
  have "unat (blocks - 33) = unat blocks - 33" using b by (subst unat_minus) simp_all
  then have u: "unat ?usable = unat blocks - 2081" using b by (subst unat_minus) simp_all
  have big: "6817792 \<le> unat blocks - 2081" using g(2) u by (simp add: word_less_nat_alt)
  have "unat (?usable - INSTALL_BIOS_BOOT) = unat blocks - 4129" using u big by (subst unat_minus) simp_all
  then have l: "unat ?len = unat blocks - 528417" using big by (subst unat_minus) simp_all
  have hi: "unat blocks - 33 + 2048 \<le> 2 ^ 64" using assms(2) by simp
  have fg: "free_gap 2048 (unat blocks - 33) {} (?first, ?len)" using sum l big by (simp add: free_gap_def)
  have len: "6291456 \<le> unat ?len" using l big by simp
  have al: "unat ?first mod 2048 = 0" by (simp add: sum)
  note W = with_rest_ok [OF fg hi len al q]
  have S: "unat (fst (pl_system (plan_blank blocks))) = 528384"
    "unat (fst (pl_programs (plan_blank blocks))) = 528384 + unat (snd (pl_system (plan_blank blocks)))"
    using split_rest_spec(3,4) [OF _ len prod.collapse [symmetric], of ?first] sum(3) l assms(2) by (simp_all add: q)
  show "pl_fresh_table (plan_blank blocks)" by (simp add: q)
  have ex: "plan_extents (plan_blank blocks) = [(INSTALL_ALIGN_BLOCKS, INSTALL_BIOS_BOOT), (INSTALL_ALIGN_BLOCKS + INSTALL_BIOS_BOOT, INSTALL_ESP_CREATE),
      pl_system (plan_blank blocks), pl_programs (plan_blank blocks)]"
    by (simp add: plan_extents_def q blank_plan_def INSTALL_BIOS_BOOT_def)
  have pair: "extent_blocks (plan_extents (plan_blank blocks) ! i) \<inter> extent_blocks (plan_extents (plan_blank blocks) ! j) = {}"
    if "i < j" "j < length (plan_extents (plan_blank blocks))" for i j
  proof -
    have "j < 4" using that(2) by (simp add: ex)
    then have "j = 1 \<and> i = 0 \<or> j = 2 \<and> (i = 0 \<or> i = 1) \<or> j = 3 \<and> (i = 0 \<or> i = 1 \<or> i = 2)" using that(1) by linarith
    then show ?thesis using S sum(4) by (elim disjE conjE) (auto simp: ex extent_blocks_def numeral_2_eq_2 numeral_3_eq_3)
  qed
  have "free_gap 2048 (unat blocks - 33) {} (INSTALL_ALIGN_BLOCKS, INSTALL_BIOS_BOOT)"
    "free_gap 2048 (unat blocks - 33) {} (INSTALL_ALIGN_BLOCKS + INSTALL_BIOS_BOOT, INSTALL_ESP_CREATE)"
    using sum(4) big by (simp_all add: free_gap_def)
  then have "\<forall>e\<in>set (plan_extents (plan_blank blocks)). free_gap 2048 (unat blocks - 33) {} e \<and> unat (fst e) mod 2048 = 0"
    using W(1-4) sum(4) by (auto simp: ex)
  then show "plan_ok 2048 (unat blocks - 33) {} (plan_blank blocks)"
    unfolding plan_ok_def using W(5-7) pair by (simp add: q)
qed

text \<open>A plan that is not for a blank disk, over what the disk holds.\<close>

definition table_entries :: "u32 \<Rightarrow> (nat \<Rightarrow> u8 list) \<Rightarrow> u8 list" where
  "table_entries bs disk = sectors disk (unat (le64 (disk 1) 72)) (unat (entry_sectors bs (le32 (disk 1) 80) (le32 (disk 1) 84)))"

lemma install_plan_spec:
  assumes "coherent content s" "d < length (st_devices s)" "unat (bd_block_count (the_bdev s d)) + 2048 \<le> 2 ^ 64"
    and "install_plan room m1 m2 d s = (P, s')" "pl_verdict P = INSTALL_OK" "\<not> pl_fresh_table P"
    and "disk = content (st_hw s) (bd_id (the_bdev s d))" "entries = table_entries (bd_block_size (the_bdev s d)) disk"
    and "stride = unat (le32 (disk 1) 84)"
  shows "plan_ok (unat (le64 (disk 1) 40)) (unat (le64 (disk 1) 48) + 1)
      {entry_extent entries (i * stride) |i. i < unat (le32 (disk 1) 80) \<and> \<not> all_zero entries (i * stride) 16} P"
    and "\<forall>i<unat (le32 (disk 1) 80). \<not> all_zero entries (i * stride) 16 \<longrightarrow>
      extent_blocks (entry_extent entries (i * stride)) = {unat (le64 entries (i * stride + 32)) .. unat (le64 entries (i * stride + 40))}"
    and "unat (le64 (disk 1) 48) < unat (bd_block_count (the_bdev s d))"
proof -
  have nf: "bd_scheme (the_bdev s d) \<noteq> BLOCK_SCHEME_NONE"
    using assms(4-6) plan_blank_spec(2) [OF _ assms(3)] by (auto simp: install_plan_def Let_def split: if_splits)
  obtain v sv s1 where sv: "survey_gpt m1 m2 d s = (v, sv, s1)" by (metis prod_cases3)
  have ok: "bd_parent (the_bdev s d) = 0" "v = INSTALL_OK"
    using assms(4,5) nf sv by (auto simp: install_plan_def Let_def split: if_splits)
  have "\<exists>out. P = place_all s' d (sv_gaps sv) out \<and> pl_bios_boot out = (0, 0)"
    using assms(4,5) nf sv ok
    by (auto simp: install_plan_def Let_def split: if_splits option.splits prod.splits)
      (rule exI, rule conjI, rule refl, simp add: blank_plan_def)+
  then obtain out where P: "P = place_all s' d (sv_gaps sv) out" "pl_bios_boot out = (0, 0)" by blast
  note S = survey_gpt_spec [OF assms(1,2) ok(1) assms(3) sv [unfolded ok(2)] assms(7) refl refl refl]
  obtain sv0 where sv0: "survey_entries entries (le32 (disk 1) 80) (le32 (disk 1) 84) sv0 = (INSTALL_OK, sv)"
    "sv_first_usable sv0 = le64 (disk 1) 40" "sv_last_usable sv0 = le64 (disk 1) 48" "unat (sv_last_usable sv0) + 2049 \<le> 2 ^ 64"
    using S(1) unfolding assms(8) table_entries_def by blast
  note E = survey_entries_spec [OF sv0(1,4) refl]
  show "unat (le64 (disk 1) 48) < unat (bd_block_count (the_bdev s d))" by (rule S(2))
  show "\<forall>i<unat (le32 (disk 1) 80). \<not> all_zero entries (i * stride) 16 \<longrightarrow>
      extent_blocks (entry_extent entries (i * stride)) = {unat (le64 entries (i * stride + 32)) .. unat (le64 entries (i * stride + 40))}"
    using E(2) by (simp add: assms(9))
  show "plan_ok (unat (le64 (disk 1) 40)) (unat (le64 (disk 1) 48) + 1)
      {entry_extent entries (i * stride) |i. i < unat (le32 (disk 1) 80) \<and> \<not> all_zero entries (i * stride) 16} P"
    using place_all_spec [OF E(1) P(2,1) assms(5)] sv0(2,3) by (simp add: assms(9))
qed

end
