(* ===== verification/Gpt_Install.thy ===== *)
theory Gpt_Install
  imports Gpt_Entries Install_Safe
begin

text \<open>
  Writing the table: what each step leaves alone, and what the disk holds when every step has
  succeeded.
\<close>

section \<open>Steps on one disk\<close>

text \<open>From one state to another with only the blocks \<open>R\<close> of disk \<open>d\<close> changed.\<close>

definition disk_step :: "('hw \<Rightarrow> u32 \<Rightarrow> nat \<Rightarrow> u8 list) \<Rightarrow> nat \<Rightarrow> nat set \<Rightarrow> 'hw storage \<Rightarrow> 'hw storage \<Rightarrow> bool" where
  "disk_step content d R s s' \<longleftrightarrow> coherent content s' \<and> same_devices s s' \<and>
     (\<forall>j k. j \<noteq> bd_id (the_bdev s d) \<or> k \<notin> R \<longrightarrow> content (st_hw s') j k = content (st_hw s) j k)"

text \<open>A whole disk in a coherent state.\<close>

definition whole_disk :: "('hw \<Rightarrow> u32 \<Rightarrow> nat \<Rightarrow> u8 list) \<Rightarrow> nat \<Rightarrow> 'hw storage \<Rightarrow> bool" where
  "whole_disk content d s \<longleftrightarrow> coherent content s \<and> d < length (st_devices s) \<and> bd_parent (the_bdev s d) = 0"

lemma disk_step_refl: "coherent content s \<Longrightarrow> disk_step content d R s s"
  by (simp add: disk_step_def)

lemma disk_step_trans:
  assumes "disk_step content d R s s1" "disk_step content d R' s1 s2" "d < length (st_devices s)"
  shows "disk_step content d (R \<union> R') s s2"
  using assms same_devices_fields(1) [of s s1 d] same_devices_trans [of s s1 s2] by (simp add: disk_step_def)

lemma disk_step_mono: "disk_step content d R s s' \<Longrightarrow> R \<subseteq> R' \<Longrightarrow> disk_step content d R' s s'"
  by (auto simp: disk_step_def)

lemma whole_disk_step:
  assumes "whole_disk content d s" "disk_step content d R s s'"
  shows "whole_disk content d s'" "bd_block_size (the_bdev s' d) = bd_block_size (the_bdev s d)"
    "bd_block_count (the_bdev s' d) = bd_block_count (the_bdev s d)" "bd_id (the_bdev s' d) = bd_id (the_bdev s d)"
  using assms same_devices_fields [of s s' d] same_devices_length [of s s'] by (auto simp: whole_disk_def disk_step_def)

lemma root_write:
  assumes "whole_disk content d s" "n \<noteq> 0" "length buf = unat n * unat (bd_block_size (the_bdev s d))"
    and "block_write (Some d) lba n (Some buf) s = (st, s')"
  shows "disk_step content d {unat lba..<unat lba + unat n} s s'"
    and "st = BLOCK_OK \<Longrightarrow> sectors (content (st_hw s') (bd_id (the_bdev s d))) (unat lba) (unat n) = buf"
    and "st = BLOCK_OK \<Longrightarrow> unat lba + unat n \<le> unat (bd_block_count (the_bdev s d))"
proof -
  have c: "coherent content s" "d < length (st_devices s)" "bd_parent (the_bdev s d) = 0" using assms(1) by (simp_all add: whole_disk_def)
  note W = block_write_coherent [OF c(1,2) assms(3,4)]
  have res: "rid = bd_id (the_bdev s d) \<and> ab = lba \<and> check_range s (Some d) lba n = BLOCK_OK"
    if "block_resolve s (Some d) lba n = Inr (rid, rgen, ab)" for rid rgen ab
    using that to_root_root [OF c(3)] by (auto simp: block_resolve_def Let_def split: if_splits)
  show "disk_step content d {unat lba..<unat lba + unat n} s s'"
    using W(1,2,5) res by (auto simp: disk_step_def differs_in_def)
  show "sectors (content (st_hw s') (bd_id (the_bdev s d))) (unat lba) (unat n) = buf" if "st = BLOCK_OK"
    using W(4) [OF that assms(2)] res by blast
  show "unat lba + unat n \<le> unat (bd_block_count (the_bdev s d))" if "st = BLOCK_OK"
    using W(4) [OF that assms(2)] res check_range_OK(2) [OF _ assms(2)] by blast
qed

lemma disk_flush:
  assumes "whole_disk content d s" "block_flush (Some d) s = (st, s')"
  shows "disk_step content d {} s s'"
  using flush_coherent [OF _ _ assms(2), of content] assms(1) by (simp add: disk_step_def whole_disk_def)

text \<open>A list of steps that keep to \<open>R\<close> keeps to \<open>R\<close>, wherever it is cut short.\<close>

lemma run_steps_frame:
  assumes "\<And>f s st s'. f \<in> set fs \<Longrightarrow> whole_disk content d s \<Longrightarrow> bd_block_size (the_bdev s d) = bs \<Longrightarrow> f s = (st, s') \<Longrightarrow> disk_step content d R s s'"
    and "whole_disk content d s" "bd_block_size (the_bdev s d) = bs" "run_steps fs s = (st, s')"
  shows "disk_step content d R s s'"
  using assms
proof (induction fs arbitrary: s)
  case Nil
  then show ?case by (simp add: disk_step_refl whole_disk_def)
next
  case (Cons f fs)
  obtain st1 s1 where f: "f s = (st1, s1)" by fastforce
  have S: "disk_step content d R s s1" by (rule Cons.prems(1) [of f, OF _ Cons.prems(2,3) f]) simp
  note W = whole_disk_step [OF Cons.prems(2) S]
  show ?case
  proof (cases "st1 = BLOCK_OK")
    case False
    then show ?thesis using Cons.prems(4) f S by simp
  next
    case True
    then have "run_steps fs s1 = (st, s')" using Cons.prems(4) f by simp
    have fs: "disk_step content d R u u'" if "g \<in> set fs" "whole_disk content d u" "bd_block_size (the_bdev u d) = bs" "g u = (v, u')" for g u v u'
      by (rule Cons.prems(1) [of g u v u']) (simp_all add: that)
    have "disk_step content d R s1 s'"
    proof (rule Cons.IH [OF _ W(1) _ \<open>run_steps fs s1 = (st, s')\<close>])
      fix g :: "'a storage \<Rightarrow> block_status \<times> 'a storage" and u v u'
      assume "g \<in> set fs" "whole_disk content d u" "bd_block_size (the_bdev u d) = bs" "g u = (v, u')"
      then show "disk_step content d R u u'" by (rule fs)
    qed (simp add: W(2) Cons.prems(3))
    then show ?thesis using disk_step_trans [OF S, of R s'] Cons.prems(2) by (simp add: whole_disk_def)
  qed
qed

lemma run_steps_Cons_OK:
  "run_steps (f # fs) s = (BLOCK_OK, s') \<Longrightarrow> \<exists>s1. f s = (BLOCK_OK, s1) \<and> run_steps fs s1 = (BLOCK_OK, s')"
  by (auto split: prod.splits if_splits)

section \<open>The size of the array\<close>

lemma entry_sectors_value:
  assumes "n \<noteq> 0" "n \<le> 128" "128 \<le> stride" "stride \<le> bs"
  shows "unat (entry_sectors bs n stride) = (unat n + unat bs div unat stride - 1) div (unat bs div unat stride)"
    and "unat n * unat stride \<le> unat (entry_sectors bs n stride) * unat bs"
proof -
  let ?p = "unat bs div unat stride"
  have s: "128 \<le> unat stride" "unat stride \<le> unat bs" using assms(3,4) by (simp_all add: word_le_nat_alt)
  have p: "unat (bs div stride) = ?p" by (rule unat_div)
  have p1: "1 \<le> ?p" using s by (simp add: Suc_le_eq div_greater_zero_iff)
  have "?p \<le> unat bs div 128" by (rule div_le_mono2) (use s(1) in simp_all)
  also have "\<dots> < 2 ^ 26" using unat_u32_lt [of bs] by (simp add: less_mult_imp_div_less)
  finally have p2: "?p < 2 ^ 26" .
  have n: "1 \<le> unat n" "unat n \<le> 128" using assms(1,2) by (simp_all add: word_le_nat_alt Suc_le_eq unat_gt_0)
  have a: "unat (n + bs div stride) = unat n + ?p" using n p2 p by (simp add: unat_plus_if')
  have "unat (n + bs div stride - 1) = unat n + ?p - 1" using a n by (subst unat_sub) (simp_all add: word_le_nat_alt)
  then show v: "unat (entry_sectors bs n stride) = (unat n + ?p - 1) div ?p"
    by (simp add: entry_sectors_def Let_def unat_div)
  have "unat n + ?p - 1 < ((unat n + ?p - 1) div ?p) * ?p + ?p"
    using dividend_less_div_times [of ?p "unat n + ?p - 1"] p1 by linarith
  then have c: "unat n \<le> ((unat n + ?p - 1) div ?p) * ?p" using p1 n by linarith
  have "unat n * unat stride \<le> ((unat n + ?p - 1) div ?p) * ?p * unat stride" using c by (rule mult_le_mono1)
  also have "\<dots> \<le> ((unat n + ?p - 1) div ?p) * unat bs"
    unfolding mult.assoc by (rule mult_le_mono2) (simp add: div_times_less_eq_dividend)
  finally show "unat n * unat stride \<le> unat (entry_sectors bs n stride) * unat bs" using v by simp
qed

section \<open>The writes of a table\<close>

text \<open>The blocks an installation may change: the table's own.\<close>

definition table_blocks :: "u64 \<Rightarrow> bool \<Rightarrow> nat \<Rightarrow> nat \<Rightarrow> u64 \<Rightarrow> nat set" where
  "table_blocks blocks fresh lba S bk = (if fresh then {0} else {}) \<union> {1, unat (blocks - 1)} \<union> {lba..<lba + S} \<union> {unat bk..<unat bk + S}"

text \<open>A table whose array is exactly the sectors the code moves.\<close>

definition fits_disk :: "u32 \<Rightarrow> gpt_table \<Rightarrow> bool" where
  "fits_disk bs t \<longleftrightarrow> length (gt_entries t) = unat (entry_sectors bs (gt_entry_count t) (gt_entry_size t)) * unat bs \<and>
     entry_sectors bs (gt_entry_count t) (gt_entry_size t) \<noteq> 0 \<and> length (gt_disk_guid t) = 16 \<and> 92 \<le> unat bs"

lemma length_protective_mbr: "512 \<le> length sector \<Longrightarrow> length (protective_mbr sector blocks) = length sector"
  by (simp add: protective_mbr_def Let_def length_put32 length_overlay)

lemma table_steps_frame:
  assumes "whole_disk content d s" "D = the_bdev s d" "fits_disk (bd_block_size D) t" "fresh \<Longrightarrow> 512 \<le> unat (bd_block_size D)"
    and "S = entry_sectors (bd_block_size D) (gt_entry_count t) (gt_entry_size t)"
    and "run_steps (take k (table_steps d D fresh t)) s = (st, s')"
  shows "disk_step content d (table_blocks (bd_block_count D) fresh (unat (gt_entry_lba t)) (unat S) (bd_block_count D - 1 - ucast S)) s s'"
proof (rule run_steps_frame [OF _ assms(1) _ assms(6)])
  show "bd_block_size (the_bdev s d) = bd_block_size D" using assms(2) by simp
  let ?bs = "bd_block_size D"
  let ?R = "table_blocks (bd_block_count D) fresh (unat (gt_entry_lba t)) (unat S) (bd_block_count D - 1 - ucast S)"
  fix f st and u u' :: "'a storage"
  assume f: "f \<in> set (take k (table_steps d D fresh t))" and u: "whole_disk content d u" "bd_block_size (the_bdev u d) = ?bs" "f u = (st, u')"
  let ?sector = "replicate (unat ?bs) (0 :: u8)"
  define sector1 where "sector1 = (if fresh then protective_mbr ?sector (bd_block_count D) else ?sector)"
  have ls: "length sector1 = unat ?bs" using assms(4) by (simp add: sector1_def length_protective_mbr)
  have lE: "length (gt_entries t) = unat S * unat ?bs" "S \<noteq> 0" using assms(3,5) by (simp_all add: fits_disk_def)
  have lh: "length (build_header sector1 t a b c e) = unat ?bs" for a b c e
    using assms(3) ls by (simp add: fits_disk_def length_build_header)
  have w: "disk_step content d ?R u u'" if "block_write (Some d) lba n (Some buf) u = (st, u')" "n \<noteq> 0" "length buf = unat n * unat ?bs"
    "{unat lba..<unat lba + unat n} \<subseteq> ?R" for lba n buf
    using disk_step_mono [OF root_write(1) [OF u(1) that(2) _ that(1)] that(4)] that(3) u(2) by simp
  have "f \<in> set (table_steps d D fresh t)" using f by (rule in_set_takeD)
  then consider "fresh" "f = write_step d 0 1 sector1" | "f = write_step d (gt_entry_lba t) S (gt_entries t)"
    | a b c e where "f = write_step d 1 1 (build_header sector1 t a b c e)" | "f = block_flush (Some d)"
    | "f = write_step d (bd_block_count D - 1 - ucast S) S (gt_entries t)"
    | a b c e where "f = write_step d (bd_block_count D - 1) 1 (build_header sector1 t a b c e)"
    unfolding table_steps_def Let_def assms(5) [symmetric] sector1_def [symmetric] by (auto split: if_splits)
  then show "disk_step content d ?R u u'"
  proof cases
    case 4
    then show ?thesis using disk_step_mono [OF disk_flush [OF u(1)]] u(3) by simp
  next
    case 1
    then have "block_write (Some d) (0) 1 (Some (sector1)) u = (st, u')" using u(3) by (simp add: write_step_def)
    then show ?thesis by (rule w) (use ls \<open>fresh\<close> in \<open>auto simp: table_blocks_def\<close>)
  next
    case 2
    then have "block_write (Some d) (gt_entry_lba t) S (Some (gt_entries t)) u = (st, u')" using u(3) by (simp add: write_step_def)
    then show ?thesis by (rule w) (use lE in \<open>auto simp: table_blocks_def\<close>)
  next
    case 3
    then have "block_write (Some d) (1) 1 (Some (build_header sector1 t a b c e)) u = (st, u')" using u(3) by (simp add: write_step_def)
    then show ?thesis by (rule w) (use lh in \<open>auto simp: table_blocks_def\<close>)
  next
    case 5
    then have "block_write (Some d) (bd_block_count D - 1 - ucast S) S (Some (gt_entries t)) u = (st, u')" using u(3) by (simp add: write_step_def)
    then show ?thesis by (rule w) (use lE in \<open>auto simp: table_blocks_def\<close>)
  next
    case 6
    then have "block_write (Some d) (bd_block_count D - 1) 1 (Some (build_header sector1 t a b c e)) u = (st, u')" using u(3) by (simp add: write_step_def)
    then show ?thesis by (rule w) (use lh in \<open>auto simp: table_blocks_def\<close>)
  qed
qed

lemma sectors_same: "(\<And>k. a \<le> k \<Longrightarrow> k < a + n \<Longrightarrow> c k = c' k) \<Longrightarrow> sectors c a n = sectors c' a n"
  by (rule sectors_cong)

lemma step_sectors:
  assumes "disk_step content d R s s'" "i = bd_id (the_bdev s d)" "{a..<a + n} \<inter> R = {}"
  shows "sectors (content (st_hw s') i) a n = sectors (content (st_hw s) i) a n"
proof (rule sectors_cong)
  fix k assume "a \<le> k" "k < a + n"
  then have "k \<notin> R" using assms(3) by auto
  then show "content (st_hw s') i k = content (st_hw s) i k" using assms(1) by (simp add: disk_step_def)
qed

lemma sectors_1: "sectors c a (Suc 0) = c a" "sectors c a 1 = c a"
  by (simp_all add: sectors_def)

text \<open>What the disk holds when every step succeeded.\<close>

definition table_written :: "(nat \<Rightarrow> u8 list) \<Rightarrow> u32 \<Rightarrow> u64 \<Rightarrow> gpt_table \<Rightarrow> bool" where
  "table_written disk bs blocks t \<longleftrightarrow> (let S = entry_sectors bs (gt_entry_count t) (gt_entry_size t) in
     header_ok (disk 1) bs 1 = Some (gt_entry_lba t, gt_entry_count t, gt_entry_size t, crc32 (gt_entries t)) \<and>
     sectors disk (unat (gt_entry_lba t)) (unat S) = gt_entries t \<and>
     header_ok (disk (unat blocks - 1)) bs (blocks - 1) =
       Some (blocks - 1 - ucast S, gt_entry_count t, gt_entry_size t, crc32 (gt_entries t)) \<and>
     sectors disk (unat blocks - 1 - unat S) (unat S) = gt_entries t)"

lemma table_steps_OK:
  assumes "whole_disk content d s" "D = the_bdev s d" "fits_disk (bd_block_size D) t" "fresh \<Longrightarrow> 512 \<le> unat (bd_block_size D)"
    and "S = entry_sectors (bd_block_size D) (gt_entry_count t) (gt_entry_size t)"
    and "2 \<le> unat (gt_entry_lba t)" "unat (gt_entry_lba t) + 2 * unat S < unat (bd_block_count D)"
    and "128 \<le> gt_entry_size t" "gt_entry_size t \<le> 512" "gt_entry_count t \<noteq> 0" "gt_entry_count t \<le> 512"
    and "run_steps (table_steps d D fresh t) s = (BLOCK_OK, s')"
  shows "table_written (content (st_hw s') (bd_id D)) (bd_block_size D) (bd_block_count D) t"
proof -
  let ?bs = "bd_block_size D" and ?lba = "unat (gt_entry_lba t)" and ?S = "unat S" and ?N = "unat (bd_block_count D)" and ?E = "gt_entries t"
  let ?sector = "replicate (unat ?bs) (0 :: u8)" and ?bk = "bd_block_count D - 1 - ucast S" and ?fin = "bd_block_count D - 1"
  define sector1 where "sector1 = (if fresh then protective_mbr ?sector (bd_block_count D) else ?sector)"
  let ?H1 = "build_header sector1 t 1 ?fin (gt_entry_lba t) (crc32 ?E)" and ?H2 = "build_header sector1 t ?fin 1 ?bk (crc32 ?E)"
  let ?i = "bd_id D"
  have ls: "length sector1 = unat ?bs" using assms(4) by (simp add: sector1_def length_protective_mbr)
  have lE: "length ?E = ?S * unat ?bs" "S \<noteq> 0" and gl: "length (gt_disk_guid t) = 16" "92 \<le> unat ?bs"
    using assms(3,5) by (simp_all add: fits_disk_def)
  have lh: "length (build_header sector1 t a b c e) = unat (1 :: u32) * unat ?bs" for a b c e using ls gl by (simp add: length_build_header)
  have fin: "unat ?fin = ?N - 1" using assms(7) by (subst unat_minus) simp_all
  have us: "unat (ucast S :: u64) = ?S" using unat_u32_lt [of S] by (simp add: unat_ucast_mod)
  have bk: "unat ?bk = ?N - 1 - ?S" using fin us assms(7) by (subst unat_minus) simp_all
  have regions: "1 < ?lba" "?lba + ?S \<le> ?N - 1 - ?S" "?N - 1 - ?S + ?S = ?N - 1" "?N - 1 - ?S < ?N - 1" "1 < ?N - 1 - ?S"
    using assms(6,7) lE(2) unat_gt_0 [of S] by linarith+
  have "\<exists>u. whole_disk content d u \<and> bd_block_size (the_bdev u d) = ?bs \<and> bd_id (the_bdev u d) = ?i \<and>
      run_steps [write_step d (gt_entry_lba t) S ?E, write_step d 1 1 ?H1, block_flush (Some d), write_step d ?bk S ?E,
        write_step d ?fin 1 ?H2, block_flush (Some d)] u = (BLOCK_OK, s')"
  proof (cases fresh)
    case False
    then show ?thesis using assms(1,2,12) unfolding table_steps_def Let_def assms(5) [symmetric] sector1_def
      by (intro exI [of _ s]) simp
  next
    case True
    then have "run_steps (write_step d 0 1 sector1 # [write_step d (gt_entry_lba t) S ?E, write_step d 1 1 ?H1, block_flush (Some d), write_step d ?bk S ?E,
        write_step d ?fin 1 ?H2, block_flush (Some d)]) s = (BLOCK_OK, s')"
      using assms(12) unfolding table_steps_def Let_def assms(5) [symmetric] sector1_def by simp
    from run_steps_Cons_OK [OF this] obtain u where u: "write_step d 0 1 sector1 s = (BLOCK_OK, u)"
      "run_steps [write_step d (gt_entry_lba t) S ?E, write_step d 1 1 ?H1, block_flush (Some d), write_step d ?bk S ?E,
        write_step d ?fin 1 ?H2, block_flush (Some d)] u = (BLOCK_OK, s')" by blast
    have "length sector1 = unat (1 :: u32) * unat (bd_block_size (the_bdev s d))" using ls assms(2) by simp
    from root_write(1) [OF assms(1) _ this u(1) [unfolded write_step_def]] have "disk_step content d {unat (0 :: u64)..<unat (0 :: u64) + unat (1 :: u32)} s u" by simp
    from whole_disk_step [OF assms(1) this] u(2) show ?thesis using assms(2) by (intro exI [of _ u]) simp
  qed
  then obtain u0 where u0: "whole_disk content d u0" "bd_block_size (the_bdev u0 d) = ?bs" "bd_id (the_bdev u0 d) = ?i"
    and r0: "run_steps [write_step d (gt_entry_lba t) S ?E, write_step d 1 1 ?H1, block_flush (Some d), write_step d ?bk S ?E,
        write_step d ?fin 1 ?H2, block_flush (Some d)] u0 = (BLOCK_OK, s')" by blast
  obtain u1 where s1: "block_write (Some d) (gt_entry_lba t) S (Some ?E) u0 = (BLOCK_OK, u1)"
    and r1: "run_steps [write_step d 1 1 ?H1, block_flush (Some d), write_step d ?bk S ?E, write_step d ?fin 1 ?H2, block_flush (Some d)] u1 = (BLOCK_OK, s')"
    using run_steps_Cons_OK [OF r0] by (auto simp: write_step_def)
  have "length ?E = ?S * unat (bd_block_size (the_bdev u0 d))" using lE u0 by simp
  note W1 = root_write [OF u0(1) lE(2) this s1] and T1 = whole_disk_step [OF u0(1) root_write(1) [OF u0(1) lE(2) this s1]]
  obtain u2 where s2: "block_write (Some d) 1 1 (Some ?H1) u1 = (BLOCK_OK, u2)"
    and r2: "run_steps [block_flush (Some d), write_step d ?bk S ?E, write_step d ?fin 1 ?H2, block_flush (Some d)] u2 = (BLOCK_OK, s')"
    using run_steps_Cons_OK [OF r1] by (auto simp: write_step_def)
  have l2: "length ?H1 = unat (1 :: u32) * unat (bd_block_size (the_bdev u1 d))" using lh T1(2) u0 by simp
  note W2 = root_write [OF T1(1) _ l2 s2, simplified] and T2 = whole_disk_step [OF T1(1) root_write(1) [OF T1(1) _ l2 s2, simplified]]
  obtain u3 where s3: "block_flush (Some d) u2 = (BLOCK_OK, u3)"
    and r3: "run_steps [write_step d ?bk S ?E, write_step d ?fin 1 ?H2, block_flush (Some d)] u3 = (BLOCK_OK, s')"
    using run_steps_Cons_OK [OF r2] by auto
  note W3 = disk_flush [OF T2(1) s3] and T3 = whole_disk_step [OF T2(1) disk_flush [OF T2(1) s3]]
  obtain u4 where s4: "block_write (Some d) ?bk S (Some ?E) u3 = (BLOCK_OK, u4)"
    and r4: "run_steps [write_step d ?fin 1 ?H2, block_flush (Some d)] u4 = (BLOCK_OK, s')"
    using run_steps_Cons_OK [OF r3] by (auto simp: write_step_def)
  have l4: "length ?E = ?S * unat (bd_block_size (the_bdev u3 d))" using lE T1(2) T2(2) T3(2) u0 by simp
  note W4 = root_write [OF T3(1) lE(2) l4 s4] and T4 = whole_disk_step [OF T3(1) root_write(1) [OF T3(1) lE(2) l4 s4]]
  obtain u5 where s5: "block_write (Some d) ?fin 1 (Some ?H2) u4 = (BLOCK_OK, u5)"
    and r5: "run_steps [block_flush (Some d)] u5 = (BLOCK_OK, s')"
    using run_steps_Cons_OK [OF r4] by (auto simp: write_step_def)
  have l5: "length ?H2 = unat (1 :: u32) * unat (bd_block_size (the_bdev u4 d))" using lh T1(2) T2(2) T3(2) T4(2) u0 by simp
  note W5 = root_write [OF T4(1) _ l5 s5, simplified] and T5 = whole_disk_step [OF T4(1) root_write(1) [OF T4(1) _ l5 s5, simplified]]
  have s6: "block_flush (Some d) u5 = (BLOCK_OK, s')" using run_steps_Cons_OK [OF r5] by auto
  note W6 = disk_flush [OF T5(1) s6]
  note ids = u0(3) T1(4) T2(4) T3(4) T4(4) T5(4)
  have i: "?i = bd_id (the_bdev u0 d)" "?i = bd_id (the_bdev u1 d)" "?i = bd_id (the_bdev u2 d)" "?i = bd_id (the_bdev u3 d)"
    "?i = bd_id (the_bdev u4 d)" "?i = bd_id (the_bdev u5 d)" using ids by simp_all
  have c5: "sectors (content (st_hw s') ?i) a n = sectors (content (st_hw u5) ?i) a n" for a n
    by (rule step_sectors [OF W6 i(6)]) simp
  have c3: "sectors (content (st_hw u3) ?i) a n = sectors (content (st_hw u2) ?i) a n" for a n
    by (rule step_sectors [OF W3 i(3)]) simp
  have H2: "sectors (content (st_hw s') ?i) (?N - 1) 1 = ?H2" using W5(2) c5 [of "?N - 1" 1] fin i(5) by simp
  have E2: "sectors (content (st_hw s') ?i) (?N - 1 - ?S) ?S = ?E"
    using W4(2) c5 [of "?N - 1 - ?S" ?S] step_sectors [OF W5(1) i(5), of "?N - 1 - ?S" ?S] fin bk regions i(4) by simp
  have H1: "sectors (content (st_hw s') ?i) 1 1 = ?H1"
    using W2(2) c5 [of 1 1] c3 [of 1 1] step_sectors [OF W5(1) i(5), of 1 1] step_sectors [OF W4(1) i(4), of 1 1] fin bk regions i(2)
    by simp
  have E1: "sectors (content (st_hw s') ?i) ?lba ?S = ?E"
    using W1(2) c5 [of ?lba ?S] c3 [of ?lba ?S] step_sectors [OF W5(1) i(5), of ?lba ?S] step_sectors [OF W4(1) i(4), of ?lba ?S]
      step_sectors [OF W2(1) i(2), of ?lba ?S] fin bk regions i(1) by simp
  have ok1: "header_ok ?H1 ?bs 1 = Some (gt_entry_lba t, gt_entry_count t, gt_entry_size t, crc32 ?E)"
    by (rule gpt_header_roundtrip) (use ls gl assms(8-11) in simp_all)
  have ok2: "header_ok ?H2 ?bs ?fin = Some (?bk, gt_entry_count t, gt_entry_size t, crc32 ?E)"
    by (rule gpt_header_roundtrip) (use ls gl assms(8-11) in simp_all)
  show ?thesis unfolding table_written_def Let_def assms(5) [symmetric] using H1 H2 E1 E2 ok1 ok2 by (simp add: sectors_1)
qed

section \<open>Loading and filling in\<close>

text \<open>The table an installation starts from: its own, or the one the disk has.\<close>

definition start_table :: "u32 \<Rightarrow> (nat \<Rightarrow> u8 list) \<Rightarrow> bool \<Rightarrow> u32 \<times> u32 \<times> u64 \<times> u8 list" where
  "start_table bs disk fresh =
     (if fresh then (128, 128, 2, replicate 16384 0)
      else (le32 (disk 1) 80, le32 (disk 1) 84, le64 (disk 1) 72, table_entries bs disk))"

lemma root_read_step:
  assumes "whole_disk content d s" "length buf = unat n * unat (bd_block_size (the_bdev s d))"
    and "block_read (Some d) lba n (Some buf) s = (st, b, s')"
  shows "disk_step content d {} s s'"
proof -
  have c: "coherent content s" "d < length (st_devices s)" using assms(1) by (simp_all add: whole_disk_def)
  note R = block_read_spec [OF coherentD(1,2) [OF c(1)] c(2) assms(2,3)]
  show ?thesis using R(1,3) coherent_same [OF R(1) c(1)] R(2) coherentD(3) [OF c(1)] by (simp add: disk_step_def)
qed

lemma disk_step_panic: "disk_step content d R s s' \<Longrightarrow> disk_step content d R s (st_panics m s')"
  using same_devices_trans [OF _ same_devices_eq [of "st_panics m s'" s']] by (auto simp: disk_step_def intro: panics_coherent)

lemma load_table_spec:
  assumes "whole_disk content d s" "load_table clock m1 m2 d fresh counter s = (v, t, counter', s')"
    and "disk = content (st_hw s) (bd_id (the_bdev s d))" "bs = bd_block_size (the_bdev s d)"
  shows "disk_step content d {} s s'"
    and "v = INSTALL_OK \<Longrightarrow> start_table bs disk fresh = (gt_entry_count t, gt_entry_size t, gt_entry_lba t, gt_entries t)"
    and "v = INSTALL_OK \<Longrightarrow> length (gt_disk_guid t) = 16 \<and> length (gt_entries t) = entries_bytes t \<and>
      gt_entry_count t \<noteq> 0 \<and> gt_entry_count t \<le> 128 \<and> 128 \<le> gt_entry_size t \<and> (fresh \<or> gt_entry_size t \<le> bs)"
proof -
  have c: "coherent content s" "d < length (st_devices s)" "bd_parent (the_bdev s d) = 0" using assms(1) by (simp_all add: whole_disk_def)
  have main: "disk_step content d {} s s' \<and> (v = INSTALL_OK \<longrightarrow>
      start_table bs disk fresh = (gt_entry_count t, gt_entry_size t, gt_entry_lba t, gt_entries t) \<and>
      length (gt_disk_guid t) = 16 \<and> length (gt_entries t) = entries_bytes t \<and>
      gt_entry_count t \<noteq> 0 \<and> gt_entry_count t \<le> 128 \<and> 128 \<le> gt_entry_size t \<and> (fresh \<or> gt_entry_size t \<le> bs))"
  proof (cases fresh)
    case True
    then show ?thesis
      using assms(2) disk_step_refl [OF c(1), of d "{}"] length_make_guid [of clock "the_bdev s d" counter]
      by (cases m2) (auto simp: load_table_def kzalloc_def Let_def fresh_entries_def entries_bytes_def start_table_def split: prod.splits)
  next
    case False
    show ?thesis
    proof (cases m1)
      case False
      then show ?thesis using assms(2) disk_step_refl [OF c(1), of d "{}"] \<open>\<not> fresh\<close> by (auto simp: load_table_def kzalloc_def Let_def)
    next
      case m1: True
      obtain st sector s1 where r1: "block_read (Some d) 1 1 (Some (replicate (unat bs) 0)) s = (st, sector, s1)" by (metis prod_cases3)
      have lb: "length (replicate (unat bs) (0 :: u8)) = unat (1 :: u32) * unat (bd_block_size (the_bdev s d))" using assms(4) by simp
      note S1 = root_read_step [OF assms(1) lb r1]
      note W1 = whole_disk_step [OF assms(1) S1]
      let ?t = "table_of_header sector"
      let ?S = "entry_sectors bs (gt_entry_count ?t) (gt_entry_size ?t)"
      let ?buf = "replicate (entries_bytes ?t) (0 :: u8)"
      consider "st \<noteq> BLOCK_OK \<or> gt_entry_count ?t = 0 \<or> gt_entry_count ?t > 128 \<or> gt_entry_size ?t < 128 \<or> gt_entry_size ?t > bs \<or> \<not> m2"
        | "st = BLOCK_OK" "\<not> (gt_entry_count ?t = 0 \<or> gt_entry_count ?t > 128 \<or> gt_entry_size ?t < 128 \<or> gt_entry_size ?t > bs)" m2
          "unat ?S * unat bs > entries_bytes ?t"
        | "st = BLOCK_OK" "\<not> (gt_entry_count ?t = 0 \<or> gt_entry_count ?t > 128 \<or> gt_entry_size ?t < 128 \<or> gt_entry_size ?t > bs)" m2
          "\<not> unat ?S * unat bs > entries_bytes ?t" by blast
      then show ?thesis
      proof cases
        case 1
        then have "s' = s1 \<and> v \<noteq> INSTALL_OK" using assms(2,4) False m1 r1
          by (cases m2) (auto simp: load_table_def kzalloc_def Let_def split: if_splits)
        then show ?thesis using S1 by simp
      next
        case 2
        then have "s' = st_panics ''write past the end of the array of entries'' s1 \<and> v \<noteq> INSTALL_OK"
          using assms(2) False m1 r1 unfolding assms(4) by (simp add: load_table_def kzalloc_def Let_def)
        then show ?thesis using disk_step_panic [OF S1] by simp
      next
        case 3
        have g: "gt_entry_count ?t \<noteq> 0" "gt_entry_count ?t \<le> 128" "128 \<le> gt_entry_size ?t" "gt_entry_size ?t \<le> bs" using 3(2) by (simp_all add: not_less)
        have eq: "entries_bytes ?t = unat ?S * unat bs"
          using 3(4) entry_sectors_value(2) [OF g] by (simp add: entries_bytes_def)
        obtain st2 part s2 where r2: "block_read (Some d) (gt_entry_lba ?t) ?S (Some ?buf) s1 = (st2, part, s2)" by (metis prod_cases3)
        have ld: "(v, t, counter', s') = (if st2 \<noteq> BLOCK_OK then (INSTALL_IO, ?t, counter, s2)
            else (INSTALL_OK, ?t\<lparr>gt_entries := overlay 0 part ?buf\<rparr>, counter, s2))"
          using assms(2) False m1 r1 3 r2 unfolding assms(4) by (simp add: load_table_def kzalloc_def Let_def eq [unfolded assms(4), symmetric])
        have lb2: "length ?buf = unat ?S * unat (bd_block_size (the_bdev s1 d))" using eq W1(2) assms(4) by simp
        have S2: "disk_step content d {} s s2"
          using disk_step_trans [OF S1 root_read_step [OF W1(1) lb2 r2] c(2)] by simp
        show ?thesis
        proof (cases "st2 = BLOCK_OK")
          case False
          then show ?thesis using ld S2 by simp
        next
          case True
          have cw: "coherent content s1" "d < length (st_devices s1)" "bd_parent (the_bdev s1 d) = 0" using W1(1) by (simp_all add: whole_disk_def)
          have sec: "sector = disk 1"
            using root_read(1) [OF c _ lb r1 [unfolded 3(1)]] assms(3) by (simp add: sectors_def)
          have cont: "content (st_hw s1) (bd_id (the_bdev s1 d)) = disk"
            using S1 W1(4) assms(3) by (auto simp: disk_step_def fun_eq_iff)
          have part: "part = sectors disk (unat (gt_entry_lba ?t)) (unat ?S)"
            using root_read(1) [OF cw entry_sectors_pos [OF g] lb2 r2 [unfolded True]] cont by simp
          have lp: "length part = length ?buf"
            using block_read_spec(4) [OF coherentD(1,2) [OF cw(1)] cw(2) lb2 r2] .
          have t: "t = ?t\<lparr>gt_entries := part\<rparr>" "v = INSTALL_OK" "s' = s2" using ld True lp by (simp_all add: overlay_whole)
          have "length sector = unat bs"
            using block_read_spec(4) [OF coherentD(1,2) [OF c(1)] c(2) lb r1] by simp
          moreover have "128 \<le> unat bs" using g(3,4) by (simp add: word_le_nat_alt)
          ultimately have "length (gt_disk_guid t) = 16" using t(1) by (simp add: table_of_header_def)
          then show ?thesis using t S2 g lp eq part sec False
            by (simp add: start_table_def table_entries_def table_of_header_def entries_bytes_def)
        qed
      qed
    qed
  qed
  show "disk_step content d {} s s'" using main by blast
  show "v = INSTALL_OK \<Longrightarrow> start_table bs disk fresh = (gt_entry_count t, gt_entry_size t, gt_entry_lba t, gt_entries t)" using main by blast
  show "v = INSTALL_OK \<Longrightarrow> length (gt_disk_guid t) = 16 \<and> length (gt_entries t) = entries_bytes t \<and>
      gt_entry_count t \<noteq> 0 \<and> gt_entry_count t \<le> 128 \<and> 128 \<le> gt_entry_size t \<and> (fresh \<or> gt_entry_size t \<le> bs)" using main by blast
qed

section \<open>The whole installation of a table\<close>

lemma plan_types_real: "\<forall>e\<in>set (plan_entries plan). real_type (fst e)"
  by (auto simp: plan_entries_def real_type_def type_esp_def type_reconos_def type_bios_boot_def)

lemma add_entries_shape:
  "add_entries clock disk es t counter = (ok, t', counter') \<Longrightarrow> \<exists>E. t' = t\<lparr>gt_entries := E\<rparr>"
proof (induction clock disk es t counter rule: add_entries.induct)
  case (1 clock disk t counter)
  then show ?case by (auto intro: exI [of _ "gt_entries t'"])
next
  case (2 clock disk type extent name rest t counter)
  obtain ok1 t1 c1 where a: "add_entry clock disk type extent name t counter = (ok1, t1, c1)" by (metis prod_cases3)
  have "t1 = t \<or> (\<exists>E. t1 = t\<lparr>gt_entries := E\<rparr>)" using a by (auto simp: add_entry_def split: option.splits prod.splits)
  then obtain E where E: "t1 = t\<lparr>gt_entries := E\<rparr>" by (metis gpt_table.surjective gpt_table.update_convs(7))
  show ?case
  proof (cases ok1)
    case True
    then have "add_entries clock disk rest t1 c1 = (ok, t', counter')" using "2.prems" a by simp
    from "2.IH" [OF a [symmetric] refl True this] E show ?thesis by auto
  next
    case False
    then show ?thesis using "2.prems" a E by auto
  qed
qed

lemma write_table_spec:
  assumes "whole_disk content d s" "write_table clock m1 m2 m3 d plan counter s = (v, counter', s')"
    and "D = the_bdev s d" "bs = bd_block_size D" "disk = content (st_hw s) (bd_id D)"
    and "start_table bs disk (pl_fresh_table plan) = (n, z, lba, E)" "S = entry_sectors bs n z"
  shows "disk_step content d (table_blocks (bd_block_count D) (pl_fresh_table plan) (unat lba) (unat S) (bd_block_count D - 1 - ucast S)) s s'"
    and "v = INSTALL_OK \<Longrightarrow> 2 \<le> unat lba \<Longrightarrow> unat lba + 2 * unat S < unat (bd_block_count D) \<Longrightarrow> z \<le> 512 \<Longrightarrow>
      \<exists>t. table_written (content (st_hw s') (bd_id D)) bs (bd_block_count D) t \<and>
        gt_entry_count t = n \<and> gt_entry_size t = z \<and> gt_entry_lba t = lba \<and> added (unat n) (unat z) E (gt_entries t) (plan_entries plan)"
proof -
  let ?fresh = "pl_fresh_table plan"
  let ?R = "table_blocks (bd_block_count D) ?fresh (unat lba) (unat S) (bd_block_count D - 1 - ucast S)"
  obtain v1 t c1 s1 where ld: "load_table clock m1 m2 d ?fresh counter s = (v1, t, c1, s1)" by (metis prod_cases4)
  note L = load_table_spec [OF assms(1) ld refl refl]
  have L1: "disk_step content d ?R s s1" by (rule disk_step_mono [OF L(1)]) simp
  note W1 = whole_disk_step [OF assms(1) L(1)]
  show "disk_step content d ?R s s'" and "v = INSTALL_OK \<Longrightarrow> 2 \<le> unat lba \<Longrightarrow> unat lba + 2 * unat S < unat (bd_block_count D) \<Longrightarrow> z \<le> 512 \<Longrightarrow>
      \<exists>t. table_written (content (st_hw s') (bd_id D)) bs (bd_block_count D) t \<and>
        gt_entry_count t = n \<and> gt_entry_size t = z \<and> gt_entry_lba t = lba \<and> added (unat n) (unat z) E (gt_entries t) (plan_entries plan)"
  proof -
    obtain ok t2 c2 where ad: "add_entries clock (the_bdev s d) (plan_entries plan) t c1 = (ok, t2, c2)" by (metis prod_cases3)
    have cong: "(v = INSTALL_OK \<longrightarrow> Q) \<and> disk_step content d ?R s s'" if "v \<noteq> INSTALL_OK" "s' = s1 \<or> (\<exists>m. s' = st_panics m s1)" for Q
      using that L1 disk_step_panic [OF L1] by auto
    let ?Q = "2 \<le> unat lba \<longrightarrow> unat lba + 2 * unat S < unat (bd_block_count D) \<longrightarrow> z \<le> 512 \<longrightarrow>
      (\<exists>t. table_written (content (st_hw s') (bd_id D)) bs (bd_block_count D) t \<and>
        gt_entry_count t = n \<and> gt_entry_size t = z \<and> gt_entry_lba t = lba \<and> added (unat n) (unat z) E (gt_entries t) (plan_entries plan))"
    have main: "(v = INSTALL_OK \<longrightarrow> ?Q) \<and> disk_step content d ?R s s'"
    proof (cases "v1 \<noteq> INSTALL_OK \<or> \<not> m3 \<or> \<not> ok \<or> bs div gt_entry_size t2 = 0 \<or>
        unat (entry_sectors bs (gt_entry_count t2) (gt_entry_size t2)) * unat bs > entries_bytes t2 \<or> ?fresh \<and> bs < 512")
      case True
      have "v \<noteq> INSTALL_OK \<and> (s' = s1 \<or> (\<exists>m. s' = st_panics m s1))"
        using True assms(2-4) ld ad by (auto simp: write_table_def Let_def split: if_splits)
      then show ?thesis using cong by blast
    next
      case False
      then have v1: "v1 = INSTALL_OK" and m3: m3 and ok: ok and per: "bs div gt_entry_size t2 \<noteq> 0"
        and big: "unat (entry_sectors bs (gt_entry_count t2) (gt_entry_size t2)) * unat bs \<le> entries_bytes t2"
        and b512: "?fresh \<Longrightarrow> 512 \<le> bs" by (auto simp: not_less)
      note L2 = L(2) [OF v1] and L3 = L(3) [OF v1]
      have st: "n = gt_entry_count t" "z = gt_entry_size t" "lba = gt_entry_lba t" "E = gt_entries t" using L2 assms(3-6) by simp_all
      have tk: "table_ok t" using L3 by (simp add: table_ok_def word_le_nat_alt)
      note A = add_entries_spec [OF tk plan_types_real ad [unfolded eqTrueI [OF ok]]]
      have sh: "t2 = t\<lparr>gt_entries := gt_entries t2\<rparr>" using A by blast
      note H = same_shape [OF sh]
      have zb: "z \<le> bs"
        using per H(2) st(2) by (auto simp: word_le_nat_alt word_unat_eq_iff unat_div div_eq_0_iff not_less)
      have g: "n \<noteq> 0" "n \<le> 128" "128 \<le> z" "z \<le> bs" using L3 st zb by simp_all
      have eb: "entries_bytes t2 = unat n * unat z" using H(1,2) st by (simp add: entries_bytes_def)
      have "unat S * unat bs \<le> unat n * unat z" using big eb H(1,2) st(1,2) assms(7) by simp
      with entry_sectors_value(2) [OF g] have eq: "unat n * unat z = unat S * unat bs" using assms(7) by simp
      have S2: "S = entry_sectors bs (gt_entry_count t2) (gt_entry_size t2)" using assms(7) H(1,2) st(1,2) by simp
      have "128 \<le> unat bs" using g(3,4) by (simp add: word_le_nat_alt)
      then have fd: "fits_disk bs t2"
        using A eb eq entry_sectors_pos [OF g] L3 H(6) S2 assms(7) unfolding fits_disk_def table_ok_def by simp
      obtain st3 s3 where run: "run_steps (table_steps d D ?fresh t2) s1 = (st3, s3)" by fastforce
      have fin: "s' = s3" "v = (if st3 = BLOCK_OK then INSTALL_OK else INSTALL_IO)"
        using False assms(2-4) ld ad run by (auto simp: write_table_def Let_def)
      have b5: "?fresh \<Longrightarrow> 512 \<le> unat bs" using b512 by (simp add: word_le_nat_alt)
      define D1 where "D1 = the_bdev s1 d"
      have D1: "bd_block_size D1 = bs" "bd_block_count D1 = bd_block_count D" "bd_id D1 = bd_id D" using W1(2-4) assms(3,4) by (simp_all add: D1_def)
      have ts: "table_steps d D ?fresh t2 = table_steps d D1 ?fresh t2" unfolding table_steps_def D1 assms(4) by (rule refl)
      have "disk_step content d ?R s1 s'"
        using table_steps_frame [OF W1(1) D1_def, of t2 ?fresh S "length (table_steps d D1 ?fresh t2)" st3 s'] fd b5 S2 run fin ts D1 H(5) st(3)
        by simp
      then have fr: "disk_step content d ?R s s'" using disk_step_trans [OF L1] assms(1) by (fastforce simp: whole_disk_def)
      moreover have "?Q" if "v = INSTALL_OK"
      proof (intro impI)
        assume geo: "2 \<le> unat lba" "unat lba + 2 * unat S < unat (bd_block_count D)" "z \<le> 512"
        have ok3: "run_steps (table_steps d D1 ?fresh t2) s1 = (BLOCK_OK, s')" using run fin that ts by (simp split: if_splits)
        have "n \<le> 512" using g(2) by (simp add: word_le_nat_alt)
        then have "table_written (content (st_hw s') (bd_id D)) bs (bd_block_count D) t2"
          using table_steps_OK [OF W1(1) D1_def, of t2 ?fresh S s'] fd b5 S2 geo g H st D1 ok3 by simp
        then show "\<exists>t. table_written (content (st_hw s') (bd_id D)) bs (bd_block_count D) t \<and>
          gt_entry_count t = n \<and> gt_entry_size t = z \<and> gt_entry_lba t = lba \<and> added (unat n) (unat z) E (gt_entries t) (plan_entries plan)"
          using A H st by auto
      qed
      ultimately show ?thesis by blast
    qed
    then show "disk_step content d ?R s s'" by blast
    assume "v = INSTALL_OK" "2 \<le> unat lba" "unat lba + 2 * unat S < unat (bd_block_count D)" "z \<le> 512"
    with main show "\<exists>t. table_written (content (st_hw s') (bd_id D)) bs (bd_block_count D) t \<and>
        gt_entry_count t = n \<and> gt_entry_size t = z \<and> gt_entry_lba t = lba \<and> added (unat n) (unat z) E (gt_entries t) (plan_entries plan)"
      by blast
  qed
qed

end
