(* ===== verification/Gpt_Read.thy ===== *)
theory Gpt_Read
  imports Gpt_Install
begin

text \<open>
  The reader on a disk whose primary header it accepts: it goes by that header alone, reads the
  array the header names, and registers its entries exactly when the array's checksum is the one in
  the header.
\<close>

section \<open>Reading leaves the memory\<close>

lemma issue_loop_pages: "st_pages (snd (snd (issue_loop False d lba n at buf s))) = st_pages s"
proof (induction False d lba n at buf s rule: issue_loop.induct)
  case (1 d lba n at buf s)
  let ?c = "next_chunk (the_bdev s d) n"
  obtain st b s1 where t: "op_transfer False d lba ?c at buf s = (st, b, s1)" by (metis prod_cases3)
  have "st_pages s1 = st_pages s" using t by (auto simp: op_transfer_def Let_def split: prod.splits)
  then show ?case using "1.hyps" [OF _ refl t [symmetric] refl] t by (subst issue_loop.simps) (simp add: Let_def)
qed

lemma block_read_pages:
  assumes "registry_ok s" "d < length (st_devices s)" "bd_parent (the_bdev s d) = 0" "block_read (Some d) lba n (Some buf) s = (st, b, s')"
  shows "st_pages s' = st_pages s"
proof -
  let ?r = "\<lparr>rq_tag = 0, rq_lba = lba, rq_count = n, rq_buf = buf, rq_write = False\<rparr>"
  obtain s0 where s0: "submit d ?r s = issue d ?r s0" "st_pages s0 = st_pages s"
    using submit_alone [OF assms(2) registryD(2) [OF assms(1,2)], of ?r] by blast
  have "st_pages (snd (snd (submit d ?r s))) = st_pages s" unfolding s0(1) issue_def by (simp add: issue_loop_pages s0(2))
  then show ?thesis using assms(4) to_root_root [OF assms(3)] by (auto simp: block_read_def Let_def split: if_splits)
qed

section \<open>A page of the disk\<close>

text \<open>A disk the reader can work with: whole, there, its driver answering, its blocks dividing a page.\<close>

definition readable :: "('hw \<Rightarrow> u32 \<Rightarrow> nat \<Rightarrow> u8 list) \<Rightarrow> nat \<Rightarrow> 'hw storage \<Rightarrow> bool" where
  "readable content d s \<longleftrightarrow> whole_disk content d s \<and> reads_succeed s \<and> bd_present (the_bdev s d) \<and>
     unat (bd_block_size (the_bdev s d)) dvd PAGE_SIZE"

lemma readable_step:
  assumes "readable content d s" "disk_step content d R s s'"
  shows "readable content d s'"
  using assms whole_disk_step [of content d s R s'] reads_succeed_same [of s s'] same_devices_fields(5) [of s s' d]
  by (auto simp: readable_def disk_step_def whole_disk_def)

lemma page_read_root:
  assumes "readable content d s" "n \<noteq> 0" "unat lba + unat n \<le> unat (bd_block_count (the_bdev s d))"
    and "unat n * unat (bd_block_size (the_bdev s d)) \<le> length page"
  obtains s' where "page_read d lba n page s = (BLOCK_OK, overlay 0 (sectors (content (st_hw s) (bd_id (the_bdev s d))) (unat lba) (unat n)) page, s')"
    "disk_step content d {} s s'" "st_pages s' = st_pages s"
proof -
  have c: "coherent content s" "d < length (st_devices s)" "bd_parent (the_bdev s d) = 0" "reads_succeed s" "bd_present (the_bdev s d)"
    using assms(1) by (simp_all add: readable_def whole_disk_def)
  let ?buf = "take (unat n * unat (bd_block_size (the_bdev s d))) page"
  have lb: "length ?buf = unat n * unat (bd_block_size (the_bdev s d))" using assms(4) by simp
  obtain st b s' where r: "block_read (Some d) lba n (Some ?buf) s = (st, b, s')" by (metis prod_cases3)
  have "st = BLOCK_OK"
    using block_read_succeeds [OF c(4) coherentD(1) [OF c(1)] c(2) assms(2) range_inside [OF c(5) assms(3)] to_root_root [OF c(3)], of ?buf] r
    by simp
  note r = r [unfolded this]
  have "b = sectors (content (st_hw s) (bd_id (the_bdev s d))) (unat lba) (unat n)" by (rule root_read(1) [OF c(1-3) assms(2) lb r])
  moreover have "whole_disk content d s" using assms(1) by (simp add: readable_def)
  from root_read_step [OF this lb r] have "disk_step content d {} s s'" .
  moreover have "st_pages s' = st_pages s" by (rule block_read_pages [OF coherentD(1) [OF c(1)] c(2,3) r])
  ultimately show ?thesis using that [of s'] r by (simp add: page_read_def)
qed

section \<open>The header in a page\<close>

lemma le32_front: "i + 4 \<le> length h \<Longrightarrow> le32 (h @ rest) i = le32 h i"
  by (rule le32_cong) (simp add: nth_append)

lemma le64_front: "i + 8 \<le> length h \<Longrightarrow> le64 (h @ rest) i = le64 h i"
  by (rule le64_cong) (simp add: nth_append)

lemma header_ok_front:
  assumes "length h = unat bs" "92 \<le> unat bs"
  shows "header_ok (h @ rest) bs at = header_ok h bs at"
proof -
  have sl: "slice_of 20 (unat (le32 h 12) - 20) (h @ rest) = slice_of 20 (unat (le32 h 12) - 20) h" if "\<not> le32 h 12 > bs"
    using that assms by (simp add: slice_of_def not_less word_le_nat_alt)
  show ?thesis using assms sl
    by (simp add: header_ok_def Let_def GPT_HEADER_SIZE_def GPT_MY_LBA_def GPT_HEADER_CRC_def GPT_ENTRIES_LBA_def GPT_ENTRY_COUNT_def
        GPT_ENTRY_SIZE_def GPT_ENTRIES_CRC_def le32_front le64_front)
qed

section \<open>Where the header points\<close>

text \<open>The bytes of the array, as the header describes it.\<close>

definition array_of :: "(nat \<Rightarrow> u8 list) \<Rightarrow> u32 \<Rightarrow> u64 \<Rightarrow> u32 \<Rightarrow> u32 \<Rightarrow> u8 list" where
  "array_of disk bs lba n z = take (unat n * unat z) (sectors disk (unat lba) ((unat n * unat z + unat bs - 1) div unat bs))"

lemma read_gpt_accepted:
  assumes "readable content d s" "length block = PAGE_SIZE" "disk = content (st_hw s) (bd_id (the_bdev s d))" "bs = bd_block_size (the_bdev s d)"
    and "92 \<le> unat bs" "2 \<le> unat (bd_block_count (the_bdev s d))" "header_ok (disk 1) bs 1 = Some (lba, n, z, crc)"
  obtains blk s1 where "read_gpt d block s = (case read_entries d lba n z crc s1 of (ok, s2) \<Rightarrow> (ok, blk, s2))"
    "disk_step content d {} s s1" "st_pages s1 = st_pages s"
proof -
  have bs: "unat bs \<le> PAGE_SIZE" using assms(1,4) by (auto simp: readable_def PAGE_SIZE_def intro: dvd_imp_le)
  have c: "coherent content s" "d < length (st_devices s)" "bd_parent (the_bdev s d) = 0" using assms(1) by (simp_all add: readable_def whole_disk_def)
  have one: "unat (1 :: u64) + unat (1 :: u32) \<le> unat (bd_block_count (the_bdev s d))"
    "unat (1 :: u32) * unat (bd_block_size (the_bdev s d)) \<le> length block" using assms(2,4,6) bs by simp_all
  obtain s1 where r: "page_read d 1 1 block s = (BLOCK_OK, overlay 0 (disk 1) block, s1)" and s1: "disk_step content d {} s s1" "st_pages s1 = st_pages s"
    by (rule page_read_root [OF assms(1) _ one]) (use assms(3) in \<open>auto simp: sectors_def\<close>)
  have "honest content (the_bdev s d)" using coherentD(2) [OF c(1)] c(2,3) by (simp add: all_honest_def)
  from honest_length [OF this, of 1 "st_hw s"] have l: "length (disk 1) = unat bs" using assms(3,4,6) by simp
  have "overlay 0 (disk 1) block = disk 1 @ drop (unat bs) block" by (simp only: overlay_def l take_0 append_Nil add_0)
  then have h: "header_ok (overlay 0 (disk 1) block) bs 1 = Some (lba, n, z, crc)" using header_ok_front [OF l assms(5)] assms(7) by simp
  have sz: "bd_block_size (the_bdev s1 d) = bs" using whole_disk_step(2) [OF _ s1(1)] assms(1,4) by (simp add: readable_def)
  then have "read_gpt d block s = (case read_entries d lba n z crc s1 of (ok, s2) \<Rightarrow> (ok, overlay 0 (disk 1) block, s2))"
    using h assms(4) r by (simp add: read_gpt_def Let_def)
  with that s1 show ?thesis by blast
qed

lemma read_entries_value:
  assumes "readable content d s" "disk = content (st_hw s) (bd_id (the_bdev s d))" "bs = bd_block_size (the_bdev s d)"
    and "0 < unat n" "unat n \<le> 512" "128 \<le> unat z" "unat z \<le> 512"
  shows "crc32 (array_of disk bs lba n z) \<noteq> crc \<Longrightarrow> \<exists>s'. read_entries d lba n z crc s = (False, s') \<and> same_devices s s'"
    and "crc32 (array_of disk bs lba n z) = crc \<Longrightarrow> unat lba + (unat n * unat z + unat bs - 1) div unat bs \<le> unat (bd_block_count (the_bdev s d)) \<Longrightarrow>
      unat lba < unat (bd_block_count (the_bdev s d)) \<Longrightarrow> fst (pmm_alloc_pages (pages_for (ucast n * ucast z)) (st_pages s)) \<noteq> 0 \<Longrightarrow>
      \<exists>page at s1. take (unat n * unat z) page = array_of disk bs lba n z \<and> same_devices s s1 \<and>
        read_entries d lba n z crc s = (True, pages_back at (pages_for (ucast n * ucast z)) (gpt_register d page (unat z) [0..<unat n] s1))"
proof -
  let ?E = "ucast n * ucast z :: u64" and ?D = "the_bdev s d"
  let ?b = "(?E + ucast bs - 1) div ucast bs" and ?k = "pages_for ?E"
  have c: "coherent content s" "d < length (st_devices s)" using assms(1) by (simp_all add: readable_def whole_disk_def)
  have dv: "unat bs dvd PAGE_SIZE" "bs \<noteq> 0" using assms(1,3) registryD(3) [OF coherentD(1) [OF c(1)] c(2)] by (simp_all add: readable_def)
  note EF = entries_fit [OF assms(4-7) dv]
  have pos: "unat bs > 0" using dv(2) by (simp add: unat_gt_0)
  have b: "unat ?b = (unat n * unat z + unat bs - 1) div unat bs" using EF(1,3) by simp
  obtain at p where al: "pmm_alloc_pages ?k (st_pages s) = (at, p)" by fastforce
  let ?s1 = "s\<lparr>st_pages := p\<rparr>"
  have sd1: "same_devices s ?s1" by (rule same_devices_eq) simp_all
  have D1: "the_bdev ?s1 d = ?D" by (simp add: the_bdev_def)
  have "disk_step content d {} s ?s1" using pages_coherent [OF c(1)] sd1 by (simp add: disk_step_def)
  note rd1 = readable_step [OF assms(1) this]
  have given: "same_devices u (pages_back at ?k u)" for u :: "'a storage"
    by (cases "pmm_free_pages at ?k (st_pages u)") (auto simp: pages_back_def intro: same_devices_eq)
  have inside: "unat lba + unat ?b \<le> unat (bd_block_count ?D)" if "\<not> lba \<ge> bd_block_count ?D" "\<not> ?b > bd_block_count ?D - lba"
  proof -
    have "unat (bd_block_count ?D - lba) = unat (bd_block_count ?D) - unat lba" using that(1) by (simp add: unat_minus word_le_nat_alt)
    then show ?thesis using that by (simp add: word_less_nat_alt word_le_nat_alt)
  qed
  have run: "\<exists>page s2. take (unat n * unat z) page = array_of disk bs lba n z \<and> same_devices s s2 \<and>
      read_entries d lba n z crc s = (if crc32 (array_of disk bs lba n z) \<noteq> crc then (False, pages_back at ?k s2)
        else (True, pages_back at ?k (gpt_register d page (unat z) [0..<unat n] s2)))"
    if "\<not> lba \<ge> bd_block_count ?D" "\<not> ?b > bd_block_count ?D - lba" "at \<noteq> 0"
  proof -
    note g = that
    have "unat n * unat z > 0" using assms(4,6) by simp
    then have "unat n * unat z + unat bs - 1 \<ge> unat bs" by linarith
    then have "unat ?b \<ge> 1" unfolding b using pos by (simp add: Suc_le_eq div_greater_zero_iff)
    then have nz: "(ucast ?b :: u32) \<noteq> 0" using EF(2) by (metis not_one_le_zero unat_0)
    have l1: "unat lba + unat (ucast ?b :: u32) \<le> unat (bd_block_count (the_bdev ?s1 d))" using inside [OF g(1,2)] EF(2) D1 by simp
    have l2: "unat (ucast ?b :: u32) * unat (bd_block_size (the_bdev ?s1 d)) \<le> length (replicate (?k * PAGE_SIZE) (0 :: u8))"
      using EF(2,4) D1 assms(3) by simp
    obtain s2 where r: "page_read d lba (ucast ?b) (replicate (?k * PAGE_SIZE) 0) ?s1
        = (BLOCK_OK, overlay 0 (sectors disk (unat lba) (unat ?b)) (replicate (?k * PAGE_SIZE) 0), s2)" and s2: "disk_step content d {} ?s1 s2"
      by (rule page_read_root [OF rd1 nz l1 l2]) (use assms(2) D1 EF(2) in auto)
    let ?page = "overlay 0 (sectors disk (unat lba) (unat ?b)) (replicate (?k * PAGE_SIZE) (0 :: u8))"
    have hon: "honest content ?D" using coherentD(2) [OF c(1)] assms(1) c(2) by (simp add: all_honest_def readable_def whole_disk_def)
    have ls: "length (sectors disk (unat lba) (unat ?b)) = unat ?b * unat bs"
      using honest_sectors_length [OF hon inside [OF g(1,2)], of "st_hw s"] assms(2,3) by simp
    have "unat n * unat z \<le> unat ?b * unat bs" using EF(1,5) by simp
    then have tk: "take (unat n * unat z) ?page = array_of disk bs lba n z"
      unfolding array_of_def b [symmetric] using ls by (simp add: overlay_def)
    have tE: "take (unat ?E) ?page = array_of disk bs lba n z" using tk EF(1) by simp
    have sd: "same_devices s s2" using same_devices_trans [OF sd1] s2 by (simp add: disk_step_def)
    have "read_entries d lba n z crc s = (if crc32 (array_of disk bs lba n z) \<noteq> crc then (False, pages_back at ?k s2)
        else (True, pages_back at ?k (gpt_register d ?page (unat z) [0..<unat n] s2)))"
      using g al r tE unfolding assms(3) read_entries_def Let_def by simp
    then show ?thesis using tk sd by blast
  qed
  show "\<exists>s'. read_entries d lba n z crc s = (False, s') \<and> same_devices s s'" if "crc32 (array_of disk bs lba n z) \<noteq> crc"
  proof (cases "lba \<ge> bd_block_count ?D \<or> ?b > bd_block_count ?D - lba")
    case True
    then show ?thesis using assms(3) by (intro exI [of _ s]) (auto simp: read_entries_def Let_def)
  next
    case inside: False
    show ?thesis
    proof (cases "at = 0")
      case True
      then show ?thesis using inside assms(3) al sd1 by (intro exI [of _ ?s1]) (auto simp: read_entries_def Let_def)
    next
      case False
      then show ?thesis using run inside that given same_devices_trans by fastforce
    qed
  qed
  show "\<exists>page at s1. take (unat n * unat z) page = array_of disk bs lba n z \<and> same_devices s s1 \<and>
      read_entries d lba n z crc s = (True, pages_back at ?k (gpt_register d page (unat z) [0..<unat n] s1))"
    if "crc32 (array_of disk bs lba n z) = crc" "unat lba + (unat n * unat z + unat bs - 1) div unat bs \<le> unat (bd_block_count ?D)"
      "unat lba < unat (bd_block_count ?D)" "fst (pmm_alloc_pages ?k (st_pages s)) \<noteq> 0"
  proof -
    have g: "\<not> lba \<ge> bd_block_count ?D" "at \<noteq> 0" using that(3,4) al by (simp_all add: word_le_nat_alt)
    have "unat (bd_block_count ?D - lba) = unat (bd_block_count ?D) - unat lba" using that(3) by (simp add: unat_minus)
    then have "\<not> ?b > bd_block_count ?D - lba" using that(2) b by (simp add: word_less_nat_alt)
    from run [OF g(1) this g(2)] that(1) show ?thesis by auto
  qed
qed

end
