(* ===== verification/Gpt_Live.thy ===== *)
theory Gpt_Live
  imports Gpt_Read
begin

text \<open>
  An installation of a table comes to its end: where the driver answers, memory is granted, the disk
  may be claimed and the table has slots enough, it succeeds.
\<close>

section \<open>Free slots\<close>

definition free_slots :: "gpt_table \<Rightarrow> nat set" where
  "free_slots t = {i. i < unat (gt_entry_count t) \<and> all_zero (gt_entries t) (i * unat (gt_entry_size t)) 16}"

lemma finite_free_slots [simp]: "finite (free_slots t)"
  by (simp add: free_slots_def)

lemma free_slot_None: "free_slot t = None \<longleftrightarrow> free_slots t = {}"
  by (auto simp: free_slot_def free_slots_def find_None_iff)

lemma add_entry_takes_slot:
  assumes "table_ok t" "real_type type" "add_entry clock disk type ext name t counter = (True, t', counter')"
  shows "card (free_slots t') = card (free_slots t) - 1"
proof -
  let ?z = "unat (gt_entry_size t)" and ?n = "unat (gt_entry_count t)"
  note A = add_entry_spec [OF assms]
  obtain i where i: "i < ?n" "all_zero (gt_entries t) (i * ?z) 16" "entry_is ?z (gt_entries t') i type ext"
    "\<forall>j<?n. j \<noteq> i \<longrightarrow> slot_of ?z (gt_entries t') j = slot_of ?z (gt_entries t) j" using A by blast
  have sh: "t' = t\<lparr>gt_entries := gt_entries t'\<rparr>" using A by blast
  note H = same_shape [OF sh]
  have z: "128 \<le> ?z" using assms(1) by (simp add: table_ok_def)
  have "free_slots t' = free_slots t - {i}"
    using i entry_is_used [OF i(3) assms(2)] all_zero_slot [OF _ z, of "gt_entries t'" _ "gt_entries t"] H(1,2)
    by (auto simp: free_slots_def)
  then show ?thesis using i(1,2) by (simp add: free_slots_def)
qed

lemma add_entries_succeeds:
  "table_ok t \<Longrightarrow> \<forall>e\<in>set es. real_type (fst e) \<Longrightarrow> fst (add_entries clock disk es t counter) \<longleftrightarrow> length es \<le> card (free_slots t)"
proof (induction clock disk es t counter rule: add_entries.induct)
  case (2 clock disk type extent name rest t counter)
  obtain ok t1 c1 where a: "add_entry clock disk type extent name t counter = (ok, t1, c1)" by (metis prod_cases3)
  show ?case
  proof (cases ok)
    case False
    then have "free_slots t = {}" using a free_slot_None [of t] by (auto simp: add_entry_def split: option.splits prod.splits)
    then show ?thesis using False a by simp
  next
    case True
    have ty: "real_type type" using "2.prems"(2) by simp
    have tk: "table_ok t1" using add_entry_spec [OF "2.prems"(1) ty a [unfolded eqTrueI [OF True]]] by blast
    have c: "card (free_slots t1) = card (free_slots t) - 1" by (rule add_entry_takes_slot [OF "2.prems"(1) ty a [unfolded eqTrueI [OF True]]])
    have "free_slots t \<noteq> {}" using True a free_slot_None [of t] by (auto simp: add_entry_def split: option.splits)
    then have "0 < card (free_slots t)" by (simp add: card_gt_0_iff)
    then show ?thesis using "2.IH" [OF a [symmetric] refl True tk] "2.prems"(2) True a c by auto
  qed
qed simp

section \<open>Reads that succeed\<close>

lemma root_read_succeeds:
  assumes "coherent content s" "reads_succeed s" "d < length (st_devices s)" "bd_parent (the_bdev s d) = 0" "bd_present (the_bdev s d)"
    and "n \<noteq> 0" "unat lba + unat n \<le> unat (bd_block_count (the_bdev s d))" "length buf = unat n * unat (bd_block_size (the_bdev s d))"
  obtains s' where "block_read (Some d) lba n (Some buf) s = (BLOCK_OK, sectors (content (st_hw s) (bd_id (the_bdev s d))) (unat lba) (unat n), s')"
    "coherent content s'" "same_devices s s'" "content (st_hw s') = content (st_hw s)" "reads_succeed s'"
proof -
  obtain st b s' where r: "block_read (Some d) lba n (Some buf) s = (st, b, s')" by (metis prod_cases3)
  have "st = BLOCK_OK"
    using block_read_succeeds [OF assms(2) coherentD(1) [OF assms(1)] assms(3,6) range_inside [OF assms(5,7)] to_root_root [OF assms(4)], of buf] r
    by simp
  note r = r [unfolded this]
  note R = root_read [OF assms(1,3,4,6,8) r]
  have "reads_succeed s'" using reads_succeed_same [OF R(3)] assms(2) by simp
  then show ?thesis using that [of s'] r R by simp
qed

section \<open>Steps that succeed\<close>

definition writable :: "nat \<Rightarrow> 'hw storage \<Rightarrow> bool" where
  "writable d s \<longleftrightarrow> bd_present (the_bdev s d) \<and> write_refused (the_bdev s d) = BLOCK_OK \<and>
     (\<exists>w. op_write (bd_ops (the_bdev s d)) = Some w \<and> (\<forall>lba n data h. fst (w lba n data h) = BLOCK_OK)) \<and>
     (\<forall>f h. op_flush (bd_ops (the_bdev s d)) = Some f \<longrightarrow> fst (f h) = BLOCK_OK)"

lemma writable_same:
  assumes "same_devices s s'" "d < length (st_devices s)"
  shows "writable d s' = writable d s"
  using same_devices_fields [OF assms] by (simp add: writable_def write_refused_def)

lemma write_step_succeeds:
  assumes "whole_disk content d s" "writable d s" "n \<noteq> 0" "unat lba + unat n \<le> unat (bd_block_count (the_bdev s d))"
    and "length buf = unat n * unat (bd_block_size (the_bdev s d))"
  shows "fst (write_step d lba n buf s) = BLOCK_OK" "whole_disk content d (snd (write_step d lba n buf s))"
    "writable d (snd (write_step d lba n buf s))" "same_devices s (snd (write_step d lba n buf s))"
proof -
  have c: "coherent content s" "d < length (st_devices s)" "bd_parent (the_bdev s d) = 0" using assms(1) by (simp_all add: whole_disk_def)
  obtain w where w: "op_write (bd_ops (the_bdev s d)) = Some w" "\<And>lba n data h. fst (w lba n data h) = BLOCK_OK"
    and ok: "bd_present (the_bdev s d)" "write_refused (the_bdev s d) = BLOCK_OK" using assms(2) unfolding writable_def by blast
  show "fst (write_step d lba n buf s) = BLOCK_OK"
    unfolding write_step_def
    by (rule block_write_succeeds [OF coherentD(1) [OF c(1)] c(2) assms(3) ok(2) range_inside [OF ok(1) assms(4)] to_root_root [OF c(3)] w])
  have S: "disk_step content d {unat lba..<unat lba + unat n} s (snd (write_step d lba n buf s))"
    unfolding write_step_def by (rule root_write(1) [OF assms(1,3,5) surjective_pairing])
  show "whole_disk content d (snd (write_step d lba n buf s))" by (rule whole_disk_step(1) [OF assms(1) S])
  show sd: "same_devices s (snd (write_step d lba n buf s))" using S by (simp add: disk_step_def)
  show "writable d (snd (write_step d lba n buf s))" using writable_same [OF sd c(2)] assms(2) by simp
qed

lemma flush_succeeds:
  assumes "whole_disk content d s" "writable d s"
  shows "fst (block_flush (Some d) s) = BLOCK_OK" "whole_disk content d (snd (block_flush (Some d) s))"
    "writable d (snd (block_flush (Some d) s))" "same_devices s (snd (block_flush (Some d) s))"
proof -
  have c: "d < length (st_devices s)" "bd_parent (the_bdev s d) = 0" using assms(1) by (simp_all add: whole_disk_def)
  show "fst (block_flush (Some d) s) = BLOCK_OK"
    using assms(2) to_root_root [OF c(2), of 0]
    by (auto simp: block_flush_def writable_def Let_def split: option.split prod.split) (metis fst_conv)+
  have S: "disk_step content d {} s (snd (block_flush (Some d) s))" by (rule disk_flush [OF assms(1) surjective_pairing])
  show "whole_disk content d (snd (block_flush (Some d) s))" by (rule whole_disk_step(1) [OF assms(1) S])
  show sd: "same_devices s (snd (block_flush (Some d) s))" using S by (simp add: disk_step_def)
  show "writable d (snd (block_flush (Some d) s))" using writable_same [OF sd c(1)] assms(2) by simp
qed

text \<open>A list of steps each of which succeeds wherever the disk is in order.\<close>

lemma run_steps_succeed:
  assumes "\<And>f u. f \<in> set fs \<Longrightarrow> ok u \<Longrightarrow> fst (f u) = BLOCK_OK \<and> ok (snd (f u))" "ok s"
  shows "fst (run_steps fs s) = BLOCK_OK"
  using assms
proof (induction fs arbitrary: s)
  case (Cons f fs)
  have "fst (f s) = BLOCK_OK \<and> ok (snd (f s))" using Cons.prems by simp
  moreover have "fst (run_steps fs (snd (f s))) = BLOCK_OK" if "ok (snd (f s))"
    by (rule Cons.IH [OF _ that]) (use Cons.prems(1) in auto)
  ultimately show ?case by (cases "f s") simp
qed simp

lemma table_steps_succeed:
  assumes "whole_disk content d s" "writable d s" "D = the_bdev s d" "fits_disk (bd_block_size D) t" "fresh \<Longrightarrow> 512 \<le> unat (bd_block_size D)"
    and "S = entry_sectors (bd_block_size D) (gt_entry_count t) (gt_entry_size t)"
    and "unat (gt_entry_lba t) + 2 * unat S < unat (bd_block_count D)"
  shows "fst (run_steps (table_steps d D fresh t) s) = BLOCK_OK"
proof (rule run_steps_succeed)
  let ?ok = "\<lambda>u. whole_disk content d u \<and> writable d u \<and> bd_block_size (the_bdev u d) = bd_block_size D \<and> bd_block_count (the_bdev u d) = bd_block_count D"
  show "?ok s" using assms(1-3) by simp
  let ?bs = "bd_block_size D"
  fix f u assume f: "f \<in> set (table_steps d D fresh t)" and u: "?ok u"
  have dl: "d < length (st_devices u)" using u by (simp add: whole_disk_def)
  let ?sector = "replicate (unat ?bs) (0 :: u8)"
  define sector1 where "sector1 = (if fresh then protective_mbr ?sector (bd_block_count D) else ?sector)"
  have ls: "length sector1 = unat ?bs" using assms(5) by (simp add: sector1_def length_protective_mbr)
  have lE: "length (gt_entries t) = unat S * unat ?bs" "S \<noteq> 0" using assms(4,6) by (simp_all add: fits_disk_def)
  have lh: "length (build_header sector1 t a b c e) = unat ?bs" for a b c e
    using assms(4) ls by (simp add: fits_disk_def length_build_header)
  have fin: "unat (bd_block_count D - 1) = unat (bd_block_count D) - 1" using assms(7) by (subst unat_minus) simp_all
  have us: "unat (ucast S :: u64) = unat S" using unat_u32_lt [of S] by (simp add: unat_ucast_mod)
  have bk: "unat (bd_block_count D - 1 - ucast S) = unat (bd_block_count D) - 1 - unat S"
    using fin us assms(7) by (subst unat_minus) simp_all
  have pos: "0 < unat S" using lE(2) by (simp add: unat_gt_0)
  have w: "fst (write_step d lba n buf u) = BLOCK_OK \<and> ?ok (snd (write_step d lba n buf u))"
    if "n \<noteq> 0" "unat lba + unat n \<le> unat (bd_block_count D)" "length buf = unat n * unat ?bs" for lba n buf
  proof -
    have o: "whole_disk content d u" "writable d u" "unat lba + unat n \<le> unat (bd_block_count (the_bdev u d))"
      "length buf = unat n * unat (bd_block_size (the_bdev u d))" using u that by simp_all
    note W = write_step_succeeds [OF o(1,2) that(1) o(3,4)]
    then show ?thesis using same_devices_fields(3,4) [OF W(4) dl] u by simp
  qed
  consider "fresh" "f = write_step d 0 1 sector1" | "f = write_step d (gt_entry_lba t) S (gt_entries t)"
    | a b c e where "f = write_step d 1 1 (build_header sector1 t a b c e)" | "f = block_flush (Some d)"
    | "f = write_step d (bd_block_count D - 1 - ucast S) S (gt_entries t)"
    | a b c e where "f = write_step d (bd_block_count D - 1) 1 (build_header sector1 t a b c e)"
    using f unfolding table_steps_def Let_def assms(6) [symmetric] sector1_def [symmetric] by (auto split: if_splits)
  then show "fst (f u) = BLOCK_OK \<and> ?ok (snd (f u))"
  proof cases
    case 1 show ?thesis unfolding 1(2) by (rule w) (use ls assms(7) in simp_all)
  next
    case 2 show ?thesis unfolding 2 by (rule w) (use lE assms(7) in simp_all)
  next
    case 3 show ?thesis unfolding 3 by (rule w) (use lh assms(7) pos in simp_all)
  next
    case 4
    have o: "whole_disk content d u" "writable d u" using u by simp_all
    note F = flush_succeeds [OF o]
    show ?thesis using F same_devices_fields(3,4) [OF F(4) dl] u by (simp add: 4)
  next
    case 5 show ?thesis unfolding 5 by (rule w) (use lE bk assms(7) in simp_all)
  next
    case 6 show ?thesis unfolding 6 by (rule w) (use lh fin assms(7) in simp_all)
  qed
qed

section \<open>The whole installation\<close>

text \<open>A whole disk whose driver answers, that may be claimed and written.\<close>

definition installable :: "nat \<Rightarrow> 'hw storage \<Rightarrow> bool" where
  "installable d s \<longleftrightarrow> d < length (st_devices s) \<and> bd_present (the_bdev s d) \<and> bd_parent (the_bdev s d) = 0 \<and> \<not> bd_read_only (the_bdev s d) \<and>
     \<not> bd_claimed_raw (the_bdev s d) \<and> reads_succeed s \<and>
     (\<exists>w. op_write (bd_ops (the_bdev s d)) = Some w \<and> (\<forall>lba n data h. fst (w lba n data h) = BLOCK_OK)) \<and>
     (\<forall>f h. op_flush (bd_ops (the_bdev s d)) = Some f \<longrightarrow> fst (f h) = BLOCK_OK)"

lemma claim_spec:
  assumes "block_claim_raw cap (Some d) s = (BLOCK_OK, s')" "d < length (st_devices s)"
  shows "bd_parent (the_bdev s d) = 0" "the_bdev s' d = (the_bdev s d)\<lparr>bd_claimed_raw := True\<rparr>" "st_hw s' = st_hw s"
    "length (st_devices s') = length (st_devices s)" "\<And>i. i \<noteq> d \<Longrightarrow> the_bdev s' i = the_bdev s i" "st_devices s' = (st_devices s)[d := the_bdev s' d]"
proof -
  let ?s1 = "bcache_invalidate_device (Some d) s"
  have dv: "st_devices ?s1 = st_devices s" "st_hw ?s1 = st_hw s" by simp_all
  then have the1: "the_bdev ?s1 = the_bdev s" by (simp add: the_bdev_def fun_eq_iff)
  have c: "bd_parent (the_bdev s d) = 0" "s' = upd_bdev d (\<lambda>b. b\<lparr>bd_claimed_raw := True\<rparr>) ?s1"
    using assms(1) by (auto simp: block_claim_raw_def split: if_splits)
  show "bd_parent (the_bdev s d) = 0" by (rule c(1))
  show d': "the_bdev s' d = (the_bdev s d)\<lparr>bd_claimed_raw := True\<rparr>" "st_hw s' = st_hw s" "length (st_devices s') = length (st_devices s)"
    "\<And>i. i \<noteq> d \<Longrightarrow> the_bdev s' i = the_bdev s i"
    using assms(2) dv the1 by (simp_all add: c(2) the_bdev_upd_bdev)
  show "st_devices s' = (st_devices s)[d := the_bdev s' d]" using d'(1) dv the1 by (simp add: c(2) upd_bdev_def)
qed

lemma load_table_succeeds:
  assumes "whole_disk content d s" "reads_succeed s" "bd_present (the_bdev s d)" "disk = content (st_hw s) (bd_id (the_bdev s d))" "bs = bd_block_size (the_bdev s d)"
    and "start_table bs disk fresh = (n, z, lba, E)" "S = entry_sectors bs n z" "n \<noteq> 0" "n \<le> 128" "128 \<le> z" "z \<le> bs"
    and "unat lba + unat S \<le> unat (bd_block_count (the_bdev s d))" "2 \<le> unat (bd_block_count (the_bdev s d))" "unat n * unat z = unat S * unat bs"
  shows "\<exists>t counter' s'. load_table clock True True d fresh counter s = (INSTALL_OK, t, counter', s')"
proof (cases fresh)
  case True
  then show ?thesis by (simp add: load_table_def kzalloc_def Let_def split: prod.split)
next
  case False
  then have st: "n = le32 (disk 1) 80" "z = le32 (disk 1) 84" "lba = le64 (disk 1) 72" using assms(6) by (simp_all add: start_table_def)
  have c: "coherent content s" "d < length (st_devices s)" "bd_parent (the_bdev s d) = 0" using assms(1) by (simp_all add: whole_disk_def)
  have l: "unat (1 :: u64) + unat (1 :: u32) \<le> unat (bd_block_count (the_bdev s d))" "length (replicate (unat bs) (0 :: u8)) = unat (1 :: u32) * unat (bd_block_size (the_bdev s d))"
    using assms(5,13) by simp_all
  obtain s1 where r1: "block_read (Some d) 1 1 (Some (replicate (unat bs) 0)) s = (BLOCK_OK, disk 1, s1)"
      and c1: "coherent content s1" "same_devices s s1" "reads_succeed s1"
    by (rule root_read_succeeds [OF c(1) assms(2) c(2,3) assms(3) _ l]) (use assms(4) in \<open>auto simp: sectors_def\<close>)
  note F = same_devices_fields [OF c1(2) c(2)]
  have d1: "d < length (st_devices s1)" using same_devices_length [OF c1(2)] c(2) by simp
  have S0: "S \<noteq> 0" unfolding assms(7) by (rule entry_sectors_pos [OF assms(8-11)])
  have l2: "unat lba + unat S \<le> unat (bd_block_count (the_bdev s1 d))" "length (replicate (unat n * unat z) (0 :: u8)) = unat S * unat (bd_block_size (the_bdev s1 d))"
    using F(3,4) assms(5,12,14) by simp_all
  obtain b s2 where r2: "block_read (Some d) lba S (Some (replicate (unat n * unat z) 0)) s1 = (BLOCK_OK, b, s2)"
    by (rule root_read_succeeds [OF c1(1,3) d1 _ _ S0 l2]) (use F(5,6) c(3) assms(3) in auto)
  have t: "gt_entry_count (table_of_header (disk 1)) = n" "gt_entry_size (table_of_header (disk 1)) = z" "gt_entry_lba (table_of_header (disk 1)) = lba"
    using st by (simp_all add: table_of_header_def)
  have g: "\<not> (n = 0 \<or> n > 128 \<or> z < 128 \<or> z > bs)" using assms(8-11) by (simp add: not_less)
  have moved: "entry_sectors bs n z = S" "entries_bytes (table_of_header (disk 1)) = unat n * unat z" using assms(7) t by (simp_all add: entries_bytes_def)
  show ?thesis using False r1 r2 g t moved assms(14) unfolding load_table_def Let_def assms(5) [symmetric]
    by (simp add: kzalloc_def)
qed

lemma claimed_disk:
  assumes "coherent content s" "d < length (st_devices s)" "block_claim_raw cap (Some d) s = (BLOCK_OK, s1)"
  shows "whole_disk content d s1" "bd_block_size (the_bdev s1 d) = bd_block_size (the_bdev s d)"
    "bd_block_count (the_bdev s1 d) = bd_block_count (the_bdev s d)" "bd_id (the_bdev s1 d) = bd_id (the_bdev s d)" "st_hw s1 = st_hw s"
  using claim_spec [OF assms(3,2)] claim_coherent [OF assms(1), of cap "Some d"] assms by (simp_all add: whole_disk_def)

lemma install_write_gpt_steps:
  assumes "coherent content s" "d < length (st_devices s)"
    and "install_write_gpt clock cap m1 m2 m3 d plan counter s = (v, counter', s')"
  obtains "v \<noteq> INSTALL_OK" "st_hw s' = st_hw s"
    | s1 s2 where "block_claim_raw cap (Some d) s = (BLOCK_OK, s1)" "write_table clock m1 m2 m3 d plan counter s1 = (v, counter', s2)"
      "s' = block_release_raw (Some d) s2"
proof -
  obtain st s1 where cl: "block_claim_raw cap (Some d) s = (st, s1)" by fastforce
  show ?thesis
  proof (cases "pl_verdict plan = INSTALL_OK \<and> st = BLOCK_OK")
    case True
    obtain v2 c2 s2 where w: "write_table clock m1 m2 m3 d plan counter s1 = (v2, c2, s2)" by (metis prod_cases3)
    show ?thesis by (rule that(2) [of s1 s2]) (use True cl w assms(3) in \<open>simp_all add: install_write_gpt_def\<close>)
  next
    case False
    have "st \<noteq> BLOCK_OK \<Longrightarrow> s1 = s" using cl by (auto simp: block_claim_raw_def split: if_splits)
    then show ?thesis using that(1) False cl assms(3) by (auto simp: install_write_gpt_def split: if_splits)
  qed
qed

lemma install_write_succeeds:
  assumes "coherent content s" "installable d s" "pl_verdict plan = INSTALL_OK"
    and "D = the_bdev s d" "disk = content (st_hw s) (bd_id D)" "bs = bd_block_size D"
    and "start_table bs disk (pl_fresh_table plan) = (n, z, lba, E)" "S = entry_sectors bs n z" "n \<noteq> 0" "n \<le> 128" "128 \<le> z" "z \<le> bs"
    and "unat lba + 2 * unat S < unat (bd_block_count D)" "unat n * unat z = unat S * unat bs" "pl_fresh_table plan \<Longrightarrow> 512 \<le> bs"
    and "length (plan_entries plan) \<le> card {i. i < unat n \<and> all_zero E (i * unat z) 16}"
  shows "fst (install_write_gpt clock True True True True d plan counter s) = INSTALL_OK"
proof -
  have d: "d < length (st_devices s)" and ins: "bd_present D" "bd_parent D = 0" "\<not> bd_read_only D" "\<not> bd_claimed_raw D" "reads_succeed s"
    using assms(2,4) by (simp_all add: installable_def)
  have cl0: "fst (block_claim_raw True (Some d) s) = BLOCK_OK" using ins assms(4) by (simp add: block_claim_raw_def)
  then obtain s1 where cl: "block_claim_raw True (Some d) s = (BLOCK_OK, s1)" by (metis fst_conv surj_pair)
  note C = claim_spec [OF cl d] and W = claimed_disk [OF assms(1) d cl]
  have D1: "the_bdev s1 d = D\<lparr>bd_claimed_raw := True\<rparr>" using C(2) assms(4) by simp
  have rs: "reads_succeed s1" unfolding reads_succeed_def
  proof (intro allI impI)
    fix i lba n h assume "i < length (st_devices s1)"
    then show "fst (op_read (bd_ops (the_bdev s1 i)) lba n h) = BLOCK_OK"
      using ins(5) C(4) C(5) [of i] C(2) by (cases "i = d") (simp_all add: reads_succeed_def)
  qed
  have wr: "writable d s1" using assms(2) D1 assms(4) by (auto simp: installable_def writable_def write_refused_def)
  have S0: "0 < unat S" using entry_sectors_pos [OF assms(9-12)] assms(8) by (simp add: unat_gt_0)
  have "\<exists>t c2 s2. load_table clock True True d (pl_fresh_table plan) counter s1 = (INSTALL_OK, t, c2, s2)"
    by (rule load_table_succeeds [OF W(1) rs _ _ _ assms(7,8-12)])
      (use D1 ins(1) W(5) assms(5,6,13,14) S0 in simp_all)
  then obtain t c2 s2 where ld: "load_table clock True True d (pl_fresh_table plan) counter s1 = (INSTALL_OK, t, c2, s2)" by blast
  have dk: "content (st_hw s1) (bd_id (the_bdev s1 d)) = disk" "bd_block_size (the_bdev s1 d) = bs" using W(2,4,5) assms(4-6) by simp_all
  note L = load_table_spec [OF W(1) ld refl refl, unfolded dk]
  have st: "n = gt_entry_count t" "z = gt_entry_size t" "lba = gt_entry_lba t" "E = gt_entries t" using L(2) assms(7) by simp_all
  have L3: "length (gt_disk_guid t) = 16" "length (gt_entries t) = entries_bytes t" using L(3) by simp_all
  have tk: "table_ok t" using L3 assms(11) st(2) by (simp add: table_ok_def word_le_nat_alt)
  have "card (free_slots t) = card {i. i < unat n \<and> all_zero E (i * unat z) 16}" using st by (simp add: free_slots_def)
  then have "fst (add_entries clock (the_bdev s1 d) (plan_entries plan) t c2)"
    using add_entries_succeeds [OF tk plan_types_real [of plan], of clock "the_bdev s1 d" c2] assms(16) by simp
  then obtain t2 c3 where ad: "add_entries clock (the_bdev s1 d) (plan_entries plan) t c2 = (True, t2, c3)" by (metis fst_conv prod_cases3)
  note A = add_entries_spec [OF tk plan_types_real ad]
  have sh: "t2 = t\<lparr>gt_entries := gt_entries t2\<rparr>" using A by blast
  note H = same_shape [OF sh]
  have per: "bs div z \<noteq> 0"
    using assms(11,12) by (auto simp: word_le_nat_alt word_unat_eq_iff unat_div div_eq_0_iff)
  have eb: "entries_bytes t2 = unat n * unat z" using H(1,2) st by (simp add: entries_bytes_def)
  have "128 \<le> unat bs" using assms(11,12) by (simp add: word_le_nat_alt)
  then have fd: "fits_disk bs t2" using A eb assms(8,14) entry_sectors_pos [OF assms(9-12)] L3 H(1,2,6) st unfolding fits_disk_def table_ok_def by simp
  note S2 = whole_disk_step [OF W(1) L(1)]
  have sd: "same_devices s1 s2" using L(1) by (simp add: disk_step_def)
  have d1: "d < length (st_devices s1)" using C(4) d by simp
  define D2 where "D2 = the_bdev s2 d"
  have D2: "bd_block_size D2 = bs" "bd_block_count D2 = bd_block_count D" using S2(2,3) D1 assms(6) by (simp_all add: D2_def)
  have ts: "table_steps d (the_bdev s1 d) (pl_fresh_table plan) t2 = table_steps d D2 (pl_fresh_table plan) t2"
    unfolding table_steps_def D2 dk(2) W(3) assms(4) by (rule refl)
  have b5: "pl_fresh_table plan \<Longrightarrow> 512 \<le> unat bs" using assms(15) by (simp add: word_le_nat_alt)
  have "fst (run_steps (table_steps d D2 (pl_fresh_table plan) t2) s2) = BLOCK_OK"
    by (rule table_steps_succeed [OF S2(1) _ D2_def])
      (use writable_same [OF sd d1] wr fd b5 D2 assms(8,13) H(1,2,5) st in simp_all)
  then obtain s3 where run: "run_steps (table_steps d (the_bdev s1 d) (pl_fresh_table plan) t2) s2 = (BLOCK_OK, s3)" unfolding ts by (metis fst_conv surj_pair)
  have g: "bs div gt_entry_size t2 \<noteq> 0" "\<not> unat (entry_sectors bs (gt_entry_count t2) (gt_entry_size t2)) * unat bs > entries_bytes t2"
    "\<not> (pl_fresh_table plan \<and> bs < 512)" using per H(1,2) st eb assms(8,14,15) by (auto simp: not_less)
  have "fst (write_table clock True True True d plan counter s1) = INSTALL_OK"
    using ld ad run g dk(2) by (simp add: write_table_def Let_def)
  then show ?thesis using assms(3) cl by (simp add: install_write_gpt_def case_prod_beta)
qed

end
