(* ===== verification/Install_Props.thy ===== *)
theory Install_Props
  imports Gpt_Live
begin

text \<open>
  The properties of an installation, each over every reachable state, and a disk on which they are
  seen: 2 to the 23 blocks of 512 bytes in memory with a table whose first entry is in use and
  holds blocks 2048 to 4095.
\<close>

section \<open>A survey that succeeds\<close>

lemma survey_gpt_run:
  assumes "coherent content s" "reads_succeed s" "d < length (st_devices s)" "bd_parent (the_bdev s d) = 0" "bd_present (the_bdev s d)"
    and "disk = content (st_hw s) (bd_id (the_bdev s d))" "bs = bd_block_size (the_bdev s d)" "2 \<le> unat (bd_block_count (the_bdev s d))"
    and "take 8 (disk 1) = [0x45, 0x46, 0x49, 0x20, 0x50, 0x41, 0x52, 0x54]"
    and "n = le32 (disk 1) 80" "stride = le32 (disk 1) 84" "n \<noteq> 0" "n \<le> 128" "128 \<le> stride" "stride \<le> bs"
    and "le64 (disk 1) 40 < le64 (disk 1) 48" "le64 (disk 1) 48 < bd_block_count (the_bdev s d)"
    and "unat (le64 (disk 1) 72) + unat (entry_sectors bs n stride) \<le> unat (bd_block_count (the_bdev s d))"
    and "survey_entries (table_entries bs disk) n stride (blank_survey\<lparr>sv_first_usable := le64 (disk 1) 40, sv_last_usable := le64 (disk 1) 48\<rparr>) = (v, sv)"
  obtains s' where "survey_gpt True True d s = (v, sv, s')" "coherent content s'" "same_devices s s'" "content (st_hw s') = content (st_hw s)"
    "reads_succeed s'"
proof -
  let ?D = "the_bdev s d"
  have l: "unat (1 :: u64) + unat (1 :: u32) \<le> unat (bd_block_count ?D)" "length (replicate (unat bs) (0 :: u8)) = unat (1 :: u32) * unat (bd_block_size ?D)"
    using assms(7,8) by simp_all
  obtain s1 where r1: "block_read (Some d) 1 1 (Some (replicate (unat bs) 0)) s = (BLOCK_OK, sectors (content (st_hw s) (bd_id ?D)) (unat (1 :: u64)) (unat (1 :: u32)), s1)"
      and c1: "coherent content s1" "same_devices s s1" "content (st_hw s1) = content (st_hw s)" "reads_succeed s1"
    by (rule root_read_succeeds [OF assms(1-5) _ l]) simp
  have r1: "block_read (Some d) 1 1 (Some (replicate (unat bs) 0)) s = (BLOCK_OK, disk 1, s1)" using r1 assms(6) by (simp add: sectors_def)
  have d1: "d < length (st_devices s1)" using same_devices_length [OF c1(2)] assms(3) by simp
  note F = same_devices_fields [OF c1(2) assms(3)]
  have nz: "entry_sectors bs n stride \<noteq> 0" by (rule entry_sectors_pos [OF assms(12-15)])
  have l2: "unat (le64 (disk 1) 72) + unat (entry_sectors bs n stride) \<le> unat (bd_block_count (the_bdev s1 d))"
      "length (replicate (unat (entry_sectors bs n stride) * unat bs) (0 :: u8)) = unat (entry_sectors bs n stride) * unat (bd_block_size (the_bdev s1 d))"
    using F(3,4) assms(7,18) by simp_all
  obtain s2 where r2: "block_read (Some d) (le64 (disk 1) 72) (entry_sectors bs n stride) (Some (replicate (unat (entry_sectors bs n stride) * unat bs) 0)) s1
        = (BLOCK_OK, sectors (content (st_hw s1) (bd_id (the_bdev s1 d))) (unat (le64 (disk 1) 72)) (unat (entry_sectors bs n stride)), s2)"
      and c2: "coherent content s2" "same_devices s1 s2" "content (st_hw s2) = content (st_hw s1)" "reads_succeed s2"
    by (rule root_read_succeeds [OF c1(1,4) d1 _ _ nz l2]) (use F assms(4,5) in simp_all)
  have r2: "block_read (Some d) (le64 (disk 1) 72) (entry_sectors bs n stride) (Some (replicate (unat (entry_sectors bs n stride) * unat bs) 0)) s1
        = (BLOCK_OK, table_entries bs disk, s2)"
    using r2 c1(3) F(1) assms(6,10,11) by (simp add: table_entries_def)
  have g: "\<not> (n = 0 \<or> n > MAX_ENTRIES \<or> stride < 128 \<or> stride > bs \<or> le64 (disk 1) 40 \<ge> le64 (disk 1) 48 \<or> le64 (disk 1) 48 \<ge> bd_block_count ?D)"
    using assms(12-17) by (simp add: MAX_ENTRIES_def not_le not_less)
  have "survey_gpt True True d s = (v, sv, s2)"
    using r1 r2 g assms(9,19) unfolding assms(7,10,11)
    by (simp add: survey_gpt_def kzalloc_def Let_def)
  then show ?thesis using that [of s2] c1 c2 same_devices_trans [OF c1(2) c2(2)] by simp
qed

section \<open>A disk with a table\<close>

text \<open>The array, a header for \<open>n\<close> entries that claims to be block \<open>my\<close>, and the disk with both, noted to
  have a table of the kind \<open>sch\<close>.\<close>

definition demo_array :: "u8 list" where
  "demo_array = fill_entry_at 0 type_reconos (replicate 16 9) 2048 2048 ''data'' (replicate 1024 0)"

definition demo_table :: "u32 \<Rightarrow> gpt_table" where
  "demo_table n = \<lparr>gt_entry_count = n, gt_entry_size = 128, gt_first_usable = 34, gt_last_usable = 8388574, gt_entry_lba = 2,
     gt_disk_guid = replicate 16 7, gt_entries = demo_array\<rparr>"

definition demo_header :: "u32 \<Rightarrow> u64 \<Rightarrow> u8 list" where
  "demo_header n my = build_header (replicate 512 0) (demo_table n) my 8388607 2 (crc32 demo_array)"

definition demo_memory :: "u32 \<Rightarrow> u64 \<Rightarrow> mem" where
  "demo_memory n my = store (store (\<lambda>_. 0) 512 (demo_header n my)) 1024 demo_array"

definition demo_gpt :: "u32 \<Rightarrow> u64 \<Rightarrow> block_scheme \<Rightarrow> mem storage" where
  "demo_gpt n my sch = upd_bdev 0 (describe False False False False False 0 0 sch)
     (snd (block_register ''ram0'' (ram_ops 512) 512 8388608 (storage_start demo_pages (demo_memory n my))))"

lemma demo_gpt_reached: "storage_reached (ram_content 512) (demo_gpt n my sch)"
  unfolding demo_gpt_def
  by (intro storage_reached.Describe storage_reached.Register storage_reached.Start) (simp add: storage_start_def, rule ram_honest, simp)

lemma demo_gpt_devices:
  "st_devices (demo_gpt n my sch) = [(fresh_bdev ''ram0'' (ram_ops 512) 512 8388608 1)\<lparr>bd_scheme := sch\<rparr>]"
  "st_hw (demo_gpt n my sch) = demo_memory n my" "st_next_id (demo_gpt n my sch) = 2"
  by (simp_all add: demo_gpt_def block_register_def storage_start_def BLOCK_MAX_DEVICES_def upd_bdev_def the_bdev_def describe_def fresh_bdev_def)

lemma demo_gpt_bdev:
  "the_bdev (demo_gpt n my sch) 0 = (fresh_bdev ''ram0'' (ram_ops 512) 512 8388608 1)\<lparr>bd_scheme := sch\<rparr>"
  "length (st_devices (demo_gpt n my sch)) = 1"
  by (simp_all add: the_bdev_def demo_gpt_devices)

lemma demo_fields [simp]:
  "bd_block_size (the_bdev (demo_gpt n my sch) 0) = 512" "bd_block_count (the_bdev (demo_gpt n my sch) 0) = 8388608"
  "bd_id (the_bdev (demo_gpt n my sch) 0) = 1" "bd_parent (the_bdev (demo_gpt n my sch) 0) = 0"
  "bd_present (the_bdev (demo_gpt n my sch) 0)" "bd_scheme (the_bdev (demo_gpt n my sch) 0) = sch"
  "st_devices (demo_gpt n my sch) \<noteq> []"
  by (simp_all add: demo_gpt_bdev fresh_bdev_def demo_gpt_devices)

lemma demo_installable: "installable 0 (demo_gpt n my sch)" "reads_succeed (demo_gpt n my sch)"
  by (simp_all add: installable_def reads_succeed_def demo_gpt_bdev fresh_bdev_def ram_ops_def)

lemma demo_coherent: "coherent (ram_content 512) (demo_gpt n my sch)" "whole_disk (ram_content 512) 0 (demo_gpt n my sch)"
  "readable (ram_content 512) 0 (demo_gpt n my sch)"
  using reached_coherent [OF demo_gpt_reached, of n my sch] demo_installable(2) by (simp_all add: whole_disk_def readable_def PAGE_SIZE_def)

lemma type_reconos_16: "length type_reconos = 16"
  by (simp add: type_reconos_def)

lemma demo_entry_fits: "0 + 128 \<le> length (replicate 1024 (0 :: u8))" "length (replicate 16 (9 :: u8)) = 16"
  by simp_all

lemma length_demo_array: "length demo_array = 1024"
  using length_fill_entry [OF demo_entry_fits(1) type_reconos_16 demo_entry_fits(2)] by (simp add: demo_array_def)

lemmas demo_entry = fill_entry_fields [OF demo_entry_fits(1) type_reconos_16 demo_entry_fits(2) demo_array_def]

lemma demo_array_used: "le64 demo_array 32 = 2048" "le64 demo_array 40 = 4095" "\<not> all_zero demo_array 0 16" "slice_of 0 16 demo_array = type_reconos"
  using demo_entry(1-3) by (simp_all add: all_zero_slice type_reconos_def)

lemma demo_array_free: "0 < i \<Longrightarrow> i < 8 \<Longrightarrow> all_zero demo_array (i * 128) 16"
  using demo_entry(5) length_demo_array by (simp add: all_zero_def list_all_length slice_of_nth)

lemma length_demo_header: "length (demo_header n my) = 512"
  by (simp add: demo_header_def length_build_header demo_table_def)

lemma demo_sectors:
  "ram_content 512 (demo_memory n my) 1 (Suc 0) = demo_header n my" "sectors (ram_content 512 (demo_memory n my) 1) 2 2 = demo_array"
proof -
  have "bytes_at (demo_memory n my) 512 512 = bytes_at (store (\<lambda>_. 0) 512 (demo_header n my)) 512 512"
    unfolding demo_memory_def by (rule bytes_at_store_other) simp
  also have "\<dots> = demo_header n my" using bytes_at_store [of "\<lambda>_. 0" 512 "demo_header n my"] by (simp add: length_demo_header)
  finally show "ram_content 512 (demo_memory n my) 1 (Suc 0) = demo_header n my" by (simp add: ram_content_def)
  have "sectors (ram_content 512 (demo_memory n my) 1) 2 2 = bytes_at (demo_memory n my) (2 * 512) (2 * 512)"
    unfolding ram_content_def [abs_def] by (simp only: simp_thms if_True sectors_bytes_at)
  also have "\<dots> = demo_array"
    using bytes_at_store [of "store (\<lambda>_. 0) 512 (demo_header n my)" 1024 demo_array] by (simp add: length_demo_array demo_memory_def)
  finally show "sectors (ram_content 512 (demo_memory n my) 1) 2 2 = demo_array" .
qed

lemma header_bounds:
  assumes "92 \<le> length sector" "length (gt_disk_guid t) = 16" "h = build_header sector t my alt el crc"
  shows "le64 h 40 = gt_first_usable t" "le64 h 48 = gt_last_usable t" "take 8 h = [0x45, 0x46, 0x49, 0x20, 0x50, 0x41, 0x52, 0x54]"
proof -
  let ?e = "[0x45, 0x46, 0x49, 0x20, 0x50, 0x41, 0x52, 0x54] :: u8 list"
  note PL = put_length [where n = "length sector"] and PG = put_get [where n = "length sector"]
  show "le64 h 40 = gt_first_usable t" "le64 h 48 = gt_last_usable t"
    using assms(1,2) by (simp_all add: assms(3) build_header_def Let_def PL PG)
  have t32: "take 8 (put32 at v p) = take 8 p" if "8 \<le> at" "at \<le> length p" for at v p
    using that by (simp add: put32_def take_overlay_after)
  have t64: "take 8 (put64 at v p) = take 8 p" if "8 \<le> at" "at + 8 \<le> length p" for at v p
    using that by (simp add: put64_def t32 length_put32)
  show "take 8 h = ?e"
    using assms(1,2) by (simp add: assms(3) build_header_def Let_def PL t32 t64 take_overlay_after) (simp add: overlay_def)
qed

lemma demo_header_fields:
  "le32 (demo_header n my) 80 = n" "le32 (demo_header n my) 84 = 128" "le64 (demo_header n my) 72 = 2" "le64 (demo_header n my) 24 = my"
  "le64 (demo_header n my) 40 = 34" "le64 (demo_header n my) 48 = 8388574"
  "take 8 (demo_header n my) = [0x45, 0x46, 0x49, 0x20, 0x50, 0x41, 0x52, 0x54]" "le32 (demo_header n my) 88 = crc32 demo_array"
  using header_fields [of "replicate 512 0" "demo_table n" "demo_header n my" my 8388607 2 "crc32 demo_array"]
    header_bounds [of "replicate 512 0" "demo_table n" "demo_header n my" my 8388607 2 "crc32 demo_array"]
  by (simp_all add: demo_header_def demo_table_def)

lemma demo_start:
  "start_table 512 (ram_content 512 (demo_memory 8 my) 1) False = (8, 128, 2, demo_array)" "entry_sectors 512 8 128 = 2"
  "table_entries 512 (ram_content 512 (demo_memory 8 my) 1) = demo_array"
proof -
  show e: "entry_sectors 512 8 128 = 2" by (simp add: entry_sectors_def)
  show t: "table_entries 512 (ram_content 512 (demo_memory 8 my) 1) = demo_array"
    by (simp add: table_entries_def demo_sectors demo_header_fields e)
  show "start_table 512 (ram_content 512 (demo_memory 8 my) 1) False = (8, 128, 2, demo_array)"
    by (simp add: start_table_def t demo_sectors demo_header_fields)
qed

lemma demo_free_slots: "card {i. i < 8 \<and> all_zero demo_array (i * 128) 16} = 7"
proof -
  have "{i. i < 8 \<and> all_zero demo_array (i * 128) 16} = {1..<8}"
  proof (rule set_eqI)
    fix i
    show "i \<in> {i. i < 8 \<and> all_zero demo_array (i * 128) 16} \<longleftrightarrow> i \<in> {1..<8}"
      using demo_array_free [of i] demo_array_used(3) by (cases "i = 0") auto
  qed
  then show ?thesis by simp
qed

end
