(* ===== verification/Storage_Race.thy ===== *)
theory Storage_Race
  imports Storage_Props
begin

text \<open>
  A raw write drops the cached units of its range before the transfer and not again after it. The
  code lets go of the cache's lock in between, so a read of another thread may run there; the two
  parts of \<^verbatim>\<open>block_write\<close> are separate definitions, and here a cached read runs between them.
\<close>

lemma hit_read:
  assumes "bc_ready (st_cache s)" "cacheable (the_bdev s d) = Some bpu" "block_resolve s (Some d) lba 1 = Inr (rid, rgen, ab)"
    and "k = \<lparr>k_root_id = rid, k_root_generation = rgen, k_abs_lba = ab, k_blocks_per_unit = bpu\<rparr>"
    and "t = turn_at k (bd_block_size (the_bdev s d)) lba 1 0" "t_n t = 1"
    and "find_unit k (t_unit t) (st_cache s) = Some i" "en_state (bc_entries (st_cache s) ! i) = ENTRY_VALID"
  shows "\<exists>s'. bcache_read (Some d) lba 1 (Some buf) s
      = (BLOCK_OK, copy_out (en_data (bc_entries (st_cache s) ! i)) (bd_block_size (the_bdev s d)) t buf, s')"
proof -
  let ?bs = "bd_block_size (the_bdev s d)"
  let ?b = "copy_out (en_data (bc_entries (st_cache s) ! i)) ?bs t buf"
  obtain s1 where turn: "bcache_read_turn d k ?bs t 0 buf s = (BLOCK_OK, ?b, 0, s1)"
    using assms(7,8) by (simp add: bcache_read_turn_def Let_def)
  have "bcache_read_loop d k ?bs lba 1 0 0 buf s = bcache_read_loop d k ?bs lba 1 1 0 ?b s1"
    using turn assms(5,6) by (subst bcache_read_loop.simps) (simp add: Let_def)
  also have "\<dots> = (BLOCK_OK, ?b, 0, s1)" by (subst bcache_read_loop.simps) simp
  finally show ?thesis using assms(1-4) by (simp add: bcache_read_def give_back_def)
qed

lemma one_block_turn:
  assumes "0 < unat (k_blocks_per_unit k)"
  shows "t_n (turn_at k bs lba 1 0) = 1"
proof -
  have "unat (k_abs_lba k) mod unat (k_blocks_per_unit k) < unat (k_blocks_per_unit k)" using assms by simp
  have "\<not> k_blocks_per_unit k - ucast (k_abs_lba k mod ucast (k_blocks_per_unit k)) = 0"
  proof
    assume "k_blocks_per_unit k - ucast (k_abs_lba k mod ucast (k_blocks_per_unit k)) = 0"
    then have "unat (ucast (k_abs_lba k mod ucast (k_blocks_per_unit k)) :: u32) = unat (k_blocks_per_unit k)" by simp
    moreover have "unat (ucast (k_abs_lba k mod ucast (k_blocks_per_unit k)) :: u32) \<le> unat (k_abs_lba k mod ucast (k_blocks_per_unit k))"
      by (simp add: unat_ucast_mod)
    ultimately show False using assms by (simp add: unat_mod) (meson assms linorder_not_le mod_less_divisor)
  qed
  then show ?thesis by (auto simp: turn_at_def Let_def not_less word_less_nat_alt word_le_nat_alt word_unat_eq_iff)
qed

text \<open>C24: if a cached read runs between the invalidation of a raw write and its transfer, and the
  unit is in the cache afterwards, then after the write has succeeded the disk holds what was
  written and a read through the cache still gives what was there before.\<close>

theorem raw_write_race_leaves_stale:
  assumes "storage_reached content s" "fits s d 1 data" "fits s d 1 buf" "bc_ready (st_cache s)" "cacheable (the_bdev s d) = Some bpu"
    and "block_resolve s (Some d) lba 1 = Inr (rid, rgen, ab)"
    and "bcache_read (Some d) lba 1 (Some buf) (bcache_invalidate (Some d) lba 1 s) = (BLOCK_OK, old, s2)"
    and "k = \<lparr>k_root_id = rid, k_root_generation = rgen, k_abs_lba = ab, k_blocks_per_unit = bpu\<rparr>"
    and "find_unit k (t_unit (turn_at k (bd_block_size (the_bdev s d)) lba 1 0)) (st_cache s2) \<noteq> None"
    and "write_transfer (Some d) lba 1 data s2 = (BLOCK_OK, s3)"
  shows "sectors (content (st_hw s3) rid) (unat ab) 1 = data \<and> (\<exists>s4. bcache_read (Some d) lba 1 (Some buf) s3 = (BLOCK_OK, old, s4))"
proof -
  let ?s1 = "bcache_invalidate (Some d) lba 1 s" and ?t = "turn_at k (bd_block_size (the_bdev s d)) lba 1 0"
  have co: "coherent content s" by (rule reached_coherent [OF assms(1)])
  have co1: "coherent content ?s1" by (rule invalidate_coherent [OF co])
  have sd1: "same_devices s ?s1" by (rule same_devices_eq) simp_all
  have dl: "d < length (st_devices s)" and ld: "length data = unat (1 :: u32) * unat (bd_block_size (the_bdev s d))"
    and lb: "length buf = unat (1 :: u32) * unat (bd_block_size (the_bdev s d))" using assms(2,3) by (simp_all add: fits_def)
  have dl1: "d < length (st_devices ?s1)" and lb1: "length buf = unat (1 :: u32) * unat (bd_block_size (the_bdev ?s1 d))"
    using dl lb by (simp_all add: the_bdev_def)
  note A = bcache_read_spec [OF co1 dl1 lb1 assms(7)]
  note sd2 = same_devices_trans [OF sd1 A(1)]
  note F2 = same_devices_fields [OF sd2 dl]
  have dl2: "d < length (st_devices s2)" using dl same_devices_length [OF sd2] by simp
  have rs2: "block_resolve s2 (Some d) lba 1 = Inr (rid, rgen, ab)"
    using same_devices_resolve [OF sd2 coherentD(1) [OF co] dl] assms(6) by simp
  have ld2: "length data = unat (1 :: u32) * unat (bd_block_size (the_bdev s2 d))" using ld F2 by simp
  note W = write_transfer_spec [OF coherentD(1,2) [OF A(2)] dl2 _ ld2 rs2 assms(10)]
  have sd3: "same_devices s2 s3" and c3: "st_cache s3 = st_cache s2" using W(1,2) by simp_all
  have rs3: "block_resolve s3 (Some d) lba 1 = Inr (rid, rgen, ab)"
    using same_devices_resolve [OF sd3 coherentD(1) [OF A(2)] dl2] rs2 by simp
  obtain i where i: "find_unit k (t_unit ?t) (st_cache s2) = Some i" using assms(9) by blast
  note E = find_unit_Some [OF i coherentD(3) [OF A(2)]]
  have bs2: "bd_block_size (the_bdev s2 d) = bd_block_size (the_bdev s d)" by (rule F2)
  have bs3: "bd_block_size (the_bdev s3 d) = bd_block_size (the_bdev s d)" using same_devices_fields(3) [OF sd3 dl2] bs2 by simp
  have cb: "cacheable (the_bdev s2 d) = Some bpu" "cacheable (the_bdev s3 d) = Some bpu"
    using assms(5) cacheable_cong [OF bs2] cacheable_cong [OF bs3] by simp_all
  have tn: "t_n ?t = 1" using cacheable_unit(2) [OF assms(5)] assms(8) by (intro one_block_turn) simp
  let ?b = "copy_out (en_data (bc_entries (st_cache s2) ! i)) (bd_block_size (the_bdev s d)) ?t buf"
  obtain s5 where r2: "bcache_read (Some d) lba 1 (Some buf) s2 = (BLOCK_OK, ?b, s5)"
    using hit_read [OF E(5) cb(1) rs2 assms(8) refl, of i buf] tn i E(2) bs2 by auto
  have r3: "\<exists>s4. bcache_read (Some d) lba 1 (Some buf) s3 = (BLOCK_OK, ?b, s4)"
    using hit_read [OF _ cb(2) rs3 assms(8) refl, of i buf] tn i E(2,5) bs3 c3 by simp
  have "length buf = unat (1 :: u32) * unat (bd_block_size (the_bdev s2 d))" using lb F2 by simp
  from bcache_read_spec(5) [OF A(2) dl2 this r2 refl] rs2
  have "?b = sectors (content (st_hw s2) rid) (unat ab) 1" by simp
  moreover have "old = sectors (content (st_hw ?s1) rid) (unat ab) 1"
    using A(5) same_devices_resolve [OF sd1 coherentD(1) [OF co] dl] assms(6) by simp
  ultimately have "?b = old" using A(3) by simp
  then show ?thesis using r3 W(4) by simp
qed

text \<open>The same on the disk in memory: its cache is empty, the read in between fills the unit of
  block 9 into the one page there is.\<close>

lemma demo_disk_bdev: "the_bdev demo_disk 0 = fresh_bdev ''ram0'' (ram_ops 512) 512 64 1" "length (st_devices demo_disk) = 1"
  by (simp_all add: the_bdev_def demo_disk_devices)

lemma demo_disk_cache: "st_cache demo_disk = blank_cache\<lparr>bc_ready := True\<rparr>" "st_pages demo_disk = demo_pages"
  by (simp_all add: demo_disk_def bcache_init_def upd_cache_def block_register_def storage_start_def BLOCK_MAX_DEVICES_def
      blank_cache_def blank_entry_def)

lemma demo_disk_by_id: "block_device_by_id 1 1 demo_disk = Some 0"
  by (simp add: block_device_by_id_def demo_disk_devices fresh_bdev_def)

lemma demo_disk_cacheable: "cacheable (the_bdev demo_disk 0) = Some 8"
  by (simp add: cacheable_def demo_disk_bdev fresh_bdev_def PAGE_SIZE_def)

lemma demo_disk_resolve: "block_resolve demo_disk (Some 0) 9 1 = Inr (1, 1, 9)"
  by (simp add: block_resolve_def check_range_def to_root_root demo_disk_bdev fresh_bdev_def)

definition demo_key :: key where
  "demo_key = \<lparr>k_root_id = 1, k_root_generation = 1, k_abs_lba = 9, k_blocks_per_unit = 8\<rparr>"

lemma demo_key_simps [simp]:
  "k_root_id demo_key = 1" "k_root_generation demo_key = 1" "k_abs_lba demo_key = 9" "k_blocks_per_unit demo_key = 8"
  by (simp_all add: demo_key_def)

lemma demo_turn: "turn_at demo_key 512 9 1 0 = \<lparr>t_unit = 1, t_within = 1, t_n = 1, t_lba = 9, t_at = 0\<rparr>"
  by (simp add: turn_at_def)

lemma demo_alloc: "fst (pmm_alloc_page demo_pages) = 4096"
  by (simp add: pmm_alloc_page_def pmm_alloc_pages_def demo_pages_def bit_test_def bit_set_def page_addr_def clear_pages_def Let_def numeral_2_eq_2)

abbreviation ready_cache :: bcache where
  "ready_cache \<equiv> blank_cache\<lparr>bc_ready := True\<rparr>"

lemma blank_entries: "bc_entries blank_cache = blank_entry # replicate 63 blank_entry"
  by (simp add: blank_cache_def BCACHE_UNITS_def flip: replicate_Suc)

lemma blank_find: "find_unit k u ready_cache = None"
  by (simp add: find_unit_def blank_entries blank_entry_def first_slot_None)

lemma blank_victim: "victim ready_cache = (Some 0, ready_cache\<lparr>bc_hand := 1\<rparr>)"
proof -
  have "BCACHE_UNITS * 2 = Suc 127" by (simp add: BCACHE_UNITS_def)
  then show ?thesis
    unfolding victim_def by (simp only: victim_turn.simps) (simp add: blank_entries blank_entry_def Let_def, simp add: blank_cache_def BCACHE_UNITS_def)
qed

lemma demo_fill:
  obtains out s2 where "bcache_read (Some 0) 9 1 (Some buf) demo_disk = (BLOCK_OK, out, s2)" "find_unit demo_key 1 (st_cache s2) \<noteq> None"
proof -
  let ?t = "\<lparr>t_unit = 1, t_within = 1, t_n = 1, t_lba = 9, t_at = 0\<rparr> :: turn"
  obtain p where p: "pmm_alloc_page demo_pages = (4096, p)" using demo_alloc by (metis prod.collapse)
  let ?s1 = "demo_disk\<lparr>st_pages := p\<rparr>"
  let ?c2 = "upd_entry 0 (claim_entry demo_key 1 ENTRY_LOADING) (count_up bc_misses_update (give_page 0 4096 (ready_cache\<lparr>bc_hand := Suc 0\<rparr>)))"
  let ?s2 = "?s1\<lparr>st_cache := ?c2\<rparr>"
  have dev: "the_bdev ?s2 = the_bdev demo_disk" "st_devices ?s2 = st_devices demo_disk" by (simp_all add: the_bdev_def fun_eq_iff)
  have co: "coherent (ram_content 512) demo_disk" by (rule reached_coherent [OF demo_disk_reached])
  have same: "same_devices demo_disk ?s2" by (rule same_devices_eq) simp_all
  have dat: "en_data (bc_entries ?c2 ! 0) = replicate PAGE_SIZE 0"
    by (simp add: upd_entry_def count_up_def give_page_def claim_entry_def blank_entries blank_entry_def)
  have "fst (block_read (Some 0) 8 8 (Some (en_data (bc_entries ?c2 ! 0))) ?s2) = BLOCK_OK"
  proof (rule block_read_succeeds)
    show "reads_succeed ?s2"
      unfolding reads_succeed_same [OF same]
      by (simp add: reads_succeed_def demo_disk_bdev) (simp add: fresh_bdev_def ram_ops_def)
    show "registry_ok ?s2" by (rule same_devices_registry [OF same coherentD(1) [OF co]])
    show "to_root ?s2 0 8 = Some (0, 8)" by (rule to_root_root) (simp add: dev demo_disk_bdev fresh_bdev_def)
  qed (simp_all add: check_range_def dev demo_disk_bdev fresh_bdev_def)
  then obtain pg s3 where rd: "block_read (Some 0) 8 8 (Some (en_data (bc_entries ?c2 ! 0))) ?s2 = (BLOCK_OK, pg, s3)"
    by (metis prod.collapse)
  have c3: "st_cache s3 = ?c2"
    using block_read_spec(2) [OF same_devices_registry [OF same coherentD(1) [OF co]] same_devices_honest [OF same coherentD(2) [OF co]] _ _ rd]
    by (simp add: dev demo_disk_bdev dat) (simp add: fresh_bdev_def PAGE_SIZE_def)
  have fe: "fill_entry demo_key 512 ?t 0 0 buf ?s2 = (BLOCK_OK, copy_out pg 512 ?t buf, upd_cache (end_fill 0 BLOCK_OK pg) s3)"
    using rd by (simp add: fill_entry_def)
  have turn: "bcache_read_turn 0 demo_key 512 ?t 0 buf demo_disk = (BLOCK_OK, copy_out pg 512 ?t buf, 0, upd_cache (end_fill 0 BLOCK_OK pg) s3)"
  proof -
    have cf: "claim_and_fill 0 demo_key 512 ?t 0 4096 buf ?s1 = (BLOCK_OK, copy_out pg 512 ?t buf, 0, upd_cache (end_fill 0 BLOCK_OK pg) s3)"
      using fe by (simp add: claim_and_fill_def demo_disk_cache blank_victim) (simp add: blank_entries blank_entry_def)
    have fit: "unit_fits demo_key 1 demo_disk"
      by (simp add: unit_fits_def demo_disk_by_id demo_disk_bdev fresh_bdev_def)
    show ?thesis
      using cf fit p
      by (simp add: bcache_read_turn_def demo_disk_cache blank_find demo_disk_by_id Let_def) (simp add: blank_cache_def BCACHE_UNITS_def demo_disk_cache)
  qed
  have tn: "turn_at demo_key 512 9 1 0 = ?t" by (rule demo_turn)
  have lp: "bcache_read_loop 0 demo_key 512 9 1 0 0 buf demo_disk = (BLOCK_OK, copy_out pg 512 ?t buf, 0, upd_cache (end_fill 0 BLOCK_OK pg) s3)"
    by (subst bcache_read_loop.simps) (simp add: tn turn Let_def bcache_read_loop.simps)
  have "bcache_read (Some 0) 9 1 (Some buf) demo_disk = (BLOCK_OK, copy_out pg 512 ?t buf, upd_cache (end_fill 0 BLOCK_OK pg) s3)"
    using lp by (simp add: bcache_read_def demo_disk_cache demo_disk_cacheable demo_disk_resolve give_back_def)
      (simp add: demo_key_def demo_disk_bdev fresh_bdev_def)
  moreover have "find_unit demo_key 1 (st_cache (upd_cache (end_fill 0 BLOCK_OK pg) s3)) \<noteq> None"
    unfolding find_unit_def first_slot_None
    by (simp add: c3 end_fill_def Let_def upd_entry_def count_up_def give_page_def claim_entry_def blank_entries same_unit_def)
  ultimately show ?thesis by (rule that)
qed

lemma demo_invalidate: "bcache_invalidate (Some 0) 9 1 demo_disk = demo_disk"
proof -
  have "invalidate_entries hit ready_cache = ready_cache" for hit
    by (simp add: invalidate_entries_def blank_entries) (simp add: blank_entry_def blank_cache_def BCACHE_UNITS_def flip: replicate_Suc)
  then show ?thesis
    by (simp add: bcache_invalidate_def demo_disk_cache demo_disk_cacheable demo_disk_resolve Let_def upd_cache_def flip: demo_disk_cache(1))
qed

theorem raw_write_race_leaves_stale_witness:
  "\<exists>old s2 s3 s4. bcache_read (Some 0) 9 1 (Some (replicate 512 0)) (bcache_invalidate (Some 0) 9 1 demo_disk) = (BLOCK_OK, old, s2) \<and>
     write_transfer (Some 0) 9 1 (replicate 512 9) s2 = (BLOCK_OK, s3) \<and>
     sectors (ram_content 512 (st_hw s3) 1) 9 1 = replicate 512 9 \<and>
     bcache_read (Some 0) 9 1 (Some (replicate 512 0)) s3 = (BLOCK_OK, old, s4) \<and> old = replicate 512 7"
proof -
  have fit: "fits demo_disk 0 1 (replicate 512 v)" for v by (simp add: fits_def demo_disk_bdev fresh_bdev_def)
  have co: "coherent (ram_content 512) demo_disk" by (rule reached_coherent [OF demo_disk_reached])
  have bs: "bd_block_size (the_bdev demo_disk 0) = 512" by (simp add: demo_disk_bdev fresh_bdev_def)
  have cr: "bc_ready (st_cache demo_disk)" by (simp add: demo_disk_cache)
  obtain old s2 where r: "bcache_read (Some 0) 9 1 (Some (replicate 512 0)) demo_disk = (BLOCK_OK, old, s2)"
    and h: "find_unit demo_key 1 (st_cache s2) \<noteq> None" by (rule demo_fill)
  have dl: "0 < length (st_devices demo_disk)" "length (replicate 512 (0 :: u8)) = unat (1 :: u32) * unat (bd_block_size (the_bdev demo_disk 0))"
    by (simp_all add: demo_disk_bdev fresh_bdev_def)
  note R = bcache_read_spec [OF co dl r]
  have old: "old = replicate 512 7"
    using R(5) demo_disk_resolve by (simp add: sectors_def ram_content_def demo_disk_def bcache_init_def upd_cache_def block_register_def
        storage_start_def BLOCK_MAX_DEVICES_def bytes_at_def map_replicate_const)
  let ?r = "\<lparr>rq_tag = 0, rq_lba = 9, rq_count = 1, rq_buf = replicate 512 9, rq_write = True\<rparr>"
  note F = same_devices_fields [OF R(1) dl(1)]
  have l2: "0 < length (st_devices s2)" using dl(1) same_devices_length [OF R(1)] by simp
  have q2: "bd_queue (the_bdev s2 0) = []" using F by (simp add: demo_disk_bdev fresh_bdev_def)
  obtain s0 where s0: "submit 0 ?r s2 = issue 0 ?r s0"
    "st_devices s0 = (st_devices s2)[0 := (the_bdev s2 0)\<lparr>bd_queued := bd_queued (the_bdev s2 0) + 1\<rparr>]"
    using submit_alone [OF l2 q2, of ?r] by blast
  have "bd_ops (the_bdev s0 0) = ram_ops 512" using s0(2) l2 F by (simp add: the_bdev_def nth_list_update demo_disk_bdev [unfolded the_bdev_def]) (simp add: fresh_bdev_def)
  then have "fst (issue 0 ?r s0) = BLOCK_OK"
    unfolding issue_def block_request.simps by (intro issue_write_succeeds [where w = "\<lambda>lba n data h. (BLOCK_OK, store h (unat lba * 512) (take (unat n * 512) data))"])
      (simp_all add: ram_ops_def)
  moreover have "to_root s2 0 9 = Some (0, 9)" by (rule to_root_root) (use F in \<open>simp add: demo_disk_bdev fresh_bdev_def\<close>)
  ultimately have "fst (write_transfer (Some 0) 9 1 (replicate 512 9) s2) = BLOCK_OK"
    using s0(1) by (simp add: write_transfer_def case_prod_beta)
  then obtain s3 where w: "write_transfer (Some 0) 9 1 (replicate 512 9) s2 = (BLOCK_OK, s3)" by (metis prod.collapse)
  have h': "find_unit demo_key (t_unit (turn_at demo_key (bd_block_size (the_bdev demo_disk 0)) 9 1 0)) (st_cache s2) \<noteq> None"
    using h by (simp add: bs demo_turn)
  from raw_write_race_leaves_stale [OF demo_disk_reached fit fit cr demo_disk_cacheable demo_disk_resolve _ demo_key_def h' w] r
  show ?thesis using w old by (simp add: demo_invalidate)
qed

end
