(* ===== verification/Installer.thy ===== *)
theory Installer
  imports Install_Props Storage_Race
begin

text \<open>
  The properties of planning and of writing the table, over every reachable state of the storage
  stack, with an installation on the disk of theory Install_Props as their instance.
\<close>

section \<open>A plan on the disk\<close>

definition demo_plan :: plan_record where
  "demo_plan = \<lparr>pl_verdict = INSTALL_OK, pl_fresh_table = False, pl_reuse_esp = False, pl_reuse_esp_index = 0,
     pl_reuse_esp_free_blocks = 0, pl_esp = (4096, 524288), pl_system = (530432, 4194304), pl_programs = (4724736, 3661824),
     pl_bios_boot = (528384, 2048), pl_untouched_slices = 1, pl_untouched_blocks = 2048\<rparr>"

lemma demo_free_at:
  "all_zero demo_array 128 16" "all_zero demo_array 256 16" "all_zero demo_array 384 16" "all_zero demo_array 512 16"
  "all_zero demo_array 640 16" "all_zero demo_array 768 16" "all_zero demo_array 896 16"
  using demo_array_free [of 1] demo_array_free [of 2] demo_array_free [of 3] demo_array_free [of 4] demo_array_free [of 5]
    demo_array_free [of 6] demo_array_free [of 7] by simp_all

definition demo_survey :: survey where
  "demo_survey = blank_survey\<lparr>sv_first_usable := 34, sv_last_usable := 8388574, sv_gaps := [(34, 2014), (4096, 8384479)],
     sv_used := 1, sv_used_blocks := 2048\<rparr>"

lemma demo_collect:
  "collect_used demo_array 128 [0..<8] (blank_survey\<lparr>sv_first_usable := 34, sv_last_usable := 8388574\<rparr>) []
     = Some (blank_survey\<lparr>sv_first_usable := 34, sv_last_usable := 8388574, sv_used_blocks := 2048\<rparr>, [(2048, 2048)])"
proof -
  have "[0..<8] = [0, 1, 2, 3, 4, 5, 6, 7 :: nat]" by (simp add: upt_rec)
  then show ?thesis
    by (simp add: Let_def demo_array_used demo_free_at note_esp_def esp_type_def type_reconos_def blank_survey_def)
qed

lemma demo_survey_entries:
  "survey_entries demo_array 8 128 (blank_survey\<lparr>sv_first_usable := 34, sv_last_usable := 8388574\<rparr>) = (INSTALL_OK, demo_survey)"
  proof -
  have "unat (8 :: u32) = 8" "unat (128 :: u32) = 128" by simp_all
  then show ?thesis
    unfolding survey_entries_def demo_survey_def by (simp only: demo_collect) (simp add: sort_used_def place_used_def Let_def blank_survey_def)
qed

lemma demo_place_all:
  assumes "bd_present (the_bdev s 0)" "bd_parent (the_bdev s 0) = 0" "bd_block_count (the_bdev s 0) = 8388608"
  shows "place_all s 0 [(34, 2014), (4096, 8384479)] (blank_plan\<lparr>pl_untouched_slices := 1, pl_untouched_blocks := 2048\<rparr>) = demo_plan"
proof -
  have t: "take_esp [(34, 2014), (4096, 8384479)] = Some ((4096, 524288), [(34, 2014), (528384, 7860191)])"
    by (simp add: aligned_fit_def Let_def INSTALL_ALIGN_BLOCKS_def INSTALL_ESP_CREATE_def)
  have b: "best_gap [(34, 2014), (528384, 7860191)] = (528384, 7858176)"
    by (simp add: best_gap_def better_gap_def aligned_fit_def Let_def INSTALL_ALIGN_BLOCKS_def INSTALL_SYSTEM_MIN_def INSTALL_PROGRAMS_MIN_def)
  have r: "split_rest 530432 7856128 = ((530432, 4194304), (4724736, 3661824))"
    by (simp add: split_rest_def Let_def INSTALL_ALIGN_BLOCKS_def INSTALL_SYSTEM_MIN_def INSTALL_PROGRAMS_MIN_def INSTALL_SYSTEM_SHARE_def INSTALL_SYSTEM_CAP_def)
  have p: "with_rest 530432 7856128 (blank_plan\<lparr>pl_untouched_slices := 1, pl_untouched_blocks := 2048, pl_esp := (4096, 524288), pl_bios_boot := (528384, 2048)\<rparr>)
      = demo_plan"
    by (simp add: with_rest_def r demo_plan_def blank_plan_def)
  have l: "block_check_layout s (Some 0) (Some (plan_extents demo_plan)) (length (plan_extents demo_plan)) = BLOCK_OK"
    using assms by (simp add: block_check_layout_def plan_extents_def demo_plan_def extents_clash_def)
  have n: "INSTALL_BIOS_BOOT = 2048" "INSTALL_SYSTEM_MIN = 4194304" "INSTALL_PROGRAMS_MIN = 2097152"
    by (simp_all add: INSTALL_BIOS_BOOT_def INSTALL_SYSTEM_MIN_def INSTALL_PROGRAMS_MIN_def)
  have nr: "\<not> pl_reuse_esp (blank_plan\<lparr>pl_untouched_slices := 1, pl_untouched_blocks := 2048\<rparr>)" by (simp add: blank_plan_def)
  show ?thesis using nr l by (simp add: place_all_def t place_system_def b n Let_def p del: take_esp.simps One_nat_def)
qed

lemma demo_plan_run:
  assumes "coherent (ram_content 512) s" "reads_succeed s" "0 < length (st_devices s)" "the_bdev s 0 = D"
    and "bd_present D" "bd_parent D = 0" "bd_id D = 1" "bd_block_size D = 512" "bd_block_count D = 8388608"
    and "bd_scheme D \<noteq> BLOCK_SCHEME_NONE" "bd_scheme D \<noteq> BLOCK_SCHEME_UNREADABLE" "st_hw s = demo_memory 8 my"
  shows "\<exists>s'. install_plan room True True 0 s = (demo_plan, s')"
proof -
  let ?disk = "ram_content 512 (demo_memory 8 my) 1"
  note D = assms(5-9) [folded assms(4)]
  obtain s1 where sv: "survey_gpt True True 0 s = (INSTALL_OK, demo_survey, s1)" and sd: "same_devices s s1"
    by (rule survey_gpt_run [OF assms(1,2,3) D(2,1) refl refl, of 8 128 INSTALL_OK demo_survey])
      (simp_all add: D assms(12) demo_sectors demo_header_fields demo_start(2,3) demo_survey_entries)
  note F = same_devices_fields [OF sd assms(3)]
  have "place_all s1 0 [(34, 2014), (4096, 8384479)] (blank_plan\<lparr>pl_untouched_slices := 1, pl_untouched_blocks := 2048\<rparr>) = demo_plan"
    by (rule demo_place_all) (simp_all add: F D)
  then show ?thesis
    using D assms(4,10,11) sv by (simp add: install_plan_def Let_def demo_survey_def blank_survey_def)
qed

lemma demo_plan_gpt: "\<exists>s'. install_plan room True True 0 (demo_gpt 8 1 BLOCK_SCHEME_GPT) = (demo_plan, s')"
  by (rule demo_plan_run [OF demo_coherent(1) demo_installable(2) _ refl]) (simp_all add: demo_gpt_devices)

section \<open>Planning\<close>

text \<open>C11: a plan made for a disk with a table takes no block of any entry in use: for every entry of the
  array on the disk whose type is not zero, no extent of the plan shares a block with the run the
  entry names.\<close>

theorem plan_avoids_partitions:
  assumes "storage_reached content s" "d < length (st_devices s)" "unat (bd_block_count (the_bdev s d)) + 2048 \<le> 2 ^ 64"
    and "install_plan room m1 m2 d s = (P, s')" "pl_verdict P = INSTALL_OK" "\<not> pl_fresh_table P"
    and "disk = content (st_hw s) (bd_id (the_bdev s d))" "entries = table_entries (bd_block_size (the_bdev s d)) disk"
    and "i < unat (le32 (disk 1) 80)" "at = i * unat (le32 (disk 1) 84)" "\<not> all_zero entries at 16" "e \<in> set (plan_extents P)"
  shows "extent_blocks e \<inter> {unat (le64 entries (at + 32)) .. unat (le64 entries (at + 40))} = {}"
proof -
  let ?z = "unat (le32 (disk 1) 84)"
  note I = install_plan_spec [OF reached_coherent [OF assms(1)] assms(2-8) refl]
  have "extent_blocks (entry_extent entries at) \<inter> extent_blocks e = {}"
  proof -
    let ?U = "{entry_extent entries (i * ?z) | i. i < unat (le32 (disk 1) 80) \<and> \<not> all_zero entries (i * ?z) 16}"
    have "entry_extent entries at \<in> ?U" using assms(9-11) by blast
    moreover have "\<forall>u\<in>?U. extent_blocks u \<inter> extent_blocks e = {}" using I(1) assms(12) unfolding plan_ok_def free_gap_def by blast
    ultimately show ?thesis by blast
  qed
  moreover have "extent_blocks (entry_extent entries at) = {unat (le64 entries (at + 32)) .. unat (le64 entries (at + 40))}"
    using I(2) assms(9-11) by simp
  ultimately show ?thesis by blast
qed

theorem plan_avoids_partitions_witness:
  "extent_blocks (530432, 4194304) \<inter> {unat (le64 demo_array 32) .. unat (le64 demo_array 40)} = {}"
proof -
  obtain s' where p: "install_plan (\<lambda>_ s. (None, s)) True True 0 (demo_gpt 8 1 BLOCK_SCHEME_GPT) = (demo_plan, s')" using demo_plan_gpt by blast
  have "extent_blocks (530432, 4194304) \<inter> {unat (le64 demo_array (0 + 32)) .. unat (le64 demo_array (0 + 40))} = {}"
    by (rule plan_avoids_partitions [OF demo_gpt_reached _ _ p _ _ refl, of demo_array 0 0])
      (simp_all add: demo_plan_def plan_extents_def demo_gpt_devices demo_start demo_sectors demo_header_fields demo_array_used)
  then show ?thesis by simp
qed

text \<open>C15: what a plan promises of its extents, for a blank disk or one with a table: each begins on a
  megabyte, no two share a block, all lie in the space between the copies of the table, the system has
  between 2 and 64 GiB of blocks of 512 bytes, the programs at least one, and a new EFI partition 256
  MiB.\<close>

theorem plan_keeps_promises:
  assumes "storage_reached content s" "d < length (st_devices s)" "unat (bd_block_count (the_bdev s d)) + 2048 \<le> 2 ^ 64"
    and "install_plan room m1 m2 d s = (P, s')" "pl_verdict P = INSTALL_OK" "disk = content (st_hw s) (bd_id (the_bdev s d))"
    and "lo = (if pl_fresh_table P then 2048 else unat (le64 (disk 1) 40))"
    and "hi = (if pl_fresh_table P then unat (bd_block_count (the_bdev s d)) - 33 else unat (le64 (disk 1) 48) + 1)"
  shows "(\<forall>e\<in>set (plan_extents P). unat (fst e) mod 2048 = 0 \<and> extent_blocks e \<subseteq> {lo..<hi}) \<and>
    (\<forall>i j. i < j \<longrightarrow> j < length (plan_extents P) \<longrightarrow> extent_blocks (plan_extents P ! i) \<inter> extent_blocks (plan_extents P ! j) = {}) \<and>
    unat (snd (pl_system P)) \<in> {4194304..134217728} \<and> 2097152 \<le> unat (snd (pl_programs P)) \<and>
    (pl_reuse_esp P \<or> unat (snd (pl_esp P)) = 524288)"
proof -
  have "\<exists>U. plan_ok lo hi U P"
  proof (cases "pl_fresh_table P")
    case False
    then show ?thesis using install_plan_spec(1) [OF reached_coherent [OF assms(1)] assms(2-5) False assms(6) refl refl] assms(7,8) by auto
  next
    case True
    have "P = plan_blank (bd_block_count (the_bdev s d))"
    proof (cases "bd_scheme (the_bdev s d) = BLOCK_SCHEME_NONE")
      case True
      then show ?thesis using assms(4,5) by (auto simp: install_plan_def Let_def split: if_splits)
    next
      case False
      have [simp]: "pl_fresh_table (place_system u k gaps out) = pl_fresh_table out" for u :: "'a storage" and k gaps out
        by (simp add: place_system_def Let_def)
      have [simp]: "pl_fresh_table (place_all u k gaps out) = pl_fresh_table out" for u :: "'a storage" and k gaps out
        by (simp add: place_all_def split: option.split prod.split)
      show ?thesis using assms(4,5) True False
        by (auto simp: install_plan_def Let_def blank_plan_def split: if_splits prod.splits option.splits)
    qed
    then show ?thesis using plan_blank_spec(1) [OF _ assms(3)] assms(5,7,8) True by auto
  qed
  then obtain U where "plan_ok lo hi U P" ..
  then have P: "\<forall>e\<in>set (plan_extents P). free_gap lo hi U e \<and> unat (fst e) mod 2048 = 0"
    "\<forall>i j. i < j \<longrightarrow> j < length (plan_extents P) \<longrightarrow> extent_blocks (plan_extents P ! i) \<inter> extent_blocks (plan_extents P ! j) = {}"
    "4194304 \<le> unat (snd (pl_system P))" "unat (snd (pl_system P)) \<le> 134217728" "2097152 \<le> unat (snd (pl_programs P))"
    "pl_reuse_esp P \<or> unat (snd (pl_esp P)) = 524288" by (simp_all add: plan_ok_def)
  have "\<forall>e\<in>set (plan_extents P). unat (fst e) mod 2048 = 0 \<and> extent_blocks e \<subseteq> {lo..<hi}"
    using P(1) by (fastforce simp: free_gap_def extent_blocks_def)
  with P(2-6) show ?thesis by simp
qed

theorem plan_keeps_promises_witness:
  "unat (snd (pl_system (plan_blank 8388608))) \<in> {4194304..134217728}"
proof -
  have p: "install_plan (\<lambda>_ s. (None, s)) True True 0 (demo_gpt 8 1 BLOCK_SCHEME_NONE) = (plan_blank 8388608, demo_gpt 8 1 BLOCK_SCHEME_NONE)"
    by (simp add: install_plan_def Let_def)
  have v: "pl_verdict (plan_blank 8388608) = INSTALL_OK"
    by (simp add: plan_blank_def Let_def INSTALL_ALIGN_BLOCKS_def INSTALL_BIOS_BOOT_def INSTALL_ESP_CREATE_def INSTALL_SYSTEM_MIN_def
        INSTALL_PROGRAMS_MIN_def blank_plan_def with_rest_def)
  show ?thesis
    using plan_keeps_promises [OF demo_gpt_reached _ _ p v refl refl refl] by (simp add: demo_gpt_devices)
qed


section \<open>Writing the table\<close>

lemma installed_table:
  assumes "storage_reached content s" "d < length (st_devices s)" "install_write_gpt clock cap m1 m2 m3 d plan counter s = (v, counter', s')"
    and "D = the_bdev s d" "disk = content (st_hw s) (bd_id D)"
    and "start_table (bd_block_size D) disk (pl_fresh_table plan) = (n, z, lba, E)" "S = entry_sectors (bd_block_size D) n z"
  shows "j \<noteq> bd_id D \<or> k \<notin> table_blocks (bd_block_count D) (pl_fresh_table plan) (unat lba) (unat S) (bd_block_count D - 1 - ucast S) \<Longrightarrow>
      content (st_hw s') j k = content (st_hw s) j k"
    and "v = INSTALL_OK \<Longrightarrow> 2 \<le> unat lba \<Longrightarrow> unat lba + 2 * unat S < unat (bd_block_count D) \<Longrightarrow> z \<le> 512 \<Longrightarrow>
      \<exists>t. table_written (content (st_hw s') (bd_id D)) (bd_block_size D) (bd_block_count D) t \<and>
        gt_entry_count t = n \<and> gt_entry_size t = z \<and> gt_entry_lba t = lba \<and> added (unat n) (unat z) E (gt_entries t) (plan_entries plan)"
    and "v = INSTALL_OK \<Longrightarrow> whole_disk content d s' \<and> (reads_succeed s \<longrightarrow> reads_succeed s') \<and> bd_present (the_bdev s' d) = bd_present D \<and>
      bd_id (the_bdev s' d) = bd_id D \<and> bd_block_size (the_bdev s' d) = bd_block_size D \<and> bd_block_count (the_bdev s' d) = bd_block_count D"
proof -
  let ?R = "table_blocks (bd_block_count D) (pl_fresh_table plan) (unat lba) (unat S) (bd_block_count D - 1 - ucast S)"
  let ?T = "\<exists>t. table_written (content (st_hw s') (bd_id D)) (bd_block_size D) (bd_block_count D) t \<and>
        gt_entry_count t = n \<and> gt_entry_size t = z \<and> gt_entry_lba t = lba \<and> added (unat n) (unat z) E (gt_entries t) (plan_entries plan)"
  let ?W = "whole_disk content d s' \<and> (reads_succeed s \<longrightarrow> reads_succeed s') \<and> bd_present (the_bdev s' d) = bd_present D \<and>
      bd_id (the_bdev s' d) = bd_id D \<and> bd_block_size (the_bdev s' d) = bd_block_size D \<and> bd_block_count (the_bdev s' d) = bd_block_count D"
  note co = reached_coherent [OF assms(1)]
  have "(\<forall>j k. j \<noteq> bd_id D \<or> k \<notin> ?R \<longrightarrow> content (st_hw s') j k = content (st_hw s) j k) \<and>
    (v = INSTALL_OK \<longrightarrow> (2 \<le> unat lba \<longrightarrow> unat lba + 2 * unat S < unat (bd_block_count D) \<longrightarrow> z \<le> 512 \<longrightarrow> ?T) \<and> ?W)"
  proof (cases rule: install_write_gpt_steps [OF co assms(2,3)])
    case 1
    then show ?thesis by simp
  next
    case (2 s1 s2)
    note C = claimed_disk [OF co assms(2) 2(1)] and K = claim_spec [OF 2(1) assms(2)]
    have st: "start_table (bd_block_size (the_bdev s1 d)) (content (st_hw s1) (bd_id (the_bdev s1 d))) (pl_fresh_table plan) = (n, z, lba, E)"
      "S = entry_sectors (bd_block_size (the_bdev s1 d)) n z" using C assms(4-7) by simp_all
    note W = write_table_spec [OF C(1) 2(2) refl refl refl st]
    have sd: "same_devices s1 s2" and co2: "coherent content s2" using W(1) by (simp_all add: disk_step_def)
    have d1: "d < length (st_devices s1)" "d < length (st_devices s2)" using assms(2) K(4) same_devices_length [OF sd] by simp_all
    note F = same_devices_fields [OF sd d1(1)]
    have hw: "st_hw s' = st_hw s2" using 2(3) by (simp add: block_release_raw_def)
    have dv: "the_bdev s' i = (if i = d then (the_bdev s2 d)\<lparr>bd_claimed_raw := False\<rparr> else the_bdev s2 i)" "length (st_devices s') = length (st_devices s2)" for i
      using d1 2(3) by (simp_all add: block_release_raw_def the_bdev_upd_bdev)
    have "reads_succeed s'" if "reads_succeed s"
    proof -
      have "fst (op_read (bd_ops (the_bdev s1 i)) a b h) = BLOCK_OK" if "i < length (st_devices s1)" for i a b h
        using \<open>reads_succeed s\<close> that K(4) K(5) [of i] K(2) by (cases "i = d") (simp_all add: reads_succeed_def)
      then have "reads_succeed s1" by (simp add: reads_succeed_def)
      then have "reads_succeed s2" using reads_succeed_same [OF sd] by simp
      then show ?thesis by (simp add: reads_succeed_def dv)
    qed
    moreover have "coherent content s'" using release_raw_coherent [OF co2] 2(3) by simp
    ultimately have "?W" using C K F d1 assms(4) by (simp add: whole_disk_def dv)
    moreover have "content (st_hw s') j k = content (st_hw s) j k" if "j \<noteq> bd_id D \<or> k \<notin> ?R" for j k
      using W(1) that C(3-5) assms(4) hw by (simp add: disk_step_def)
    moreover have "?T" if "v = INSTALL_OK" "2 \<le> unat lba" "unat lba + 2 * unat S < unat (bd_block_count D)" "z \<le> 512"
      using W(2) [OF that(1,2) _ that(4)] that(3) C(2-4) assms(4) hw by simp
    ultimately show ?thesis by simp
  qed
  then show "j \<noteq> bd_id D \<or> k \<notin> ?R \<Longrightarrow> content (st_hw s') j k = content (st_hw s) j k"
    and "v = INSTALL_OK \<Longrightarrow> 2 \<le> unat lba \<Longrightarrow> unat lba + 2 * unat S < unat (bd_block_count D) \<Longrightarrow> z \<le> 512 \<Longrightarrow> ?T"
    and "v = INSTALL_OK \<Longrightarrow> ?W" by blast+
qed

text \<open>The installation of the plan above on the disk of the example.\<close>

abbreviation demo_install :: "install_verdict \<times> u64 \<times> mem storage" where
  "demo_install \<equiv> install_write_gpt (\<lambda>_. 0) True True True True 0 demo_plan 0 (demo_gpt 8 1 BLOCK_SCHEME_GPT)"

lemma demo_start_here:
  "start_table (bd_block_size (the_bdev (demo_gpt 8 1 BLOCK_SCHEME_GPT) 0))
     (ram_content 512 (st_hw (demo_gpt 8 1 BLOCK_SCHEME_GPT)) (bd_id (the_bdev (demo_gpt 8 1 BLOCK_SCHEME_GPT) 0))) (pl_fresh_table demo_plan)
   = (8, 128, 2, demo_array)"
  "entry_sectors (bd_block_size (the_bdev (demo_gpt 8 1 BLOCK_SCHEME_GPT) 0)) 8 128 = 2"
  by (simp_all add: demo_gpt_devices demo_start demo_plan_def)

lemma demo_install_ok: "\<exists>c s'. demo_install = (INSTALL_OK, c, s')"
proof -
  have p: "pl_verdict demo_plan = INSTALL_OK" "\<not> pl_fresh_table demo_plan" by (simp_all add: demo_plan_def)
  have e: "length (plan_entries demo_plan) \<le> card {i. i < unat (8 :: u32) \<and> all_zero demo_array (i * unat (128 :: u32)) 16}"
    by (simp add: demo_free_slots plan_entries_def demo_plan_def)
  have "fst demo_install = INSTALL_OK"
    by (rule install_write_succeeds [OF demo_coherent(1) demo_installable(1) p(1) refl refl refl demo_start_here(1) demo_start_here(2) [symmetric]
          _ _ _ _ _ _ _ e])
      (simp_all add: p)
  then show ?thesis by (metis prod.collapse)
qed

text \<open>C13: whatever becomes of an installation (it is refused, a read or a write fails half way, it succeeds),
  the only blocks of the machine it may change are those of the disk's two copies of the table: the
  header and its array, the backup array and the backup header, and block 0 when the table is new.\<close>

theorem install_writes_only_the_table:
  assumes "storage_reached content s" "d < length (st_devices s)" "install_write_gpt clock cap m1 m2 m3 d plan counter s = (v, counter', s')"
    and "D = the_bdev s d" "disk = content (st_hw s) (bd_id D)"
    and "start_table (bd_block_size D) disk (pl_fresh_table plan) = (n, z, lba, E)" "S = entry_sectors (bd_block_size D) n z"
    and "j \<noteq> bd_id D \<or> k \<notin> table_blocks (bd_block_count D) (pl_fresh_table plan) (unat lba) (unat S) (bd_block_count D - 1 - ucast S)"
  shows "content (st_hw s') j k = content (st_hw s) j k"
  by (rule installed_table(1) [OF assms])

theorem install_writes_only_the_table_witness:
  "ram_content 512 (st_hw (snd (snd demo_install))) 1 2048 = ram_content 512 (demo_memory 8 1) 1 2048"
proof -
  obtain c s' where i: "demo_install = (INSTALL_OK, c, s')" using demo_install_ok by blast
  have "2048 \<notin> table_blocks (8388608 :: u64) False 2 2 (8388608 - 1 - ucast (2 :: u32))" by (simp add: table_blocks_def)
  then show ?thesis
    using install_writes_only_the_table [OF demo_gpt_reached _ i refl refl demo_start_here(1) demo_start_here(2) [symmetric], of 1 2048]
    by (simp add: i demo_gpt_devices) (simp add: demo_plan_def)
qed

text \<open>C14: what an installation that reports success has done: both copies of the table on the disk have valid
  headers and the same array, and that array is the one that was there with the partitions of the plan
  in slots that were free: every other entry, used or not, is byte for byte what it was.\<close>

theorem install_adds_entries:
  assumes "storage_reached content s" "d < length (st_devices s)" "install_write_gpt clock cap m1 m2 m3 d plan counter s = (INSTALL_OK, counter', s')"
    and "D = the_bdev s d" "disk = content (st_hw s) (bd_id D)" "N = unat (bd_block_count D)"
    and "start_table (bd_block_size D) disk (pl_fresh_table plan) = (n, z, lba, E)" "S = entry_sectors (bd_block_size D) n z"
    and "2 \<le> unat lba" "unat lba + 2 * unat S < N" "z \<le> 512" "disk' = content (st_hw s') (bd_id D)"
  shows "\<exists>E'. header_ok (disk' 1) (bd_block_size D) 1 = Some (lba, n, z, crc32 E') \<and> sectors disk' (unat lba) (unat S) = E' \<and>
    header_ok (disk' (N - 1)) (bd_block_size D) (bd_block_count D - 1) = Some (bd_block_count D - 1 - ucast S, n, z, crc32 E') \<and>
    sectors disk' (N - 1 - unat S) (unat S) = E' \<and> added (unat n) (unat z) E E' (plan_entries plan)"
proof -
  from installed_table(2) [OF assms(1-5,7,8) refl assms(9) _ assms(11)] assms(6,10)
  obtain t where t: "table_written (content (st_hw s') (bd_id D)) (bd_block_size D) (bd_block_count D) t"
      "gt_entry_count t = n" "gt_entry_size t = z" "gt_entry_lba t = lba" "added (unat n) (unat z) E (gt_entries t) (plan_entries plan)" by auto
  then show ?thesis unfolding assms(6,8,12) by (intro exI [of _ "gt_entries t"]) (simp add: table_written_def Let_def)
qed

theorem install_adds_entries_witness:
  "\<exists>E'. header_ok (ram_content 512 (st_hw (snd (snd demo_install))) 1 1) 512 1 = Some (2, 8, 128, crc32 E') \<and>
     added 8 128 demo_array E' (plan_entries demo_plan)"
proof -
  obtain c s' where i: "demo_install = (INSTALL_OK, c, s')" using demo_install_ok by blast
  show ?thesis
    using install_adds_entries [OF demo_gpt_reached _ i refl refl refl demo_start_here(1) demo_start_here(2) [symmetric] _ _ _ refl]
    by (simp add: i demo_gpt_devices) blast
qed

lemma array_sectors:
  assumes "n * z = S * bs" "92 \<le> bs"
  shows "(n * z + bs - 1) div bs = (S :: nat)"
proof -
  have "n * z + bs - 1 = (bs - 1) + S * bs" using assms by simp
  also have "\<dots> div bs = S" using assms(2) by (simp only: div_mult_self1) simp
  finally show ?thesis .
qed

text \<open>C12: after an installation that reports success the kernel's partition reader accepts the disk: with
  memory for the array and a driver that answers, it registers the entries of exactly the array that
  was there with the plan's partitions added.\<close>

theorem installed_table_reads_back:
  assumes "storage_reached content s" "d < length (st_devices s)" "install_write_gpt clock cap m1 m2 m3 d plan counter s = (INSTALL_OK, counter', s')"
    and "D = the_bdev s d" "disk = content (st_hw s) (bd_id D)" "bs = bd_block_size D"
    and "start_table bs disk (pl_fresh_table plan) = (n, z, lba, E)" "S = entry_sectors bs n z" "unat n * unat z = unat S * unat bs"
    and "2 \<le> unat lba" "unat lba + 2 * unat S < unat (bd_block_count D)" "z \<le> 512"
    and "reads_succeed s" "bd_present D" "unat bs dvd PAGE_SIZE" "length block = PAGE_SIZE"
    and "fst (pmm_alloc_pages (pages_for (ucast n * ucast z)) p) \<noteq> 0"
  shows "\<exists>blk page at u. read_gpt d block (s'\<lparr>st_pages := p\<rparr>) =
      (True, blk, pages_back at (pages_for (ucast n * ucast z)) (gpt_register d page (unat z) [0..<unat n] u)) \<and>
    same_devices (s'\<lparr>st_pages := p\<rparr>) u \<and> added (unat n) (unat z) E (take (unat n * unat z) page) (plan_entries plan)"
proof -
  let ?u = "s'\<lparr>st_pages := p\<rparr>" and ?disk = "content (st_hw s') (bd_id D)"
  note st = assms(7,8) [unfolded assms(6)]
  obtain E' where E: "header_ok (?disk 1) bs 1 = Some (lba, n, z, crc32 E')" "sectors ?disk (unat lba) (unat S) = E'"
      "added (unat n) (unat z) E E' (plan_entries plan)"
  proof -
    from installed_table(2) [OF assms(1-5) st refl assms(10-12)]
    obtain t where "table_written ?disk (bd_block_size D) (bd_block_count D) t"
      "gt_entry_count t = n" "gt_entry_size t = z" "gt_entry_lba t = lba" "added (unat n) (unat z) E (gt_entries t) (plan_entries plan)" by blast
    then show ?thesis by (intro that [of "gt_entries t"]) (simp_all add: table_written_def Let_def assms(6,8))
  qed
  note W = installed_table(3) [OF assms(1-5) st refl]
  have dv: "the_bdev ?u = the_bdev s'" by (simp add: the_bdev_def fun_eq_iff)
  have rd: "readable content d ?u"
    using W assms(6,13-15) pages_coherent [of content s' p] by (simp add: readable_def whole_disk_def dv reads_succeed_def)
  have hb: "128 \<le> unat z" "unat z \<le> 512" "0 < unat n" "unat n \<le> 512" "92 \<le> unat bs"
    using E(1) by (auto simp: header_ok_def Let_def GPT_MAX_ENTRIES_def GPT_MAX_ENTRY_SIZE_def not_less word_le_nat_alt unat_gt_0 split: if_splits)
  have N: "2 \<le> unat (bd_block_count D)" using assms(10,11) by simp
  have hon: "honest content (the_bdev s' d)" using W coherentD(2) [of content s'] by (simp add: whole_disk_def all_honest_def)
  have "length E' = unat S * unat bs"
    using honest_sectors_length [OF hon, of "unat lba" "unat S" "st_hw s'"] W E(2) assms(6,11) by simp
  then have ar: "array_of ?disk bs lba n z = E'" unfolding array_of_def array_sectors [OF assms(9) hb(5)] E(2) using assms(9) by simp
  have sv: "?disk = content (st_hw ?u) (bd_id (the_bdev ?u d))" "bs = bd_block_size (the_bdev ?u d)" "2 \<le> unat (bd_block_count (the_bdev ?u d))"
    using W N assms(6) by (simp_all add: dv)
  obtain blk s1 where r: "read_gpt d block ?u = (case read_entries d lba n z (crc32 E') s1 of (ok, s2) \<Rightarrow> (ok, blk, s2))"
      and s1: "disk_step content d {} ?u s1" "st_pages s1 = st_pages ?u"
    by (rule read_gpt_accepted [OF rd assms(16) sv(1,2) hb(5) sv(3) E(1)])
  note rd1 = readable_step [OF rd s1(1)]
  have sd: "same_devices ?u s1" and hw: "\<And>j k. content (st_hw s1) j k = content (st_hw ?u) j k" using s1(1) by (simp_all add: disk_step_def)
  have du: "d < length (st_devices ?u)" using W by (simp add: whole_disk_def)
  note F = same_devices_fields [OF sd du]
  have sv1: "?disk = content (st_hw s1) (bd_id (the_bdev s1 d))" "bs = bd_block_size (the_bdev s1 d)" using sv hw F by (simp_all add: fun_eq_iff)
  have c: "bd_block_count (the_bdev s1 d) = bd_block_count D" using F W dv by simp
  obtain page at s2 where "take (unat n * unat z) page = E'" "same_devices s1 s2"
      "read_entries d lba n z (crc32 E') s1 = (True, pages_back at (pages_for (ucast n * ucast z)) (gpt_register d page (unat z) [0..<unat n] s2))"
    using read_entries_value(2) [OF rd1 sv1 hb(3,4,1,2), of lba "crc32 E'"] ar array_sectors [OF assms(9) hb(5)] c assms(11,17) s1(2) by auto
  then show ?thesis using r same_devices_trans [OF sd] E(3) by (intro exI [of _ blk] exI [of _ page] exI [of _ at] exI [of _ s2]) simp
qed

theorem installed_table_reads_back_witness:
  "\<exists>blk page at u. read_gpt 0 (replicate PAGE_SIZE 0) ((snd (snd demo_install))\<lparr>st_pages := demo_pages\<rparr>) =
      (True, blk, pages_back at 1 (gpt_register 0 page 128 [0..<8] u)) \<and> added 8 128 demo_array (take 1024 page) (plan_entries demo_plan)"
proof -
  obtain c s' where i: "demo_install = (INSTALL_OK, c, s')" using demo_install_ok by blast
  have n: "pages_for (ucast (8 :: u32) * ucast (128 :: u32)) = 1" by (simp add: pages_for_def PAGE_SIZE_def)
  have a: "fst (pmm_alloc_pages (pages_for (ucast (8 :: u32) * ucast (128 :: u32))) demo_pages) \<noteq> 0"
    using demo_alloc unfolding n by (simp add: pmm_alloc_page_def)
  show ?thesis
    using installed_table_reads_back [OF demo_gpt_reached _ i refl refl refl demo_start_here(1) demo_start_here(2) [symmetric] _ _ _ _ demo_installable(2)
        _ _ _ a, of "replicate PAGE_SIZE 0"]
    by (simp add: i n [simplified] demo_gpt_devices PAGE_SIZE_def) blast
qed

section \<open>Where it fails\<close>

text \<open>C36: the window the code's own comment says is closed. When the power goes after the array was written
  and before the header was, with entries that have another checksum, the reader accepts the old
  header, finds that its array does not match, and gives up: it registers nothing and never looks at the
  backup, whose header and array the disk still holds as they were.\<close>

theorem interrupted_install_unreadable:
  assumes "storage_reached content s" "d < length (st_devices s)" "D = the_bdev s d" "disk = content (st_hw s) (bd_id D)" "bs = bd_block_size D"
    and "header_ok (disk 1) bs 1 = Some (lba, n, z, crc)" "2 \<le> unat lba" "unat lba + 2 * unat S < unat (bd_block_count D)"
    and "S = entry_sectors bs n z" "unat n * unat z = unat S * unat bs"
    and "gt_entry_count t = n" "gt_entry_size t = z" "gt_entry_lba t = lba" "length (gt_entries t) = entries_bytes t" "crc32 (gt_entries t) \<noteq> crc"
    and "run_steps (take 1 (table_steps d D False t)) s = (BLOCK_OK, s')" "disk' = content (st_hw s') (bd_id D)"
    and "reads_succeed s" "bd_present D" "bd_parent D = 0" "unat bs dvd PAGE_SIZE" "length block = PAGE_SIZE"
  shows "(\<exists>blk u. read_gpt d block s' = (False, blk, u) \<and> same_devices s' u) \<and>
    (\<forall>k. unat lba + unat S \<le> k \<longrightarrow> disk' k = disk k)"
proof -
  note co = reached_coherent [OF assms(1)]
  have hb: "128 \<le> unat z" "unat z \<le> 512" "0 < unat n" "unat n \<le> 512" "92 \<le> unat bs"
    using assms(6) by (auto simp: header_ok_def Let_def GPT_MAX_ENTRIES_def GPT_MAX_ENTRY_SIZE_def not_less word_le_nat_alt unat_gt_0 split: if_splits)
  have nz: "S \<noteq> 0" using hb(1,3) assms(10) by (auto simp: unat_eq_0)
  have lE: "length (gt_entries t) = unat S * unat (bd_block_size (the_bdev s d))" using assms(3,5,10-12,14) by (simp add: entries_bytes_def)
  have w: "block_write (Some d) lba S (Some (gt_entries t)) s = (BLOCK_OK, s')"
    using assms(5,9,11-13,16) by (auto simp: table_steps_def Let_def write_step_def split: prod.splits if_splits)
  have wd: "whole_disk content d s" using co assms(2,3,20) by (simp add: whole_disk_def)
  note R = root_write [OF wd nz lE w]
  note W = whole_disk_step [OF wd R(1)]
  have same: "disk' k = disk k" if "k \<notin> {unat lba..<unat lba + unat S}" for k
    using R(1) that assms(3,4,17) by (simp add: disk_step_def)
  have sd: "same_devices s s'" using R(1) by (simp add: disk_step_def)
  note F = same_devices_fields [OF sd assms(2)]
  have rd: "readable content d s'"
    using readable_step [OF _ R(1)] wd assms(3,5,18,19,21) by (simp add: readable_def)
  have sv: "disk' = content (st_hw s') (bd_id (the_bdev s' d))" "bs = bd_block_size (the_bdev s' d)" "2 \<le> unat (bd_block_count (the_bdev s' d))"
    using F assms(3,5,7,8,17) by simp_all
  have h: "header_ok (disk' 1) bs 1 = Some (lba, n, z, crc)" using same [of 1] assms(6,7) by simp
  have a: "array_of disk' bs lba n z = gt_entries t"
    unfolding array_of_def array_sectors [OF assms(10) hb(5)]
    using R(2) assms(3,4,5,10-12,14,17) by (simp add: entries_bytes_def)
  obtain blk s1 where r: "read_gpt d block s' = (case read_entries d lba n z crc s1 of (ok, s2) \<Rightarrow> (ok, blk, s2))"
      and s1: "disk_step content d {} s' s1" "st_pages s1 = st_pages s'"
    by (rule read_gpt_accepted [OF rd assms(22) sv(1,2) hb(5) sv(3) h])
  have sd1: "same_devices s' s1" and hw: "\<And>j k. content (st_hw s1) j k = content (st_hw s') j k" using s1(1) by (simp_all add: disk_step_def)
  have dl: "d < length (st_devices s')" using W by (simp add: whole_disk_def)
  note F1 = same_devices_fields [OF sd1 dl]
  have sv1: "disk' = content (st_hw s1) (bd_id (the_bdev s1 d))" "bs = bd_block_size (the_bdev s1 d)" using sv hw F1 by (simp_all add: fun_eq_iff)
  obtain s2 where "read_entries d lba n z crc s1 = (False, s2)" "same_devices s1 s2"
    using read_entries_value(1) [OF readable_step [OF rd s1(1)] sv1 hb(3,4,1,2), of lba crc] a assms(15) by auto
  then show ?thesis using r same_devices_trans [OF sd1] same by auto
qed

text \<open>The example's table with a type byte put into its second slot.\<close>

definition demo_changed :: gpt_table where
  "demo_changed = (demo_table 8)\<lparr>gt_entries := take 128 demo_array @ [1] @ drop 129 demo_array\<rparr>"

lemma demo_header_accepted: "header_ok (demo_header 8 1) 512 1 = Some (2, 8, 128, crc32 demo_array)"
  unfolding demo_header_def by (subst gpt_header_roundtrip) (simp_all add: demo_table_def)

lemma demo_changed_crc: "crc32 (gt_entries demo_changed) \<noteq> crc32 demo_array"
proof -
  have "demo_array ! 128 = 0" using demo_array_free [of 1] length_demo_array
    by (simp add: all_zero_def list_all_length slice_of_nth) (drule spec [of _ 0], simp)
  then have d: "demo_array = take 128 demo_array @ [0] @ drop 129 demo_array"
    using id_take_nth_drop [of 128 demo_array] length_demo_array by simp
  have "crc32 (take 128 demo_array @ [1] @ drop 129 demo_array) \<noteq> crc32 (take 128 demo_array @ [0] @ drop 129 demo_array)"
    by (rule crc32_burst) simp_all
  then show ?thesis using d by (simp add: demo_changed_def)
qed

theorem interrupted_install_unreadable_witness:
  "\<exists>s' blk u. run_steps (take 1 (table_steps 0 (the_bdev (demo_gpt 8 1 BLOCK_SCHEME_GPT) 0) False demo_changed)) (demo_gpt 8 1 BLOCK_SCHEME_GPT) = (BLOCK_OK, s') \<and>
     read_gpt 0 (replicate PAGE_SIZE 0) s' = (False, blk, u)"
proof -
  let ?s = "demo_gpt 8 1 BLOCK_SCHEME_GPT"
  have wr: "writable 0 ?s" by (simp add: writable_def write_refused_def demo_gpt_bdev fresh_bdev_def ram_ops_def)
  have le: "length (gt_entries demo_changed) = 1024" by (simp add: demo_changed_def length_demo_array)
  have f: "gt_entry_count demo_changed = 8" "gt_entry_size demo_changed = 128" "gt_entry_lba demo_changed = 2"
    by (simp_all add: demo_changed_def demo_table_def)
  have "fst (write_step 0 2 2 (gt_entries demo_changed) ?s) = BLOCK_OK"
    by (rule write_step_succeeds(1) [OF demo_coherent(2) wr]) (simp_all add: le)
  then obtain s' where w: "write_step 0 2 2 (gt_entries demo_changed) ?s = (BLOCK_OK, s')" by (metis prod.collapse)
  have run: "run_steps (take 1 (table_steps 0 (the_bdev ?s 0) False demo_changed)) ?s = (BLOCK_OK, s')"
    using w by (simp add: table_steps_def Let_def f demo_start(2))
  have h: "header_ok (ram_content 512 (st_hw ?s) (bd_id (the_bdev ?s 0)) 1) (bd_block_size (the_bdev ?s 0)) 1 = Some (2, 8, 128, crc32 demo_array)"
    by (simp add: demo_gpt_devices demo_sectors demo_header_accepted)
  have "\<exists>blk u. read_gpt 0 (replicate PAGE_SIZE 0) s' = (False, blk, u) \<and> same_devices s' u"
    using interrupted_install_unreadable [OF demo_gpt_reached _ refl refl refl h _ _ demo_start_here(2) [symmetric] _ f _ demo_changed_crc run refl
        demo_installable(2), of "replicate PAGE_SIZE 0"]
    by (simp add: demo_gpt_devices le f entries_bytes_def PAGE_SIZE_def)
  then show ?thesis using run by blast
qed



end
