(* ===== verification/Pmm_Start.thy ===== *)
theory Pmm_Start
  imports Pmm
begin

text \<open>
  The page allocator from start-up on: what \<^verbatim>\<open>pmm_init\<close> of \<^verbatim>\<open>kernel/core/pmm.c\<close> makes of the
  firmware's memory map, the states a kernel can reach from there, and the properties of
  the allocator.
\<close>

section \<open>Rounding to pages\<close>

lemma PAGE_ALIGN_DOWN_shift: "PAGE_ALIGN_DOWN x = push_bit 12 (drop_bit 12 x)"
proof (rule bit_word_eqI)
  fix n assume n: "n < LENGTH(64)"
  have m: "(4096 - 1 :: u64) = mask 12" by (simp add: mask_eq_exp_minus_1)
  show "bit (PAGE_ALIGN_DOWN x) n = bit (push_bit 12 (drop_bit 12 x)) n"
    unfolding PAGE_ALIGN_DOWN_def m
    using n by (auto simp: bit_and_iff bit_not_iff bit_mask_iff bit_push_bit_iff bit_drop_bit_eq not_less)
qed

lemma unat_PAGE_ALIGN_DOWN: "unat (PAGE_ALIGN_DOWN x) = unat x div 4096 * 4096"
proof -
  have le: "unat x div 4096 * 4096 < 18446744073709551616"
    using unat_u64_lt [of x] by (meson div_times_less_eq_dividend le_less_trans)
  have "PAGE_ALIGN_DOWN x = x div 4096 * 4096"
    by (simp add: PAGE_ALIGN_DOWN_shift push_bit_eq_mult drop_bit_eq_div)
  then show ?thesis
    using le by (simp add: unat_word_ariths unat_div_distrib)
qed

lemma unat_PAGE_ALIGN_UP:
  assumes "unat x + 4095 < 2 ^ 64"
  shows "unat (PAGE_ALIGN_UP x) = (unat x + 4095) div 4096 * 4096"
proof -
  have "x + 4096 - 1 = x + 4095" by simp
  moreover have "unat (x + 4095) = unat x + 4095" using assms by (simp add: unat_word_ariths)
  ultimately show ?thesis by (simp only: PAGE_ALIGN_UP_def unat_PAGE_ALIGN_DOWN)
qed

section \<open>The memory map\<close>

text \<open>A memory map the firmware may hand over: no usable region reaches into the last page of
  the address space.\<close>

definition region_ok :: "mem_region \<Rightarrow> bool" where
  "region_ok r \<longleftrightarrow> (r_kind r = MEM_USABLE \<longrightarrow> unat (r_base r) + unat (r_size r) + 4095 < 2 ^ 64)"

definition region_end :: "mem_region \<Rightarrow> nat" where
  "region_end r = unat (r_base r) + unat (r_size r)"

lemma unat_region_end:
  "region_ok r \<Longrightarrow> r_kind r = MEM_USABLE \<Longrightarrow> unat (r_base r + r_size r) = region_end r"
  by (simp add: region_ok_def region_end_def unat_word_ariths)

lemma usable_span_bounds:
  assumes "\<forall>r\<in>set rs. region_ok r" and "usable_span rs lo hi = (lo', hi')" and "unat hi + 4095 < 2 ^ 64"
  shows "unat lo' \<le> unat lo \<and> unat hi \<le> unat hi' \<and> unat hi' + 4095 < 2 ^ 64 \<and>
    (\<forall>r\<in>set rs. r_kind r = MEM_USABLE \<longrightarrow> unat lo' \<le> unat (r_base r) \<and> region_end r \<le> unat hi')"
  using assms
proof (induction rs lo hi rule: usable_span.induct)
  case (1 lo hi)
  then show ?case by simp
next
  case (2 r rs lo hi)
  show ?case
  proof (cases "r_kind r = MEM_USABLE")
    case True
    let ?lo = "if r_base r < lo then r_base r else lo"
    let ?hi = "if r_base r + r_size r > hi then r_base r + r_size r else hi"
    have e: "unat (r_base r + r_size r) = region_end r" "region_end r + 4095 < 2 ^ 64"
      using 2 True unat_region_end [of r] by (auto simp: region_ok_def region_end_def)
    have "unat ?lo \<le> unat lo" "unat ?lo \<le> unat (r_base r)"
      and hi: "unat hi \<le> unat ?hi" "region_end r \<le> unat ?hi" "unat ?hi + 4095 < 2 ^ 64"
      using e 2 by (auto simp: word_less_nat_alt)
    moreover have "usable_span rs ?lo ?hi = (lo', hi')" using 2 True by (simp add: Let_def)
    ultimately show ?thesis
      using "2.IH"(1) [OF True refl refl] "2.prems"(1) by (fastforce simp del: region_end_def)
  next
    case False
    with 2 show ?thesis by simp
  qed
qed


text \<open>The page with index \<open>p\<close> lies wholly inside the region.\<close>

definition page_inside :: "nat \<Rightarrow> mem_region \<Rightarrow> nat \<Rightarrow> bool" where
  "page_inside base r p \<longleftrightarrow> unat (r_base r) \<le> base + p * 4096 \<and> base + p * 4096 + 4096 \<le> region_end r"

lemma ceil_le: "(x + 4095) div 4096 \<le> q \<longleftrightarrow> x \<le> q * (4096::nat)"
  using div_less_iff_less_mult [of 4096 "x + 4095" "Suc q"] by (simp add: less_Suc_eq_le)

lemma page_inside_iff:
  assumes "base = b * 4096" "base \<le> unat (r_base r)"
  shows "page_inside base r p \<longleftrightarrow> (unat (r_base r) + 4095) div 4096 - b \<le> p \<and> p < region_end r div 4096 - b"
proof -
  have b: "b \<le> (unat (r_base r) + 4095) div 4096" using assms by (simp add: less_eq_div_iff_mult_less_eq)
  have 1: "unat (r_base r) \<le> base + p * 4096 \<longleftrightarrow> (unat (r_base r) + 4095) div 4096 \<le> b + p"
    unfolding ceil_le by (simp add: assms(1) algebra_simps)
  have 2: "base + p * 4096 + 4096 \<le> region_end r \<longleftrightarrow> Suc (b + p) \<le> region_end r div 4096"
    by (simp add: less_eq_div_iff_mult_less_eq assms(1) algebra_simps)
  show ?thesis
    unfolding page_inside_def 1 2 using b by linarith
qed

lemma unat_page_size: "unat (4096 :: u64) = 4096"
  by simp

lemma pages_diff: "(a * 4096 - b * 4096) div 4096 = a - (b :: nat)"
  by (simp add: diff_mult_distrib [symmetric] del: diff_mult_distrib)

lemma region_pages:
  fixes s :: pmm
  defines "base \<equiv> unat (base_paddr s)"
  assumes ok: "region_ok r" and u: "r_kind r = MEM_USABLE" and b: "base_paddr s mod 4096 = 0"
    and le: "base \<le> unat (r_base r)"
  shows "(PAGE_ALIGN_DOWN (r_base r + r_size r) > PAGE_ALIGN_UP (r_base r) \<longrightarrow>
     {page_index s (PAGE_ALIGN_UP (r_base r))..<page_index s (PAGE_ALIGN_UP (r_base r)) +
       unat ((PAGE_ALIGN_DOWN (r_base r + r_size r) - PAGE_ALIGN_UP (r_base r)) div 4096)}
     = {p. page_inside base r p}) \<and>
    (\<not> PAGE_ALIGN_DOWN (r_base r + r_size r) > PAGE_ALIGN_UP (r_base r) \<longrightarrow> {p. page_inside base r p} = {})"
proof -
  define S T where "S = (unat (r_base r) + 4095) div 4096" and "T = region_end r div 4096"
  have up: "unat (PAGE_ALIGN_UP (r_base r)) = S * 4096"
    unfolding S_def using ok u by (intro unat_PAGE_ALIGN_UP) (simp add: region_ok_def)
  have dn: "unat (PAGE_ALIGN_DOWN (r_base r + r_size r)) = T * 4096"
    unfolding T_def by (simp only: unat_PAGE_ALIGN_DOWN unat_region_end [OF ok u])
  have "base mod 4096 = 0"
    using b by (simp add: base_def word_unat_eq_iff unat_mod_distrib)
  then have k: "base = base div 4096 * 4096" by (simp add: minus_mod_eq_div_mult [symmetric])
  define k where "k = base div 4096"
  note k = k [folded k_def]
  have inside: "{p. page_inside base r p} = {S - k..<T - k}"
    by (rule set_eqI) (simp only: mem_Collect_eq page_inside_iff [OF k le] S_def T_def atLeastLessThan_iff)
  have kS: "k \<le> S" unfolding S_def using le k by (simp add: less_eq_div_iff_mult_less_eq)
  have gt: "PAGE_ALIGN_DOWN (r_base r + r_size r) > PAGE_ALIGN_UP (r_base r) \<longleftrightarrow> S < T"
    by (simp add: word_less_nat_alt up dn)
  have "base_paddr s \<le> PAGE_ALIGN_UP (r_base r)"
    using kS k by (simp add: word_le_nat_alt up base_def)
  then have idx: "page_index s (PAGE_ALIGN_UP (r_base r)) = S - k"
    using pages_diff [of S k] k by (simp only: page_index_def unat_div_distrib unat_sub up base_def unat_page_size)
  have len: "unat ((PAGE_ALIGN_DOWN (r_base r + r_size r) - PAGE_ALIGN_UP (r_base r)) div 4096) = T - S"
    if "S < T"
    using pages_diff [of T S] unat_sub [of "PAGE_ALIGN_UP (r_base r)" "PAGE_ALIGN_DOWN (r_base r + r_size r)"] that gt
    by (simp only: unat_div_distrib up dn unat_page_size order.strict_implies_order)
  show ?thesis
    using kS by (cases "S < T") (simp_all add: inside gt idx len)
qed

lemma free_usable_frame [simp]:
  "total_pages (free_usable rs s) = total_pages s" "base_paddr (free_usable rs s) = base_paddr s"
  "search_hint (free_usable rs s) = search_hint s" "bitmap_base (free_usable rs s) = bitmap_base s"
  "ram (free_usable rs s) = ram s"
  by (induction rs s rule: free_usable.induct) (simp_all add: Let_def)

lemma free_usable_count:
  "free_pages s = card (free_set s) \<Longrightarrow> free_pages (free_usable rs s) = card (free_set (free_usable rs s))"
proof (induction rs s rule: free_usable.induct)
  case (2 r rs s)
  then show ?case using mark_free_count [of s] by (simp add: Let_def)
qed simp

lemma free_set_free_usable:
  assumes "\<forall>r\<in>set rs. region_ok r \<and> (r_kind r = MEM_USABLE \<longrightarrow> unat (base_paddr s) \<le> unat (r_base r))"
    and "base_paddr s mod 4096 = 0"
  shows "free_set (free_usable rs s) = free_set s \<union>
    {p. p < total_pages s \<and> (\<exists>r\<in>set rs. r_kind r = MEM_USABLE \<and> page_inside (unat (base_paddr s)) r p)}"
  using assms
proof (induction rs s rule: free_usable.induct)
  case (1 s)
  then show ?case by simp
next
  case (2 r rs s)
  show ?case
  proof (cases "r_kind r = MEM_USABLE")
    case False
    with 2 show ?thesis by simp
  next
    case True
    let ?a = "PAGE_ALIGN_UP (r_base r)" and ?e = "PAGE_ALIGN_DOWN (r_base r + r_size r)"
    note rp = region_pages [of r s]
    show ?thesis
    proof (cases "?e > ?a")
      case up: True
      let ?n = "unat ((?e - ?a) div 4096)"
      let ?s1 = "mark_free (page_index s ?a) ?n s"
      have "{page_index s ?a..<page_index s ?a + ?n} = {p. page_inside (unat (base_paddr s)) r p}"
        using rp 2 True up by simp
      then have "free_set ?s1 = free_set s \<union> {p. page_inside (unat (base_paddr s)) r p \<and> p < total_pages s}"
        unfolding free_set_mark_free by blast
      then show ?thesis
        using "2.IH"(2) [of ?a ?e ?n ?s1] 2 True up by (auto simp: Let_def)
    next
      case up: False
      then have "{p. page_inside (unat (base_paddr s)) r p} = {}" using rp 2 True by simp
      then show ?thesis
        using "2.IH"(3) [of ?a ?e] 2 True up by (auto simp: Let_def)
    qed
  qed
qed

lemma place_bitmap_inside:
  assumes "place_bitmap rs bytes = a" and "a \<noteq> 0" and "\<forall>r\<in>set rs. region_ok r"
  shows "\<exists>r\<in>set rs. r_kind r = MEM_USABLE \<and> unat (r_base r) \<le> unat a \<and>
    unat a + unat bytes \<le> region_end r \<and> unat a < region_end r \<and> unat a mod 4096 = 0"
  using assms
proof (induction rs bytes rule: place_bitmap.induct)
  case (1 bytes)
  then show ?case by simp
next
  case (2 r rs bytes)
  let ?up = "PAGE_ALIGN_UP (r_base r)"
  let ?b = "if ?up = 0 then 4096 else ?up"
  show ?case
  proof (cases "r_kind r = MEM_USABLE \<and> r_base r + r_size r > ?b \<and> r_base r + r_size r - ?b \<ge> bytes")
    case True
    then have u: "r_kind r = MEM_USABLE" and a: "a = ?b" using "2.prems"(1) by (simp_all add: Let_def)
    have ok: "region_ok r" using "2.prems"(3) by simp
    have up: "unat ?up = (unat (r_base r) + 4095) div 4096 * 4096"
      using ok u by (intro unat_PAGE_ALIGN_UP) (simp add: region_ok_def)
    have ge: "unat (r_base r) \<le> unat ?up" using ceil_le [of "unat (r_base r)"] by (simp only: up)
    have "unat (r_base r) \<le> unat ?b" using ge by (cases "?up = 0") simp_all
    moreover have "unat ?b mod 4096 = 0" by (simp add: up)
    moreover have e: "unat (r_base r + r_size r) = region_end r" by (rule unat_region_end [OF ok u])
    moreover have lt: "unat ?b < region_end r" using True e by (metis word_less_nat_alt)
    moreover have "unat bytes \<le> region_end r - unat ?b"
      using True e by (metis unat_sub word_le_nat_alt order.strict_implies_order)
    ultimately show ?thesis using u a by (intro bexI [of _ r]) auto
  next
    case False
    then have "place_bitmap rs bytes = a" using "2.prems"(1) by (auto simp: Let_def split: if_splits)
    moreover have "\<exists>r\<in>set rs. r_kind r = MEM_USABLE \<and> unat (r_base r) \<le> unat a \<and>
      unat a + unat bytes \<le> region_end r \<and> unat a < region_end r \<and> unat a mod 4096 = 0"
      if "r_kind r = MEM_USABLE" and "\<not> (r_base r + r_size r > ?b \<and> r_base r + r_size r - ?b \<ge> bytes)"
        and "place_bitmap rs bytes = a"
      using "2.IH"(2) [of ?up "r_base r + r_size r" ?b] that 2 by auto
    ultimately show ?thesis using False "2.IH"(1) "2.prems" by auto
  qed
qed

text \<open>Pages that hold part of the bitmap.\<close>

definition page_of_bitmap :: "pmm \<Rightarrow> nat \<Rightarrow> bool" where
  "page_of_bitmap s p \<longleftrightarrow>
     unat (base_paddr s) + p * 4096 < unat (bitmap_base s) + bitmap_bytes s \<and>
     unat (bitmap_base s) < unat (base_paddr s) + p * 4096 + 4096"

lemma bitmap_bytes_frame [simp]:
  "bitmap_bytes (bit_set p s) = bitmap_bytes s" "bitmap_bytes (bit_clear p s) = bitmap_bytes s"
  by (simp_all add: bit_set_def bit_clear_def)

lemma bitmap_bytes_mark_used [simp]: "bitmap_bytes (mark_used p n s) = bitmap_bytes s"
  by (induction p n s rule: mark_used.induct) simp_all

lemma bitmap_bytes_mark_free [simp]: "bitmap_bytes (mark_free p n s) = bitmap_bytes s"
  by (induction p n s rule: mark_free.induct) simp_all

lemma bitmap_bytes_free_usable [simp]: "bitmap_bytes (free_usable rs s) = bitmap_bytes s"
  by (induction rs s rule: free_usable.induct) (simp_all add: Let_def)

lemma free_set_all_ones:
  assumes "\<And>i. i < (total_pages s + 7) div 8 \<Longrightarrow> bitmap s i = 255"
  shows "free_set s = {}"
proof -
  have "bit_test s p" if "p < total_pages s" for p
  proof -
    have "p div 8 < (total_pages s + 7) div 8" using that by (simp add: div_less_iff_less_mult)
    moreover have "bit (mask 8 :: u8) (p mod 8)" by (simp only: bit_mask_iff) simp
    ultimately show ?thesis using assms by (simp add: bit_test_bit mask_eq_exp_minus_1)
  qed
  then show ?thesis by (auto simp: free_set_def)
qed

text \<open>The parts of \<^verbatim>\<open>pmm_init\<close>, for a call that does not panic.\<close>

lemma pmm_init_cases:
  assumes "pmm_init regions mem0 = Inr s"
  obtains lowest highest base tot bytes phys s0 s2 where
    "usable_span regions (NOT 0) 0 = (lowest, highest)" "highest \<noteq> 0"
    "base = PAGE_ALIGN_DOWN lowest" "tot = unat ((PAGE_ALIGN_UP highest - base) div 4096)"
    "bytes = (tot + 7) div 8" "phys = place_bitmap regions (of_nat bytes)" "phys \<noteq> 0"
    "free_set s0 = {}" "free_pages s0 = 0" "total_pages s0 = tot" "base_paddr s0 = base"
    "bitmap_base s0 = phys" "bitmap_bytes s0 = bytes" "search_hint s0 = 0"
    "s2 = mark_used (page_index s0 phys) (unat (PAGE_ALIGN_UP (of_nat bytes) div 4096)) (free_usable regions s0)"
    "s = (if base = 0 then mark_used 0 1 s2 else s2)\<lparr>search_hint := 0\<rparr>"
proof -
  obtain lowest highest where sp: "usable_span regions (NOT 0) 0 = (lowest, highest)"
    by (cases "usable_span regions (NOT 0) 0")
  define base where "base = PAGE_ALIGN_DOWN lowest"
  define tot where "tot = unat ((PAGE_ALIGN_UP highest - base) div 4096)"
  define bytes where "bytes = (tot + 7) div 8"
  define phys where "phys = place_bitmap regions (of_nat bytes)"
  define s0 where "s0 = \<lparr>bitmap = kmemset (\<lambda>i. mem0 (phys + of_nat i)) 0 255 bytes,
    bitmap_bytes = bytes, total_pages = tot, usable_pages = 0, free_pages = 0, base_paddr = base,
    bitmap_base = phys, search_hint = 0, ram = mem0\<rparr>"
  have "free_set s0 = {}"
    by (rule free_set_all_ones) (simp add: s0_def kmemset_nth bytes_def)
  moreover have "page_index (free_usable regions s0) phys = page_index s0 phys"
    by (simp add: page_index_def)
  moreover have "highest \<noteq> 0" "phys \<noteq> 0"
    and "s = (let s1 = free_usable regions s0;
        s2 = mark_used (page_index s1 phys) (unat (PAGE_ALIGN_UP (of_nat bytes) div 4096)) s1
      in (if base = 0 then mark_used 0 1 s2 else s2)\<lparr>search_hint := 0\<rparr>)"
    using assms
    unfolding pmm_init_def sp s0_def
    by (simp_all add: Let_def base_def tot_def bytes_def phys_def split: if_splits)
  ultimately show ?thesis
    by (intro that [OF sp _ base_def tot_def bytes_def phys_def, of s0]) (simp_all add: s0_def Let_def)
qed

lemma page_of_bitmap_iff:
  assumes "unat (base_paddr s) = b * 4096" "unat (bitmap_base s) = P * 4096" "b \<le> P"
  shows "page_of_bitmap s p \<longleftrightarrow> P - b \<le> p \<and> p < P - b + (bitmap_bytes s + 4095) div 4096"
proof -
  have "page_of_bitmap s p \<longleftrightarrow> P \<le> b + p \<and> (b + p - P) * 4096 < bitmap_bytes s"
  proof (cases "P \<le> b + p")
    case True
    then obtain d where "b + p = P + d" using le_Suc_ex by blast
    then have "b * 4096 + p * 4096 = P * 4096 + d * 4096" "b + p - P = d"
      by (metis add_mult_distrib) (simp add: \<open>b + p = P + d\<close>)
    then show ?thesis
      unfolding page_of_bitmap_def assms(1,2) using True by auto
  next
    case False
    then show ?thesis unfolding page_of_bitmap_def assms(1,2) by auto
  qed
  also have "\<dots> \<longleftrightarrow> P \<le> b + p \<and> b + p - P < (bitmap_bytes s + 4095) div 4096"
    by (metis ceil_le not_le)
  finally show ?thesis using assms(3) by auto
qed

text \<open>The same in page numbers: memory starts at page \<open>b\<close> and ends before page \<open>H\<close>, and the
  bitmap starts at page \<open>P\<close>.\<close>

lemma pmm_init_geometry:
  assumes ok: "\<forall>r\<in>set regions. region_ok r" and init: "pmm_init regions mem0 = Inr s"
  obtains b H P s0 s2 where
    "unat (base_paddr s) = b * 4096" "unat (bitmap_base s) = P * 4096" "b \<le> P" "P < H"
    "total_pages s = H - b" "H * 4096 < 2 ^ 64" "search_hint s = 0"
    "\<And>r. r \<in> set regions \<Longrightarrow> r_kind r = MEM_USABLE \<Longrightarrow>
      b * 4096 \<le> unat (r_base r) \<and> region_end r \<le> H * 4096"
    "free_set s0 = {}" "free_pages s0 = 0" "total_pages s0 = H - b" "base_paddr s0 = base_paddr s"
    "s2 = mark_used (P - b) ((bitmap_bytes s + 4095) div 4096) (free_usable regions s0)"
    "s = (if base_paddr s = 0 then mark_used 0 1 s2 else s2)\<lparr>search_hint := 0\<rparr>"
  using init
proof (cases rule: pmm_init_cases)
  case (1 lowest highest base tot bytes phys s0 s2)
  define b where "b = unat lowest div 4096"
  define H where "H = (unat highest + 4095) div 4096"
  have "unat (0 :: u64) + 4095 < 2 ^ 64" by simp
  note bounds = usable_span_bounds [OF ok 1(1) this]
  have span: "unat highest + 4095 < 2 ^ 64" using bounds by (elim conjE)
  have inspan: "\<And>r. r \<in> set regions \<Longrightarrow> r_kind r = MEM_USABLE \<Longrightarrow>
      unat lowest \<le> unat (r_base r) \<and> region_end r \<le> unat highest"
    using bounds by (elim conjE) blast
  obtain r where r: "r \<in> set regions" "r_kind r = MEM_USABLE" "unat (r_base r) \<le> unat phys"
      "unat phys < region_end r" "unat phys mod 4096 = 0"
    using place_bitmap_inside [OF 1(6) [symmetric] 1(7) ok] by (elim bexE conjE) (rule that; assumption)
  define P where "P = unat phys div 4096"
  have ub: "unat base = b * 4096" by (simp only: 1(3) unat_PAGE_ALIGN_DOWN b_def)
  have uH: "unat (PAGE_ALIGN_UP highest) = H * 4096"
    unfolding H_def by (rule unat_PAGE_ALIGN_UP [OF span])
  have uP: "unat phys = P * 4096" using r(5) by (simp add: P_def minus_mod_eq_div_mult [symmetric])
  have blow: "b * 4096 \<le> unat lowest" unfolding b_def by (rule div_times_less_eq_dividend)
  have Hhigh: "unat highest \<le> H * 4096" unfolding H_def by (rule iffD1 [OF ceil_le order_refl])
  have bP: "b * 4096 \<le> P * 4096" "P * 4096 < H * 4096" "H * 4096 < 18446744073709551616"
    using blow Hhigh inspan [OF r(1,2)] r(3,4) uP uH unat_u64_lt [of "PAGE_ALIGN_UP highest"] by linarith+
  then have bH: "b \<le> P" "P < H" by simp_all
  have "base \<le> PAGE_ALIGN_UP highest" "base \<le> phys" using bP by (simp_all add: word_le_nat_alt ub uH uP)
  then have tot: "tot = H - b" and idx: "page_index s0 phys = P - b"
    using pages_diff [of H b] pages_diff [of P b]
    by (simp_all only: 1(4,11) page_index_def unat_div_distrib unat_sub ub uH uP unat_page_size)
  have "(n + 7) div 8 \<le> n" if "0 < n" for n :: nat using that by presburger
  from this [of tot] have "bytes \<le> H" using bH by (simp only: 1(5)) (simp add: tot)
  then have bytes: "unat (of_nat bytes :: u64) = bytes" "bytes + 4095 < 2 ^ 64"
    using bP(3) by (simp_all add: unat_of_nat_u64)
  have N: "unat (PAGE_ALIGN_UP (of_nat bytes) div 4096) = (bytes + 4095) div 4096"
    using unat_PAGE_ALIGN_UP [of "of_nat bytes"] bytes by (simp add: unat_div_distrib)
  have s: "base_paddr s = base" "bitmap_base s = phys" "bitmap_bytes s = bytes" "total_pages s = tot"
      "search_hint s = 0"
    using 1(10-16) by simp_all
  show ?thesis
  proof (rule that [of b P H s0 s2])
    show "b * 4096 \<le> unat (r_base r) \<and> region_end r \<le> H * 4096"
      if "r \<in> set regions" "r_kind r = MEM_USABLE" for r
      using inspan [OF that] blow Hhigh by simp
    show "s = (if base_paddr s = 0 then mark_used 0 1 s2 else s2)\<lparr>search_hint := 0\<rparr>"
      using 1(16) s(1) by simp
    show "s2 = mark_used (P - b) ((bitmap_bytes s + 4095) div 4096) (free_usable regions s0)"
      by (simp only: 1(15) idx N s(3))
    show "H * 4096 < 2 ^ 64" using bP(3) by simp
  qed (simp_all add: s ub uP bH tot 1(8-11))
qed

text \<open>After start-up the allocator is consistent, and the free pages are exactly those that lie
  wholly inside a usable region and hold neither the bitmap nor address zero.\<close>

lemma pmm_init_correct:
  assumes ok: "\<forall>r\<in>set regions. region_ok r" and init: "pmm_init regions mem0 = Inr s"
  shows "pmm_inv s \<and> free_set s =
    {p. (\<exists>r\<in>set regions. r_kind r = MEM_USABLE \<and> page_inside (unat (base_paddr s)) r p)
      \<and> \<not> page_of_bitmap s p \<and> unat (base_paddr s) + p * 4096 \<noteq> 0}"
  using ok init
proof (cases rule: pmm_init_geometry)
  case (1 b H P s0 s2)
  let ?I = "{p. \<exists>r\<in>set regions. r_kind r = MEM_USABLE \<and> page_inside (unat (base_paddr s)) r p}"
  have al: "base_paddr s mod 4096 = 0" by (simp add: word_unat_eq_iff unat_mod_distrib 1(1))
  have inside_lt: "p < H - b" if "r \<in> set regions" "r_kind r = MEM_USABLE" "page_inside (unat (base_paddr s)) r p" for r p
  proof -
    have "(b + p + 1) * 4096 \<le> H * 4096"
      using that(3) 1(8) [OF that(1,2)] by (simp add: page_inside_def 1(1))
    then show ?thesis using 1(3,4) unfolding mult_le_cancel2 by linarith
  qed
  have "\<forall>r\<in>set regions. region_ok r \<and> (r_kind r = MEM_USABLE \<longrightarrow> unat (base_paddr s0) \<le> unat (r_base r))"
    using ok 1(1,8,12) by metis
  then have fu: "free_set (free_usable regions s0) = ?I"
    using free_set_free_usable [of regions s0] al 1(9,11,12) inside_lt by auto
  have bm: "{p. page_of_bitmap s p} = {P - b..<P - b + (bitmap_bytes s + 4095) div 4096}"
    by (rule set_eqI) (simp only: mem_Collect_eq page_of_bitmap_iff [OF 1(1-3)] atLeastLessThan_iff)
  have f2: "free_set s2 = ?I - {p. page_of_bitmap s p}"
    unfolding 1(13) free_set_mark_used fu bm ..
  have zero: "unat (base_paddr s) + p * 4096 = 0 \<longleftrightarrow> base_paddr s = 0 \<and> p = 0" for p
    by (simp add: word_unat_eq_iff)
  have fm: "free_set (mark_used 0 (Suc 0) s2) = free_set s2 - {0}"
    by (simp only: free_set_mark_used) auto
  have fs1: "free_set s = (if base_paddr s = 0 then free_set s2 - {0} else free_set s2)"
    by (subst 1(14)) (simp add: fm del: mark_used.simps)
  then have fs: "free_set s = {p. p \<in> ?I \<and> \<not> page_of_bitmap s p \<and> unat (base_paddr s) + p * 4096 \<noteq> 0}"
    unfolding zero f2 by auto
  have "free_pages s2 = card (free_set s2)"
    unfolding 1(13) by (intro mark_used_count free_usable_count) (simp add: 1(9,10))
  moreover have "free_pages s = (if base_paddr s = 0 then free_pages (mark_used 0 1 s2) else free_pages s2)"
    by (subst 1(14)) (simp del: mark_used.simps)
  ultimately have cnt: "free_pages s = card (free_set s)"
    using mark_used_count [of s2 0 "Suc 0"] fs1 fm by (simp del: mark_used.simps)
  have "b * 4096 + (H - b) * 4096 < 2 ^ 64"
    using 1(3,4,6) by (simp add: diff_mult_distrib)
  moreover have "base_paddr s = 0 \<longrightarrow> 0 \<notin> free_set s" using fs zero [of 0] by simp
  ultimately have "pmm_inv s"
    using cnt al 1(3,4) unfolding pmm_inv_def 1(1,5,7) by simp
  with fs show ?thesis by simp
qed

section \<open>Reachable states\<close>

text \<open>Every state the allocator can be in: after start-up on a sane memory map, any sequence of
  allocations and of frees that do not panic.\<close>

inductive pmm_reachable :: "pmm \<Rightarrow> bool" where
  start: "\<forall>r\<in>set regions. region_ok r \<Longrightarrow> pmm_init regions mem0 = Inr s \<Longrightarrow> pmm_reachable s"
| alloc: "pmm_reachable s \<Longrightarrow> pmm_alloc_pages n s = (a, s') \<Longrightarrow> pmm_reachable s'"
| below: "pmm_reachable s \<Longrightarrow> pmm_alloc_page_below limit s = (a, s') \<Longrightarrow> pmm_reachable s'"
| free: "pmm_reachable s \<Longrightarrow> pmm_free_pages a n s = Inr s' \<Longrightarrow> pmm_reachable s'"

text \<open>A page below the limit: the first free page whose end does not pass it.\<close>

lemma below_scan_cases:
  assumes inv: "pmm_inv s"
  shows "i + left = total_pages s \<Longrightarrow>
    (case below_scan s limit left i of
       Some p \<Rightarrow> p \<in> free_set s \<and> unat (page_addr s p) + 4096 \<le> unat limit
     | None \<Rightarrow> \<forall>p\<in>free_set s. i \<le> p \<longrightarrow> unat limit < unat (page_addr s p) + 4096)"
proof (induction left arbitrary: i)
  case 0
  then show ?case by (auto dest: free_set_lt)
next
  case (Suc left)
  have i: "i < total_pages s" using Suc.prems by simp
  have "unat (page_addr s i) + 4096 < 18446744073709551616"
    using i inv unat_page_addr [OF inv i] by (simp add: pmm_inv_def)
  then have e: "unat (page_addr s i + 4096) = unat (page_addr s i) + 4096"
    by (simp add: unat_word_ariths)
  consider (past) "unat limit < unat (page_addr s i) + 4096"
    | (used) "unat (page_addr s i) + 4096 \<le> unat limit" "bit_test s i"
    | (hit) "unat (page_addr s i) + 4096 \<le> unat limit" "\<not> bit_test s i" by linarith
  then show ?case
  proof cases
    case past
    have "unat limit < unat (page_addr s p) + 4096" if "p \<in> free_set s" "i \<le> p" for p
      using past that i by (simp add: unat_page_addr [OF inv] free_set_lt)
    with past e show ?thesis by (simp add: word_less_nat_alt)
  next
    case used
    then have later: "Suc i \<le> p" if "p \<in> free_set s" "i \<le> p" for p
      using that by (cases "i = p") (auto simp: free_set_def)
    have "below_scan s limit (Suc left) i = below_scan s limit left (Suc i)"
      using used e by (simp add: word_less_nat_alt)
    then show ?thesis
      using Suc.IH [of "Suc i"] Suc.prems later by (auto split: option.splits)
  next
    case hit
    with e i show ?thesis by (simp add: word_less_nat_alt free_set_def)
  qed
qed

lemma pmm_alloc_page_below_cases:
  assumes "pmm_inv s" and "pmm_alloc_page_below limit s = (a, s')"
  obtains (none) "a = 0" "s' = s" "\<forall>p\<in>free_set s. unat limit < unat (page_addr s p) + 4096"
  | (page) p where "a = page_addr s p" "a \<noteq> 0" "p \<in> free_set s" "unat a + 4096 \<le> unat limit"
      "free_set s' = free_set s - {p}" "pmm_inv s'"
proof (cases "below_scan s limit (total_pages s) 0")
  case None
  with assms(2) below_scan_cases [OF assms(1), of 0 "total_pages s" limit] show ?thesis
    by (intro none) (simp_all add: pmm_alloc_page_below_def)
next
  case (Some p)
  have p: "p \<in> free_set s" "unat (page_addr s p) + 4096 \<le> unat limit"
    using below_scan_cases [OF assms(1), of 0 "total_pages s" limit] Some by simp_all
  have r: "a = page_addr s p" and s': "s' = clear_pages (page_addr s p) 1 (mark_used p 1 s)"
    using assms(2) Some by (auto simp: pmm_alloc_page_below_def simp del: mark_used.simps)
  have fs: "free_set s' = free_set s - {p}"
    unfolding s' by (simp only: free_set_updates free_set_mark_used) auto
  have "pmm_inv s'"
  proof (rule pmm_inv_shrink [OF assms(1)])
    show "free_pages s' = card (free_set s')"
      using assms(1) mark_used_count [of s p 1] unfolding s' pmm_inv_def by (simp del: mark_used.simps)
  qed (use fs assms(1) in \<open>auto simp: s' pmm_inv_def simp del: mark_used.simps\<close>)
  then show ?thesis
    using page p fs page_addr_nonzero [OF assms(1) p(1)] by (simp add: r)
qed

lemma pmm_free_pages_inv:
  assumes "pmm_inv s" and "pmm_free_pages a n s = Inr s'"
  shows "pmm_inv s'"
proof -
  have a: "a \<noteq> 0" "a mod 4096 = 0" and s': "s' = mark_free (page_index s a) n s"
    using assms(2) by (simp_all add: pmm_free_pages_def Let_def split: if_splits)
  have "0 < page_index s a" if "base_paddr s = 0"
  proof -
    have "unat a mod 4096 = 0" using a(2) by (simp add: word_unat_eq_iff unat_mod_distrib)
    moreover have "unat a \<noteq> 0" using a(1) by (simp add: word_unat_eq_iff)
    ultimately have "0 < unat a div 4096" by (metis div_greater_zero_iff mod_if neq0_conv zero_less_numeral linorder_not_less)
    then show ?thesis using that by (simp add: page_index_def unat_div_distrib)
  qed
  then show ?thesis unfolding s' by (rule pmm_inv_mark_free [OF assms(1)])
qed

section \<open>Properties\<close>

lemma pmm_reachable_invariant:
  assumes "pmm_reachable s"
  shows "pmm_inv s"
  using assms
proof induction
  case (start regions mem0 s)
  then show ?case by (simp add: pmm_init_correct)
next
  case (alloc s n a s')
  from alloc.IH alloc.hyps(2) show ?case
    by (cases rule: pmm_alloc_pages_cases) (simp_all add: alloc.IH)
next
  case (below s limit a s')
  from below.IH below.hyps(2) show ?case
    by (cases rule: pmm_alloc_page_below_cases) (simp_all add: below.IH)
next
  case (free s a n s')
  then show ?case by (simp add: pmm_free_pages_inv)
qed

text \<open>
  A machine with five pages from address zero. \<open>five s F h\<close> says which are free and where
  the next search starts.
\<close>

definition five :: "pmm \<Rightarrow> nat set \<Rightarrow> nat \<Rightarrow> bool" where
  "five s F h \<longleftrightarrow> pmm_reachable s \<and> total_pages s = 5 \<and> base_paddr s = 0 \<and> free_set s = F \<and> search_hint s = h"

lemma five_bit: "five s F h \<Longrightarrow> p < 5 \<Longrightarrow> bit_test s p \<longleftrightarrow> p \<notin> F"
  by (auto simp: five_def free_set_def)

text \<open>The search on the set of free pages alone.\<close>

fun scan_five :: "nat list \<Rightarrow> nat \<Rightarrow> nat \<Rightarrow> nat \<Rightarrow> nat \<Rightarrow> nat option" where
  "scan_five F count 0 i run = None"
| "scan_five F count (Suc left) i run =
     (let run1 = (if i \<notin> set F then 0 else run + 1) in
      if i \<in> set F \<and> run1 = count then Some i
      else if i + 1 \<ge> 5 then scan_five F count left 0 0
      else scan_five F count left (i + 1) run1)"

lemma alloc_scan_five:
  assumes "five s (set F) h" and "i < 5"
  shows "alloc_scan s n left i run = scan_five F n left i run"
  using assms(2)
proof (induction left arbitrary: i run)
  case (Suc left)
  have "total_pages s = 5" using assms(1) by (simp add: five_def)
  with Suc five_bit [OF assms(1), of i] show ?case by (simp add: Let_def)
qed simp

lemma five_alloc:
  assumes "five s (set F) h" and "h < 5" and "scan_five F 1 5 h 0 = Some i"
  shows "\<exists>s'. five s' (set (remove1 i (remdups F))) ((i + 1) mod 5)"
proof
  have sc: "alloc_scan s 1 5 h 0 = Some i" using alloc_scan_five [OF assms(1,2)] assms(3) by simp
  have "pmm_reachable (snd (pmm_alloc_pages 1 s))"
    using assms(1) pmm_reachable.alloc [of s 1] by (auto simp: five_def intro: prod.collapse [symmetric])
  moreover have "{i..<Suc i} = {i}" by auto
  ultimately show "five (snd (pmm_alloc_pages 1 s)) (set (remove1 i (remdups F))) ((i + 1) mod 5)"
    using assms(1) sc by (simp add: five_def pmm_alloc_pages_def Let_def free_set_mark_used clear_pages_def [symmetric] del: mark_used.simps)
qed

lemma five_free:
  assumes "five s F h" and "0 < p" "p < 5"
  shows "\<exists>s'. five s' (insert p F) h"
proof -
  have inv: "pmm_inv s" and p: "p < total_pages s" "p + 1 \<le> total_pages s"
    using assms by (simp_all add: five_def pmm_reachable_invariant)
  have "page_addr s p \<noteq> 0"
    using unat_page_addr [OF inv p(1)] assms(2) by (auto simp: word_unat_eq_iff)
  then have "pmm_free_pages (page_addr s p) 1 s = Inr (mark_free p 1 s)"
    by (rule pmm_free_pages_owned [OF inv p(1) _ p(2)])
  moreover have "{q \<in> {p..<p + 1}. q < 5} = {p}" using assms(3) by auto
  ultimately have "five (mark_free p 1 s) (insert p F) h"
    using assms(1) pmm_reachable.free [of s]
    by (auto simp: five_def free_set_mark_free simp del: mark_free.simps)
  then show ?thesis ..
qed

lemma five_init:
  "\<exists>s. pmm_init [\<lparr>r_base = 0, r_size = 0x5000, r_kind = MEM_USABLE\<rparr>] (\<lambda>_. 0) = Inr s \<and> total_pages s = 5 \<and>
     base_paddr s = 0 \<and> search_hint s = 0 \<and> bitmap_bytes s = 1 \<and> bitmap_base s = 4096"
  by (simp add: pmm_init_def Let_def PAGE_ALIGN_UP_def PAGE_ALIGN_DOWN_def page_index_def
        word_greater_zero_iff del: mark_free.simps mark_used.simps)

lemma five_start: "\<exists>s. five s {2, 3, 4} 0"
proof -
  let ?rs = "[\<lparr>r_base = 0, r_size = 0x5000, r_kind = MEM_USABLE\<rparr>]"
  obtain s where s: "pmm_init ?rs (\<lambda>_. 0) = Inr s" "total_pages s = 5" "base_paddr s = 0"
    "search_hint s = 0" "bitmap_bytes s = 1" "bitmap_base s = 4096" using five_init by blast
  have ok: "\<forall>r\<in>set ?rs. region_ok r" by (simp add: region_ok_def)
  have "free_set s = {p. p * 4096 + 4096 \<le> 20480 \<and> \<not> (p * 4096 < 4097 \<and> 4096 < p * 4096 + 4096) \<and> p \<noteq> 0}"
    using pmm_init_correct [OF ok s(1)] s
    by (simp add: page_inside_def page_of_bitmap_def region_end_def)
  also have "\<dots> = {2, 3, 4}" by auto
  finally show ?thesis
    using s pmm_reachable.start [OF ok s(1)] by (auto simp: five_def)
qed



text \<open>C29: Start-up on a memory map whose usable regions do not wrap leaves free exactly the pages
  that lie wholly inside a usable region, except those that hold the bitmap and the page
  at address zero. So nothing outside usable memory is ever given out, nothing usable is
  lost, and the allocator does not hand out the memory it stands on.\<close>

theorem pmm_init_frees_exactly:
  assumes "\<forall>r\<in>set regions. r_kind r = MEM_USABLE \<longrightarrow> unat (r_base r) + unat (r_size r) + 4095 < 2 ^ 64"
    and "pmm_init regions mem0 = Inr s"
  shows "{p. p < total_pages s \<and> \<not> bit_test s p} =
    {p. (\<exists>r\<in>set regions. r_kind r = MEM_USABLE \<and> unat (r_base r) \<le> unat (base_paddr s) + p * 4096 \<and>
           unat (base_paddr s) + p * 4096 + 4096 \<le> unat (r_base r) + unat (r_size r))
      \<and> \<not> (unat (base_paddr s) + p * 4096 < unat (bitmap_base s) + bitmap_bytes s \<and>
           unat (bitmap_base s) < unat (base_paddr s) + p * 4096 + 4096)
      \<and> unat (base_paddr s) + p * 4096 \<noteq> 0}"
proof -
  have "\<forall>r\<in>set regions. region_ok r" using assms(1) by (simp add: region_ok_def)
  from pmm_init_correct [OF this assms(2)] show ?thesis
    by (simp add: free_set_def page_inside_def page_of_bitmap_def region_end_def)
qed

theorem pmm_init_frees_exactly_witness:
  "\<exists>s. pmm_init [\<lparr>r_base = 0, r_size = 0x5000, r_kind = MEM_USABLE\<rparr>] (\<lambda>_. 0) = Inr s \<and>
     {p. p < total_pages s \<and> \<not> bit_test s p} = {2, 3, 4}"
proof -
  let ?rs = "[\<lparr>r_base = 0, r_size = 0x5000, r_kind = MEM_USABLE\<rparr>] :: mem_region list"
  have ok: "\<forall>r\<in>set ?rs. r_kind r = MEM_USABLE \<longrightarrow> unat (r_base r) + unat (r_size r) + 4095 < 2 ^ 64" by simp
  obtain s where s: "pmm_init ?rs (\<lambda>_. 0) = Inr s" "base_paddr s = 0" "bitmap_bytes s = 1" "bitmap_base s = 4096"
    using five_init by blast
  have "{p. p < total_pages s \<and> \<not> bit_test s p}
    = {p. p * 4096 + 4096 \<le> 20480 \<and> \<not> (p * 4096 < 4097 \<and> 4096 < p * 4096 + 4096) \<and> p \<noteq> 0}"
    using pmm_init_frees_exactly [OF ok s(1)] s by simp
  also have "\<dots> = {2, 3, 4}" by auto
  finally show ?thesis using s(1) by blast
qed

text \<open>C28: When \<^verbatim>\<open>pmm_alloc_pages\<close> returns an address, it is the address of a run of \<open>count\<close> pages
  that were all free; exactly those pages become used and the count of free pages falls by
  \<open>count\<close>; every byte of the run is zero and no byte outside it changed; and the invariant
  still holds.\<close>

theorem pmm_alloc_pages_sound:
  assumes "pmm_inv s" and "pmm_alloc_pages count s = (a, s')" and "a \<noteq> 0"
  shows "\<exists>st. a = page_addr s st \<and> {st..<st + count} \<subseteq> free_set s \<and>
    free_set s' = free_set s - {st..<st + count} \<and> free_pages s' + count = free_pages s \<and>
    (\<forall>x. ram s' x = (if unat (x - a) < count * 4096 then 0 else ram s x)) \<and> pmm_inv s'"
  using assms(1,2)
proof (cases rule: pmm_alloc_pages_cases)
  case none
  with assms(3) show ?thesis by simp
next
  case (run st)
  then show ?thesis by (intro exI [of _ st]) (simp add: free_run_def)
qed

theorem pmm_alloc_pages_sound_witness:
  "\<exists>s a s' st. pmm_inv s \<and> pmm_alloc_pages 1 s = (a, s') \<and> a \<noteq> 0 \<and> a = page_addr s st \<and>
     st \<in> free_set s \<and> free_set s' = free_set s - {st}"
proof -
  obtain s where f: "five s {2, 3, 4} 0" using five_start by blast
  have inv: "pmm_inv s" using f by (simp add: five_def pmm_reachable_invariant)
  obtain a s' where al: "pmm_alloc_pages 1 s = (a, s')" by (cases "pmm_alloc_pages 1 s")
  have "a \<noteq> 0"
    using pages.alloc_none [OF inv, of s'] al f
    by (auto simp: pmm_alloc_page_def avail_pages_def five_def)
  moreover have "{st..<st + 1} = {st}" for st :: nat by auto
  ultimately show ?thesis using pmm_alloc_pages_sound [OF inv al] inv al by auto
qed

text \<open>C32: A request for one page fails only when no page is free, so single-page allocation never
  reports an exhaustion that is not there.\<close>

theorem pmm_alloc_page_complete:
  assumes "pmm_inv s"
  shows "fst (pmm_alloc_page s) = 0 \<longleftrightarrow> free_pages s = 0"
proof -
  obtain a s' where al: "pmm_alloc_page s = (a, s')" by (cases "pmm_alloc_page s")
  have cnt: "free_pages s = card (free_set s)" using assms by (simp add: pmm_inv_def)
  from assms al show ?thesis
    by (cases rule: pmm_alloc_page_cases) (auto simp: al cnt card_gt_0_iff)
qed

theorem pmm_alloc_page_complete_witness:
  "\<exists>s. pmm_inv s \<and> free_pages s \<noteq> 0 \<and> fst (pmm_alloc_page s) \<noteq> 0"
proof -
  obtain s where f: "five s {2, 3, 4} 0" using five_start by blast
  then have inv: "pmm_inv s" by (simp add: five_def pmm_reachable_invariant)
  have "free_set s = {2, 3, 4}" using f by (simp add: five_def)
  then have n: "free_pages s \<noteq> 0" using inv by (simp add: pmm_inv_def)
  then have "fst (pmm_alloc_page s) \<noteq> 0" using pmm_alloc_page_complete [OF inv] by simp
  with inv n show ?thesis by blast
qed

text \<open>Giving back what was allocated never panics and restores exactly the set of free pages
  there was before, for a run of any length.\<close>

theorem pmm_alloc_free_roundtrip:
  assumes "pmm_inv s" and "pmm_alloc_pages count s = (a, s1)" and "a \<noteq> 0"
  shows "\<exists>s2. pmm_free_pages a count s1 = Inr s2 \<and> free_set s2 = free_set s \<and>
    free_pages s2 = free_pages s \<and> pmm_inv s2"
  using assms(1,2)
proof (cases rule: pmm_alloc_pages_cases)
  case none
  with assms(3) show ?thesis by simp
next
  case (run st)
  have lt: "q < total_pages s" if "q \<in> {st..<st + count}" for q
    using run(4) that free_set_lt by (auto simp: free_run_def)
  have top: "st + count \<le> total_pages s1" using lt [of "st + count - 1"] run(3,10) by simp linarith
  have a: "a = page_addr s1 st" using run(1) page_addr_cong [OF run(11)] by simp
  have fr: "pmm_free_pages a count s1 = Inr (mark_free st count s1)"
    unfolding a by (rule pmm_free_pages_owned) (use run a top in auto)
  have "free_set (mark_free st count s1) = free_set s"
    using run(4,5,10) lt by (auto simp: free_set_mark_free free_run_def)
  moreover have inv: "pmm_inv (mark_free st count s1)" by (rule pmm_free_pages_inv [OF run(6) fr])
  ultimately show ?thesis
    using fr assms(1) by (auto simp: pmm_inv_def)
qed

theorem pmm_alloc_free_roundtrip_witness:
  "\<exists>s a s1 s2. pmm_alloc_pages 1 s = (a, s1) \<and> a \<noteq> 0 \<and> pmm_free_pages a 1 s1 = Inr s2 \<and> free_set s2 = {2, 3, 4}"
proof -
  obtain s where f: "five s {2, 3, 4} 0" using five_start by blast
  then have inv: "pmm_inv s" by (simp add: five_def pmm_reachable_invariant)
  obtain a s' where al: "pmm_alloc_pages 1 s = (a, s')" by (cases "pmm_alloc_pages 1 s")
  have "a \<noteq> 0"
    using pages.alloc_none [OF inv, of s'] al f
    by (auto simp: pmm_alloc_page_def avail_pages_def five_def)
  then show ?thesis using pmm_alloc_free_roundtrip [OF inv al] al f by (auto simp: five_def)
qed

text \<open>A request for several pages can be refused although the pages are there. The search starts
  at the hint and stops when it comes round to it, so a run of free pages that has the hint
  inside it is never seen whole; the machine below reaches such a state by ordinary calls.\<close>

theorem pmm_alloc_pages_misses_run:
  "\<exists>s st. pmm_reachable s \<and> {st..<st + 2} \<subseteq> free_set s \<and> fst (pmm_alloc_pages 2 s) = 0"
proof -
  have take: "\<exists>s. five s (set G) k"
    if "\<exists>s. five s (set F) h" "h < 5" "scan_five F 1 5 h 0 = Some i" "remove1 i (remdups F) = G" "(i + 1) mod 5 = k"
    for F h i G k
    using that five_alloc by blast
  have give: "\<exists>s. five s (set (p # F)) h" if "\<exists>s. five s (set F) h" "0 < p" "p < 5" for F h p
    using that five_free by fastforce
  have "\<exists>s. five s (set [2, 3, 4]) 0" using five_start by simp
  then have "\<exists>s. five s (set [3, 4]) 3" by (rule take [where i = 2]) code_simp+
  then have "\<exists>s. five s (set [4]) 4" by (rule take [where i = 3]) code_simp+
  then have "\<exists>s. five s (set []) 0" by (rule take [where i = 4]) code_simp+
  then have "\<exists>s. five s (set [2]) 0" by (rule give) simp_all
  then have "\<exists>s. five s (set []) 3" by (rule take [where i = 2]) code_simp+
  then have "\<exists>s. five s (set [3]) 3" by (rule give) simp_all
  then have "\<exists>s. five s (set [2, 3]) 3" by (rule give) simp_all
  then obtain s where s: "five s (set [2, 3]) 3" ..
  have "scan_five [2, 3] 2 5 3 0 = None" by code_simp
  then have "alloc_scan s 2 5 3 0 = None" using alloc_scan_five [OF s, of 3] by simp
  then have "fst (pmm_alloc_pages 2 s) = 0" using s by (simp add: pmm_alloc_pages_def five_def)
  moreover have r: "pmm_reachable s" "free_set s = {2, 3}" using s by (simp_all add: five_def)
  moreover have "{2..<2 + 2} \<subseteq> free_set s" unfolding r(2) by auto
  ultimately show ?thesis by (intro exI conjI)
qed

text \<open>A page asked for below a limit lies wholly below it, was free and is free no longer; and
  the request is refused only when no free page ends at or below the limit.\<close>

theorem pmm_alloc_page_below_spec:
  assumes "pmm_inv s" and "pmm_alloc_page_below limit s = (a, s')"
  shows "if \<exists>p\<in>free_set s. unat (page_addr s p) + 4096 \<le> unat limit
    then \<exists>p\<in>free_set s. a = page_addr s p \<and> a \<noteq> 0 \<and> unat a + 4096 \<le> unat limit \<and>
      free_set s' = free_set s - {p} \<and> pmm_inv s'
    else a = 0 \<and> s' = s"
  using assms
proof (cases rule: pmm_alloc_page_below_cases)
  case none
  then have "\<not> (\<exists>p\<in>free_set s. unat (page_addr s p) + 4096 \<le> unat limit)"
    using linorder_not_less by blast
  with none show ?thesis by simp
next
  case (page p)
  then show ?thesis by auto
qed

theorem pmm_alloc_page_below_spec_witness:
  "\<exists>s. pmm_inv s \<and> fst (pmm_alloc_page_below 0x3000 s) \<noteq> 0 \<and> fst (pmm_alloc_page_below 0x2FFF s) = 0"
proof -
  obtain s where f: "five s {2, 3, 4} 0" using five_start by blast
  then have inv: "pmm_inv s" and fs: "free_set s = {2, 3, 4}" and b: "base_paddr s = 0"
    by (simp_all add: five_def pmm_reachable_invariant)
  have pa: "unat (page_addr s 2) = 8192" "unat (page_addr s 3) = 12288" "unat (page_addr s 4) = 16384"
    by (simp_all add: page_addr_def b)
  show ?thesis
    using pmm_alloc_page_below_spec [OF inv surjective_pairing, of "0x3000"]
      pmm_alloc_page_below_spec [OF inv surjective_pairing, of "0x2FFF"] inv
    by (intro exI [of _ s]) (auto simp: fs pa)
qed

end
