(* ===== verification/Net_Bytes.thy ===== *)
theory Net_Bytes
  imports Prelude
begin

text \<open>
  Byte order and the Internet checksum: the inline functions of
  \<^verbatim>\<open>kernel/include/recon/kernel/net.h\<close> that read and write big-endian integers at a
  pointer, and \<^verbatim>\<open>net_checksum_partial\<close>, \<^verbatim>\<open>net_checksum_finish\<close> and \<^verbatim>\<open>net_checksum\<close> of
  \<^verbatim>\<open>kernel/core/netbuf.c\<close>.

  The lemmas give the round trips, what the checksum computes as a number, and the
  property every receiver relies on: a region that carries its own checksum sums to zero.
\<close>

section \<open>Byte order\<close>

definition net_htons :: "u16 \<Rightarrow> u16" where
  "net_htons v = push_bit 8 v OR drop_bit 8 v"

definition net_htonl :: "u32 \<Rightarrow> u32" where
  "net_htonl v =
     push_bit 24 (v AND 0x000000FF) OR push_bit 8 (v AND 0x0000FF00) OR
     drop_bit 8 (v AND 0x00FF0000) OR drop_bit 24 (v AND 0xFF000000)"

definition net_get16 :: "mem \<Rightarrow> nat \<Rightarrow> u16" where
  "net_get16 m p = push_bit 8 (ucast (m p)) OR ucast (m (p + 1))"

definition net_get32 :: "mem \<Rightarrow> nat \<Rightarrow> u32" where
  "net_get32 m p = push_bit 24 (ucast (m p)) OR push_bit 16 (ucast (m (p + 1))) OR
     push_bit 8 (ucast (m (p + 2))) OR ucast (m (p + 3))"

definition net_put16 :: "mem \<Rightarrow> nat \<Rightarrow> u16 \<Rightarrow> mem" where
  "net_put16 m p v = m(p := ucast (drop_bit 8 v), p + 1 := ucast v)"

definition net_put32 :: "mem \<Rightarrow> nat \<Rightarrow> u32 \<Rightarrow> mem" where
  "net_put32 m p v = m(p := ucast (drop_bit 24 v), p + 1 := ucast (drop_bit 16 v),
     p + 2 := ucast (drop_bit 8 v), p + 3 := ucast v)"

section \<open>The Internet checksum\<close>

fun net_checksum_partial :: "mem \<Rightarrow> nat \<Rightarrow> nat \<Rightarrow> u32 \<Rightarrow> u32" where
  "net_checksum_partial m p len acc =
     (if len > 1 then net_checksum_partial m (p + 2) (len - 2) (acc + ucast (net_get16 m p))
      else if len \<noteq> 0 then acc + push_bit 8 (ucast (m p))
      else acc)"

declare net_checksum_partial.simps [simp del]

text \<open>One turn of the loop in \<^verbatim>\<open>net_checksum_finish\<close>: it folds the carries down.\<close>

definition fold_carries :: "u32 \<Rightarrow> u32" where
  "fold_carries acc = (acc AND 0xFFFF) + drop_bit 16 acc"

lemma unat_fold_carries: "unat (fold_carries s) = unat s mod 65536 + unat s div 65536"
proof -
  have "s AND 0xFFFF = take_bit 16 s"
    by (simp add: take_bit_eq_mask mask_numeral)
  then have a: "unat (s AND 0xFFFF) = unat s mod 65536"
    by (simp add: take_bit_eq_mod unat_mod_distrib)
  have b: "unat (drop_bit 16 s) = unat s div 65536"
    by (simp add: drop_bit_eq_div unat_div_distrib)
  have "unat s mod 65536 + unat s div 65536 < 4294967296"
    using unat_u32_lt [of s] by (auto simp: less_mult_imp_div_less intro: add_strict_mono
      le_less_trans [OF add_mono [of _ 65535 _ 65535]])
  then show ?thesis
    by (simp add: fold_carries_def unat_word_ariths a b)
qed

function net_checksum_fold :: "u32 \<Rightarrow> u32" where
  "net_checksum_fold acc = (if drop_bit 16 acc \<noteq> 0 then net_checksum_fold (fold_carries acc) else acc)"
  by pat_completeness auto
termination
proof (relation "measure unat")
  fix s :: u32
  assume "drop_bit 16 s \<noteq> 0"
  then have "0 < unat s div 65536"
    by (simp add: word_unat_eq_iff drop_bit_eq_div unat_div_distrib)
  then have "unat s mod 65536 + unat s div 65536 < unat s"
    using div_mult_mod_eq [of "unat s" 65536] by linarith
  then show "(fold_carries s, s) \<in> measure unat"
    by (simp add: unat_fold_carries)
qed simp

declare net_checksum_fold.simps [simp del]

definition net_checksum_finish :: "u32 \<Rightarrow> u16" where
  "net_checksum_finish acc = ucast (NOT (net_checksum_fold acc) AND 0xFFFF)"

definition net_checksum :: "mem \<Rightarrow> nat \<Rightarrow> nat \<Rightarrow> u16" where
  "net_checksum m p len = net_checksum_finish (net_checksum_partial m p len 0)"

section \<open>Reading back what was written\<close>

lemma net_get16_put16 [simp]: "net_get16 (net_put16 m p v) p = v"
  by (rule bit_word_eqI) (auto simp: net_get16_def net_put16_def bit_simps)

lemma net_get32_put32 [simp]: "net_get32 (net_put32 m p v) p = v"
proof (rule bit_word_eqI)
  fix n assume "n < LENGTH(32)"
  then consider "n < 8" | "8 \<le> n" "n < 16" | "16 \<le> n" "n < 24" | "24 \<le> n" "n < 32"
    by fastforce
  then show "bit (net_get32 (net_put32 m p v) p) n \<longleftrightarrow> bit v n"
    by cases (auto simp: net_get32_def net_put32_def bit_simps)
qed

lemma net_put16_other [byte_simps]: "q < p \<or> p + 1 < q \<Longrightarrow> net_put16 m p v q = m q"
  by (auto simp: net_put16_def)

lemma net_put32_other [byte_simps]: "q < p \<or> p + 3 < q \<Longrightarrow> net_put32 m p v q = m q"
  by (auto simp: net_put32_def)

lemma net_get16_cong: "m p = m' p' \<Longrightarrow> m (p + 1) = m' (p' + 1) \<Longrightarrow> net_get16 m p = net_get16 m' p'"
  by (simp add: net_get16_def)

lemma net_get32_cong:
  "m p = m' p' \<Longrightarrow> m (p + 1) = m' (p' + 1) \<Longrightarrow> m (p + 2) = m' (p' + 2) \<Longrightarrow> m (p + 3) = m' (p' + 3) \<Longrightarrow>
   net_get32 m p = net_get32 m' p'"
  by (simp add: net_get32_def)

lemma net_htons_involution: "net_htons (net_htons v) = v"
  by (rule bit_word_eqI) (auto simp: net_htons_def bit_simps)

lemma unat_net_get16: "unat (net_get16 m p) = 256 * unat (m p) + unat (m (p + 1))"
proof -
  let ?a = "push_bit 8 (ucast (m p)) :: u16" and ?b = "ucast (m (p + 1)) :: u16"
  have "?a AND ?b = 0"
    by (rule bit_word_eqI) (auto simp: bit_simps dest: bit_imp_le_length)
  then have "?a OR ?b = ?a + ?b"
    by (simp add: disjunctive_add_eq_or)
  moreover have "unat ?a = 256 * unat (m p)"
    using unat_u8_lt [of "m p"] by (simp add: push_bit_eq_mult unat_word_ariths)
  moreover have "unat ?b = unat (m (p + 1))"
    by simp
  moreover have "256 * unat (m p) + unat (m (p + 1)) < 65536"
    using unat_u8_lt [of "m p"] unat_u8_lt [of "m (p + 1)"] by linarith
  ultimately show ?thesis
    by (simp add: net_get16_def unat_word_ariths)
qed


section \<open>The checksum as a number\<close>

text \<open>
  The reference: the sum of a region's 16-bit big-endian words, an odd last byte counting
  as a high half, and the one's-complement residue of such a sum.
\<close>

fun words_sum :: "u8 list \<Rightarrow> nat" where
  "words_sum [] = 0"
| "words_sum [a] = 256 * unat a"
| "words_sum (a # b # xs) = 256 * unat a + unat b + words_sum xs"

definition ones_residue :: "nat \<Rightarrow> nat" where
  "ones_residue n = (if n = 0 then 0 else (n - 1) mod 65535 + 1)"

lemma words_sum_append: "even (length xs) \<Longrightarrow> words_sum (xs @ ys) = words_sum xs + words_sum ys"
  by (induction xs rule: words_sum.induct) auto

lemma words_sum_bound: "words_sum xs \<le> 65535 * ((length xs + 1) div 2)"
proof (induction xs rule: words_sum.induct)
  case (2 a)
  show ?case using unat_u8_lt [of a] by (simp del: unat_u8_lt)
next
  case (3 a b xs)
  have "256 * unat a + unat b \<le> 65535"
    using unat_u8_lt [of a] unat_u8_lt [of b] by linarith
  with 3 show ?case by simp
qed simp

lemma words_sum_two: "words_sum (bytes_at m p 2) = unat (net_get16 m p)"
  by (simp add: bytes_at_Suc numeral_2_eq_2 unat_net_get16)

lemma net_checksum_partial_sum:
  "unat acc + words_sum (bytes_at m p len) < 4294967296 \<Longrightarrow>
   unat (net_checksum_partial m p len acc) = unat acc + words_sum (bytes_at m p len)"
proof (induction m p len acc rule: net_checksum_partial.induct)
  case (1 m p len acc)
  consider "len = 0" | "len = 1" | "len > 1" by linarith
  then show ?case
  proof cases
    case 1
    then show ?thesis by (subst net_checksum_partial.simps) simp
  next
    case 2
    with "1.prems" have "unat acc + 256 * unat (m p) < 4294967296"
      by (simp add: bytes_at_Suc)
    then have "unat (acc + push_bit 8 (ucast (m p))) = unat acc + 256 * unat (m p)"
      by (simp add: push_bit_eq_mult unat_word_ariths)
    with 2 show ?thesis
      by (subst net_checksum_partial.simps) (simp add: bytes_at_Suc)
  next
    case 3
    then have "\<exists>k. len = Suc (Suc k)" by presburger
    then obtain k where len: "len = Suc (Suc k)" ..
    have sum: "words_sum (bytes_at m p len) =
        unat (net_get16 m p) + words_sum (bytes_at m (p + 2) k)"
      by (simp add: len bytes_at_Suc unat_net_get16)
    have acc: "unat (acc + ucast (net_get16 m p)) = unat acc + unat (net_get16 m p)"
      using "1.prems" sum by (simp add: unat_word_ariths)
    have "net_checksum_partial m p len acc =
        net_checksum_partial m (p + 2) (len - 2) (acc + ucast (net_get16 m p))"
      using 3 by (subst net_checksum_partial.simps) simp
    moreover have "len - 2 = k" using len by simp
    ultimately show ?thesis
      using "1.IH" [OF 3] "1.prems" sum acc by simp
  qed
qed

lemma net_checksum_fold_props:
  "unat (net_checksum_fold s) < 65536 \<and> unat (net_checksum_fold s) \<le> unat s \<and>
   unat (net_checksum_fold s) mod 65535 = unat s mod 65535 \<and>
   (net_checksum_fold s = 0 \<longleftrightarrow> s = 0)"
proof (induction s rule: net_checksum_fold.induct)
  case (1 s)
  show ?case
  proof (cases "drop_bit 16 s = 0")
    case True
    then have "unat s div 65536 = 0"
      by (simp add: word_unat_eq_iff drop_bit_eq_div unat_div_distrib)
    with True show ?thesis
      by (subst net_checksum_fold.simps, subst (2) net_checksum_fold.simps,
          subst (3) net_checksum_fold.simps, subst (4) net_checksum_fold.simps) simp
  next
    case False
    let ?q = "unat s div 65536" and ?r = "unat s mod 65536"
    have dm: "unat s = ?q * 65536 + ?r" by simp
    have q: "0 < ?q"
      using False by (simp add: word_unat_eq_iff drop_bit_eq_div unat_div_distrib)
    have f: "unat (fold_carries s) = ?r + ?q" by (rule unat_fold_carries)
    have "?q * 65536 + ?r = ?q * 65535 + (?r + ?q)" by simp
    then have "unat s mod 65535 = (?r + ?q) mod 65535"
      using dm by (metis mod_mult_self3)
    moreover have "?r + ?q \<le> unat s" using dm q by linarith
    moreover have "fold_carries s = 0 \<longleftrightarrow> s = 0"
      using f q dm by (simp add: word_unat_eq_iff)
    ultimately show ?thesis
      using "1.IH" [OF False] False f net_checksum_fold.simps [of s] by simp
  qed
qed

lemma unat_net_checksum_finish: "unat (net_checksum_finish s) = 65535 - unat (net_checksum_fold s)"
proof -
  let ?f = "net_checksum_fold s"
  have lt: "unat ?f < 65536" using net_checksum_fold_props [of s] by simp
  have m: "NOT ?f AND 0xFFFF = 0xFFFF - ?f"
  proof -
    have "take_bit 16 ?f = ?f"
      using lt by (simp add: take_bit_eq_mod word_unat_eq_iff unat_mod_distrib)
    moreover have "NOT ?f AND mask 16 = mask 16 - take_bit 16 ?f"
      by (simp add: take_bit_not_eq_mask_diff flip: take_bit_eq_mask)
    ultimately show ?thesis by (simp add: mask_numeral)
  qed
  have "unat (0xFFFF - ?f) = 65535 - unat ?f"
    using lt by (subst unat_sub) (simp_all add: word_le_nat_alt)
  then show ?thesis
    by (simp add: net_checksum_finish_def m unat_ucast_mod)
qed

lemma net_checksum_finish_eq_0: "net_checksum_finish s = 0 \<longleftrightarrow> s \<noteq> 0 \<and> 65535 dvd unat s"
proof -
  let ?f = "unat (net_checksum_fold s)"
  have f: "?f < 65536" "?f mod 65535 = unat s mod 65535" "?f = 0 \<longleftrightarrow> s = 0"
    using net_checksum_fold_props [of s] by (auto simp: word_unat_eq_iff)
  have "net_checksum_finish s = 0 \<longleftrightarrow> ?f = 65535"
    using f(1) by (simp add: word_unat_eq_iff unat_net_checksum_finish) linarith
  also have "\<dots> \<longleftrightarrow> ?f \<noteq> 0 \<and> ?f mod 65535 = 0"
  proof -
    have "?f < 65535 \<or> ?f = 65535" using f(1) by linarith
    then show ?thesis by auto
  qed
  finally show ?thesis
    using f by (auto simp: dvd_eq_mod_eq_0)
qed


lemma net_checksum_fold_residue: "unat (net_checksum_fold s) = ones_residue (unat s)"
proof (cases "s = 0")
  case True
  then show ?thesis
    using net_checksum_fold_props [of s] by (simp add: ones_residue_def)
next
  case False
  let ?f = "unat (net_checksum_fold s)" and ?r = "(unat s - 1) mod 65535 + 1"
  have f: "0 < ?f" "?f < 65536" "?f mod 65535 = unat s mod 65535"
    using net_checksum_fold_props [of s] False by (auto simp: word_unat_eq_iff)
  have pos: "0 < unat s" using False by (simp add: unat_gt_0)
  have "?f - 1 = (unat s - 1) mod 65535"
  proof -
    have le: "?f \<le> unat s" using net_checksum_fold_props [of s] by simp
    have "65535 dvd unat s - ?f"
      using f(3) mod_eq_dvd_iff_nat [OF le, of 65535] by simp
    moreover have "unat s - ?f = (unat s - 1) - (?f - 1)" using f(1) pos by linarith
    ultimately have "(unat s - 1) mod 65535 = (?f - 1) mod 65535"
      using mod_eq_dvd_iff_nat [of "?f - 1" "unat s - 1" 65535] le by simp
    moreover have "?f - 1 < 65535" using f(2) by linarith
    ultimately show ?thesis by simp
  qed
  with f(1) pos show ?thesis by (simp add: ones_residue_def)
qed

text \<open>A region with a 16-bit field in it: writing the field changes the sum by exactly
  that word.\<close>

lemma words_sum_put16:
  assumes "even off" and "off + 2 \<le> len"
  shows "words_sum (bytes_at (net_put16 m (p + off) v) p len) + unat (net_get16 m (p + off)) =
         words_sum (bytes_at m p len) + unat v"
proof -
  have split: "words_sum (bytes_at n p len) = words_sum (bytes_at n p off) +
      unat (net_get16 n (p + off)) + words_sum (bytes_at n (p + off + 2) (len - off - 2))" for n
  proof -
    obtain k where k: "len = off + (2 + k)"
      using assms(2) by (metis add.assoc le_iff_add)
    have "bytes_at n p len = bytes_at n p off @ bytes_at n (p + off) 2 @
        bytes_at n (p + off + 2) (len - off - 2)"
      unfolding k bytes_at_add by simp
    then show ?thesis
      using assms(1) by (simp add: words_sum_append words_sum_two)
  qed
  let ?n = "net_put16 m (p + off) v"
  have "bytes_at ?n p off = bytes_at m p off"
    by (rule bytes_at_cong) (simp add: net_put16_other)
  moreover have "bytes_at ?n (p + off + 2) (len - off - 2) = bytes_at m (p + off + 2) (len - off - 2)"
    by (rule bytes_at_cong) (simp add: net_put16_other)
  ultimately show ?thesis
    using split [of ?n] split [of m] by simp
qed

text \<open>
  Inserting the checksum: with the field zero, the finished checksum of the whole sum is
  written into it, and a receiver that sums everything again finds zero. \<open>acc\<close> is the
  sum of the pseudo-header (zero for IPv4 and ICMP). A computed zero may be sent as all
  ones, as UDP does.
\<close>

lemma checksum_inserted:
  fixes m p len off acc c
  defines "S \<equiv> unat acc + words_sum (bytes_at m p len)"
  assumes zero: "net_get16 m (p + off) = 0" and field: "even off" "off + 2 \<le> len"
    and room: "S + 65535 < 4294967296"
    and c: "c = net_checksum_finish (net_checksum_partial m p len acc) \<or>
      (net_checksum_finish (net_checksum_partial m p len acc) = 0 \<and> c = 0xFFFF)"
  shows "net_checksum_finish (net_checksum_partial (net_put16 m (p + off) c) p len acc) = 0"
proof -
  let ?s = "net_checksum_partial m p len acc" and ?m = "net_put16 m (p + off) c"
  have s: "unat ?s = S"
    using room unfolding S_def by (intro net_checksum_partial_sum) simp
  have sum': "unat acc + words_sum (bytes_at ?m p len) = S + unat c"
    using words_sum_put16 [OF field, of m p c] zero by (simp add: S_def)
  have cl: "unat c \<le> 65535" using unat_u16_lt [of c] by linarith
  then have s': "unat (net_checksum_partial ?m p len acc) = S + unat c"
    using sum' room by (subst net_checksum_partial_sum) simp_all
  let ?f = "unat (net_checksum_fold ?s)"
  have f: "?f \<le> S" "?f < 65536" "?f mod 65535 = S mod 65535"
    using net_checksum_fold_props [of ?s] s by auto
  have "65535 dvd S + unat c \<and> 0 < S + unat c"
    using c
  proof
    assume "c = net_checksum_finish ?s"
    then have "unat c = 65535 - ?f" by (simp add: unat_net_checksum_finish)
    then have eq: "S + unat c = (S - ?f) + 65535" using f by linarith
    moreover have "65535 dvd S - ?f" using f(3) mod_eq_dvd_iff_nat [OF f(1), of 65535] by simp
    ultimately show ?thesis by simp
  next
    assume "net_checksum_finish ?s = 0 \<and> c = 0xFFFF"
    then have "65535 dvd S" and "unat c = 65535"
      using s by (simp_all add: net_checksum_finish_eq_0)
    then show ?thesis by simp
  qed
  then show ?thesis
    using s' unfolding net_checksum_finish_eq_0 by (auto simp: word_unat_eq_iff)
qed

lemma net_checksum_partial_cong:
  "bytes_at m p len = bytes_at m' p' len \<Longrightarrow> net_checksum_partial m p len acc = net_checksum_partial m' p' len acc"
proof (induction m p len acc arbitrary: p' rule: net_checksum_partial.induct)
  case (1 m p len acc)
  have eq: "m (p + i) = m' (p' + i)" if "i < len" for i
    using 1(2) that by (metis nth_bytes_at)
  show ?case
  proof (cases "len > 1")
    case True
    then have "net_get16 m p = net_get16 m' p'"
      using eq [of 0] eq [of 1] by (intro net_get16_cong) auto
    moreover have "bytes_at m (p + 2) (len - 2) = bytes_at m' (p' + 2) (len - 2)"
      using eq [of "2 + i" for i] by (intro bytes_at_cong) (simp add: add.assoc)
    ultimately show ?thesis
      using 1(1) [OF True] True net_checksum_partial.simps [of m p len acc]
        net_checksum_partial.simps [of m' p' len acc] by simp
  next
    case False
    then show ?thesis
      using eq [of 0] net_checksum_partial.simps [of m p len acc]
        net_checksum_partial.simps [of m' p' len acc] by auto
  qed
qed

section \<open>Properties\<close>

lemma words_sum_fits: "len \<le> 65536 \<Longrightarrow> words_sum (bytes_at m p len) < 4294967296 - 65536"
proof -
  assume "len \<le> 65536"
  then have "(len + 1) div 2 \<le> 32768" by linarith
  then have "65535 * ((len + 1) div 2) \<le> 65535 * 32768" by (rule mult_le_mono2)
  with words_sum_bound [of "bytes_at m p len"] show ?thesis by simp
qed

lemma unat_net_checksum_partial_0:
  "len \<le> 65536 \<Longrightarrow> unat (net_checksum_partial m p len 0) = words_sum (bytes_at m p len)"
  using words_sum_fits [of len m p] net_checksum_partial_sum [of 0 m p len] by simp

text \<open>One byte more or less changes the sum by the byte's weight.\<close>

lemma words_sum_update:
  "i < length xs \<Longrightarrow> words_sum (xs[i := y]) + (if even i then 256 else 1) * unat (xs ! i) =
    words_sum xs + (if even i then 256 else 1) * unat y"
proof (induction xs arbitrary: i rule: words_sum.induct)
  case (3 a b xs)
  consider "i = 0" | "i = 1" | k where "i = Suc (Suc k)" by (metis One_nat_def not0_implies_Suc)
  then show ?case
  proof cases
    case 3
    then show ?thesis using "3.IH" [of k] "3.prems" by simp
  qed simp_all
qed simp_all

lemma bytes_at_upd: "i < n \<Longrightarrow> bytes_at (m(p + i := y)) p n = (bytes_at m p n)[i := y]"
  by (rule nth_equalityI) (auto simp: nth_list_update)

lemma same_mod_65535:
  fixes a b :: nat
  assumes "w * a < 65535" "w * b < 65535" "S + w * a = T + w * b" "65535 dvd S" "65535 dvd T" "0 < w"
  shows "a = b"
proof -
  have "(S + w * a) mod 65535 = w * a" "(T + w * b) mod 65535 = w * b"
    using assms(1,2,4,5) by (metis mod_add_left_eq add_0 mod_less dvd_imp_mod_0)+
  then show ?thesis using assms(3,6) by simp
qed

text \<open>C30: The Internet checksum is the one's complement of the one's complement sum of the 16-bit
  big-endian words, an odd last byte padded with zero, as RFC 1071 defines it: the carry
  folding computes the representative of the sum modulo 65535 that is zero only for an
  all-zero input. The 32-bit accumulator cannot overflow for any packet up to 64 KiB.\<close>

theorem net_checksum_is_rfc1071:
  assumes "len \<le> 65536"
  shows "unat (net_checksum m p len) = 65535 - ones_residue (words_sum (bytes_at m p len))"
  unfolding net_checksum_def
  by (simp add: unat_net_checksum_finish net_checksum_fold_residue unat_net_checksum_partial_0 [OF assms])

definition rfc1071_example :: mem where
  "rfc1071_example = store (\<lambda>_. 0) 0 [0x00, 0x01, 0xf2, 0x03, 0xf4, 0xf5, 0xf6, 0xf7]"

theorem net_checksum_is_rfc1071_witness: "net_checksum rfc1071_example 0 8 = 0x220d"
proof -
  let ?xs = "[0x00, 0x01, 0xf2, 0x03, 0xf4, 0xf5, 0xf6, 0xf7] :: u8 list"
  have n: "length ?xs = 8" by simp
  have "bytes_at rfc1071_example 0 8 = ?xs"
    using bytes_at_store [of "\<lambda>_. 0" 0 ?xs] unfolding n rfc1071_example_def .
  then show ?thesis
    using net_checksum_is_rfc1071 [of 8 rfc1071_example 0] by (simp add: ones_residue_def word_unat_eq_iff)
qed

text \<open>C31: A checksum inserted into a packet verifies. If the checksum field, at an even offset, is
  zero while the sum over the packet and any pseudo-header sum is taken, then after the
  finished sum is written into the field the receiver's sum over the same bytes finishes
  to zero; this also holds when a zero result is replaced by all ones, as UDP does.\<close>

theorem checksum_insert_verify:
  assumes "net_get16 m (p + off) = 0" and "even off" "off + 2 \<le> len"
    and "unat acc + words_sum (bytes_at m p len) + 65535 < 2 ^ 32"
    and "c = net_checksum_finish (net_checksum_partial m p len acc)"
  shows "net_checksum_finish (net_checksum_partial (net_put16 m (p + off) c) p len acc) = 0 \<and>
    net_checksum_finish (net_checksum_partial (net_put16 m (p + off) (if c \<noteq> 0 then c else 0xFFFF)) p len acc) = 0"
  using checksum_inserted [of m p off len acc c] checksum_inserted [of m p off len acc "if c \<noteq> 0 then c else 0xFFFF"] assms
  by simp

theorem checksum_insert_verify_witness:
  "\<exists>m c. net_get16 m 2 = 0 \<and> c = net_checksum_finish (net_checksum_partial m 0 8 0) \<and>
     net_checksum_finish (net_checksum_partial (net_put16 m 2 c) 0 8 0) = 0"
proof -
  let ?m = "(\<lambda>i. if i = 0 then 8 else if i = 5 then 1 else 0) :: mem"
  have "words_sum (bytes_at ?m 0 8) < 4294967296 - 65536" by (rule words_sum_fits) simp
  then show ?thesis
    using checksum_insert_verify [of ?m 0 2 8 0 "net_checksum_finish (net_checksum_partial ?m 0 8 0)", unfolded add_0]
    by (intro exI [of _ ?m]) (simp add: net_get16_def)
qed

text \<open>No change of a single byte gets past the checksum: in a region that verifies, replacing
  any one byte by a different one leaves a region that does not.\<close>

theorem checksum_detects_byte_change:
  assumes "net_checksum m p len = 0" and "len \<le> 65536" and "i < len" and "y \<noteq> m (p + i)"
  shows "net_checksum (m(p + i := y)) p len \<noteq> 0"
proof
  assume z: "net_checksum (m(p + i := y)) p len = 0"
  let ?w = "if even i then 256 else 1 :: nat"
  have d: "65535 dvd words_sum (bytes_at m p len)" "65535 dvd words_sum ((bytes_at m p len)[i := y])"
    using assms(1) z unat_net_checksum_partial_0 [OF assms(2), of m p]
      unat_net_checksum_partial_0 [OF assms(2), of "m(p + i := y)" p]
    by (simp_all add: net_checksum_def net_checksum_finish_eq_0 bytes_at_upd [OF assms(3)])
  have "unat y = unat (m (p + i))"
  proof (rule same_mod_65535 [of ?w _ _ "words_sum (bytes_at m p len)" "words_sum ((bytes_at m p len)[i := y])"])
    show "?w * unat y < 65535" "?w * unat (m (p + i)) < 65535"
      using unat_u8_lt [of y] unat_u8_lt [of "m (p + i)"] by (simp_all del: unat_u8_lt)
    show "words_sum (bytes_at m p len) + ?w * unat y = words_sum ((bytes_at m p len)[i := y]) + ?w * unat (m (p + i))"
      using words_sum_update [of i "bytes_at m p len" y] assms(3) by simp
  qed (use d in auto)
  with assms(4) show False by (simp add: word_unat_eq_iff)
qed

theorem checksum_detects_byte_change_witness:
  "net_checksum ((\<lambda>i. if i < 2 then 0xFF else 0)(0 + 1 := 0xFE)) 0 4 \<noteq> 0"
proof -
  let ?m = "(\<lambda>i. if i < 2 then 0xFF else 0) :: mem"
  have "bytes_at ?m 0 4 = [0xFF, 0xFF, 0, 0]" by (simp add: bytes_at_def upt_rec numeral_eq_Suc)
  then have "unat (net_checksum ?m 0 4) = 0"
    using unat_net_checksum_partial_0 [of 4 ?m 0]
    by (simp add: net_checksum_def unat_net_checksum_finish net_checksum_fold_residue ones_residue_def)
  then have "net_checksum ?m 0 4 = 0" by (simp add: word_unat_eq_iff)
  then show ?thesis by (rule checksum_detects_byte_change) simp_all
qed

text \<open>The big-endian accessors are inverse to each other and touch nothing else: a 16- or 32-bit
  value written at an offset is read back from there, and every other byte is as before.\<close>

theorem net_put_get_roundtrip:
  "net_get16 (net_put16 m p v) p = v \<and> net_get32 (net_put32 m p w) p = w \<and>
   (\<forall>q. net_put16 m p v q = (if q = p then ucast (drop_bit 8 v) else if q = p + 1 then ucast v else m q)) \<and>
   (\<forall>q. q \<in> {p..<p + 4} \<or> net_put32 m p w q = m q)"
  by (intro conjI; (simp; fail)?) (auto simp: net_put16_def net_put32_def)

end
