(* ===== verification/Net_State.thy ===== *)
theory Net_State
  imports Pmm Net_Bytes
begin

text \<open>
  The data of the network stack: the constants, addresses, packet buffers and devices of
  \<^verbatim>\<open>kernel/include/recon/kernel/net.h\<close>, the tables each \<^verbatim>\<open>.c\<close> file keeps in static
  variables, and the record \<open>net\<close> that holds them all side by side.

  Conventions. A pointer into a table is the index of the slot. A \<^verbatim>\<open>struct netbuf *\<close> is the
  buffer itself, because a buffer has one owner at a time and every function either keeps
  it, passes it on or frees it. Lengths and ring positions are natural numbers; where a
  32-bit sum could wrap the code's \<^verbatim>\<open>u32\<close> arithmetic is written out with \<open>wrap32\<close>.
  Counters are 64-bit words. The pointers to a driver's functions are fields of the device;
  the frames a driver accepted are the list \<open>wire\<close>. The clock is the field \<open>now\<close>, which
  one operation reads as one instant, and \<open>entropy\<close> is what the random pool will return
  next, empty when it is not seeded.
\<close>

section \<open>Constants and addresses\<close>

type_synonym ipv4_addr = u32
type_synonym mac_addr = "u8 list"

definition wrap32 :: "nat \<Rightarrow> nat" where
  "wrap32 n = n mod 2 ^ 32"

definition MAC_LEN :: nat where "MAC_LEN = 6"
definition NET_HEADROOM :: nat where "NET_HEADROOM = 192"
definition NET_BUF_PAGE_SIZE :: nat where "NET_BUF_PAGE_SIZE = 4096"
definition NET_BUF_CAPACITY :: nat where "NET_BUF_CAPACITY = NET_BUF_PAGE_SIZE - NET_HEADROOM - 64"
definition NET_MTU :: nat where "NET_MTU = 1500"
definition ETH_FRAME_MAX :: nat where "ETH_FRAME_MAX = 1518"
definition ETH_HDR_LEN :: nat where "ETH_HDR_LEN = 14"
definition IP_HDR_LEN :: nat where "IP_HDR_LEN = 20"
definition UDP_HDR_LEN :: nat where "UDP_HDR_LEN = 8"
definition TCP_HDR_LEN :: nat where "TCP_HDR_LEN = 20"

lemmas net_consts = MAC_LEN_def NET_HEADROOM_def NET_BUF_PAGE_SIZE_def NET_BUF_CAPACITY_def
  NET_MTU_def ETH_FRAME_MAX_def ETH_HDR_LEN_def IP_HDR_LEN_def UDP_HDR_LEN_def TCP_HDR_LEN_def

definition IPV4 :: "u8 \<Rightarrow> u8 \<Rightarrow> u8 \<Rightarrow> u8 \<Rightarrow> ipv4_addr" where
  "IPV4 a b c d = push_bit 24 (ucast a) OR push_bit 16 (ucast b) OR push_bit 8 (ucast c) OR ucast d"

abbreviation IPV4_ANY :: ipv4_addr where "IPV4_ANY \<equiv> 0"
abbreviation IPV4_BROADCAST :: ipv4_addr where "IPV4_BROADCAST \<equiv> 0xFFFFFFFF"

definition MAC_BROADCAST :: mac_addr where "MAC_BROADCAST = replicate 6 0xFF"
definition MAC_ZERO :: mac_addr where "MAC_ZERO = replicate 6 0"

abbreviation ETH_TYPE_IPV4 :: u16 where "ETH_TYPE_IPV4 \<equiv> 0x0800"
abbreviation ETH_TYPE_ARP :: u16 where "ETH_TYPE_ARP \<equiv> 0x0806"
abbreviation IP_PROTO_ICMP :: u8 where "IP_PROTO_ICMP \<equiv> 1"
abbreviation IP_PROTO_TCP :: u8 where "IP_PROTO_TCP \<equiv> 6"
abbreviation IP_PROTO_UDP :: u8 where "IP_PROTO_UDP \<equiv> 17"

section \<open>Packet buffers and devices\<close>

record netbuf =
  nb_mem :: mem
  nb_data :: nat
  nb_len :: nat
  nb_capacity :: nat
  nb_dev :: "nat option"
  nb_page :: paddr
  nb_src_ip :: ipv4_addr
  nb_dst_ip :: ipv4_addr
  nb_src_port :: u16
  nb_dst_port :: u16
  nb_protocol :: u8

text \<open>The bytes of the current layer: \<open>len\<close> bytes from \<open>data\<close>.\<close>

definition nb_bytes :: "netbuf \<Rightarrow> u8 list" where
  "nb_bytes b = bytes_at (nb_mem b) (nb_data b) (nb_len b)"

record net_device =
  d_name :: string
  d_mac :: mac_addr
  d_ip :: ipv4_addr
  d_netmask :: ipv4_addr
  d_gateway :: ipv4_addr
  d_mtu :: nat
  d_up :: bool
  d_transmit :: "(u8 list \<Rightarrow> bool) option"
  d_poll :: bool
  d_rx_packets :: u64
  d_rx_bytes :: u64
  d_rx_dropped :: u64
  d_rx_errors :: u64
  d_tx_packets :: u64
  d_tx_bytes :: u64
  d_tx_dropped :: u64
  d_tx_errors :: u64

section \<open>What each file keeps\<close>

text \<open>\<^verbatim>\<open>netbuf.c\<close>\<close>

record nb_state =
  free_list :: "netbuf list"
  free_count :: nat
  nb_allocated :: u64
  nb_freed :: u64
  alloc_failed :: u64
  push_refused :: u64
  pull_refused :: u64
  put_refused :: u64

text \<open>\<^verbatim>\<open>netdev.c\<close>\<close>

record dev_state =
  devices :: "net_device list"
  rx_queue :: "netbuf list"
  rx_queued :: nat
  rx_overflow :: u64
  rx_serviced :: u64
  rx_drain_held :: bool
  wire :: "(nat \<times> u8 list) list"

text \<open>\<^verbatim>\<open>eth.c\<close>\<close>

record eth_state =
  eth_rx_unknown_type :: u64
  eth_rx_not_for_us :: u64
  eth_rx_runt :: u64

text \<open>\<^verbatim>\<open>arp.c\<close>\<close>

record arp_entry =
  ae_ip :: ipv4_addr
  ae_mac :: mac_addr
  ae_learned_ns :: u64
  ae_dev :: nat
  ae_valid :: bool

record arp_state =
  arp_cache :: "arp_entry list"
  arp_requests_sent :: u64
  arp_replies_sent :: u64
  arp_replies_received :: u64
  arp_hits :: u64
  arp_misses :: u64
  arp_refused :: u64

text \<open>\<^verbatim>\<open>ip.c\<close>\<close>

record pending =
  pd_buf :: netbuf
  pd_dev :: nat
  pd_next_hop :: ipv4_addr
  pd_queued_ns :: u64
  pd_used :: bool

record ip_state =
  ip_pending :: "pending list"
  ip_id :: u16
  ip_tx_packets :: u64
  ip_tx_no_route :: u64
  ip_tx_pending :: u64
  ip_tx_pending_dropped :: u64
  ip_rx_packets :: u64
  ip_rx_bad_checksum :: u64
  ip_rx_bad_version :: u64
  ip_rx_short :: u64
  ip_rx_fragments :: u64
  ip_rx_not_for_us :: u64
  ip_rx_unknown_proto :: u64

text \<open>\<^verbatim>\<open>icmp.c\<close>\<close>

record echo =
  e_id :: u16
  e_seq :: u16
  e_dst :: ipv4_addr
  e_sent_ns :: u64
  e_replied_ns :: u64
  e_used :: bool
  e_answered :: bool

record icmp_state =
  echoes :: "echo list"
  icmp_next_id :: u16
  icmp_requests_sent :: u64
  icmp_replies_sent :: u64
  icmp_replies_received :: u64
  icmp_rx_short :: u64
  icmp_rx_bad_checksum :: u64
  icmp_rx_unknown_type :: u64

text \<open>
  \<^verbatim>\<open>udp.c\<close>. A binding's callback is one of the two the kernel installs (the context of
  \<^verbatim>\<open>udp_arrived\<close> is the socket's slot) or a null pointer.
\<close>

datatype udp_fn = Fn_null | Fn_udp_arrived nat | Fn_dhcp_arrived

record udp_binding =
  ub_port :: u16
  ub_fn :: udp_fn
  ub_used :: bool

record udp_state =
  bindings :: "udp_binding list"
  udp_tx_datagrams :: u64
  udp_tx_failed :: u64
  udp_rx_datagrams :: u64
  udp_rx_short :: u64
  udp_rx_bad_checksum :: u64
  udp_rx_no_port :: u64

text \<open>\<^verbatim>\<open>tcp.c\<close>\<close>

datatype tcp_st =
  TCP_CLOSED | TCP_LISTEN | TCP_SYN_SENT | TCP_SYN_RECEIVED | TCP_ESTABLISHED | TCP_FIN_WAIT_1
| TCP_FIN_WAIT_2 | TCP_CLOSE_WAIT | TCP_CLOSING | TCP_LAST_ACK | TCP_TIME_WAIT

record tcp_conn =
  c_used :: bool
  c_state :: tcp_st
  c_local_ip :: ipv4_addr
  c_remote_ip :: ipv4_addr
  c_local_port :: u16
  c_remote_port :: u16
  snd_una :: u32
  snd_nxt :: u32
  snd_wnd :: u32
  rcv_nxt :: u32
  tx_buf :: mem
  rx_buf :: mem
  tx_page :: paddr
  rx_page :: paddr
  tx_head :: nat
  tx_len :: nat
  rx_head :: nat
  rx_len :: nat
  retransmit_at_ns :: u64
  retries :: nat
  time_wait_until_ns :: u64
  listening :: bool
  peer_closed :: bool
  c_reset :: bool
  accept_of :: int
  accept_pending :: bool

record tcp_state =
  conns :: "tcp_conn list"
  segments_sent :: u64
  segments_received :: u64
  retransmits :: u64
  tcp_rx_short :: u64
  tcp_rx_bad_checksum :: u64
  tcp_rx_no_connection :: u64
  tcp_rx_out_of_order :: u64
  connections_opened :: u64
  connections_reset :: u64
  receives_hint :: u64

text \<open>\<^verbatim>\<open>socket.c\<close>\<close>

abbreviation SOCK_STREAM :: int where "SOCK_STREAM \<equiv> 1"
abbreviation SOCK_DGRAM :: int where "SOCK_DGRAM \<equiv> 2"

record dgram =
  dg_buf :: "netbuf option"
  dg_from :: ipv4_addr
  dg_port :: u16

record socket =
  s_used :: bool
  s_type :: int
  s_local_ip :: ipv4_addr
  s_remote_ip :: ipv4_addr
  s_local_port :: u16
  s_remote_port :: u16
  s_bound :: bool
  s_listening :: bool
  s_connected :: bool
  s_conn :: int
  s_queue :: "dgram list"
  s_q_head :: nat
  s_q_len :: nat
  s_dropped :: u64

record sock_state =
  sockets :: "socket list"
  sk_created :: u64
  sk_closed :: u64
  sk_sends :: u64
  sk_receives :: u64

text \<open>\<^verbatim>\<open>dhcp.c\<close>\<close>

record dhcp_result =
  have_offer :: bool
  have_ack :: bool
  dr_offered :: ipv4_addr
  dr_server :: ipv4_addr
  dr_netmask :: ipv4_addr
  dr_router :: ipv4_addr
  dr_dns :: ipv4_addr
  dr_lease_seconds :: u32

record dhcp_state =
  dhcp_res :: dhcp_result
  dhcp_transaction :: u32
  dhcp_configuring :: "nat option"
  dhcp_sent :: u64
  dhcp_received :: u64
  dhcp_ignored :: u64

text \<open>\<^verbatim>\<open>counter++\<close> on a 64-bit counter, given by its update function.\<close>

abbreviation bump :: "((u64 \<Rightarrow> u64) \<Rightarrow> 'r \<Rightarrow> 'r) \<Rightarrow> 'r \<Rightarrow> 'r" where
  "bump upd \<equiv> upd (\<lambda>n. n + 1)"

section \<open>The whole stack\<close>

record net =
  net_pmm :: pmm
  net_nb :: nb_state
  net_dev :: dev_state
  net_eth :: eth_state
  net_arp :: arp_state
  net_ip :: ip_state
  net_icmp :: icmp_state
  net_udp :: udp_state
  net_tcp :: tcp_state
  net_sock :: sock_state
  net_dhcp :: dhcp_state
  now :: u64
  entropy :: "u64 list"
  panicked :: "string option"

text \<open>
  \<^verbatim>\<open>random_bytes\<close>: the next value of the pool, refused when the pool is not seeded.
\<close>

definition random_word :: "net \<Rightarrow> u64 option \<times> net" where
  "random_word s = (case entropy s of [] \<Rightarrow> (None, s) | v # vs \<Rightarrow> (Some v, s\<lparr>entropy := vs\<rparr>))"

definition kpanic :: "string \<Rightarrow> net \<Rightarrow> net" where
  "kpanic msg s = s\<lparr>panicked := Some msg\<rparr>"

text \<open>Calls into the page allocator from the stack.\<close>

definition alloc_page :: "net \<Rightarrow> paddr \<times> net" where
  "alloc_page s = (let (a, p) = pmm_alloc_page (net_pmm s) in (a, s\<lparr>net_pmm := p\<rparr>))"

definition free_pages1 :: "paddr \<Rightarrow> net \<Rightarrow> net" where
  "free_pages1 a s = (case pmm_free_pages a 1 (net_pmm s) of
     Inl msg \<Rightarrow> kpanic msg s | Inr p \<Rightarrow> s\<lparr>net_pmm := p\<rparr>)"

definition the_dev :: "net \<Rightarrow> nat \<Rightarrow> net_device" where
  "the_dev s i = devices (net_dev s) ! i"

definition upd_dev :: "nat \<Rightarrow> (net_device \<Rightarrow> net_device) \<Rightarrow> net \<Rightarrow> net" where
  "upd_dev i f s = s\<lparr>net_dev := (net_dev s)\<lparr>devices := (devices (net_dev s))[i := f (the_dev s i)]\<rparr>\<rparr>"

end
