(* ===== verification/Netbuf.thy ===== *)
theory Netbuf
  imports Net_State
begin

text \<open>
  Packet buffers, \<^verbatim>\<open>kernel/core/netbuf.c\<close>: allocation from a free list or a fresh page,
  freeing, and the three operations that move the ends of the data
  (\<^verbatim>\<open>push\<close> a header in front, \<^verbatim>\<open>pull\<close> one off, \<^verbatim>\<open>put\<close> bytes at the end).

  A buffer's memory is indexed from \<^verbatim>\<open>head\<close>, the first byte of its page; the
  structure itself sits in the last 64 bytes of the page and is the record. The abstract
  view of a buffer is the list of bytes \<open>nb_bytes\<close>, and the lemmas say that push, pull and
  put are the list operations one expects and never leave the allocation.
\<close>

section \<open>Printing addresses\<close>

definition mac_equal :: "mac_addr \<Rightarrow> mac_addr \<Rightarrow> bool" where
  "mac_equal a b = (kmemcmp a b = 0)"

definition char_add :: "char \<Rightarrow> nat \<Rightarrow> char" where
  "char_add c n = char_of (of_char c + n :: nat)"

definition hex_digit :: "u8 \<Rightarrow> char" where
  "hex_digit v = (if v < 10 then char_add CHR ''0'' (unat v) else char_add CHR ''a'' (unat (v - 10)))"

fun mac_digits :: "bool \<Rightarrow> u8 list \<Rightarrow> string" where
  "mac_digits first [] = []"
| "mac_digits first (x # xs) =
     (if first then [] else '':'') @ [hex_digit (drop_bit 4 x), hex_digit (x AND 0xF)] @ mac_digits False xs"

definition mac_format :: "mac_addr \<Rightarrow> string" where
  "mac_format m = mac_digits True m"

definition octet_format :: "u8 \<Rightarrow> string" where
  "octet_format octet =
     (let h = octet div 100; t = (octet div 10) mod 10 in
      (if h \<noteq> 0 then [char_add CHR ''0'' (unat h)] else []) @
      (if h \<noteq> 0 \<or> t \<noteq> 0 then [char_add CHR ''0'' (unat t)] else []) @
      [char_add CHR ''0'' (unat (octet mod 10))])"

definition ipv4_format :: "ipv4_addr \<Rightarrow> string" where
  "ipv4_format a = octet_format (ucast (drop_bit 24 a)) @ ''.'' @ octet_format (ucast (drop_bit 16 a))
     @ ''.'' @ octet_format (ucast (drop_bit 8 a)) @ ''.'' @ octet_format (ucast a)"

section \<open>Allocation\<close>

definition FREE_KEEP :: nat where "FREE_KEEP = 32"

text \<open>A buffer as \<^verbatim>\<open>netbuf_alloc\<close> leaves it: every field zero but the page, the memory,
  the capacity and the headroom.\<close>

definition fresh_netbuf :: "paddr \<Rightarrow> mem \<Rightarrow> netbuf" where
  "fresh_netbuf page m = \<lparr>nb_mem = m, nb_data = NET_HEADROOM, nb_len = 0,
     nb_capacity = NET_BUF_CAPACITY, nb_dev = None, nb_page = page, nb_src_ip = 0, nb_dst_ip = 0,
     nb_src_port = 0, nb_dst_port = 0, nb_protocol = 0\<rparr>"

definition netbuf_alloc :: "net \<Rightarrow> netbuf option \<times> net" where
  "netbuf_alloc s =
     (case free_list (net_nb s) of
        b # rest \<Rightarrow>
          (Some (fresh_netbuf (nb_page b) (nb_mem b)),
           s\<lparr>net_nb := (net_nb s)\<lparr>free_list := rest, free_count := free_count (net_nb s) - 1,
             nb_allocated := nb_allocated (net_nb s) + 1\<rparr>\<rparr>)
      | [] \<Rightarrow>
          let (page, s1) = alloc_page s in
          if page = 0
          then (None, s1\<lparr>net_nb := (net_nb s1)\<lparr>alloc_failed := alloc_failed (net_nb s1) + 1\<rparr>\<rparr>)
          else (Some (fresh_netbuf page (\<lambda>_. 0)),
                s1\<lparr>net_nb := (net_nb s1)\<lparr>nb_allocated := nb_allocated (net_nb s1) + 1\<rparr>\<rparr>))"

definition netbuf_free :: "netbuf \<Rightarrow> net \<Rightarrow> net" where
  "netbuf_free b s =
     (let nb = (net_nb s)\<lparr>nb_freed := nb_freed (net_nb s) + 1\<rparr> in
      if free_count nb < FREE_KEEP
      then s\<lparr>net_nb := nb\<lparr>free_list := b # free_list nb, free_count := free_count nb + 1\<rparr>\<rparr>
      else free_pages1 (nb_page b) (s\<lparr>net_nb := nb\<rparr>))"

section \<open>Moving the ends of the data\<close>

definition netbuf_push :: "nat \<Rightarrow> netbuf \<Rightarrow> net \<Rightarrow> netbuf option \<times> net" where
  "netbuf_push n b s =
     (if n > nb_data b
      then (None, s\<lparr>net_nb := (net_nb s)\<lparr>push_refused := push_refused (net_nb s) + 1\<rparr>\<rparr>)
      else (Some (b\<lparr>nb_data := nb_data b - n, nb_len := wrap32 (nb_len b + n)\<rparr>), s))"

definition netbuf_pull :: "nat \<Rightarrow> netbuf \<Rightarrow> net \<Rightarrow> netbuf option \<times> net" where
  "netbuf_pull n b s =
     (if n > nb_len b
      then (None, s\<lparr>net_nb := (net_nb s)\<lparr>pull_refused := pull_refused (net_nb s) + 1\<rparr>\<rparr>)
      else (Some (b\<lparr>nb_data := nb_data b + n, nb_len := nb_len b - n\<rparr>), s))"

text \<open>On success the new bytes begin where the data ended: at \<open>nb_data b + nb_len b\<close>.\<close>

definition netbuf_put :: "nat \<Rightarrow> netbuf \<Rightarrow> net \<Rightarrow> netbuf option \<times> net" where
  "netbuf_put n b s =
     (let used = wrap32 (nb_data b + nb_len b) in
      if wrap32 (used + n) > nb_capacity b
      then (None, s\<lparr>net_nb := (net_nb s)\<lparr>put_refused := put_refused (net_nb s) + 1\<rparr>\<rparr>)
      else (Some (b\<lparr>nb_len := wrap32 (nb_len b + n)\<rparr>), s))"

section \<open>What the operations leave alone\<close>

lemma alloc_page_frame [simp]:
  "net_nb (snd (alloc_page s)) = net_nb s" "net_dev (snd (alloc_page s)) = net_dev s"
  "net_eth (snd (alloc_page s)) = net_eth s" "net_arp (snd (alloc_page s)) = net_arp s"
  "net_ip (snd (alloc_page s)) = net_ip s" "net_icmp (snd (alloc_page s)) = net_icmp s"
  "net_udp (snd (alloc_page s)) = net_udp s" "net_tcp (snd (alloc_page s)) = net_tcp s"
  "net_sock (snd (alloc_page s)) = net_sock s" "net_dhcp (snd (alloc_page s)) = net_dhcp s"
  "now (snd (alloc_page s)) = now s" "entropy (snd (alloc_page s)) = entropy s"
  "panicked (snd (alloc_page s)) = panicked s"
  by (simp_all add: alloc_page_def split: prod.splits)

lemma free_pages1_frame [simp]:
  "net_nb (free_pages1 a s) = net_nb s" "net_dev (free_pages1 a s) = net_dev s"
  "net_eth (free_pages1 a s) = net_eth s" "net_arp (free_pages1 a s) = net_arp s"
  "net_ip (free_pages1 a s) = net_ip s" "net_icmp (free_pages1 a s) = net_icmp s"
  "net_udp (free_pages1 a s) = net_udp s" "net_tcp (free_pages1 a s) = net_tcp s"
  "net_sock (free_pages1 a s) = net_sock s" "net_dhcp (free_pages1 a s) = net_dhcp s"
  "now (free_pages1 a s) = now s" "entropy (free_pages1 a s) = entropy s"
  by (simp_all add: free_pages1_def kpanic_def split: sum.splits)

lemma netbuf_alloc_frame [simp]:
  "net_dev (snd (netbuf_alloc s)) = net_dev s" "net_eth (snd (netbuf_alloc s)) = net_eth s"
  "net_arp (snd (netbuf_alloc s)) = net_arp s" "net_ip (snd (netbuf_alloc s)) = net_ip s"
  "net_icmp (snd (netbuf_alloc s)) = net_icmp s" "net_udp (snd (netbuf_alloc s)) = net_udp s"
  "net_tcp (snd (netbuf_alloc s)) = net_tcp s" "net_sock (snd (netbuf_alloc s)) = net_sock s"
  "net_dhcp (snd (netbuf_alloc s)) = net_dhcp s" "now (snd (netbuf_alloc s)) = now s"
  "entropy (snd (netbuf_alloc s)) = entropy s" "panicked (snd (netbuf_alloc s)) = panicked s"
  by (simp_all add: netbuf_alloc_def Let_def case_prod_beta split: list.splits)

lemma netbuf_free_frame [simp]:
  "net_dev (netbuf_free b s) = net_dev s" "net_eth (netbuf_free b s) = net_eth s"
  "net_arp (netbuf_free b s) = net_arp s" "net_ip (netbuf_free b s) = net_ip s"
  "net_icmp (netbuf_free b s) = net_icmp s" "net_udp (netbuf_free b s) = net_udp s"
  "net_tcp (netbuf_free b s) = net_tcp s" "net_sock (netbuf_free b s) = net_sock s"
  "net_dhcp (netbuf_free b s) = net_dhcp s" "now (netbuf_free b s) = now s"
  "entropy (netbuf_free b s) = entropy s"
  by (simp_all add: netbuf_free_def Let_def)

lemma netbuf_ends_frame [simp]:
  "net_dev (snd (netbuf_push n b s)) = net_dev s" "net_dev (snd (netbuf_pull n b s)) = net_dev s"
  "net_dev (snd (netbuf_put n b s)) = net_dev s"
  "net_eth (snd (netbuf_push n b s)) = net_eth s" "net_eth (snd (netbuf_pull n b s)) = net_eth s"
  "net_eth (snd (netbuf_put n b s)) = net_eth s"
  "net_arp (snd (netbuf_push n b s)) = net_arp s" "net_arp (snd (netbuf_pull n b s)) = net_arp s"
  "net_arp (snd (netbuf_put n b s)) = net_arp s"
  "net_ip (snd (netbuf_push n b s)) = net_ip s" "net_ip (snd (netbuf_pull n b s)) = net_ip s"
  "net_ip (snd (netbuf_put n b s)) = net_ip s"
  "net_icmp (snd (netbuf_push n b s)) = net_icmp s" "net_icmp (snd (netbuf_pull n b s)) = net_icmp s"
  "net_icmp (snd (netbuf_put n b s)) = net_icmp s"
  "net_udp (snd (netbuf_push n b s)) = net_udp s" "net_udp (snd (netbuf_pull n b s)) = net_udp s"
  "net_udp (snd (netbuf_put n b s)) = net_udp s"
  "net_tcp (snd (netbuf_push n b s)) = net_tcp s" "net_tcp (snd (netbuf_pull n b s)) = net_tcp s"
  "net_tcp (snd (netbuf_put n b s)) = net_tcp s"
  "net_sock (snd (netbuf_push n b s)) = net_sock s" "net_sock (snd (netbuf_pull n b s)) = net_sock s"
  "net_sock (snd (netbuf_put n b s)) = net_sock s"
  "net_dhcp (snd (netbuf_push n b s)) = net_dhcp s" "net_dhcp (snd (netbuf_pull n b s)) = net_dhcp s"
  "net_dhcp (snd (netbuf_put n b s)) = net_dhcp s"
  "now (snd (netbuf_push n b s)) = now s" "now (snd (netbuf_pull n b s)) = now s"
  "now (snd (netbuf_put n b s)) = now s"
  "entropy (snd (netbuf_push n b s)) = entropy s" "entropy (snd (netbuf_pull n b s)) = entropy s"
  "entropy (snd (netbuf_put n b s)) = entropy s"
  by (simp_all add: netbuf_push_def netbuf_pull_def netbuf_put_def Let_def)


section \<open>A buffer is a list of bytes with room in front\<close>

text \<open>The data lies inside the allocation; the structure at the end of the page is out of
  its reach because the capacity is 256 bytes less than the page.\<close>

definition nb_inv :: "netbuf \<Rightarrow> bool" where
  "nb_inv b \<longleftrightarrow> nb_capacity b = NET_BUF_CAPACITY \<and> nb_data b + nb_len b \<le> NET_BUF_CAPACITY"

lemma fresh_netbuf_simps [simp]:
  "nb_inv (fresh_netbuf pg m)" "nb_bytes (fresh_netbuf pg m) = []"
  "nb_page (fresh_netbuf pg m) = pg" "nb_data (fresh_netbuf pg m) = NET_HEADROOM"
  "nb_len (fresh_netbuf pg m) = 0" "nb_mem (fresh_netbuf pg m) = m"
  "nb_capacity (fresh_netbuf pg m) = NET_BUF_CAPACITY"
  by (simp_all add: nb_inv_def nb_bytes_def fresh_netbuf_def net_consts)

lemma length_nb_bytes [simp]: "length (nb_bytes b) = nb_len b"
  by (simp add: nb_bytes_def)

lemma wrap32_small: "n < 4294967296 \<Longrightarrow> wrap32 n = n"
  by (simp add: wrap32_def)

lemma netbuf_push_cases:
  assumes "nb_inv b"
  obtains (refused) "n > nb_data b" "fst (netbuf_push n b s) = None"
  | (pushed) b' where "netbuf_push n b s = (Some b', s)" "n \<le> nb_data b"
      "b' = b\<lparr>nb_data := nb_data b - n, nb_len := nb_len b + n\<rparr>" "nb_inv b'"
      "nb_bytes b' = bytes_at (nb_mem b) (nb_data b - n) n @ nb_bytes b"
proof (cases "n > nb_data b")
  case True
  then show ?thesis by (intro refused) (simp_all add: netbuf_push_def)
next
  case False
  then have "nb_len b + n < 4294967296"
    using assms by (simp add: nb_inv_def net_consts)
  with False assms show ?thesis
    using bytes_at_add [of "nb_mem b" "nb_data b - n" n "nb_len b"]
    by (intro pushed [of "b\<lparr>nb_data := nb_data b - n, nb_len := nb_len b + n\<rparr>"])
      (simp_all add: netbuf_push_def nb_inv_def nb_bytes_def wrap32_small add.commute)
qed

lemma netbuf_pull_cases:
  assumes "nb_inv b"
  obtains (refused) "n > nb_len b" "fst (netbuf_pull n b s) = None"
  | (pulled) b' where "netbuf_pull n b s = (Some b', s)" "n \<le> nb_len b"
      "b' = b\<lparr>nb_data := nb_data b + n, nb_len := nb_len b - n\<rparr>" "nb_inv b'"
      "nb_bytes b' = drop n (nb_bytes b)"
proof (cases "n > nb_len b")
  case True
  then show ?thesis by (intro refused) (simp_all add: netbuf_pull_def)
next
  case False
  with assms show ?thesis
    by (intro pulled [of "b\<lparr>nb_data := nb_data b + n, nb_len := nb_len b - n\<rparr>"])
      (simp_all add: netbuf_pull_def nb_inv_def nb_bytes_def drop_bytes_at)
qed

lemma netbuf_put_cases:
  assumes "nb_inv b" and "n < 2 ^ 31"
  obtains (refused) "nb_data b + nb_len b + n > NET_BUF_CAPACITY" "fst (netbuf_put n b s) = None"
  | (put) b' where "netbuf_put n b s = (Some b', s)" "nb_data b + nb_len b + n \<le> NET_BUF_CAPACITY"
      "b' = b\<lparr>nb_len := nb_len b + n\<rparr>" "nb_inv b'"
      "nb_bytes b' = nb_bytes b @ bytes_at (nb_mem b) (nb_data b + nb_len b) n"
proof (cases "nb_data b + nb_len b + n > NET_BUF_CAPACITY")
  case True
  with assms show ?thesis
    by (intro refused) (simp_all add: netbuf_put_def nb_inv_def wrap32_small net_consts)
next
  case False
  with assms show ?thesis
    by (intro put [of "b\<lparr>nb_len := nb_len b + n\<rparr>"])
      (simp_all add: netbuf_put_def nb_inv_def nb_bytes_def wrap32_small net_consts bytes_at_add)
qed

section \<open>The pool\<close>

text \<open>The free list is counted and bounded, every buffer in it came from the page
  allocator, and nothing has made the machine panic.\<close>

definition nb_wf :: "net \<Rightarrow> bool" where
  "nb_wf s \<longleftrightarrow> pmm_inv (net_pmm s) \<and> panicked s = None \<and>
     free_count (net_nb s) = length (free_list (net_nb s)) \<and> free_count (net_nb s) \<le> FREE_KEEP \<and>
     (\<forall>b\<in>set (free_list (net_nb s)). nb_page b \<in> managed_pages (net_pmm s))"

definition nb_ok :: "net \<Rightarrow> netbuf \<Rightarrow> bool" where
  "nb_ok s b \<longleftrightarrow> nb_inv b \<and> nb_page b \<in> managed_pages (net_pmm s)"

text \<open>The set of pages the allocator manages never changes, so a buffer stays good.\<close>

definition same_managed :: "net \<Rightarrow> net \<Rightarrow> bool" where
  "same_managed s t \<longleftrightarrow> managed_pages (net_pmm t) = managed_pages (net_pmm s)"

lemma same_managed_refl [simp]: "same_managed s s"
  by (simp add: same_managed_def)

lemma same_managed_trans [trans]: "same_managed s t \<Longrightarrow> same_managed t u \<Longrightarrow> same_managed s u"
  by (simp add: same_managed_def)

lemma nb_ok_mono: "nb_ok s b \<Longrightarrow> same_managed s t \<Longrightarrow> nb_ok t b"
  by (simp add: nb_ok_def same_managed_def)

lemma alloc_page_wf:
  assumes "pmm_inv (net_pmm s)"
  shows "pmm_inv (net_pmm (snd (alloc_page s)))" and "same_managed s (snd (alloc_page s))"
    and "fst (alloc_page s) \<noteq> 0 \<Longrightarrow> fst (alloc_page s) \<in> managed_pages (net_pmm (snd (alloc_page s)))"
  using pages.alloc_invar [OF assms] pages.alloc_managed_same [OF assms]
    pages.alloc_in_managed [OF assms, of "fst (alloc_page s)" "net_pmm (snd (alloc_page s))"]
  by (simp_all add: alloc_page_def same_managed_def case_prod_beta)

lemma free_pages1_ok:
  assumes "pmm_inv (net_pmm s)" and "a \<in> managed_pages (net_pmm s)"
  shows "pmm_inv (net_pmm (free_pages1 a s))" and "same_managed s (free_pages1 a s)"
    and "panicked (free_pages1 a s) = panicked s"
  using pages.free_managed [OF assms]
  by (auto simp: free_pages1_def same_managed_def pmm_free_page_def)

lemma netbuf_alloc_wf:
  assumes wf: "nb_wf s" and al: "netbuf_alloc s = (r, s')"
  shows "nb_wf s' \<and> same_managed s s' \<and>
    (\<forall>b. r = Some b \<longrightarrow> nb_ok s' b \<and> (\<exists>pg m. b = fresh_netbuf pg m))"
proof (cases "free_list (net_nb s)")
  case (Cons b rest)
  with al have r: "r = Some (fresh_netbuf (nb_page b) (nb_mem b))"
    and s': "s' = s\<lparr>net_nb := (net_nb s)\<lparr>free_list := rest, free_count := free_count (net_nb s) - 1,
      nb_allocated := nb_allocated (net_nb s) + 1\<rparr>\<rparr>"
    by (simp_all add: netbuf_alloc_def)
  from wf Cons show ?thesis
    unfolding r s' by (simp add: nb_wf_def nb_ok_def same_managed_def) blast
next
  case Nil
  obtain page s1 where s1: "alloc_page s = (page, s1)" by (cases "alloc_page s")
  have p: "pmm_inv (net_pmm s)" using wf by (simp add: nb_wf_def)
  have fr: "net_nb s1 = net_nb s" "panicked s1 = panicked s"
    using s1 alloc_page_frame(1,13) [of s] by auto
  have a: "pmm_inv (net_pmm s1)" "same_managed s s1"
    "page \<noteq> 0 \<Longrightarrow> page \<in> managed_pages (net_pmm s1)"
    using alloc_page_wf [OF p] s1 by simp_all
  show ?thesis
  proof (cases "page = 0")
    case True
    with al Nil s1 have "r = None"
      and s': "s' = s1\<lparr>net_nb := (net_nb s1)\<lparr>alloc_failed := alloc_failed (net_nb s1) + 1\<rparr>\<rparr>"
      by (simp_all add: netbuf_alloc_def)
    with wf Nil a fr show ?thesis
      unfolding s' by (simp add: nb_wf_def same_managed_def)
  next
    case False
    with al Nil s1 have r: "r = Some (fresh_netbuf page (\<lambda>_. 0))"
      and s': "s' = s1\<lparr>net_nb := (net_nb s1)\<lparr>nb_allocated := nb_allocated (net_nb s1) + 1\<rparr>\<rparr>"
      by (simp_all add: netbuf_alloc_def)
    from wf Nil a False fr show ?thesis
      unfolding r s' by (simp add: nb_wf_def nb_ok_def same_managed_def) blast
  qed
qed

lemma netbuf_free_wf:
  assumes wf: "nb_wf s" and ok: "nb_ok s b"
  shows "nb_wf (netbuf_free b s) \<and> same_managed s (netbuf_free b s)"
proof (cases "free_count (net_nb s) < FREE_KEEP")
  case True
  with assms show ?thesis
    by (auto simp: netbuf_free_def Let_def nb_wf_def nb_ok_def same_managed_def)
next
  case False
  let ?s = "s\<lparr>net_nb := (net_nb s)\<lparr>nb_freed := nb_freed (net_nb s) + 1\<rparr>\<rparr>"
  have eq: "netbuf_free b s = free_pages1 (nb_page b) ?s"
    using False by (simp add: netbuf_free_def Let_def)
  have "pmm_inv (net_pmm ?s)" "nb_page b \<in> managed_pages (net_pmm ?s)"
    using wf ok by (simp_all add: nb_wf_def nb_ok_def)
  from free_pages1_ok [OF this] show ?thesis
    using wf unfolding eq by (simp add: nb_wf_def same_managed_def)
qed

lemma netbuf_ends_wf [simp]:
  "nb_wf (snd (netbuf_push n b s)) = nb_wf s" "same_managed s (snd (netbuf_push n b s))"
  "nb_wf (snd (netbuf_pull n b s)) = nb_wf s" "same_managed s (snd (netbuf_pull n b s))"
  "nb_wf (snd (netbuf_put n b s)) = nb_wf s" "same_managed s (snd (netbuf_put n b s))"
  by (simp_all add: netbuf_push_def netbuf_pull_def netbuf_put_def Let_def nb_wf_def same_managed_def)

end
