(* ===== verification/Netdev.thy ===== *)
theory Netdev
  imports Netbuf
begin

text \<open>
  Network devices, \<^verbatim>\<open>kernel/core/netdev.c\<close>: the device table, the choice of the device a
  packet leaves by, the bounded queue between a driver's interrupt and the worker, and the
  hand-over of a frame to a driver; and \<^verbatim>\<open>eth_transmit\<close> of \<^verbatim>\<open>kernel/core/eth.c\<close>.

  The \<^verbatim>\<open>work_schedule\<close> at the end of \<^verbatim>\<open>netdev_receive\<close> asks for the worker to run, which in
  the model is a later call of \<^verbatim>\<open>netdev_service\<close>; \<^verbatim>\<open>suspend_declare\<close> in
  \<^verbatim>\<open>netdev_register\<close> only informs the suspend layer.
\<close>

definition NET_NAME_MAX :: nat where "NET_NAME_MAX = 16"
definition NET_MAX_DEVICES :: nat where "NET_MAX_DEVICES = 8"
definition RX_QUEUE_MAX :: nat where "RX_QUEUE_MAX = 64"

section \<open>The table\<close>

definition netdev_register ::
  "string \<Rightarrow> (u8 list \<Rightarrow> bool) option \<Rightarrow> bool \<Rightarrow> mac_addr option \<Rightarrow> net \<Rightarrow> nat option \<times> net" where
  "netdev_register name transmit poll mac s =
     (let n = length (devices (net_dev s)) in
      if n \<ge> NET_MAX_DEVICES then (None, s)
      else (Some n, s\<lparr>net_dev := (net_dev s)\<lparr>devices := devices (net_dev s) @
        [\<lparr>d_name = take (NET_NAME_MAX - 1) name,
          d_mac = (case mac of None \<Rightarrow> MAC_ZERO | Some m \<Rightarrow> m),
          d_ip = 0, d_netmask = 0, d_gateway = 0, d_mtu = NET_MTU, d_up = True,
          d_transmit = transmit, d_poll = poll,
          d_rx_packets = 0, d_rx_bytes = 0, d_rx_dropped = 0, d_rx_errors = 0,
          d_tx_packets = 0, d_tx_bytes = 0, d_tx_dropped = 0, d_tx_errors = 0\<rparr>]\<rparr>\<rparr>))"

definition netdev_forget_last :: "net \<Rightarrow> net" where
  "netdev_forget_last s = s\<lparr>net_dev := (net_dev s)\<lparr>devices := butlast (devices (net_dev s))\<rparr>\<rparr>"

definition netdev_count :: "net \<Rightarrow> nat" where
  "netdev_count s = length (devices (net_dev s))"

definition netdev_at :: "nat \<Rightarrow> net \<Rightarrow> nat option" where
  "netdev_at i s = (if i < netdev_count s then Some i else None)"

definition netdev_by_name :: "string \<Rightarrow> net \<Rightarrow> nat option" where
  "netdev_by_name name s = first_slot (\<lambda>d. d_name d = name) (devices (net_dev s))"

section \<open>Routing\<close>

text \<open>The second loop of \<^verbatim>\<open>netdev_route\<close>: the first device on whose wire the destination
  lies, else the first one with a gateway.\<close>

fun route_scan :: "net_device list \<Rightarrow> nat \<Rightarrow> ipv4_addr \<Rightarrow> (nat \<times> ipv4_addr) option \<Rightarrow> (nat \<times> ipv4_addr) option" where
  "route_scan [] i dst fallback = fallback"
| "route_scan (d # ds) i dst fallback =
     (if \<not> d_up d \<or> d_ip d = 0 then route_scan ds (i + 1) dst fallback
      else if d_netmask d \<noteq> 0 \<and> dst AND d_netmask d = d_ip d AND d_netmask d then Some (i, dst)
      else if fallback = None \<and> d_gateway d \<noteq> 0 then route_scan ds (i + 1) dst (Some (i, d_gateway d))
      else route_scan ds (i + 1) dst fallback)"

definition netdev_route :: "ipv4_addr \<Rightarrow> net \<Rightarrow> (nat \<times> ipv4_addr) option" where
  "netdev_route dst s =
     (if dst = IPV4_BROADCAST
      then map_option (\<lambda>i. (i, IPV4_BROADCAST)) (first_slot d_up (devices (net_dev s)))
      else route_scan (devices (net_dev s)) 0 dst None)"

section \<open>Receiving and sending\<close>

definition netdev_receive :: "nat \<Rightarrow> netbuf \<Rightarrow> net \<Rightarrow> net" where
  "netdev_receive dev b0 s =
     (let b = b0\<lparr>nb_dev := Some dev\<rparr> in
      if rx_queued (net_dev s) \<ge> RX_QUEUE_MAX
      then netbuf_free b (upd_dev dev (\<lambda>d. d\<lparr>d_rx_dropped := d_rx_dropped d + 1\<rparr>)
             (s\<lparr>net_dev := (net_dev s)\<lparr>rx_overflow := rx_overflow (net_dev s) + 1\<rparr>\<rparr>))
      else upd_dev dev (\<lambda>d. d\<lparr>d_rx_packets := d_rx_packets d + 1,
             d_rx_bytes := d_rx_bytes d + of_nat (nb_len b)\<rparr>)
           (s\<lparr>net_dev := (net_dev s)\<lparr>rx_queue := rx_queue (net_dev s) @ [b],
             rx_queued := rx_queued (net_dev s) + 1\<rparr>\<rparr>))"

definition rx_take :: "net \<Rightarrow> netbuf option \<times> net" where
  "rx_take s =
     (if rx_drain_held (net_dev s) then (None, s)
      else case rx_queue (net_dev s) of
        [] \<Rightarrow> (None, s)
      | b # rest \<Rightarrow> (Some b, s\<lparr>net_dev := (net_dev s)\<lparr>rx_queue := rest,
          rx_queued := rx_queued (net_dev s) - 1\<rparr>\<rparr>))"

text \<open>What the driver's \<^verbatim>\<open>transmit\<close> does with a frame, as in \<^verbatim>\<open>net_transmit\<close> of
  \<^verbatim>\<open>kernel/core/virtio_net.c\<close>: when the ring takes the frame it goes on the wire and the buffer
  is the device's; when it does not, the driver frees the buffer. Whether the ring takes it is
  the device's field.\<close>

definition driver_transmit :: "(u8 list \<Rightarrow> bool) \<Rightarrow> nat \<Rightarrow> netbuf \<Rightarrow> net \<Rightarrow> bool \<times> net" where
  "driver_transmit takes dev b s =
     (if takes (nb_bytes b)
      then (True, s\<lparr>net_dev := (net_dev s)\<lparr>wire := wire (net_dev s) @ [(dev, nb_bytes b)]\<rparr>\<rparr>)
      else (False, netbuf_free b s))"

definition netdev_transmit :: "nat \<Rightarrow> netbuf \<Rightarrow> net \<Rightarrow> bool \<times> net" where
  "netdev_transmit dev b s =
     (case (d_up (the_dev s dev), d_transmit (the_dev s dev)) of
        (True, Some transmit) \<Rightarrow>
          if nb_len b > ETH_FRAME_MAX
          then (False, netbuf_free b (upd_dev dev (\<lambda>d. d\<lparr>d_tx_errors := d_tx_errors d + 1\<rparr>) s))
          else
            let s1 = upd_dev dev (\<lambda>d. d\<lparr>d_tx_packets := d_tx_packets d + 1,
                       d_tx_bytes := d_tx_bytes d + of_nat (nb_len b)\<rparr>) s;
                (ok, s2) = driver_transmit transmit dev b s1
            in if ok then (True, s2)
               else (False, upd_dev dev (\<lambda>d. d\<lparr>d_tx_packets := d_tx_packets d - 1,
                       d_tx_bytes := d_tx_bytes d - of_nat (nb_len b), d_tx_errors := d_tx_errors d + 1\<rparr>) s2)
      | _ \<Rightarrow> (False, netbuf_free b (upd_dev dev (\<lambda>d. d\<lparr>d_tx_dropped := d_tx_dropped d + 1\<rparr>) s)))"

definition eth_transmit :: "nat \<Rightarrow> mac_addr \<Rightarrow> u16 \<Rightarrow> netbuf \<Rightarrow> net \<Rightarrow> bool \<times> net" where
  "eth_transmit dev dst ethertype b s =
     (case netbuf_push ETH_HDR_LEN b s of
        (None, s1) \<Rightarrow> (False, netbuf_free b s1)
      | (Some b1, s1) \<Rightarrow>
          let h = nb_data b1;
              m = net_put16 (store (store (nb_mem b1) h dst) (h + MAC_LEN) (d_mac (the_dev s1 dev)))
                    (h + 12) ethertype
          in netdev_transmit dev (b1\<lparr>nb_mem := m\<rparr>) s1)"

section \<open>What sending leaves alone\<close>

lemma upd_dev_frame [simp]:
  "net_pmm (upd_dev i f s) = net_pmm s" "net_nb (upd_dev i f s) = net_nb s"
  "net_eth (upd_dev i f s) = net_eth s" "net_arp (upd_dev i f s) = net_arp s"
  "net_ip (upd_dev i f s) = net_ip s" "net_icmp (upd_dev i f s) = net_icmp s"
  "net_udp (upd_dev i f s) = net_udp s" "net_tcp (upd_dev i f s) = net_tcp s"
  "net_sock (upd_dev i f s) = net_sock s" "net_dhcp (upd_dev i f s) = net_dhcp s"
  "now (upd_dev i f s) = now s" "entropy (upd_dev i f s) = entropy s"
  "panicked (upd_dev i f s) = panicked s"
  "rx_queue (net_dev (upd_dev i f s)) = rx_queue (net_dev s)"
  "rx_queued (net_dev (upd_dev i f s)) = rx_queued (net_dev s)"
  "rx_drain_held (net_dev (upd_dev i f s)) = rx_drain_held (net_dev s)"
  "wire (net_dev (upd_dev i f s)) = wire (net_dev s)"
  "length (devices (net_dev (upd_dev i f s))) = length (devices (net_dev s))"
  by (simp_all add: upd_dev_def)

text \<open>
  What a device is configured as, which only configuration changes, and \<open>env\<close>: the part of
  the state that sending and receiving packets leaves alone, with the queue of waiting
  frames and the clock.
\<close>

definition dev_config :: "net_device \<Rightarrow> mac_addr \<times> ipv4_addr \<times> ipv4_addr \<times> ipv4_addr \<times> bool \<times> (u8 list \<Rightarrow> bool) option" where
  "dev_config d = (d_mac d, d_ip d, d_netmask d, d_gateway d, d_up d, d_transmit d)"

definition env where
  "env s = (rx_queue (net_dev s), rx_queued (net_dev s), rx_drain_held (net_dev s), now s,
     map dev_config (devices (net_dev s)))"

lemma env_updates [simp]:
  "env (net_pmm_update f1 s) = env s" "env (net_nb_update f2 s) = env s" "env (net_eth_update f3 s) = env s"
  "env (net_arp_update f4 s) = env s" "env (net_ip_update f5 s) = env s" "env (net_icmp_update f6 s) = env s"
  "env (net_udp_update f7 s) = env s" "env (net_tcp_update f8 s) = env s" "env (net_sock_update f9 s) = env s"
  "env (net_dhcp_update f10 s) = env s" "env (entropy_update f11 s) = env s" "env (panicked_update f12 s) = env s"
  by (simp_all add: env_def)

lemma env_cong: "net_dev t = net_dev s \<Longrightarrow> now t = now s \<Longrightarrow> env t = env s"
  by (simp add: env_def)

lemma env_eqD:
  assumes "env t = env s"
  shows "rx_queue (net_dev t) = rx_queue (net_dev s)" "rx_queued (net_dev t) = rx_queued (net_dev s)"
    "rx_drain_held (net_dev t) = rx_drain_held (net_dev s)" "now t = now s"
    "length (devices (net_dev t)) = length (devices (net_dev s))"
    "map dev_config (devices (net_dev t)) = map dev_config (devices (net_dev s))"
  using assms map_eq_imp_length_eq [of dev_config "devices (net_dev t)" dev_config "devices (net_dev s)"]
  by (simp_all add: env_def)

lemma nth_beyond: "length xs \<le> n \<Longrightarrow> xs ! n = [] ! (n - length xs)"
  by (induction xs arbitrary: n) (auto simp: nth_Cons' split: nat.splits)

lemma env_dev_config:
  assumes "env t = env s"
  shows "dev_config (the_dev t i) = dev_config (the_dev s i)"
proof (cases "i < length (devices (net_dev s))")
  case True
  then show ?thesis
    using env_eqD(5,6) [OF assms] unfolding the_dev_def by (metis nth_map)
next
  case False
  then show ?thesis
    using env_eqD(5) [OF assms] nth_beyond [of "devices (net_dev s)" i] nth_beyond [of "devices (net_dev t)" i]
    by (simp add: the_dev_def)
qed

lemma env_dev:
  assumes "env t = env s"
  shows "d_mac (the_dev t i) = d_mac (the_dev s i)" "d_ip (the_dev t i) = d_ip (the_dev s i)"
    "d_netmask (the_dev t i) = d_netmask (the_dev s i)" "d_gateway (the_dev t i) = d_gateway (the_dev s i)"
    "d_up (the_dev t i) = d_up (the_dev s i)" "d_transmit (the_dev t i) = d_transmit (the_dev s i)"
  using env_dev_config [OF assms, of i] by (simp_all add: dev_config_def)

lemma env_upd_dev:
  "(\<And>d. dev_config (f d) = dev_config d) \<Longrightarrow> env (upd_dev i f s) = env s"
  by (simp add: env_def upd_dev_def the_dev_def map_update list_update_same_conv)
    (metis list_update_beyond list_update_id linorder_not_less map_update nth_map)

lemma env_counters [simp]:
  "env (upd_dev i (d_rx_errors_update f) s) = env s" "env (upd_dev i (d_tx_errors_update f) s) = env s"
  "env (upd_dev i (d_tx_dropped_update f) s) = env s"
  "env (upd_dev i (\<lambda>d. d\<lparr>d_tx_errors := g d\<rparr>) s) = env s" "env (upd_dev i (\<lambda>d. d\<lparr>d_tx_dropped := g d\<rparr>) s) = env s"
  "env (upd_dev i (\<lambda>d. d\<lparr>d_rx_errors := g d\<rparr>) s) = env s"
  "env (upd_dev i (\<lambda>d. d\<lparr>d_tx_packets := g d, d_tx_bytes := g' d\<rparr>) s) = env s"
  "env (upd_dev i (\<lambda>d. d\<lparr>d_tx_packets := g d, d_tx_bytes := g' d, d_tx_errors := g'' d\<rparr>) s) = env s"
  by (simp_all add: env_upd_dev dev_config_def)

lemma env_wire [simp]: "env (s\<lparr>net_dev := (net_dev s)\<lparr>wire := w\<rparr>\<rparr>) = env s"
  by (simp add: env_def)

lemma netbuf_env [simp]:
  "env (snd (alloc_page s)) = env s" "env (free_pages1 a s) = env s"
  "env (snd (netbuf_alloc s)) = env s" "env (netbuf_free b s) = env s"
  "env (snd (netbuf_push n b s)) = env s" "env (snd (netbuf_pull n b s)) = env s"
  "env (snd (netbuf_put n b s)) = env s"
  by (rule env_cong; simp)+

lemma netdev_transmit_frame [simp]:
  "net_eth (snd (netdev_transmit i b s)) = net_eth s" "net_arp (snd (netdev_transmit i b s)) = net_arp s"
  "net_ip (snd (netdev_transmit i b s)) = net_ip s" "net_icmp (snd (netdev_transmit i b s)) = net_icmp s"
  "net_udp (snd (netdev_transmit i b s)) = net_udp s" "net_tcp (snd (netdev_transmit i b s)) = net_tcp s"
  "net_sock (snd (netdev_transmit i b s)) = net_sock s" "net_dhcp (snd (netdev_transmit i b s)) = net_dhcp s"
  "now (snd (netdev_transmit i b s)) = now s" "entropy (snd (netdev_transmit i b s)) = entropy s"
  "env (snd (netdev_transmit i b s)) = env s"
  by (simp_all add: netdev_transmit_def driver_transmit_def Let_def split: bool.splits option.splits)

lemma eth_transmit_frame [simp]:
  "net_eth (snd (eth_transmit i d t b s)) = net_eth s" "net_arp (snd (eth_transmit i d t b s)) = net_arp s"
  "net_ip (snd (eth_transmit i d t b s)) = net_ip s" "net_icmp (snd (eth_transmit i d t b s)) = net_icmp s"
  "net_udp (snd (eth_transmit i d t b s)) = net_udp s" "net_tcp (snd (eth_transmit i d t b s)) = net_tcp s"
  "net_sock (snd (eth_transmit i d t b s)) = net_sock s" "net_dhcp (snd (eth_transmit i d t b s)) = net_dhcp s"
  "now (snd (eth_transmit i d t b s)) = now s" "entropy (snd (eth_transmit i d t b s)) = entropy s"
  "env (snd (eth_transmit i d t b s)) = env s"
  by (simp_all add: eth_transmit_def Let_def case_prod_beta split: option.splits)

end
