(* ===== verification/Arp.thy ===== *)
theory Arp
  imports Netdev
begin

text \<open>
  ARP, \<^verbatim>\<open>kernel/core/arp.c\<close>: the cache of hardware addresses, the requests a lookup sends
  on a miss, and what an arriving ARP packet teaches the cache.

  The cache is an array of 32 entries. \<open>find\<close> is the first valid entry for an address;
  \<open>victim\<close> is the loop of \<^verbatim>\<open>learn\<close> that picks a free slot or the oldest entry. The
  pointer that loop leaves is null when every entry carries the largest time stamp, and the
  code then writes through it; the model records that as a panic.
\<close>

definition ARP_HDR_LEN :: nat where "ARP_HDR_LEN = 28"
definition ARP_CACHE_SIZE :: nat where "ARP_CACHE_SIZE = 32"
definition ARP_TTL_NS :: u64 where "ARP_TTL_NS = 60 * 1000000000"

abbreviation ARP_HW_ETHERNET :: u16 where "ARP_HW_ETHERNET \<equiv> 1"
abbreviation ARP_OP_REQUEST :: u16 where "ARP_OP_REQUEST \<equiv> 1"
abbreviation ARP_OP_REPLY :: u16 where "ARP_OP_REPLY \<equiv> 2"

section \<open>The cache\<close>

definition arp_find :: "arp_entry list \<Rightarrow> ipv4_addr \<Rightarrow> nat option" where
  "arp_find cache ip = first_slot (\<lambda>e. ae_valid e \<and> ae_ip e = ip) cache"

text \<open>The arguments are the rest of the array, the index it starts at, \<^verbatim>\<open>oldest\<close> and \<^verbatim>\<open>e\<close>.\<close>

fun arp_victim :: "arp_entry list \<Rightarrow> nat \<Rightarrow> u64 \<Rightarrow> nat option \<Rightarrow> nat option" where
  "arp_victim [] i oldest e = e"
| "arp_victim (c # cs) i oldest e =
     (if \<not> ae_valid c then Some i
      else if ae_learned_ns c < oldest then arp_victim cs (i + 1) (ae_learned_ns c) (Some i)
      else arp_victim cs (i + 1) oldest e)"

definition arp_slot :: "arp_entry list \<Rightarrow> ipv4_addr \<Rightarrow> nat option" where
  "arp_slot cache ip = (case arp_find cache ip of
     Some i \<Rightarrow> Some i | None \<Rightarrow> arp_victim cache 0 (NOT 0) None)"

definition arp_learn :: "nat \<Rightarrow> ipv4_addr \<Rightarrow> mac_addr \<Rightarrow> net \<Rightarrow> net" where
  "arp_learn dev ip mac s =
     (if ip = 0 \<or> ip = IPV4_BROADCAST \<or> mac_equal mac MAC_ZERO then s
      else case arp_slot (arp_cache (net_arp s)) ip of
        None \<Rightarrow> kpanic ''arp: null entry'' s
      | Some i \<Rightarrow> s\<lparr>net_arp := (net_arp s)\<lparr>arp_cache := (arp_cache (net_arp s))[i :=
          \<lparr>ae_ip = ip, ae_mac = mac, ae_learned_ns = now s, ae_dev = dev, ae_valid = True\<rparr>]\<rparr>\<rparr>)"

section \<open>Packets\<close>

definition arp_write :: "mem \<Rightarrow> nat \<Rightarrow> u16 \<Rightarrow> mac_addr \<Rightarrow> ipv4_addr \<Rightarrow> mac_addr \<Rightarrow> ipv4_addr \<Rightarrow> mem" where
  "arp_write m0 a op smac sip tmac tip =
     (let m1 = net_put16 m0 a ARP_HW_ETHERNET;
          m2 = net_put16 m1 (a + 2) ETH_TYPE_IPV4;
          m3 = (m2(a + 4 := of_nat MAC_LEN))(a + 5 := 4);
          m4 = net_put16 m3 (a + 6) op;
          m5 = net_put32 (store m4 (a + 8) smac) (a + 14) sip
      in net_put32 (store m5 (a + 18) tmac) (a + 24) tip)"

definition arp_send_packet ::
  "nat \<Rightarrow> u16 \<Rightarrow> mac_addr \<Rightarrow> ipv4_addr \<Rightarrow> mac_addr \<Rightarrow> net \<Rightarrow> bool \<times> net" where
  "arp_send_packet dev op target_mac target_ip frame_dst s =
     (case netbuf_alloc s of
        (None, s1) \<Rightarrow> (False, s1)
      | (Some b, s1) \<Rightarrow>
          (case netbuf_put ARP_HDR_LEN b s1 of
             (None, s2) \<Rightarrow> (False, netbuf_free b s2)
           | (Some b1, s2) \<Rightarrow>
               let a = nb_data b + nb_len b; d = the_dev s2 dev in
               eth_transmit dev frame_dst ETH_TYPE_ARP
                 (b1\<lparr>nb_mem := arp_write (nb_mem b1) a op (d_mac d) (d_ip d) target_mac target_ip\<rparr>) s2))"

definition arp_is_broadcast :: "net_device \<Rightarrow> ipv4_addr \<Rightarrow> bool" where
  "arp_is_broadcast d ip \<longleftrightarrow> ip = IPV4_BROADCAST \<or>
     (d_netmask d \<noteq> 0 \<and> ip OR NOT (d_netmask d) = ip \<and> NOT (d_netmask d) \<noteq> 0)"

text \<open>The part of \<^verbatim>\<open>arp_lookup\<close> under the lock: the cached address, or the entry dropped.\<close>

definition arp_consult :: "ipv4_addr \<Rightarrow> net \<Rightarrow> mac_addr option \<times> net" where
  "arp_consult ip s =
     (let cache = arp_cache (net_arp s) in
      case arp_find cache ip of
        Some i \<Rightarrow>
          if now s - ae_learned_ns (cache ! i) < ARP_TTL_NS
          then (Some (ae_mac (cache ! i)), net_arp_update (bump arp_hits_update) s)
          else (None, net_arp_update (bump arp_misses_update)
                 (s\<lparr>net_arp := (net_arp s)\<lparr>arp_cache := cache[i := (cache ! i)\<lparr>ae_valid := False\<rparr>]\<rparr>\<rparr>))
      | None \<Rightarrow> (None, net_arp_update (bump arp_misses_update) s))"

definition arp_lookup :: "nat \<Rightarrow> ipv4_addr \<Rightarrow> net \<Rightarrow> mac_addr option \<times> net" where
  "arp_lookup dev ip s =
     (if arp_is_broadcast (the_dev s dev) ip then (Some MAC_BROADCAST, s)
      else case arp_consult ip s of
        (Some mac, s1) \<Rightarrow> (Some mac, s1)
      | (None, s1) \<Rightarrow>
          (None, snd (arp_send_packet dev ARP_OP_REQUEST MAC_ZERO ip MAC_BROADCAST
             (net_arp_update (bump arp_requests_sent_update) s1))))"

definition arp_receive :: "nat \<Rightarrow> netbuf \<Rightarrow> net \<Rightarrow> net" where
  "arp_receive dev b s =
     (let m = nb_mem b; a = nb_data b in
      if nb_len b < ARP_HDR_LEN then netbuf_free b (net_arp_update (bump arp_refused_update) s)
      else if net_get16 m a \<noteq> ARP_HW_ETHERNET \<or> net_get16 m (a + 2) \<noteq> ETH_TYPE_IPV4
        \<or> m (a + 4) \<noteq> of_nat MAC_LEN \<or> m (a + 5) \<noteq> 4
      then netbuf_free b (net_arp_update (bump arp_refused_update) s)
      else
        let op = net_get16 m (a + 6);
            sender_mac = bytes_at m (a + 8) MAC_LEN;
            sender_ip = net_get32 m (a + 14);
            target_ip = net_get32 m (a + 24);
            our_ip = d_ip (the_dev s dev);
            s1 = (if our_ip \<noteq> 0 \<and> target_ip = our_ip then arp_learn dev sender_ip sender_mac s else s)
        in if op = ARP_OP_REPLY
           then netbuf_free b (arp_learn dev sender_ip sender_mac
                  (net_arp_update (bump arp_replies_received_update) s1))
           else if op = ARP_OP_REQUEST \<and> our_ip \<noteq> 0 \<and> target_ip = our_ip
           then snd (arp_send_packet dev ARP_OP_REPLY sender_mac sender_ip sender_mac
                  (net_arp_update (bump arp_replies_sent_update) (netbuf_free b s1)))
           else netbuf_free b s1)"

section \<open>What ARP leaves alone\<close>

lemma arp_learn_frame [simp]:
  "net_pmm (arp_learn dev ip mac s) = net_pmm s" "net_nb (arp_learn dev ip mac s) = net_nb s"
  "net_dev (arp_learn dev ip mac s) = net_dev s"
  "net_ip (arp_learn dev ip mac s) = net_ip s" "net_icmp (arp_learn dev ip mac s) = net_icmp s"
  "net_udp (arp_learn dev ip mac s) = net_udp s" "net_tcp (arp_learn dev ip mac s) = net_tcp s"
  "net_sock (arp_learn dev ip mac s) = net_sock s" "net_dhcp (arp_learn dev ip mac s) = net_dhcp s"
  "net_eth (arp_learn dev ip mac s) = net_eth s"
  "now (arp_learn dev ip mac s) = now s" "entropy (arp_learn dev ip mac s) = entropy s"
  "env (arp_learn dev ip mac s) = env s"
  by (simp_all add: arp_learn_def kpanic_def split: option.splits)

lemma arp_send_packet_frame [simp]:
  "net_ip (snd (arp_send_packet dev op tm ti fd s)) = net_ip s"
  "net_arp (snd (arp_send_packet dev op tm ti fd s)) = net_arp s"
  "net_icmp (snd (arp_send_packet dev op tm ti fd s)) = net_icmp s"
  "net_udp (snd (arp_send_packet dev op tm ti fd s)) = net_udp s"
  "net_tcp (snd (arp_send_packet dev op tm ti fd s)) = net_tcp s"
  "net_sock (snd (arp_send_packet dev op tm ti fd s)) = net_sock s"
  "net_dhcp (snd (arp_send_packet dev op tm ti fd s)) = net_dhcp s"
  "net_eth (snd (arp_send_packet dev op tm ti fd s)) = net_eth s"
  "now (snd (arp_send_packet dev op tm ti fd s)) = now s"
  "entropy (snd (arp_send_packet dev op tm ti fd s)) = entropy s"
  "env (snd (arp_send_packet dev op tm ti fd s)) = env s"
  by (simp_all add: arp_send_packet_def Let_def case_prod_beta split: option.splits)

lemma arp_consult_frame [simp]:
  "net_pmm (snd (arp_consult ip s)) = net_pmm s" "net_nb (snd (arp_consult ip s)) = net_nb s"
  "net_dev (snd (arp_consult ip s)) = net_dev s"
  "net_ip (snd (arp_consult ip s)) = net_ip s" "net_icmp (snd (arp_consult ip s)) = net_icmp s"
  "net_udp (snd (arp_consult ip s)) = net_udp s" "net_tcp (snd (arp_consult ip s)) = net_tcp s"
  "net_sock (snd (arp_consult ip s)) = net_sock s" "net_dhcp (snd (arp_consult ip s)) = net_dhcp s"
  "net_eth (snd (arp_consult ip s)) = net_eth s" "panicked (snd (arp_consult ip s)) = panicked s"
  "now (snd (arp_consult ip s)) = now s" "entropy (snd (arp_consult ip s)) = entropy s"
  "env (snd (arp_consult ip s)) = env s"
  by (simp_all add: arp_consult_def Let_def split: option.splits)

lemma arp_lookup_frame [simp]:
  "net_ip (snd (arp_lookup dev ip s)) = net_ip s" "net_icmp (snd (arp_lookup dev ip s)) = net_icmp s"
  "net_udp (snd (arp_lookup dev ip s)) = net_udp s" "net_tcp (snd (arp_lookup dev ip s)) = net_tcp s"
  "net_sock (snd (arp_lookup dev ip s)) = net_sock s" "net_dhcp (snd (arp_lookup dev ip s)) = net_dhcp s"
  "net_eth (snd (arp_lookup dev ip s)) = net_eth s"
  "now (snd (arp_lookup dev ip s)) = now s" "entropy (snd (arp_lookup dev ip s)) = entropy s"
  "env (snd (arp_lookup dev ip s)) = env s"
  by (simp_all add: arp_lookup_def case_prod_beta split: option.splits)

lemma arp_receive_frame [simp]:
  "net_ip (arp_receive dev b s) = net_ip s" "net_icmp (arp_receive dev b s) = net_icmp s"
  "net_udp (arp_receive dev b s) = net_udp s" "net_tcp (arp_receive dev b s) = net_tcp s"
  "net_sock (arp_receive dev b s) = net_sock s" "net_dhcp (arp_receive dev b s) = net_dhcp s"
  "net_eth (arp_receive dev b s) = net_eth s"
  "now (arp_receive dev b s) = now s" "entropy (arp_receive dev b s) = entropy s"
  "env (arp_receive dev b s) = env s"
  by (simp_all add: arp_receive_def Let_def)

end
