(* ===== verification/Ip.thy ===== *)
theory Ip
  imports Arp
begin

text \<open>
  The sending half of IPv4, \<^verbatim>\<open>kernel/core/ip.c\<close>: building a header onto a transport
  payload, choosing a device and a hardware address, and the array of packets that wait for
  an ARP answer. \<^verbatim>\<open>ip_receive\<close>, which calls the transports, is in the theory
  \<^verbatim>\<open>Stack\<close>.
\<close>

abbreviation IP_VERSION_4 :: u8 where "IP_VERSION_4 \<equiv> 4"
abbreviation IP_DEFAULT_TTL :: u8 where "IP_DEFAULT_TTL \<equiv> 64"
abbreviation IP_FLAG_MORE_FRAGMENTS :: u16 where "IP_FLAG_MORE_FRAGMENTS \<equiv> 0x2000"
abbreviation IP_FRAGMENT_OFFSET_MASK :: u16 where "IP_FRAGMENT_OFFSET_MASK \<equiv> 0x1FFF"

definition PENDING_MAX :: nat where "PENDING_MAX = 8"
definition PENDING_TTL_NS :: u64 where "PENDING_TTL_NS = 3 * 1000000000"

definition ip_next_id :: "net \<Rightarrow> u16 \<times> net" where
  "ip_next_id s = (let i = ip_id (net_ip s) + 1 in (i, s\<lparr>net_ip := (net_ip s)\<lparr>ip_id := i\<rparr>\<rparr>))"

definition ip_finish_send :: "nat \<Rightarrow> mac_addr \<Rightarrow> netbuf \<Rightarrow> net \<Rightarrow> bool \<times> net" where
  "ip_finish_send dev dst b s = eth_transmit dev dst ETH_TYPE_IPV4 b s"

text \<open>The writes of \<^verbatim>\<open>build_header\<close>, the checksum last.\<close>

definition ip_write :: "mem \<Rightarrow> nat \<Rightarrow> nat \<Rightarrow> u16 \<Rightarrow> u8 \<Rightarrow> ipv4_addr \<Rightarrow> ipv4_addr \<Rightarrow> mem" where
  "ip_write m0 h tot ident protocol src dst =
     (let m1 = (m0(h := push_bit 4 IP_VERSION_4 OR of_nat (IP_HDR_LEN div 4)))(h + 1 := 0);
          m2 = net_put16 m1 (h + 2) (of_nat tot);
          m3 = net_put16 m2 (h + 4) ident;
          m4 = net_put16 m3 (h + 6) 0;
          m5 = (m4(h + 8 := IP_DEFAULT_TTL))(h + 9 := protocol);
          m6 = net_put16 m5 (h + 10) 0;
          m7 = net_put32 m6 (h + 12) src;
          m8 = net_put32 m7 (h + 16) dst
      in net_put16 m8 (h + 10) (net_checksum m8 h IP_HDR_LEN))"

definition ip_build_header :: "netbuf \<Rightarrow> nat \<Rightarrow> ipv4_addr \<Rightarrow> u8 \<Rightarrow> net \<Rightarrow> netbuf option \<times> net" where
  "ip_build_header b dev dst protocol s =
     (let tot = wrap32 (nb_len b + IP_HDR_LEN) in
      if tot > NET_MTU then (None, s)
      else case netbuf_push IP_HDR_LEN b s of
        (None, s1) \<Rightarrow> (None, s1)
      | (Some b1, s1) \<Rightarrow>
          let (ident, s2) = ip_next_id s1
          in (Some (b1\<lparr>nb_mem := ip_write (nb_mem b1) (nb_data b1) tot ident protocol
                (d_ip (the_dev s2 dev)) dst\<rparr>), s2))"

definition ip_hold :: "netbuf \<Rightarrow> nat \<Rightarrow> ipv4_addr \<Rightarrow> net \<Rightarrow> bool \<times> net" where
  "ip_hold b dev hop s =
     (let ps = ip_pending (net_ip s) in
      case first_slot (\<lambda>p. \<not> pd_used p) ps of
        Some i \<Rightarrow> (True, net_ip_update (bump ip_tx_pending_update)
          (s\<lparr>net_ip := (net_ip s)\<lparr>ip_pending := ps[i := \<lparr>pd_buf = b, pd_dev = dev,
             pd_next_hop = hop, pd_queued_ns = now s, pd_used = True\<rparr>]\<rparr>\<rparr>))
      | None \<Rightarrow> (False, netbuf_free b (net_ip_update (bump ip_tx_pending_dropped_update) s)))"

definition ip_transmit :: "ipv4_addr \<Rightarrow> u8 \<Rightarrow> netbuf \<Rightarrow> net \<Rightarrow> bool \<times> net" where
  "ip_transmit dst protocol b s =
     (case netdev_route dst s of
        None \<Rightarrow> (False, netbuf_free b (net_ip_update (bump ip_tx_no_route_update) s))
      | Some (dev, hop) \<Rightarrow>
          (case ip_build_header b dev dst protocol s of
             (None, s1) \<Rightarrow> (False, netbuf_free b s1)
           | (Some b1, s1) \<Rightarrow>
               (case arp_lookup dev hop s1 of
                  (Some mac, s2) \<Rightarrow> ip_finish_send dev mac b1 (net_ip_update (bump ip_tx_packets_update) s2)
                | (None, s2) \<Rightarrow> ip_hold b1 dev hop s2)))"

text \<open>One turn of the loop of \<^verbatim>\<open>ip_flush_pending\<close>, at slot \<open>i\<close>, and the loop over the rest
  of the array.\<close>

definition ip_release :: "nat \<Rightarrow> net \<Rightarrow> net" where
  "ip_release i s = s\<lparr>net_ip := (net_ip s)\<lparr>ip_pending :=
     (ip_pending (net_ip s))[i := (ip_pending (net_ip s) ! i)\<lparr>pd_used := False\<rparr>]\<rparr>\<rparr>"

definition ip_flush_slot :: "nat \<Rightarrow> net \<Rightarrow> net" where
  "ip_flush_slot i s =
     (let p = ip_pending (net_ip s) ! i in
      if \<not> pd_used p then s
      else if now s - pd_queued_ns p > PENDING_TTL_NS
      then netbuf_free (pd_buf p) (net_ip_update (bump ip_tx_pending_dropped_update) (ip_release i s))
      else case arp_lookup (pd_dev p) (pd_next_hop p) s of
        (None, s1) \<Rightarrow> s1
      | (Some mac, s1) \<Rightarrow>
          let q = ip_pending (net_ip s1) ! i in
          if pd_used q
          then snd (ip_finish_send (pd_dev p) mac (pd_buf q)
                 (net_ip_update (bump ip_tx_packets_update) (ip_release i s1)))
          else s1)"

definition ip_flush_pending :: "net \<Rightarrow> net" where
  "ip_flush_pending s = fold ip_flush_slot [0..<PENDING_MAX] s"

section \<open>What sending a packet leaves alone\<close>

lemma ip_next_id_frame [simp]:
  "net_icmp (snd (ip_next_id s)) = net_icmp s" "net_udp (snd (ip_next_id s)) = net_udp s"
  "net_tcp (snd (ip_next_id s)) = net_tcp s" "net_sock (snd (ip_next_id s)) = net_sock s"
  "net_dhcp (snd (ip_next_id s)) = net_dhcp s" "net_eth (snd (ip_next_id s)) = net_eth s"
  "net_arp (snd (ip_next_id s)) = net_arp s" "net_dev (snd (ip_next_id s)) = net_dev s"
  "net_nb (snd (ip_next_id s)) = net_nb s" "net_pmm (snd (ip_next_id s)) = net_pmm s"
  "panicked (snd (ip_next_id s)) = panicked s"
  "now (snd (ip_next_id s)) = now s" "entropy (snd (ip_next_id s)) = entropy s"
  "env (snd (ip_next_id s)) = env s"
  "ip_pending (net_ip (snd (ip_next_id s))) = ip_pending (net_ip s)"
  by (simp_all add: ip_next_id_def Let_def)

lemma ip_build_header_frame [simp]:
  "net_icmp (snd (ip_build_header b dev dst p s)) = net_icmp s"
  "net_udp (snd (ip_build_header b dev dst p s)) = net_udp s"
  "net_tcp (snd (ip_build_header b dev dst p s)) = net_tcp s"
  "net_sock (snd (ip_build_header b dev dst p s)) = net_sock s"
  "net_dhcp (snd (ip_build_header b dev dst p s)) = net_dhcp s"
  "net_eth (snd (ip_build_header b dev dst p s)) = net_eth s"
  "net_arp (snd (ip_build_header b dev dst p s)) = net_arp s"
  "net_dev (snd (ip_build_header b dev dst p s)) = net_dev s"
  "now (snd (ip_build_header b dev dst p s)) = now s"
  "entropy (snd (ip_build_header b dev dst p s)) = entropy s"
  "env (snd (ip_build_header b dev dst p s)) = env s"
  "ip_pending (net_ip (snd (ip_build_header b dev dst p s))) = ip_pending (net_ip s)"
  by (simp_all add: ip_build_header_def Let_def case_prod_beta split: option.splits)

lemma ip_hold_frame [simp]:
  "net_icmp (snd (ip_hold b dev hop s)) = net_icmp s" "net_udp (snd (ip_hold b dev hop s)) = net_udp s"
  "net_tcp (snd (ip_hold b dev hop s)) = net_tcp s" "net_sock (snd (ip_hold b dev hop s)) = net_sock s"
  "net_dhcp (snd (ip_hold b dev hop s)) = net_dhcp s" "net_eth (snd (ip_hold b dev hop s)) = net_eth s"
  "net_arp (snd (ip_hold b dev hop s)) = net_arp s" "net_dev (snd (ip_hold b dev hop s)) = net_dev s"
  "now (snd (ip_hold b dev hop s)) = now s" "entropy (snd (ip_hold b dev hop s)) = entropy s"
  "env (snd (ip_hold b dev hop s)) = env s"
  by (simp_all add: ip_hold_def Let_def split: option.splits)

lemma ip_transmit_frame [simp]:
  "net_icmp (snd (ip_transmit dst p b s)) = net_icmp s" "net_udp (snd (ip_transmit dst p b s)) = net_udp s"
  "net_tcp (snd (ip_transmit dst p b s)) = net_tcp s" "net_sock (snd (ip_transmit dst p b s)) = net_sock s"
  "net_dhcp (snd (ip_transmit dst p b s)) = net_dhcp s" "net_eth (snd (ip_transmit dst p b s)) = net_eth s"
  "now (snd (ip_transmit dst p b s)) = now s" "entropy (snd (ip_transmit dst p b s)) = entropy s"
  "env (snd (ip_transmit dst p b s)) = env s"
  by (simp_all add: ip_transmit_def ip_finish_send_def case_prod_beta split: option.splits prod.splits)

lemma ip_release_frame [simp]:
  "net_icmp (ip_release i s) = net_icmp s" "net_udp (ip_release i s) = net_udp s"
  "net_tcp (ip_release i s) = net_tcp s" "net_sock (ip_release i s) = net_sock s"
  "net_dhcp (ip_release i s) = net_dhcp s" "net_eth (ip_release i s) = net_eth s"
  "net_arp (ip_release i s) = net_arp s" "net_dev (ip_release i s) = net_dev s"
  "net_nb (ip_release i s) = net_nb s" "net_pmm (ip_release i s) = net_pmm s"
  "panicked (ip_release i s) = panicked s"
  "now (ip_release i s) = now s" "entropy (ip_release i s) = entropy s" "env (ip_release i s) = env s"
  by (simp_all add: ip_release_def)

lemma ip_flush_slot_frame [simp]:
  "net_icmp (ip_flush_slot i s) = net_icmp s" "net_udp (ip_flush_slot i s) = net_udp s"
  "net_tcp (ip_flush_slot i s) = net_tcp s" "net_sock (ip_flush_slot i s) = net_sock s"
  "net_dhcp (ip_flush_slot i s) = net_dhcp s" "net_eth (ip_flush_slot i s) = net_eth s"
  "now (ip_flush_slot i s) = now s" "entropy (ip_flush_slot i s) = entropy s" "env (ip_flush_slot i s) = env s"
  by (simp_all add: ip_flush_slot_def ip_finish_send_def Let_def case_prod_beta split: option.splits)

lemma fold_keeps: "(\<And>x s. f (g x s) = f s) \<Longrightarrow> f (fold g xs s) = f s"
  by (induction xs arbitrary: s) simp_all

lemma ip_flush_pending_frame [simp]:
  "net_icmp (ip_flush_pending s) = net_icmp s" "net_udp (ip_flush_pending s) = net_udp s"
  "net_tcp (ip_flush_pending s) = net_tcp s" "net_sock (ip_flush_pending s) = net_sock s"
  "net_dhcp (ip_flush_pending s) = net_dhcp s" "net_eth (ip_flush_pending s) = net_eth s"
  "now (ip_flush_pending s) = now s" "entropy (ip_flush_pending s) = entropy s" "env (ip_flush_pending s) = env s"
  unfolding ip_flush_pending_def by (rule fold_keeps; simp)+

end
