(* ===== verification/Icmp.thy ===== *)
theory Icmp
  imports Ip
begin

text \<open>
  ICMP echo, \<^verbatim>\<open>kernel/core/icmp.c\<close>: sending a request and remembering it, matching a
  reply with it, and answering a request in place with an adjusted checksum.
\<close>

abbreviation ICMP_ECHO_REPLY :: u8 where "ICMP_ECHO_REPLY \<equiv> 0"
abbreviation ICMP_ECHO_REQUEST :: u8 where "ICMP_ECHO_REQUEST \<equiv> 8"

definition ICMP_HDR_LEN :: nat where "ICMP_HDR_LEN = 8"
definition ECHO_MAX :: nat where "ECHO_MAX = 8"

section \<open>Sending a request\<close>

fun echo_oldest :: "echo list \<Rightarrow> nat \<Rightarrow> u64 \<Rightarrow> nat option \<Rightarrow> nat option" where
  "echo_oldest [] i oldest e = e"
| "echo_oldest (c # cs) i oldest e =
     (if e_sent_ns c < oldest then echo_oldest cs (i + 1) (e_sent_ns c) (Some i)
      else echo_oldest cs (i + 1) oldest e)"

definition echo_slot :: "echo list \<Rightarrow> nat option" where
  "echo_slot es = (case first_slot (\<lambda>e. \<not> e_used e) es of
     Some i \<Rightarrow> Some i | None \<Rightarrow> echo_oldest es 0 (NOT 0) None)"

text \<open>The 32 letters after the header.\<close>

definition echo_payload :: "u8 list" where
  "echo_payload = map (\<lambda>i. of_nat (97 + i mod 26)) [0..<32]"

definition echo_write :: "mem \<Rightarrow> nat \<Rightarrow> u16 \<Rightarrow> mem" where
  "echo_write m0 h ident =
     (let m1 = (m0(h := ICMP_ECHO_REQUEST))(h + 1 := 0);
          m2 = net_put16 m1 (h + 2) 0;
          m3 = net_put16 m2 (h + 4) ident;
          m4 = net_put16 m3 (h + 6) 1;
          m5 = store m4 (h + ICMP_HDR_LEN) echo_payload
      in net_put16 m5 (h + 2) (net_checksum m5 h (ICMP_HDR_LEN + 32)))"

definition icmp_take_id :: "net \<Rightarrow> u16 \<times> net" where
  "icmp_take_id s =
     (let i = icmp_next_id (net_icmp s); n = i + 1
      in (i, s\<lparr>net_icmp := (net_icmp s)\<lparr>icmp_next_id := (if n = 0 then 1 else n)\<rparr>\<rparr>))"

definition set_echo :: "nat \<Rightarrow> (echo \<Rightarrow> echo) \<Rightarrow> net \<Rightarrow> net" where
  "set_echo i f s = s\<lparr>net_icmp := (net_icmp s)\<lparr>echoes := (echoes (net_icmp s))[i := f (echoes (net_icmp s) ! i)]\<rparr>\<rparr>"

definition icmp_echo_send :: "ipv4_addr \<Rightarrow> net \<Rightarrow> u16 \<times> net" where
  "icmp_echo_send dst s =
     (let slot = echo_slot (echoes (net_icmp s)) in
      case netbuf_alloc s of
        (None, s1) \<Rightarrow> (0, s1)
      | (Some b, s1) \<Rightarrow>
          let (ident, s2) = icmp_take_id s1 in
          (case netbuf_put (ICMP_HDR_LEN + 32) b s2 of
             (None, s3) \<Rightarrow> (0, netbuf_free b s3)
           | (Some b1, s3) \<Rightarrow>
               let h = nb_data b + nb_len b; b2 = b1\<lparr>nb_mem := echo_write (nb_mem b1) h ident\<rparr> in
               (case slot of
                  None \<Rightarrow> (0, kpanic ''icmp: null echo'' s3)
                | Some i \<Rightarrow>
                    let s4 = set_echo i (\<lambda>_. \<lparr>e_id = ident, e_seq = 1, e_dst = dst, e_sent_ns = now s3,
                               e_replied_ns = 0, e_used = True, e_answered = False\<rparr>) s3;
                        (sent, s5) = ip_transmit dst IP_PROTO_ICMP b2
                               (net_icmp_update (bump icmp_requests_sent_update) s4)
                    in if sent then (ident, s5) else (0, set_echo i (\<lambda>e. e\<lparr>e_used := False\<rparr>) s5))))"

text \<open>The round-trip time when the echo was answered.\<close>

definition icmp_echo_seen :: "u16 \<Rightarrow> net \<Rightarrow> u64 option" where
  "icmp_echo_seen ident s =
     (case first_slot (\<lambda>e. e_used e \<and> e_id e = ident) (echoes (net_icmp s)) of
        None \<Rightarrow> None
      | Some i \<Rightarrow> let e = echoes (net_icmp s) ! i in
          if \<not> e_answered e then None else Some (e_replied_ns e - e_sent_ns e))"

section \<open>Receiving\<close>

text \<open>The checksum of a reply from the checksum of the request it answers.\<close>

definition icmp_adjust :: "u16 \<Rightarrow> u16" where
  "icmp_adjust c =
     (let adjusted = (ucast (NOT c) :: u32);
          borrowed = (if adjusted < 0x0800 then adjusted + 0xFFFF else adjusted)
      in ucast (NOT (borrowed - 0x0800) AND 0xFFFF))"

definition icmp_turn :: "mem \<Rightarrow> nat \<Rightarrow> mem" where
  "icmp_turn m h = net_put16 (m(h := ICMP_ECHO_REPLY)) (h + 2) (icmp_adjust (net_get16 m (h + 2)))"

definition icmp_receive :: "nat \<Rightarrow> netbuf \<Rightarrow> net \<Rightarrow> net" where
  "icmp_receive dev b s =
     (let m = nb_mem b; h = nb_data b in
      if nb_len b < ICMP_HDR_LEN then netbuf_free b (net_icmp_update (bump icmp_rx_short_update) s)
      else if net_checksum m h (nb_len b) \<noteq> 0
      then netbuf_free b (net_icmp_update (bump icmp_rx_bad_checksum_update) s)
      else if m h = ICMP_ECHO_REPLY
      then let s1 = net_icmp_update (bump icmp_replies_received_update) s in
           netbuf_free b
             (case first_slot (\<lambda>e. e_used e \<and> e_id e = net_get16 m (h + 4)) (echoes (net_icmp s1)) of
                None \<Rightarrow> s1
              | Some i \<Rightarrow> set_echo i (\<lambda>e. e\<lparr>e_answered := True, e_replied_ns := now s1\<rparr>) s1)
      else if m h = ICMP_ECHO_REQUEST
      then snd (ip_transmit (nb_src_ip b) IP_PROTO_ICMP (b\<lparr>nb_mem := icmp_turn m h\<rparr>)
             (net_icmp_update (bump icmp_replies_sent_update) s))
      else netbuf_free b (net_icmp_update (bump icmp_rx_unknown_type_update) s))"

lemma set_echo_frame [simp]:
  "env (set_echo i f s) = env s" "now (set_echo i f s) = now s" "net_udp (set_echo i f s) = net_udp s"
  "net_tcp (set_echo i f s) = net_tcp s" "net_sock (set_echo i f s) = net_sock s"
  "net_dhcp (set_echo i f s) = net_dhcp s" "net_ip (set_echo i f s) = net_ip s"
  "net_nb (set_echo i f s) = net_nb s" "net_pmm (set_echo i f s) = net_pmm s"
  "panicked (set_echo i f s) = panicked s" "net_arp (set_echo i f s) = net_arp s"
  "net_dev (set_echo i f s) = net_dev s"
  by (simp_all add: set_echo_def)

lemma icmp_receive_frame [simp]:
  "env (icmp_receive dev b s) = env s" "now (icmp_receive dev b s) = now s"
  "net_udp (icmp_receive dev b s) = net_udp s" "net_tcp (icmp_receive dev b s) = net_tcp s"
  "net_sock (icmp_receive dev b s) = net_sock s" "net_dhcp (icmp_receive dev b s) = net_dhcp s"
  by (simp_all add: icmp_receive_def Let_def split: option.splits)

end
