(* ===== verification/Ring.thy ===== *)
theory Ring
  imports Prelude
begin

text \<open>
  Bounded first-in-first-out queues. Four parts of the stack keep one: the receive and the
  send buffer of a TCP connection, the datagrams of a socket and the frames between a driver
  and the worker. The first three are circular arrays with a head and a length; the last is
  a linked list with a count.

  \<open>fill_while\<close> and \<open>drain_while\<close> are the two loops the code writes around such a queue: add
  while there is something to add and room for it, take while something is wanted and there
  is something. The locale \<open>bounded_buffer\<close> is the contract of the filling side and \<open>bounded_fifo\<close> adds
  the draining side; they hold what those loops then do.
\<close>

section \<open>The loops\<close>

text \<open>The number of elements that went in, and the queue.\<close>

fun fill_while :: "('q \<Rightarrow> bool) \<Rightarrow> ('a \<Rightarrow> 'q \<Rightarrow> 'q) \<Rightarrow> 'a list \<Rightarrow> 'q \<Rightarrow> nat \<times> 'q" where
  "fill_while room push [] q = (0, q)"
| "fill_while room push (x # xs) q =
     (if room q then (let (n, q') = fill_while room push xs (push x q) in (Suc n, q')) else (0, q))"

text \<open>The elements that came out, at most \<open>n\<close>, and the queue.\<close>

fun drain_while :: "('q \<Rightarrow> bool) \<Rightarrow> ('q \<Rightarrow> 'a) \<Rightarrow> ('q \<Rightarrow> 'q) \<Rightarrow> nat \<Rightarrow> 'q \<Rightarrow> 'a list \<times> 'q" where
  "drain_while some front pop 0 q = ([], q)"
| "drain_while some front pop (Suc n) q =
     (if some q then (let (xs, q') = drain_while some front pop n (pop q) in (front q # xs, q')) else ([], q))"

lemma fill_while_keeps:
  "(\<And>x q. f (push x q) = f q) \<Longrightarrow> f (snd (fill_while room push xs q)) = f q"
  by (induction xs arbitrary: q) (simp_all add: case_prod_beta)

lemma drain_while_keeps:
  "(\<And>q. f (pop q) = f q) \<Longrightarrow> f (snd (drain_while some front pop n q)) = f q"
  by (induction n arbitrary: q) (simp_all add: case_prod_beta)

section \<open>The contract\<close>

locale bounded_buffer =
  fixes wf :: "'q \<Rightarrow> bool"
    and elems :: "'q \<Rightarrow> 'a list"
    and room :: "'q \<Rightarrow> bool"
    and push :: "'a \<Rightarrow> 'q \<Rightarrow> 'q"
    and cap :: nat
  assumes bounded: "wf q \<Longrightarrow> length (elems q) \<le> cap"
    and room_iff: "wf q \<Longrightarrow> room q \<longleftrightarrow> length (elems q) < cap"
    and push_wf: "wf q \<Longrightarrow> room q \<Longrightarrow> wf (push x q)"
    and push_elems: "wf q \<Longrightarrow> room q \<Longrightarrow> elems (push x q) = elems q @ [x]"
begin

text \<open>Filling adds a prefix: as much as there is room for, in order.\<close>

lemma fill_spec:
  assumes "wf q"
  shows "fst (fill_while room push xs q) = min (length xs) (cap - length (elems q))
    \<and> wf (snd (fill_while room push xs q))
    \<and> elems (snd (fill_while room push xs q)) = elems q @ take (cap - length (elems q)) xs"
  using assms
proof (induction xs arbitrary: q)
  case Nil
  then show ?case by simp
next
  case (Cons x xs)
  show ?case
  proof (cases "room q")
    case True
    note q' = push_wf [OF Cons.prems True] push_elems [OF Cons.prems True]
    have lt: "length (elems q) < cap" using room_iff Cons.prems True by simp
    then obtain k where k: "cap - length (elems q) = Suc k"
      by (metis Suc_diff_Suc)
    then have k': "cap - Suc (length (elems q)) = k" by simp
    show ?thesis
      using Cons.IH [OF q'(1), of x] True by (simp add: case_prod_beta k k' q')
  next
    case False
    then have "cap - length (elems q) = 0" using room_iff Cons.prems by simp
    then show ?thesis using False Cons.prems by simp
  qed
qed

end

text \<open>A queue that is also read from its front.\<close>

locale bounded_fifo = bounded_buffer wf elems room push cap
  for wf :: "'q \<Rightarrow> bool" and elems :: "'q \<Rightarrow> 'a list" and room :: "'q \<Rightarrow> bool"
    and push :: "'a \<Rightarrow> 'q \<Rightarrow> 'q" and cap :: nat +
  fixes some :: "'q \<Rightarrow> bool"
    and front :: "'q \<Rightarrow> 'a"
    and pop :: "'q \<Rightarrow> 'q"
  assumes some_iff: "wf q \<Longrightarrow> some q \<longleftrightarrow> elems q \<noteq> []"
    and front_elems: "wf q \<Longrightarrow> some q \<Longrightarrow> front q = hd (elems q)"
    and pop_wf: "wf q \<Longrightarrow> some q \<Longrightarrow> wf (pop q)"
    and pop_elems: "wf q \<Longrightarrow> some q \<Longrightarrow> elems (pop q) = tl (elems q)"
begin

text \<open>Draining returns a prefix of the contents and leaves the rest.\<close>

lemma drain_spec:
  assumes "wf q"
  shows "fst (drain_while some front pop n q) = take n (elems q)
    \<and> wf (snd (drain_while some front pop n q))
    \<and> elems (snd (drain_while some front pop n q)) = drop n (elems q)"
  using assms
proof (induction n arbitrary: q)
  case 0
  then show ?case by simp
next
  case (Suc n)
  show ?case
  proof (cases "some q")
    case True
    then have ne: "elems q \<noteq> []" using some_iff Suc.prems by simp
    then obtain y ys where e: "elems q = y # ys" by (cases "elems q") auto
    show ?thesis
      using Suc.IH [OF pop_wf [OF Suc.prems True]] True
        pop_elems [OF Suc.prems True] front_elems [OF Suc.prems True]
      by (simp add: case_prod_beta e)
  next
    case False
    then show ?thesis using some_iff Suc.prems by simp
  qed
qed

text \<open>What goes in comes out, in the same order.\<close>

lemma fill_drain:
  assumes "wf q" and "length (elems q) + length xs \<le> cap"
  shows "fst (drain_while some front pop (length (elems q) + length xs) (snd (fill_while room push xs q)))
    = elems q @ xs"
proof -
  have "elems (snd (fill_while room push xs q)) = elems q @ xs"
    using fill_spec [OF assms(1), of xs] assms(2) by simp
  then show ?thesis
    using drain_spec [of "snd (fill_while room push xs q)"] fill_spec [OF assms(1), of xs] by simp
qed

end

section \<open>Circular arrays\<close>

text \<open>The \<open>n\<close> cells from \<open>head\<close> on, around the end of an array of \<open>sz\<close> cells.\<close>

definition ring_at :: "(nat \<Rightarrow> 'a) \<Rightarrow> nat \<Rightarrow> nat \<Rightarrow> nat \<Rightarrow> 'a list" where
  "ring_at buf sz head n = map (\<lambda>k. buf ((head + k) mod sz)) [0..<n]"

lemma length_ring_at [simp]: "length (ring_at buf sz head n) = n"
  by (simp add: ring_at_def)

lemma nth_ring_at [simp]: "k < n \<Longrightarrow> ring_at buf sz head n ! k = buf ((head + k) mod sz)"
  by (simp add: ring_at_def)

lemma ring_at_0 [simp]: "ring_at buf sz head 0 = []"
  by (simp add: ring_at_def)

lemma ring_at_eq_Nil [simp]: "ring_at buf sz head n = [] \<longleftrightarrow> n = 0"
  by (simp add: ring_at_def)

lemma mod_add_distinct:
  assumes "j < n" "n < (sz :: nat)"
  shows "(head + j) mod sz \<noteq> (head + n) mod sz"
proof
  assume "(head + j) mod sz = (head + n) mod sz"
  then have "sz dvd (head + n) - (head + j)"
    by (metis mod_eq_dvd_iff_nat assms(1) add_le_cancel_left less_imp_le_nat)
  then have "sz dvd n - j" by simp
  then show False
    using assms by (simp add: nat_dvd_not_less)
qed

lemma ring_at_push:
  assumes "n < sz"
  shows "ring_at (buf((head + n) mod sz := x)) sz head (Suc n) = ring_at buf sz head n @ [x]"
proof (rule nth_equalityI)
  fix i assume "i < length (ring_at (buf((head + n) mod sz := x)) sz head (Suc n))"
  then consider "i < n" | "i = n" by fastforce
  then show "ring_at (buf((head + n) mod sz := x)) sz head (Suc n) ! i
      = (ring_at buf sz head n @ [x]) ! i"
    using mod_add_distinct [OF _ assms] by cases (auto simp: nth_append)
qed simp

lemma ring_at_pop:
  "ring_at buf sz ((head + 1) mod sz) (n - 1) = tl (ring_at buf sz head n)"
proof (rule nth_equalityI)
  fix i assume "i < length (ring_at buf sz ((head + 1) mod sz) (n - 1))"
  then show "ring_at buf sz ((head + 1) mod sz) (n - 1) ! i = tl (ring_at buf sz head n) ! i"
    by (simp add: nth_tl mod_add_left_eq)
qed simp

lemma ring_at_drop:
  "k \<le> n \<Longrightarrow> ring_at buf sz ((head + k) mod sz) (n - k) = drop k (ring_at buf sz head n)"
  by (rule nth_equalityI) (simp_all add: mod_add_left_eq add.assoc)

lemma ring_at_take:
  "k \<le> n \<Longrightarrow> take k (ring_at buf sz head n) = ring_at buf sz head k"
  by (rule nth_equalityI) simp_all

lemma hd_ring_at: "n > 0 \<Longrightarrow> head < sz \<Longrightarrow> hd (ring_at buf sz head n) = buf head"
  by (simp add: hd_conv_nth)

lemma ring_at_cong:
  "(\<And>k. k < n \<Longrightarrow> buf ((head + k) mod sz) = buf' ((head + k) mod sz)) \<Longrightarrow>
    ring_at buf sz head n = ring_at buf' sz head n"
  by (rule nth_equalityI) simp_all

end
