(* ===== verification/Dgram.thy ===== *)
theory Dgram
  imports Netdev Ring
begin

text \<open>
  The datagram side of \<^verbatim>\<open>kernel/core/socket.c\<close> that UDP calls: the ring of received
  datagrams each socket has and the callback \<^verbatim>\<open>udp_arrived\<close> that fills it. The rest of
  the file is in the theory \<^verbatim>\<open>Sockets\<close>.
\<close>

definition SOCKET_MAX :: nat where "SOCKET_MAX = 16"
definition DGRAM_QUEUE :: nat where "DGRAM_QUEUE = 4"

definition the_sock :: "net \<Rightarrow> nat \<Rightarrow> socket" where
  "the_sock s i = sockets (net_sock s) ! i"

definition upd_sock :: "nat \<Rightarrow> (socket \<Rightarrow> socket) \<Rightarrow> net \<Rightarrow> net" where
  "upd_sock i f s = s\<lparr>net_sock := (net_sock s)\<lparr>sockets := (sockets (net_sock s))[i := f (the_sock s i)]\<rparr>\<rparr>"

definition dgram_put :: "netbuf \<Rightarrow> socket \<Rightarrow> socket" where
  "dgram_put b k =
     (let at = (s_q_head k + s_q_len k) mod DGRAM_QUEUE
      in k\<lparr>s_queue := (s_queue k)[at := \<lparr>dg_buf = Some b, dg_from = nb_src_ip b, dg_port = nb_src_port b\<rparr>],
           s_q_len := s_q_len k + 1\<rparr>)"

definition udp_arrived :: "nat \<Rightarrow> netbuf \<Rightarrow> net \<Rightarrow> net" where
  "udp_arrived i b s =
     (if s_q_len (the_sock s i) \<ge> DGRAM_QUEUE
      then netbuf_free b (upd_sock i (bump s_dropped_update) s)
      else upd_sock i (dgram_put b) s)"

text \<open>The block of \<^verbatim>\<open>socket_recvfrom\<close> under the lock: the oldest datagram, taken out.\<close>

definition dgram_take :: "socket \<Rightarrow> (netbuf \<times> ipv4_addr \<times> u16) option \<times> socket" where
  "dgram_take k =
     (if s_q_len k = 0 then (None, k)
      else let q = s_queue k ! s_q_head k;
               k' = k\<lparr>s_queue := (s_queue k)[s_q_head k := q\<lparr>dg_buf := None\<rparr>],
                      s_q_head := (s_q_head k + 1) mod DGRAM_QUEUE, s_q_len := s_q_len k - 1\<rparr>
           in (case dg_buf q of None \<Rightarrow> None | Some b \<Rightarrow> Some (b, dg_from q, dg_port q), k'))"

section \<open>The ring is a queue\<close>

text \<open>A ring whose occupied cells hold a buffer, with the sender's address and port as the buffer
  carries them; and the buffers in the order they came.\<close>

definition dgram_cell :: "netbuf \<Rightarrow> dgram" where
  "dgram_cell b = \<lparr>dg_buf = Some b, dg_from = nb_src_ip b, dg_port = nb_src_port b\<rparr>"

definition dgram_ring :: "socket \<Rightarrow> dgram list" where
  "dgram_ring k = ring_at (\<lambda>i. s_queue k ! i) DGRAM_QUEUE (s_q_head k) (s_q_len k)"

definition dgrams_ok :: "socket \<Rightarrow> bool" where
  "dgrams_ok k \<longleftrightarrow> length (s_queue k) = DGRAM_QUEUE \<and> s_q_head k < DGRAM_QUEUE \<and> s_q_len k \<le> DGRAM_QUEUE
     \<and> (\<forall>d\<in>set (dgram_ring k). \<exists>b. d = dgram_cell b)"

definition dgram_list :: "socket \<Rightarrow> netbuf list" where
  "dgram_list k = map (\<lambda>d. the (dg_buf d)) (dgram_ring k)"

lemma length_dgram_ring [simp]: "length (dgram_ring k) = s_q_len k" "length (dgram_list k) = s_q_len k"
  by (simp_all add: dgram_ring_def dgram_list_def)

lemma nth_update_fun: "i < length xs \<Longrightarrow> (\<lambda>j. xs[i := x] ! j) = (\<lambda>j. xs ! j)(i := x)"
  by (rule ext) simp

lemma dgram_ring_put:
  assumes "length (s_queue k) = DGRAM_QUEUE" "s_q_len k < DGRAM_QUEUE"
  shows "dgram_ring (dgram_put b k) = dgram_ring k @ [dgram_cell b]"
proof -
  have "(s_q_head k + s_q_len k) mod DGRAM_QUEUE < length (s_queue k)"
    using assms by (simp add: DGRAM_QUEUE_def)
  then show ?thesis
    using ring_at_push [OF assms(2), of "\<lambda>i. s_queue k ! i" "s_q_head k"]
    by (simp add: dgram_ring_def dgram_put_def Let_def dgram_cell_def nth_update_fun fun_upd_def)
qed

lemma dgram_ring_take:
  assumes "length (s_queue k) = DGRAM_QUEUE" "s_q_head k < DGRAM_QUEUE" "s_q_len k \<le> DGRAM_QUEUE" "s_q_len k \<noteq> 0"
  shows "dgram_ring (snd (dgram_take k)) = tl (dgram_ring k)" and "s_queue k ! s_q_head k = hd (dgram_ring k)"
proof -
  let ?x = "(s_queue k ! s_q_head k)\<lparr>dg_buf := None\<rparr>" and ?h = "s_q_head k" and ?n = "s_q_len k - 1"
  have "(s_queue k)[?h := ?x] ! (((?h + 1) mod DGRAM_QUEUE + j) mod DGRAM_QUEUE)
      = s_queue k ! (((?h + 1) mod DGRAM_QUEUE + j) mod DGRAM_QUEUE)" if "j < ?n" for j
  proof -
    have "Suc j < DGRAM_QUEUE" using that assms(3) by linarith
    then have "((?h + 1) + j) mod DGRAM_QUEUE \<noteq> (?h + 0) mod DGRAM_QUEUE"
      using mod_add_distinct [of 0 "Suc j" DGRAM_QUEUE ?h] by (auto simp: add.commute)
    then show ?thesis using assms(2) by (simp add: mod_add_left_eq)
  qed
  then have "ring_at (\<lambda>i. (s_queue k)[?h := ?x] ! i) DGRAM_QUEUE ((?h + 1) mod DGRAM_QUEUE) ?n
      = ring_at (\<lambda>i. s_queue k ! i) DGRAM_QUEUE ((?h + 1) mod DGRAM_QUEUE) ?n"
    by (rule ring_at_cong)
  then show "dgram_ring (snd (dgram_take k)) = tl (dgram_ring k)"
    using assms(4) ring_at_pop [of "\<lambda>i. s_queue k ! i" DGRAM_QUEUE ?h "s_q_len k"]
    by (simp add: dgram_ring_def dgram_take_def Let_def)
  show "s_queue k ! s_q_head k = hd (dgram_ring k)"
    using assms(2,4) by (simp add: dgram_ring_def hd_ring_at)
qed

definition dgram_front :: "socket \<Rightarrow> netbuf" where
  "dgram_front k = the (dg_buf (s_queue k ! s_q_head k))"

definition dgram_pop :: "socket \<Rightarrow> socket" where
  "dgram_pop k = snd (dgram_take k)"

interpretation dg: bounded_fifo dgrams_ok dgram_list "\<lambda>k. s_q_len k < DGRAM_QUEUE" dgram_put DGRAM_QUEUE
  "\<lambda>k. s_q_len k \<noteq> 0" dgram_front dgram_pop
proof unfold_locales
  fix k b assume k: "dgrams_ok k"
  { assume "s_q_len k < DGRAM_QUEUE"
    then have r: "dgram_ring (dgram_put b k) = dgram_ring k @ [dgram_cell b]"
      using k by (intro dgram_ring_put) (simp_all add: dgrams_ok_def)
    then show "dgram_list (dgram_put b k) = dgram_list k @ [b]" by (simp add: dgram_list_def dgram_cell_def)
    show "dgrams_ok (dgram_put b k)"
      using k \<open>s_q_len k < DGRAM_QUEUE\<close> r by (auto simp: dgrams_ok_def dgram_put_def Let_def) }
  { assume ne: "s_q_len k \<noteq> 0"
    then have r: "dgram_ring (dgram_pop k) = tl (dgram_ring k)" "s_queue k ! s_q_head k = hd (dgram_ring k)"
      using k unfolding dgram_pop_def by (intro dgram_ring_take; simp add: dgrams_ok_def)+
    have "dgram_ring k \<noteq> []" using ne length_dgram_ring(1) [of k] by (metis list.size(3))
    then show "dgram_front k = hd (dgram_list k)" by (simp add: dgram_front_def dgram_list_def r(2) hd_map)
    show "dgram_list (dgram_pop k) = tl (dgram_list k)" by (simp add: dgram_list_def r(1) map_tl)
    have "set (tl (dgram_ring k)) \<subseteq> set (dgram_ring k)" by (cases "dgram_ring k") auto
    then show "dgrams_ok (dgram_pop k)"
      using k ne r(1) by (auto simp: dgrams_ok_def dgram_pop_def dgram_take_def Let_def DGRAM_QUEUE_def) }
  show "(s_q_len k \<noteq> 0) = (dgram_list k \<noteq> [])"
    using length_dgram_ring(2) [of k] by (metis list.size(3) length_0_conv)
qed (simp_all add: dgrams_ok_def)

lemma dgram_take_front:
  assumes "dgrams_ok k" "s_q_len k \<noteq> 0"
  shows "dgram_take k = (let b = hd (dgram_list k) in (Some (b, nb_src_ip b, nb_src_port b), dgram_pop k))"
proof -
  have h: "s_queue k ! s_q_head k = hd (dgram_ring k)"
    using assms by (intro dgram_ring_take) (simp_all add: dgrams_ok_def)
  have "dgram_ring k \<noteq> []" using assms(2) length_dgram_ring(1) [of k] by (metis list.size(3))
  then obtain b where "hd (dgram_ring k) = dgram_cell b" "hd (dgram_list k) = b"
    using assms(1) by (auto simp: dgrams_ok_def dgram_list_def hd_map dgram_cell_def dest!: bspec [OF _ hd_in_set])
  then show ?thesis
    using assms(2) h by (simp add: dgram_take_def dgram_pop_def Let_def dgram_cell_def)
qed

lemma udp_arrived_frame [simp]:
  "env (udp_arrived i b s) = env s" "now (udp_arrived i b s) = now s"
  "net_udp (udp_arrived i b s) = net_udp s" "net_tcp (udp_arrived i b s) = net_tcp s"
  "net_arp (udp_arrived i b s) = net_arp s" "net_ip (udp_arrived i b s) = net_ip s"
  "net_dhcp (udp_arrived i b s) = net_dhcp s"
  by (simp_all add: udp_arrived_def upd_sock_def)

end
