(* ===== verification/Dhcp_Msg.thy ===== *)
theory Dhcp_Msg
  imports Netdev
begin

text \<open>
  DHCP messages, from \<^verbatim>\<open>kernel/core/dhcp.c\<close>: the option parser, the message builder and
  the callback that takes an answer in. The exchange itself is in the theory \<^verbatim>\<open>Dhcp\<close>.
\<close>

abbreviation DHCP_SERVER_PORT :: u16 where "DHCP_SERVER_PORT \<equiv> 67"
abbreviation DHCP_CLIENT_PORT :: u16 where "DHCP_CLIENT_PORT \<equiv> 68"
abbreviation DHCP_OP_REQUEST :: u8 where "DHCP_OP_REQUEST \<equiv> 1"
abbreviation DHCP_OP_REPLY :: u8 where "DHCP_OP_REPLY \<equiv> 2"
abbreviation DHCP_DISCOVER :: u8 where "DHCP_DISCOVER \<equiv> 1"
abbreviation DHCP_OFFER :: u8 where "DHCP_OFFER \<equiv> 2"
abbreviation DHCP_REQUEST :: u8 where "DHCP_REQUEST \<equiv> 3"
abbreviation DHCP_ACK :: u8 where "DHCP_ACK \<equiv> 5"
abbreviation OPT_SUBNET_MASK :: u8 where "OPT_SUBNET_MASK \<equiv> 1"
abbreviation OPT_ROUTER :: u8 where "OPT_ROUTER \<equiv> 3"
abbreviation OPT_DNS :: u8 where "OPT_DNS \<equiv> 6"
abbreviation OPT_REQUESTED_IP :: u8 where "OPT_REQUESTED_IP \<equiv> 50"
abbreviation OPT_LEASE_TIME :: u8 where "OPT_LEASE_TIME \<equiv> 51"
abbreviation OPT_MESSAGE_TYPE :: u8 where "OPT_MESSAGE_TYPE \<equiv> 53"
abbreviation OPT_SERVER_ID :: u8 where "OPT_SERVER_ID \<equiv> 54"
abbreviation OPT_PARAM_REQUEST :: u8 where "OPT_PARAM_REQUEST \<equiv> 55"
abbreviation OPT_END :: u8 where "OPT_END \<equiv> 255"

definition DHCP_FIXED_LEN :: nat where "DHCP_FIXED_LEN = 240"

definition MAGIC :: "u8 list" where "MAGIC = [99, 130, 83, 99]"

section \<open>The option walk\<close>

text \<open>
  The loop of \<^verbatim>\<open>find_option\<close> from offset \<open>i\<close> of the message that starts at \<open>base\<close>: the
  offset of the value within the message and its length. Every turn moves \<open>i\<close> forward.
\<close>

function option_walk :: "mem \<Rightarrow> nat \<Rightarrow> nat \<Rightarrow> u8 \<Rightarrow> nat \<Rightarrow> (nat \<times> u8) option" where
  "option_walk m base len want i =
     (if i \<ge> len then None
      else let code = m (base + i) in
        if code = OPT_END then None
        else if code = 0 then option_walk m base len want (i + 1)
        else if i + 1 \<ge> len then None
        else let olen = m (base + i + 1) in
          if i + 2 + unat olen > len then None
          else if code = want then Some (i + 2, olen)
          else option_walk m base len want (i + 2 + unat olen))"
  by pat_completeness auto

termination
  by (relation "measure (\<lambda>(m, base, len, want, i). len - i)") auto

declare option_walk.simps [simp del]

definition find_option :: "mem \<Rightarrow> nat \<Rightarrow> nat \<Rightarrow> u8 \<Rightarrow> (nat \<times> u8) option" where
  "find_option m base len want =
     (if len < DHCP_FIXED_LEN then None else option_walk m base len want DHCP_FIXED_LEN)"

section \<open>Building\<close>

text \<open>\<open>emit\<close> is one \<^verbatim>\<open>msg[at++] = v\<close>.\<close>

definition emit :: "u8 \<Rightarrow> mem \<times> nat \<Rightarrow> mem \<times> nat" where
  "emit v p = (case p of (m, at) \<Rightarrow> (m(at := v), at + 1))"

definition emit32 :: "u32 \<Rightarrow> mem \<times> nat \<Rightarrow> mem \<times> nat" where
  "emit32 v p = (case p of (m, at) \<Rightarrow> (net_put32 m at v, at + 4))"

definition dhcp_fixed :: "mem \<Rightarrow> mac_addr \<Rightarrow> u32 \<Rightarrow> mem" where
  "dhcp_fixed msg mac xid =
     (let m1 = kmemset msg 0 0 DHCP_FIXED_LEN;
          m2 = (((m1(0 := DHCP_OP_REQUEST))(1 := 1))(2 := of_nat MAC_LEN))(3 := 0);
          m3 = net_put16 (net_put32 m2 4 xid) 10 0x8000
      in store (store m3 28 mac) 236 MAGIC)"

definition dhcp_build :: "mem \<Rightarrow> net_device \<Rightarrow> u32 \<Rightarrow> u8 \<Rightarrow> ipv4_addr \<Rightarrow> ipv4_addr \<Rightarrow> mem \<times> nat" where
  "dhcp_build msg dev xid type requested server =
     (let p0 = (dhcp_fixed msg (d_mac dev) xid, DHCP_FIXED_LEN);
          p1 = emit type (emit 1 (emit OPT_MESSAGE_TYPE p0));
          p2 = (if requested \<noteq> 0 then emit32 requested (emit 4 (emit OPT_REQUESTED_IP p1)) else p1);
          p3 = (if server \<noteq> 0 then emit32 server (emit 4 (emit OPT_SERVER_ID p2)) else p2);
          p4 = emit OPT_DNS (emit OPT_ROUTER (emit OPT_SUBNET_MASK (emit 3 (emit OPT_PARAM_REQUEST p3))))
      in emit OPT_END p4)"

section \<open>Taking an answer in\<close>

text \<open>An option of exactly four bytes, or of at least four, read as an address.\<close>

definition opt_word :: "(u8 \<Rightarrow> bool) \<Rightarrow> mem \<Rightarrow> nat \<Rightarrow> nat \<Rightarrow> u8 \<Rightarrow> u32 \<Rightarrow> u32" where
  "opt_word ok m base len want dflt =
     (case find_option m base len want of
        Some (at, olen) \<Rightarrow> if ok olen then net_get32 m (base + at) else dflt
      | None \<Rightarrow> dflt)"

definition dhcp_take :: "u8 \<Rightarrow> mem \<Rightarrow> nat \<Rightarrow> nat \<Rightarrow> dhcp_result \<Rightarrow> dhcp_result" where
  "dhcp_take type m base len r =
     (if type = DHCP_OFFER
      then r\<lparr>dr_offered := net_get32 m (base + 16), have_offer := True,
             dr_server := opt_word (\<lambda>n. n = 4) m base len OPT_SERVER_ID (dr_server r)\<rparr>
      else if type = DHCP_ACK
      then r\<lparr>dr_offered := net_get32 m (base + 16), have_ack := True,
             dr_netmask := opt_word (\<lambda>n. n = 4) m base len OPT_SUBNET_MASK (dr_netmask r),
             dr_router := opt_word (\<lambda>n. n \<ge> 4) m base len OPT_ROUTER (dr_router r),
             dr_dns := opt_word (\<lambda>n. n \<ge> 4) m base len OPT_DNS (dr_dns r),
             dr_lease_seconds := opt_word (\<lambda>n. n = 4) m base len OPT_LEASE_TIME (dr_lease_seconds r)\<rparr>
      else r)"

definition dhcp_arrived :: "netbuf \<Rightarrow> net \<Rightarrow> net" where
  "dhcp_arrived b s =
     (let m = nb_mem b; base = nb_data b; len = nb_len b;
          ignore = (\<lambda>s. netbuf_free b (net_dhcp_update (bump dhcp_ignored_update) s)) in
      if len < DHCP_FIXED_LEN + 4 then ignore s
      else if m base \<noteq> DHCP_OP_REPLY \<or> net_get32 m (base + 4) \<noteq> dhcp_transaction (net_dhcp s)
        \<or> kmemcmp (bytes_at m (base + 236) 4) MAGIC \<noteq> 0 then ignore s
      else if (case dhcp_configuring (net_dhcp s) of None \<Rightarrow> False
               | Some dev \<Rightarrow> kmemcmp (bytes_at m (base + 28) MAC_LEN) (d_mac (the_dev s dev)) \<noteq> 0)
      then ignore s
      else case find_option m base len OPT_MESSAGE_TYPE of
        None \<Rightarrow> ignore s
      | Some (at, olen) \<Rightarrow>
          if olen \<noteq> 1 then ignore s
          else netbuf_free b (s\<lparr>net_dhcp := (net_dhcp s)\<lparr>dhcp_received := dhcp_received (net_dhcp s) + 1,
                 dhcp_res := dhcp_take (m (base + at)) m base len (dhcp_res (net_dhcp s))\<rparr>\<rparr>))"

lemma dhcp_arrived_frame [simp]:
  "env (dhcp_arrived b s) = env s" "now (dhcp_arrived b s) = now s"
  "net_udp (dhcp_arrived b s) = net_udp s" "net_tcp (dhcp_arrived b s) = net_tcp s"
  "net_arp (dhcp_arrived b s) = net_arp s" "net_ip (dhcp_arrived b s) = net_ip s"
  "net_sock (dhcp_arrived b s) = net_sock s"
  by (simp_all add: dhcp_arrived_def Let_def split: option.splits prod.splits)

end
