(* ===== verification/Udp.thy ===== *)
theory Udp
  imports Ip Dgram Dhcp_Msg
begin

text \<open>
  UDP, \<^verbatim>\<open>kernel/core/udp.c\<close>: the table of bound ports, sending a datagram and receiving
  one, checksummed over a pseudo-header of the addresses. The callbacks a port can have are
  \<^verbatim>\<open>udp_arrived\<close> of the socket layer and \<^verbatim>\<open>arrived\<close> of DHCP.
\<close>

definition UDP_PORTS_MAX :: nat where "UDP_PORTS_MAX = 16"

section \<open>The pseudo-header\<close>

definition pseudo_header :: "mem \<Rightarrow> ipv4_addr \<Rightarrow> ipv4_addr \<Rightarrow> u8 \<Rightarrow> u16 \<Rightarrow> mem" where
  "pseudo_header ph src dst protocol dlen =
     net_put16 (((net_put32 (net_put32 ph 0 src) 4 dst)(8 := 0))(9 := protocol)) 10 dlen"

definition pseudo_sum :: "ipv4_addr \<Rightarrow> ipv4_addr \<Rightarrow> u8 \<Rightarrow> u16 \<Rightarrow> u32" where
  "pseudo_sum src dst protocol dlen =
     net_checksum_partial (pseudo_header (\<lambda>_. 0) src dst protocol dlen) 0 12 0"

section \<open>Ports\<close>

definition udp_find :: "udp_binding list \<Rightarrow> u16 \<Rightarrow> nat option" where
  "udp_find bs port = first_slot (\<lambda>b. ub_used b \<and> ub_port b = port) bs"

definition udp_bind_port :: "u16 \<Rightarrow> udp_fn \<Rightarrow> net \<Rightarrow> bool \<times> net" where
  "udp_bind_port port fn s =
     (let bs = bindings (net_udp s) in
      if udp_find bs port \<noteq> None then (False, s)
      else case first_slot (\<lambda>b. \<not> ub_used b) bs of
        None \<Rightarrow> (False, s)
      | Some i \<Rightarrow> (True, s\<lparr>net_udp := (net_udp s)\<lparr>bindings :=
          bs[i := \<lparr>ub_port = port, ub_fn = fn, ub_used = True\<rparr>]\<rparr>\<rparr>))"

definition udp_unbind_port :: "u16 \<Rightarrow> net \<Rightarrow> net" where
  "udp_unbind_port port s =
     s\<lparr>net_udp := (net_udp s)\<lparr>bindings :=
       map (\<lambda>b. if ub_used b \<and> ub_port b = port then b\<lparr>ub_used := False\<rparr> else b) (bindings (net_udp s))\<rparr>\<rparr>"

section \<open>Datagrams\<close>

definition udp_write :: "mem \<Rightarrow> nat \<Rightarrow> u16 \<Rightarrow> u16 \<Rightarrow> nat \<Rightarrow> ipv4_addr \<Rightarrow> ipv4_addr \<Rightarrow> mem" where
  "udp_write m0 h sport dport len src dst =
     (let m1 = net_put16 m0 h sport;
          m2 = net_put16 m1 (h + 2) dport;
          m3 = net_put16 m2 (h + 4) (of_nat (UDP_HDR_LEN + len));
          m4 = net_put16 m3 (h + 6) 0;
          psum = pseudo_sum src dst IP_PROTO_UDP (of_nat (UDP_HDR_LEN + len));
          c = net_checksum_finish (net_checksum_partial m4 h (UDP_HDR_LEN + len) psum)
      in net_put16 m4 (h + 6) (if c \<noteq> 0 then c else 0xFFFF))"

text \<open>\<^verbatim>\<open>if (len) ... kmemcpy(p, data, len)\<close>: the payload behind what the buffer holds.\<close>

definition put_payload :: "u8 list \<Rightarrow> netbuf \<Rightarrow> net \<Rightarrow> netbuf option \<times> net" where
  "put_payload data b s =
     (if data = [] then (Some b, s)
      else case netbuf_put (length data) b s of
        (None, s1) \<Rightarrow> (None, s1)
      | (Some b1, s1) \<Rightarrow> (Some (b1\<lparr>nb_mem := store (nb_mem b1) (nb_data b + nb_len b) data\<rparr>), s1))"

definition udp_send :: "ipv4_addr \<Rightarrow> u16 \<Rightarrow> u16 \<Rightarrow> u8 list \<Rightarrow> net \<Rightarrow> bool \<times> net" where
  "udp_send dst dport sport data s =
     (let failed = net_udp_update (bump udp_tx_failed_update) in
      if length data > NET_MTU - IP_HDR_LEN - UDP_HDR_LEN then (False, failed s)
      else case netdev_route dst s of
        None \<Rightarrow> (False, failed s)
      | Some (dev, hop) \<Rightarrow>
          (case netbuf_alloc s of
             (None, s1) \<Rightarrow> (False, failed s1)
           | (Some b, s1) \<Rightarrow>
               (case put_payload data b s1 of
                  (None, s2) \<Rightarrow> (False, failed (netbuf_free b s2))
                | (Some b1, s2) \<Rightarrow>
                    (case netbuf_push UDP_HDR_LEN b1 s2 of
                       (None, s3) \<Rightarrow> (False, failed (netbuf_free b1 s3))
                     | (Some b2, s3) \<Rightarrow>
                         ip_transmit dst IP_PROTO_UDP
                           (b2\<lparr>nb_mem := udp_write (nb_mem b2) (nb_data b2) sport dport (length data)
                              (d_ip (the_dev s3 dev)) dst\<rparr>)
                           (net_udp_update (bump udp_tx_datagrams_update) s3)))))"

definition call_udp_fn :: "udp_fn \<Rightarrow> netbuf \<Rightarrow> net \<Rightarrow> net" where
  "call_udp_fn fn b s = (case fn of
     Fn_null \<Rightarrow> netbuf_free b (net_udp_update (bump udp_rx_no_port_update) s)
   | Fn_udp_arrived i \<Rightarrow> udp_arrived i b (net_udp_update (bump udp_rx_datagrams_update) s)
   | Fn_dhcp_arrived \<Rightarrow> dhcp_arrived b (net_udp_update (bump udp_rx_datagrams_update) s))"

definition udp_receive :: "nat \<Rightarrow> netbuf \<Rightarrow> net \<Rightarrow> net" where
  "udp_receive dev b s =
     (let m = nb_mem b; h = nb_data b in
      if nb_len b < UDP_HDR_LEN then netbuf_free b (net_udp_update (bump udp_rx_short_update) s)
      else
        let sport = net_get16 m h; dport = net_get16 m (h + 2);
            dlen = net_get16 m (h + 4); checksum = net_get16 m (h + 6) in
        if unat dlen < UDP_HDR_LEN \<or> unat dlen > nb_len b
        then netbuf_free b (net_udp_update (bump udp_rx_short_update) s)
        else if checksum \<noteq> 0 \<and>
          net_checksum_finish (net_checksum_partial m h (unat dlen)
            (pseudo_sum (nb_src_ip b) (nb_dst_ip b) IP_PROTO_UDP dlen)) \<noteq> 0
        then netbuf_free b (net_udp_update (bump udp_rx_bad_checksum_update) s)
        else
          let (r, s1) = netbuf_pull UDP_HDR_LEN (b\<lparr>nb_src_port := sport, nb_dst_port := dport\<rparr>) s;
              b1 = (case r of Some b' \<Rightarrow> b' | None \<Rightarrow> b\<lparr>nb_src_port := sport, nb_dst_port := dport\<rparr>);
              b2 = b1\<lparr>nb_len := unat dlen - UDP_HDR_LEN\<rparr>
          in (case udp_find (bindings (net_udp s1)) dport of
                None \<Rightarrow> call_udp_fn Fn_null b2 s1
              | Some i \<Rightarrow> call_udp_fn (ub_fn (bindings (net_udp s1) ! i)) b2 s1))"

lemma udp_receive_frame [simp]:
  "env (udp_receive dev b s) = env s" "now (udp_receive dev b s) = now s"
  "net_tcp (udp_receive dev b s) = net_tcp s" "net_arp (udp_receive dev b s) = net_arp s"
  "net_ip (udp_receive dev b s) = net_ip s"
  by (simp_all add: udp_receive_def call_udp_fn_def Let_def case_prod_beta split: option.splits udp_fn.splits)

lemma udp_receive_bindings [simp]: "bindings (net_udp (udp_receive dev b s)) = bindings (net_udp s)"
  by (simp add: udp_receive_def call_udp_fn_def Let_def case_prod_beta split: option.splits udp_fn.splits)

end
