(* ===== verification/Tcp.thy ===== *)
theory Tcp
  imports Ip Ring
begin

text \<open>
  TCP, \<^verbatim>\<open>kernel/core/tcp.c\<close>: sixteen connection slots, the segment builder, the state
  machine of \<^verbatim>\<open>tcp_receive\<close>, the timer \<^verbatim>\<open>tcp_tick\<close>, and what a socket asks of a connection.

  A connection is a slot of the array and is passed by index; a segment is built from the
  connection as it is at that moment. The buffers of a connection are the two pages, as
  memories indexed from 0; the page allocator hands out zeroed pages. The pointers a closed
  slot no longer has are zeroed memories with page 0. Sequence numbers are 32-bit words;
  the positions and lengths of the two rings are natural numbers below 4096.
\<close>

definition TCP_MAX_CONNECTIONS :: nat where "TCP_MAX_CONNECTIONS = 16"
definition TCP_BUFFER_SIZE :: nat where "TCP_BUFFER_SIZE = 4096"
definition TCP_RTO_NS :: u64 where "TCP_RTO_NS = 500 * 1000000"
definition TCP_MAX_RETRIES :: nat where "TCP_MAX_RETRIES = 6"
definition TCP_TIME_WAIT_NS :: u64 where "TCP_TIME_WAIT_NS = 2 * 1000000000"

abbreviation TCP_FIN :: u8 where "TCP_FIN \<equiv> 0x01"
abbreviation TCP_SYN :: u8 where "TCP_SYN \<equiv> 0x02"
abbreviation TCP_RST :: u8 where "TCP_RST \<equiv> 0x04"
abbreviation TCP_PSH :: u8 where "TCP_PSH \<equiv> 0x08"
abbreviation TCP_ACK :: u8 where "TCP_ACK \<equiv> 0x10"

definition has_flag :: "u8 \<Rightarrow> u8 \<Rightarrow> bool" where
  "has_flag flags f \<longleftrightarrow> flags AND f \<noteq> 0"

definition tcp_state_name :: "tcp_st \<Rightarrow> string" where
  "tcp_state_name st = (case st of
     TCP_CLOSED \<Rightarrow> ''closed'' | TCP_LISTEN \<Rightarrow> ''listen'' | TCP_SYN_SENT \<Rightarrow> ''syn-sent''
   | TCP_SYN_RECEIVED \<Rightarrow> ''syn-received'' | TCP_ESTABLISHED \<Rightarrow> ''established''
   | TCP_FIN_WAIT_1 \<Rightarrow> ''fin-wait-1'' | TCP_FIN_WAIT_2 \<Rightarrow> ''fin-wait-2''
   | TCP_CLOSE_WAIT \<Rightarrow> ''close-wait'' | TCP_CLOSING \<Rightarrow> ''closing''
   | TCP_LAST_ACK \<Rightarrow> ''last-ack'' | TCP_TIME_WAIT \<Rightarrow> ''time-wait'')"

section \<open>Sequence numbers and sums\<close>

definition seq_lt :: "u32 \<Rightarrow> u32 \<Rightarrow> bool" where
  "seq_lt a b \<longleftrightarrow> sint (a - b) < 0"

definition seq_le :: "u32 \<Rightarrow> u32 \<Rightarrow> bool" where
  "seq_le a b \<longleftrightarrow> sint (a - b) \<le> 0"

definition pseudo_header_tcp :: "mem \<Rightarrow> ipv4_addr \<Rightarrow> ipv4_addr \<Rightarrow> u16 \<Rightarrow> mem" where
  "pseudo_header_tcp ph src dst dlen =
     net_put16 (((net_put32 (net_put32 ph 0 src) 4 dst)(8 := 0))(9 := IP_PROTO_TCP)) 10 dlen"

definition pseudo_sum_tcp :: "ipv4_addr \<Rightarrow> ipv4_addr \<Rightarrow> u16 \<Rightarrow> u32" where
  "pseudo_sum_tcp src dst dlen = net_checksum_partial (pseudo_header_tcp (\<lambda>_. 0) src dst dlen) 0 12 0"

section \<open>The table\<close>

definition zero_conn :: tcp_conn where
  "zero_conn = \<lparr>c_used = False, c_state = TCP_CLOSED, c_local_ip = 0, c_remote_ip = 0,
     c_local_port = 0, c_remote_port = 0, snd_una = 0, snd_nxt = 0, snd_wnd = 0, rcv_nxt = 0,
     tx_buf = (\<lambda>_. 0), rx_buf = (\<lambda>_. 0), tx_page = 0, rx_page = 0, tx_head = 0, tx_len = 0,
     rx_head = 0, rx_len = 0, retransmit_at_ns = 0, retries = 0, time_wait_until_ns = 0,
     listening = False, peer_closed = False, c_reset = False, accept_of = 0, accept_pending = False\<rparr>"

definition the_conn :: "net \<Rightarrow> nat \<Rightarrow> tcp_conn" where
  "the_conn s i = conns (net_tcp s) ! i"

definition set_conn :: "nat \<Rightarrow> tcp_conn \<Rightarrow> net \<Rightarrow> net" where
  "set_conn i c s = s\<lparr>net_tcp := (net_tcp s)\<lparr>conns := (conns (net_tcp s))[i := c]\<rparr>\<rparr>"

definition rx_free :: "tcp_conn \<Rightarrow> nat" where
  "rx_free c = TCP_BUFFER_SIZE - rx_len c"

definition alloc_conn :: "net \<Rightarrow> nat option \<times> net" where
  "alloc_conn s =
     (case first_slot (\<lambda>c. \<not> c_used c) (conns (net_tcp s)) of
        None \<Rightarrow> (None, s)
      | Some i \<Rightarrow>
          let (tx, s1) = alloc_page s; (rx, s2) = alloc_page s1 in
          if tx = 0 \<or> rx = 0
          then let s3 = (if tx \<noteq> 0 then free_pages1 tx s2 else s2);
                   s4 = (if rx \<noteq> 0 then free_pages1 rx s3 else s3)
               in (None, set_conn i zero_conn s4)
          else (Some i, set_conn i (zero_conn\<lparr>tx_page := tx, rx_page := rx, c_used := True,
                  accept_of := -1, c_state := TCP_CLOSED\<rparr>) s2))"

definition free_conn :: "nat \<Rightarrow> net \<Rightarrow> net" where
  "free_conn i s =
     (let c = the_conn s i in
      if \<not> c_used c then s
      else let s1 = (if tx_page c \<noteq> 0 then free_pages1 (tx_page c) s else s);
               s2 = (if rx_page c \<noteq> 0 then free_pages1 (rx_page c) s1 else s1)
           in set_conn i (zero_conn\<lparr>accept_of := -1\<rparr>) s2)"

definition initial_sequence :: "net \<Rightarrow> u32 option \<times> net" where
  "initial_sequence s = (case random_word s of (v, s1) \<Rightarrow> (map_option ucast v, s1))"

text \<open>The loop of \<^verbatim>\<open>find_conn\<close> over the rest of the array, with the index it starts at and
  the listener seen so far.\<close>

fun find_scan :: "tcp_conn list \<Rightarrow> nat \<Rightarrow> ipv4_addr \<Rightarrow> u16 \<Rightarrow> ipv4_addr \<Rightarrow> u16 \<Rightarrow> nat option \<Rightarrow> nat option" where
  "find_scan [] i local lport remote rport listener = listener"
| "find_scan (c # cs) i local lport remote rport listener =
     (if \<not> c_used c then find_scan cs (i + 1) local lport remote rport listener
      else if c_local_port c \<noteq> lport then find_scan cs (i + 1) local lport remote rport listener
      else if c_state c \<noteq> TCP_LISTEN \<and> c_remote_ip c = remote \<and> c_remote_port c = rport
        \<and> (c_local_ip c = 0 \<or> c_local_ip c = local) then Some i
      else find_scan cs (i + 1) local lport remote rport
             (if c_state c = TCP_LISTEN then Some i else listener))"

definition find_conn :: "ipv4_addr \<Rightarrow> u16 \<Rightarrow> ipv4_addr \<Rightarrow> u16 \<Rightarrow> net \<Rightarrow> nat option" where
  "find_conn local lport remote rport s = find_scan (conns (net_tcp s)) 0 local lport remote rport None"

section \<open>Segments\<close>

definition seg_write ::
  "mem \<Rightarrow> nat \<Rightarrow> tcp_conn \<Rightarrow> u8 \<Rightarrow> u32 \<Rightarrow> nat \<Rightarrow> mem" where
  "seg_write m0 h c flags seq len =
     (let m1 = net_put16 m0 h (c_local_port c);
          m2 = net_put16 m1 (h + 2) (c_remote_port c);
          m3 = net_put32 m2 (h + 4) seq;
          m4 = net_put32 m3 (h + 8) (rcv_nxt c);
          m5 = (m4(h + 12 := push_bit 4 (of_nat (TCP_HDR_LEN div 4))))(h + 13 := flags);
          m6 = net_put16 m5 (h + 14) (of_nat (rx_free c));
          m7 = net_put16 m6 (h + 16) 0;
          m8 = net_put16 m7 (h + 18) 0;
          psum = pseudo_sum_tcp (c_local_ip c) (c_remote_ip c) (of_nat (TCP_HDR_LEN + len))
      in net_put16 m8 (h + 16) (net_checksum_finish (net_checksum_partial m8 h (TCP_HDR_LEN + len) psum)))"

definition seg_payload :: "u8 list \<Rightarrow> netbuf \<Rightarrow> net \<Rightarrow> netbuf option \<times> net" where
  "seg_payload payload b s =
     (if payload = [] then (Some b, s)
      else case netbuf_put (length payload) b s of
        (None, s1) \<Rightarrow> (None, s1)
      | (Some b1, s1) \<Rightarrow> (Some (b1\<lparr>nb_mem := store (nb_mem b1) (nb_data b + nb_len b) payload\<rparr>), s1))"

definition send_segment :: "tcp_conn \<Rightarrow> u8 \<Rightarrow> u32 \<Rightarrow> u8 list \<Rightarrow> net \<Rightarrow> bool \<times> net" where
  "send_segment c flags seq payload s =
     (case netbuf_alloc s of
        (None, s1) \<Rightarrow> (False, s1)
      | (Some b, s1) \<Rightarrow>
          (case seg_payload payload b s1 of
             (None, s2) \<Rightarrow> (False, netbuf_free b s2)
           | (Some b1, s2) \<Rightarrow>
               (case netbuf_push TCP_HDR_LEN b1 s2 of
                  (None, s3) \<Rightarrow> (False, netbuf_free b1 s3)
                | (Some b2, s3) \<Rightarrow>
                    ip_transmit (c_remote_ip c) IP_PROTO_TCP
                      (b2\<lparr>nb_mem := seg_write (nb_mem b2) (nb_data b2) c flags seq (length payload)\<rparr>)
                      (net_tcp_update (bump segments_sent_update) s3))))"

definition reset_write ::
  "mem \<Rightarrow> nat \<Rightarrow> ipv4_addr \<Rightarrow> ipv4_addr \<Rightarrow> u16 \<Rightarrow> u16 \<Rightarrow> u32 \<Rightarrow> u32 \<Rightarrow> bool \<Rightarrow> mem" where
  "reset_write m0 h src dst sport dport seq ack with_ack =
     (let m1 = kmemset m0 h 0 TCP_HDR_LEN;
          m2 = net_put16 m1 h dport;
          m3 = net_put16 m2 (h + 2) sport;
          m4 = (if with_ack then (net_put32 m3 (h + 4) ack)(h + 13 := TCP_RST)
                else (net_put32 (net_put32 m3 (h + 4) 0) (h + 8) seq)(h + 13 := TCP_RST OR TCP_ACK));
          m5 = m4(h + 12 := push_bit 4 (of_nat (TCP_HDR_LEN div 4)));
          psum = pseudo_sum_tcp dst src (of_nat TCP_HDR_LEN)
      in net_put16 m5 (h + 16) (net_checksum_finish (net_checksum_partial m5 h TCP_HDR_LEN psum)))"

definition send_reset ::
  "ipv4_addr \<Rightarrow> ipv4_addr \<Rightarrow> u16 \<Rightarrow> u16 \<Rightarrow> u32 \<Rightarrow> u32 \<Rightarrow> bool \<Rightarrow> net \<Rightarrow> net" where
  "send_reset src dst sport dport seq ack with_ack s =
     (case netbuf_alloc s of
        (None, s1) \<Rightarrow> s1
      | (Some b, s1) \<Rightarrow>
          (case netbuf_put TCP_HDR_LEN b s1 of
             (None, s2) \<Rightarrow> netbuf_free b s2
           | (Some b1, s2) \<Rightarrow>
               snd (ip_transmit src IP_PROTO_TCP
                 (b1\<lparr>nb_mem := reset_write (nb_mem b1) (nb_data b + nb_len b) src dst sport dport seq ack with_ack\<rparr>)
                 (net_tcp_update (bump segments_sent_update) s2))))"

section \<open>Receiving\<close>

definition rx_push :: "u8 \<Rightarrow> tcp_conn \<Rightarrow> tcp_conn" where
  "rx_push x c = c\<lparr>rx_buf := (rx_buf c)((rx_head c + rx_len c) mod TCP_BUFFER_SIZE := x), rx_len := rx_len c + 1\<rparr>"

definition deliver :: "u8 list \<Rightarrow> tcp_conn \<Rightarrow> tcp_conn" where
  "deliver data c =
     (let (i, c') = fill_while (\<lambda>c. rx_len c < TCP_BUFFER_SIZE) rx_push data c
      in c'\<lparr>rcv_nxt := rcv_nxt c' + of_nat i\<rparr>)"

text \<open>A segment after its header was read.\<close>

record segment =
  g_src :: ipv4_addr
  g_dst :: ipv4_addr
  g_sport :: u16
  g_dport :: u16
  g_seq :: u32
  g_ack :: u32
  g_flags :: u8
  g_wnd :: u16
  g_payload :: "u8 list"

definition no_connection :: "segment \<Rightarrow> net \<Rightarrow> net" where
  "no_connection g s =
     (let s1 = net_tcp_update (bump tcp_rx_no_connection_update) s in
      if has_flag (g_flags g) TCP_RST then s1
      else send_reset (g_src g) (g_dst g) (g_sport g) (g_dport g)
             (g_seq g + of_nat (length (g_payload g)) + (if has_flag (g_flags g) TCP_SYN then 1 else 0))
             (g_ack g) (has_flag (g_flags g) TCP_ACK) s1)"

definition on_reset :: "nat \<Rightarrow> net \<Rightarrow> net" where
  "on_reset i s = set_conn i ((the_conn s i)\<lparr>c_reset := True, c_state := TCP_CLOSED\<rparr>)
     (net_tcp_update (bump connections_reset_update) s)"

definition new_conn :: "nat \<Rightarrow> segment \<Rightarrow> u32 \<Rightarrow> u64 \<Rightarrow> tcp_conn \<Rightarrow> tcp_conn" where
  "new_conn listener g iss t n = n\<lparr>c_local_ip := g_dst g, c_local_port := g_dport g,
     c_remote_ip := g_src g, c_remote_port := g_sport g, rcv_nxt := g_seq g + 1, snd_una := iss,
     snd_nxt := iss + 1, snd_wnd := ucast (g_wnd g), c_state := TCP_SYN_RECEIVED,
     accept_of := int listener, retransmit_at_ns := t + TCP_RTO_NS\<rparr>"

definition on_listen :: "nat \<Rightarrow> segment \<Rightarrow> net \<Rightarrow> net" where
  "on_listen i g s =
     (if \<not> has_flag (g_flags g) TCP_SYN then s
      else case alloc_conn s of
        (None, s1) \<Rightarrow> s1
      | (Some n, s1) \<Rightarrow>
          (case initial_sequence s1 of
             (None, s2) \<Rightarrow> free_conn n s2
           | (Some iss, s2) \<Rightarrow>
               let c = new_conn i g iss (now s2) (the_conn s2 n)
               in snd (send_segment c (TCP_SYN OR TCP_ACK) iss [] (set_conn n c s2))))"

definition on_syn_sent :: "nat \<Rightarrow> segment \<Rightarrow> net \<Rightarrow> net" where
  "on_syn_sent i g s =
     (let c = the_conn s i in
      if g_flags g AND (TCP_SYN OR TCP_ACK) = TCP_SYN OR TCP_ACK \<and> g_ack g = snd_nxt c
      then let c' = c\<lparr>rcv_nxt := g_seq g + 1, snd_una := g_ack g, snd_wnd := ucast (g_wnd g),
                      c_state := TCP_ESTABLISHED, retries := 0\<rparr>
           in snd (send_segment c' TCP_ACK (snd_nxt c') []
                (set_conn i c' (net_tcp_update (bump connections_opened_update) s)))
      else s)"

definition on_syn_received :: "nat \<Rightarrow> segment \<Rightarrow> net \<Rightarrow> net" where
  "on_syn_received i g s =
     (let c = the_conn s i in
      if has_flag (g_flags g) TCP_ACK \<and> g_ack g = snd_nxt c
      then set_conn i (c\<lparr>snd_una := g_ack g, c_state := TCP_ESTABLISHED, accept_pending := True, retries := 0\<rparr>)
             (net_tcp_update (bump connections_opened_update) s)
      else s)"

text \<open>The first block of the established states: the acknowledgement.\<close>

definition take_ack :: "segment \<Rightarrow> tcp_conn \<Rightarrow> tcp_conn" where
  "take_ack g c =
     (if \<not> has_flag (g_flags g) TCP_ACK then c
      else let c1 =
             (if seq_le (snd_una c) (g_ack g) \<and> seq_le (g_ack g) (snd_nxt c)
              then let acked = unat (g_ack g - snd_una c);
                       c0 = (if acked \<le> tx_len c
                             then c\<lparr>tx_head := (tx_head c + acked) mod TCP_BUFFER_SIZE, tx_len := tx_len c - acked\<rparr>
                             else c)
                   in c0\<lparr>snd_una := g_ack g, retries := 0\<rparr>
              else c)
           in c1\<lparr>snd_wnd := ucast (g_wnd g)\<rparr>)"

text \<open>The second block: the payload, taken in order or answered with a duplicate
  acknowledgement.\<close>

definition take_payload :: "nat \<Rightarrow> segment \<Rightarrow> net \<Rightarrow> net" where
  "take_payload i g s =
     (let c = the_conn s i in
      if g_payload g = [] then s
      else if g_seq g = rcv_nxt c
      then let c' = deliver (g_payload g) c
           in snd (send_segment c' TCP_ACK (snd_nxt c') [] (set_conn i c' s))
      else snd (send_segment c TCP_ACK (snd_nxt c) [] (net_tcp_update (bump tcp_rx_out_of_order_update) s)))"

text \<open>The third block: the far end's FIN, or the acknowledgement of ours.\<close>

definition take_fin :: "nat \<Rightarrow> segment \<Rightarrow> net \<Rightarrow> net" where
  "take_fin i g s =
     (let c = the_conn s i in
      if has_flag (g_flags g) TCP_FIN \<and> g_seq g = rcv_nxt c
      then let c1 = c\<lparr>rcv_nxt := rcv_nxt c + 1, peer_closed := True\<rparr>;
               s1 = snd (send_segment c1 TCP_ACK (snd_nxt c1) [] (set_conn i c1 s))
           in set_conn i (c1\<lparr>c_state := (if c_state c1 = TCP_ESTABLISHED then TCP_CLOSE_WAIT else TCP_TIME_WAIT),
                time_wait_until_ns := now s1 + TCP_TIME_WAIT_NS\<rparr>) s1
      else if c_state c = TCP_FIN_WAIT_1 \<and> has_flag (g_flags g) TCP_ACK \<and> g_ack g = snd_nxt c
      then set_conn i (c\<lparr>c_state := TCP_FIN_WAIT_2\<rparr>) s
      else s)"

definition on_established :: "nat \<Rightarrow> segment \<Rightarrow> net \<Rightarrow> net" where
  "on_established i g s = take_fin i g (take_payload i g (set_conn i (take_ack g (the_conn s i)) s))"

definition on_last_ack :: "nat \<Rightarrow> segment \<Rightarrow> net \<Rightarrow> net" where
  "on_last_ack i g s =
     (if has_flag (g_flags g) TCP_ACK \<and> g_ack g = snd_nxt (the_conn s i) then free_conn i s else s)"

text \<open>\<^verbatim>\<open>switch (c->state)\<close>.\<close>

definition tcp_dispatch :: "nat \<Rightarrow> segment \<Rightarrow> net \<Rightarrow> net" where
  "tcp_dispatch i g s = (case c_state (the_conn s i) of
     TCP_LISTEN \<Rightarrow> on_listen i g s
   | TCP_SYN_SENT \<Rightarrow> on_syn_sent i g s
   | TCP_SYN_RECEIVED \<Rightarrow> on_syn_received i g s
   | TCP_ESTABLISHED \<Rightarrow> on_established i g s
   | TCP_FIN_WAIT_1 \<Rightarrow> on_established i g s
   | TCP_FIN_WAIT_2 \<Rightarrow> on_established i g s
   | TCP_LAST_ACK \<Rightarrow> on_last_ack i g s
   | _ \<Rightarrow> s)"

definition tcp_segment :: "segment \<Rightarrow> net \<Rightarrow> net" where
  "tcp_segment g s =
     (case find_conn (g_dst g) (g_dport g) (g_src g) (g_sport g) s of
        None \<Rightarrow> no_connection g s
      | Some i \<Rightarrow> if has_flag (g_flags g) TCP_RST then on_reset i s else tcp_dispatch i g s)"

definition tcp_parse :: "netbuf \<Rightarrow> segment" where
  "tcp_parse b =
     (let m = nb_mem b; h = nb_data b; hdr_len = unat (drop_bit 4 (m (h + 12))) * 4
      in \<lparr>g_src = nb_src_ip b, g_dst = nb_dst_ip b, g_sport = net_get16 m h, g_dport = net_get16 m (h + 2),
          g_seq = net_get32 m (h + 4), g_ack = net_get32 m (h + 8), g_flags = m (h + 13),
          g_wnd = net_get16 m (h + 14), g_payload = bytes_at m (h + hdr_len) (nb_len b - hdr_len)\<rparr>)"

definition tcp_receive :: "nat \<Rightarrow> netbuf \<Rightarrow> net \<Rightarrow> net" where
  "tcp_receive dev b s =
     (let m = nb_mem b; h = nb_data b; hdr_len = unat (drop_bit 4 (m (h + 12))) * 4 in
      if nb_len b < TCP_HDR_LEN then netbuf_free b (net_tcp_update (bump tcp_rx_short_update) s)
      else if net_checksum_finish (net_checksum_partial m h (nb_len b)
          (pseudo_sum_tcp (nb_src_ip b) (nb_dst_ip b) (of_nat (nb_len b)))) \<noteq> 0
      then netbuf_free b (net_tcp_update (bump tcp_rx_bad_checksum_update) s)
      else if hdr_len < TCP_HDR_LEN \<or> hdr_len > nb_len b
      then netbuf_free b (net_tcp_update (bump tcp_rx_short_update) s)
      else netbuf_free b (tcp_segment (tcp_parse b) (net_tcp_update (bump segments_received_update) s)))"

section \<open>Time\<close>

text \<open>One turn of the loop of \<^verbatim>\<open>tcp_tick\<close>.\<close>

definition backoff :: "nat \<Rightarrow> u64" where
  "backoff r = push_bit (if r < 5 then r else 5) TCP_RTO_NS"

definition tcp_retransmit :: "nat \<Rightarrow> u64 \<Rightarrow> net \<Rightarrow> net" where
  "tcp_retransmit i t s =
     (let c = the_conn s i;
          n = (if tx_len c > 512 then 512 else tx_len c);
          chunk = map (\<lambda>k. tx_buf c ((tx_head c + k) mod TCP_BUFFER_SIZE)) [0..<n];
          c1 = c\<lparr>retries := retries c + 1\<rparr>;
          s1 = snd (send_segment c1 (TCP_ACK OR TCP_PSH) (snd_una c1) chunk
                 (set_conn i c1 (net_tcp_update (bump retransmits_update) s)))
      in set_conn i (c1\<lparr>retransmit_at_ns := t + backoff (retries c1)\<rparr>) s1)"

definition tcp_tick_slot :: "u64 \<Rightarrow> nat \<Rightarrow> net \<Rightarrow> net" where
  "tcp_tick_slot t i s =
     (let c = the_conn s i in
      if \<not> c_used c then s
      else if c_state c = TCP_TIME_WAIT \<and> t \<ge> time_wait_until_ns c then free_conn i s
      else if tx_len c \<noteq> 0 \<and> retransmit_at_ns c \<noteq> 0 \<and> t \<ge> retransmit_at_ns c
      then if retries c \<ge> TCP_MAX_RETRIES then set_conn i (c\<lparr>c_state := TCP_CLOSED, c_reset := True\<rparr>) s
           else tcp_retransmit i t s
      else s)"

definition tcp_tick :: "net \<Rightarrow> net" where
  "tcp_tick s = fold (tcp_tick_slot (now s)) [0..<TCP_MAX_CONNECTIONS] s"

section \<open>What a socket asks of a connection\<close>

definition tcp_open :: "ipv4_addr \<Rightarrow> u16 \<Rightarrow> ipv4_addr \<Rightarrow> u16 \<Rightarrow> net \<Rightarrow> int \<times> net" where
  "tcp_open local lport remote rport s =
     (case alloc_conn s of
        (None, s1) \<Rightarrow> (-1, s1)
      | (Some i, s1) \<Rightarrow>
          (case initial_sequence s1 of
             (None, s2) \<Rightarrow> (-1, free_conn i s2)
           | (Some iss, s2) \<Rightarrow>
               let c = (the_conn s2 i)\<lparr>c_local_ip := local, c_local_port := lport, c_remote_ip := remote,
                     c_remote_port := rport, snd_una := iss, snd_nxt := iss + 1, c_state := TCP_SYN_SENT,
                     retransmit_at_ns := now s2 + TCP_RTO_NS\<rparr>
               in (int i, snd (send_segment c TCP_SYN iss [] (set_conn i c s2)))))"

definition tcp_open_listener :: "ipv4_addr \<Rightarrow> u16 \<Rightarrow> net \<Rightarrow> int \<times> net" where
  "tcp_open_listener local port s =
     (case alloc_conn s of
        (None, s1) \<Rightarrow> (-1, s1)
      | (Some i, s1) \<Rightarrow> (int i, set_conn i ((the_conn s1 i)\<lparr>c_local_ip := local, c_local_port := port,
            c_state := TCP_LISTEN, listening := True\<rparr>) s1))"

definition tcp_accept_ready :: "int \<Rightarrow> net \<Rightarrow> int \<times> net" where
  "tcp_accept_ready listener s =
     (if listener < 0 \<or> listener \<ge> int TCP_MAX_CONNECTIONS then (-1, s)
      else case first_slot (\<lambda>c. c_used c \<and> accept_pending c \<and> accept_of c = listener) (conns (net_tcp s)) of
        None \<Rightarrow> (-1, s)
      | Some i \<Rightarrow> (int i, set_conn i ((the_conn s i)\<lparr>accept_pending := False\<rparr>) s))"

definition valid_idx :: "int \<Rightarrow> bool" where
  "valid_idx idx \<longleftrightarrow> 0 \<le> idx \<and> idx < int TCP_MAX_CONNECTIONS"

definition tcp_state_of :: "int \<Rightarrow> net \<Rightarrow> tcp_st" where
  "tcp_state_of idx s =
     (if \<not> valid_idx idx \<or> \<not> c_used (the_conn s (nat idx)) then TCP_CLOSED
      else c_state (the_conn s (nat idx)))"

definition tx_push :: "u8 \<Rightarrow> tcp_conn \<Rightarrow> tcp_conn" where
  "tx_push x c = c\<lparr>tx_buf := (tx_buf c)((tx_head c + tx_len c) mod TCP_BUFFER_SIZE := x), tx_len := tx_len c + 1\<rparr>"

text \<open>\<^verbatim>\<open>send_now\<close>: at most 512 bytes and, unless the window is zero, at most the window.\<close>

definition send_now :: "nat \<Rightarrow> tcp_conn \<Rightarrow> nat" where
  "send_now n c =
     (let k = (if n > 512 then 512 else n)
      in if snd_wnd c \<noteq> 0 \<and> k > unat (snd_wnd c) then unat (snd_wnd c) else k)"

definition tcp_write :: "int \<Rightarrow> u8 list \<Rightarrow> net \<Rightarrow> int \<times> net" where
  "tcp_write idx data s =
     (if \<not> valid_idx idx then (-1, s)
      else let i = nat idx; c = the_conn s i in
        if \<not> c_used c \<or> c_state c \<noteq> TCP_ESTABLISHED then (-1, s)
        else
          let (n, c1) = fill_while (\<lambda>c. tx_len c < TCP_BUFFER_SIZE) tx_push data c;
              k = send_now n c1;
              chunk = map (\<lambda>j. tx_buf c1 ((tx_head c1 + (tx_len c1 - n) + j) mod TCP_BUFFER_SIZE)) [0..<k];
              s1 = set_conn i c1 s
          in if n = 0 \<or> k = 0 then (int n, s1)
             else let s2 = snd (send_segment c1 (TCP_ACK OR TCP_PSH) (snd_nxt c1) chunk s1)
                  in (int n, set_conn i (c1\<lparr>snd_nxt := snd_nxt c1 + of_nat k,
                        retransmit_at_ns := now s2 + TCP_RTO_NS, retries := 0\<rparr>) s2))"

definition rx_front :: "tcp_conn \<Rightarrow> u8" where
  "rx_front c = rx_buf c (rx_head c)"

definition rx_pop :: "tcp_conn \<Rightarrow> tcp_conn" where
  "rx_pop c = c\<lparr>rx_head := (rx_head c + 1) mod TCP_BUFFER_SIZE, rx_len := rx_len c - 1\<rparr>"

text \<open>The number of bytes read, or -1, and the bytes.\<close>

definition tcp_read :: "int \<Rightarrow> nat \<Rightarrow> net \<Rightarrow> int \<times> u8 list \<times> net" where
  "tcp_read idx len s =
     (if \<not> valid_idx idx then (-1, [], s)
      else let i = nat idx; c = the_conn s i in
        if \<not> c_used c then (-1, [], s)
        else
          let (xs, c1) = drain_while (\<lambda>c. rx_len c \<noteq> 0) rx_front rx_pop len c;
              s1 = set_conn i c1 s
          in (int (length xs), xs,
              if xs = [] then s1 else net_tcp_update (bump receives_hint_update) s1))"

definition tcp_shutdown :: "int \<Rightarrow> net \<Rightarrow> net" where
  "tcp_shutdown idx s =
     (if \<not> valid_idx idx then s
      else let i = nat idx; c = the_conn s i in
        if \<not> c_used c then s
        else
          let fin = (\<lambda>st. set_conn i (c\<lparr>snd_nxt := snd_nxt c + 1, c_state := st\<rparr>)
                (snd (send_segment c (TCP_FIN OR TCP_ACK) (snd_nxt c) [] s)))
          in (case c_state c of
                TCP_ESTABLISHED \<Rightarrow> fin TCP_FIN_WAIT_1
              | TCP_CLOSE_WAIT \<Rightarrow> fin TCP_LAST_ACK
              | TCP_LISTEN \<Rightarrow> free_conn i s
              | TCP_SYN_SENT \<Rightarrow> free_conn i s
              | _ \<Rightarrow> s))"

section \<open>What TCP leaves alone\<close>

lemma set_conn_frame [simp]:
  "env (set_conn i c s) = env s" "now (set_conn i c s) = now s" "net_pmm (set_conn i c s) = net_pmm s"
  "net_nb (set_conn i c s) = net_nb s" "net_dev (set_conn i c s) = net_dev s"
  "net_udp (set_conn i c s) = net_udp s" "net_sock (set_conn i c s) = net_sock s"
  "net_dhcp (set_conn i c s) = net_dhcp s" "net_icmp (set_conn i c s) = net_icmp s"
  "net_arp (set_conn i c s) = net_arp s" "net_ip (set_conn i c s) = net_ip s"
  "entropy (set_conn i c s) = entropy s" "panicked (set_conn i c s) = panicked s"
  "length (conns (net_tcp (set_conn i c s))) = length (conns (net_tcp s))"
  by (simp_all add: set_conn_def)

lemma seg_payload_frame [simp]:
  "env (snd (seg_payload p b s)) = env s" "net_tcp (snd (seg_payload p b s)) = net_tcp s"
  "net_udp (snd (seg_payload p b s)) = net_udp s" "net_sock (snd (seg_payload p b s)) = net_sock s"
  "net_dhcp (snd (seg_payload p b s)) = net_dhcp s" "net_icmp (snd (seg_payload p b s)) = net_icmp s"
  "now (snd (seg_payload p b s)) = now s" "entropy (snd (seg_payload p b s)) = entropy s"
  "net_dev (snd (seg_payload p b s)) = net_dev s"
  by (simp_all add: seg_payload_def case_prod_beta split: option.splits)

lemma send_segment_frame [simp]:
  "env (snd (send_segment c fl q p s)) = env s" "now (snd (send_segment c fl q p s)) = now s"
  "net_udp (snd (send_segment c fl q p s)) = net_udp s" "net_sock (snd (send_segment c fl q p s)) = net_sock s"
  "net_dhcp (snd (send_segment c fl q p s)) = net_dhcp s" "net_icmp (snd (send_segment c fl q p s)) = net_icmp s"
  "entropy (snd (send_segment c fl q p s)) = entropy s"
  "conns (net_tcp (snd (send_segment c fl q p s))) = conns (net_tcp s)"
  by (simp_all add: send_segment_def case_prod_beta split: option.splits)

lemma send_reset_frame [simp]:
  "env (send_reset a b c d e f g s) = env s" "now (send_reset a b c d e f g s) = now s"
  "net_udp (send_reset a b c d e f g s) = net_udp s" "net_sock (send_reset a b c d e f g s) = net_sock s"
  "net_dhcp (send_reset a b c d e f g s) = net_dhcp s" "net_icmp (send_reset a b c d e f g s) = net_icmp s"
  "entropy (send_reset a b c d e f g s) = entropy s"
  "conns (net_tcp (send_reset a b c d e f g s)) = conns (net_tcp s)"
  by (simp_all add: send_reset_def case_prod_beta split: option.splits)

lemma the_conn_set_conn [simp]:
  "i < length (conns (net_tcp s)) \<Longrightarrow> the_conn (set_conn i c s) i = c"
  "i \<noteq> j \<Longrightarrow> the_conn (set_conn i c s) j = the_conn s j"
  by (simp_all add: the_conn_def set_conn_def)

lemma the_conn_cong: "conns (net_tcp t) = conns (net_tcp s) \<Longrightarrow> the_conn t i = the_conn s i"
  by (simp add: the_conn_def)

lemma the_conn_send [simp]:
  "the_conn (snd (send_segment c fl q p s)) i = the_conn s i"
  "the_conn (send_reset a b cc d e f g s) i = the_conn s i"
  by (simp_all add: the_conn_def)

lemma the_conn_counters [simp]:
  "the_conn (net_tcp_update (segments_sent_update f) s) i = the_conn s i"
  "the_conn (net_tcp_update (segments_received_update f) s) i = the_conn s i"
  "the_conn (net_tcp_update (retransmits_update f) s) i = the_conn s i"
  "the_conn (net_tcp_update (tcp_rx_short_update f) s) i = the_conn s i"
  "the_conn (net_tcp_update (tcp_rx_bad_checksum_update f) s) i = the_conn s i"
  "the_conn (net_tcp_update (tcp_rx_no_connection_update f) s) i = the_conn s i"
  "the_conn (net_tcp_update (tcp_rx_out_of_order_update f) s) i = the_conn s i"
  "the_conn (net_tcp_update (connections_opened_update f) s) i = the_conn s i"
  "the_conn (net_tcp_update (connections_reset_update f) s) i = the_conn s i"
  "the_conn (net_tcp_update (receives_hint_update f) s) i = the_conn s i"
  by (simp_all add: the_conn_def)

lemma the_conn_pages [simp]:
  "the_conn (snd (alloc_page s)) i = the_conn s i" "the_conn (free_pages1 a s) i = the_conn s i"
  "the_conn (netbuf_free b s) i = the_conn s i" "the_conn (snd (netbuf_alloc s)) i = the_conn s i"
  by (simp_all add: the_conn_def)

lemma alloc_conn_frame [simp]:
  "env (snd (alloc_conn s)) = env s" "now (snd (alloc_conn s)) = now s" "net_nb (snd (alloc_conn s)) = net_nb s"
  "net_udp (snd (alloc_conn s)) = net_udp s" "net_sock (snd (alloc_conn s)) = net_sock s"
  "net_dhcp (snd (alloc_conn s)) = net_dhcp s" "net_dev (snd (alloc_conn s)) = net_dev s"
  "net_arp (snd (alloc_conn s)) = net_arp s" "net_ip (snd (alloc_conn s)) = net_ip s"
  "entropy (snd (alloc_conn s)) = entropy s"
  "length (conns (net_tcp (snd (alloc_conn s)))) = length (conns (net_tcp s))"
  by (simp_all add: alloc_conn_def Let_def case_prod_beta split: option.splits)

lemma free_conn_frame [simp]:
  "env (free_conn i s) = env s" "now (free_conn i s) = now s" "net_nb (free_conn i s) = net_nb s"
  "net_udp (free_conn i s) = net_udp s" "net_sock (free_conn i s) = net_sock s"
  "net_dhcp (free_conn i s) = net_dhcp s" "net_dev (free_conn i s) = net_dev s"
  "net_arp (free_conn i s) = net_arp s" "net_ip (free_conn i s) = net_ip s"
  "entropy (free_conn i s) = entropy s"
  "length (conns (net_tcp (free_conn i s))) = length (conns (net_tcp s))"
  by (simp_all add: free_conn_def Let_def)

lemma initial_sequence_frame [simp]:
  "env (snd (initial_sequence s)) = env s" "now (snd (initial_sequence s)) = now s"
  "net_tcp (snd (initial_sequence s)) = net_tcp s" "net_pmm (snd (initial_sequence s)) = net_pmm s"
  "net_nb (snd (initial_sequence s)) = net_nb s" "net_udp (snd (initial_sequence s)) = net_udp s"
  "net_sock (snd (initial_sequence s)) = net_sock s" "net_dhcp (snd (initial_sequence s)) = net_dhcp s"
  "net_dev (snd (initial_sequence s)) = net_dev s" "panicked (snd (initial_sequence s)) = panicked s"
  "net_arp (snd (initial_sequence s)) = net_arp s" "net_ip (snd (initial_sequence s)) = net_ip s"
  by (simp_all add: initial_sequence_def random_word_def split: list.splits prod.splits)

lemmas tcp_handlers = on_listen_def on_syn_sent_def on_syn_received_def on_established_def take_payload_def
  take_fin_def on_last_ack_def on_reset_def no_connection_def

lemma tcp_handlers_frame [simp]:
  "env (on_listen i g s) = env s" "env (on_syn_sent i g s) = env s" "env (on_syn_received i g s) = env s"
  "env (take_payload i g s) = env s" "env (take_fin i g s) = env s"
  "env (on_last_ack i g s) = env s" "env (on_reset i s) = env s" "env (no_connection g s) = env s"
  by (simp_all add: tcp_handlers Let_def case_prod_beta split: option.splits)

lemma tcp_segment_env [simp]: "env (tcp_segment g s) = env s"
  by (simp add: tcp_segment_def tcp_dispatch_def on_established_def split: option.splits tcp_st.splits)

lemma tcp_receive_env [simp]: "env (tcp_receive dev b s) = env s"
  by (simp add: tcp_receive_def Let_def)

end
