(* ===== verification/Stack.thy ===== *)
theory Stack
  imports Icmp Udp Tcp
begin

text \<open>
  The receiving path: \<^verbatim>\<open>ip_receive\<close> of \<^verbatim>\<open>kernel/core/ip.c\<close>, \<^verbatim>\<open>eth_receive\<close> of
  \<^verbatim>\<open>kernel/core/eth.c\<close> and \<^verbatim>\<open>netdev_service\<close> of \<^verbatim>\<open>kernel/core/netdev.c\<close>, which drains the
  queue of waiting frames. What a driver's \<^verbatim>\<open>poll\<close> does is a parameter: a function from the
  device's index and the state to the state.

  The drain loop ends because taking a frame shortens the queue and handling it does not
  touch the queue, which is the termination proof of \<open>service_loop\<close>.
\<close>

definition ip_for_us :: "net_device \<Rightarrow> ipv4_addr \<Rightarrow> bool" where
  "ip_for_us d dst \<longleftrightarrow> \<not> (d_ip d \<noteq> 0 \<and> dst \<noteq> d_ip d \<and> dst \<noteq> IPV4_BROADCAST
     \<and> \<not> (d_netmask d \<noteq> 0 \<and> dst = d_ip d OR NOT (d_netmask d)))"

text \<open>The part of \<^verbatim>\<open>ip_receive\<close> after the header was accepted.\<close>

definition ip_deliver :: "nat \<Rightarrow> netbuf \<Rightarrow> nat \<Rightarrow> net \<Rightarrow> net" where
  "ip_deliver dev b hdr_len s =
     (let m = nb_mem b; h = nb_data b; protocol = m (h + 9);
          (r, s1) = netbuf_pull hdr_len b s;
          b1 = (case r of Some b' \<Rightarrow> b' | None \<Rightarrow> b);
          b2 = b1\<lparr>nb_src_ip := net_get32 m (h + 12), nb_dst_ip := net_get32 m (h + 16), nb_protocol := protocol\<rparr>;
          s2 = net_ip_update (bump ip_rx_packets_update) s1
      in if protocol = IP_PROTO_ICMP then icmp_receive dev b2 s2
         else if protocol = IP_PROTO_UDP then udp_receive dev b2 s2
         else if protocol = IP_PROTO_TCP then tcp_receive dev b2 s2
         else netbuf_free b2 (net_ip_update (bump ip_rx_unknown_proto_update) s2))"

definition ip_receive :: "nat \<Rightarrow> netbuf \<Rightarrow> net \<Rightarrow> net" where
  "ip_receive dev b s =
     (let m = nb_mem b; h = nb_data b; hdr_len = unat (m h AND 0x0F) * 4 in
      if nb_len b < IP_HDR_LEN then netbuf_free b (net_ip_update (bump ip_rx_short_update) s)
      else if drop_bit 4 (m h) \<noteq> IP_VERSION_4 then netbuf_free b (net_ip_update (bump ip_rx_bad_version_update) s)
      else if hdr_len < IP_HDR_LEN \<or> hdr_len > nb_len b
      then netbuf_free b (net_ip_update (bump ip_rx_short_update) s)
      else if net_checksum m h hdr_len \<noteq> 0
      then netbuf_free b (net_ip_update (bump ip_rx_bad_checksum_update) s)
      else
        let tot = unat (net_get16 m (h + 2)) in
        if tot < hdr_len then netbuf_free b (net_ip_update (bump ip_rx_short_update) s)
        else
          let b1 = (if tot < nb_len b then b\<lparr>nb_len := tot\<rparr> else b); frag = net_get16 m (h + 6) in
          if frag AND IP_FLAG_MORE_FRAGMENTS \<noteq> 0 \<or> frag AND IP_FRAGMENT_OFFSET_MASK \<noteq> 0
          then netbuf_free b1 (net_ip_update (bump ip_rx_fragments_update) s)
          else if \<not> ip_for_us (the_dev s dev) (net_get32 m (h + 16))
          then netbuf_free b1 (net_ip_update (bump ip_rx_not_for_us_update) s)
          else ip_deliver dev b1 hdr_len s)"

definition eth_receive :: "nat \<Rightarrow> netbuf \<Rightarrow> net \<Rightarrow> net" where
  "eth_receive dev b s =
     (if nb_len b < ETH_HDR_LEN
      then netbuf_free b (upd_dev dev (bump d_rx_errors_update) (net_eth_update (bump eth_rx_runt_update) s))
      else
        let m = nb_mem b; h = nb_data b; dst = bytes_at m h MAC_LEN; type = net_get16 m (h + 12) in
        if \<not> mac_equal dst (d_mac (the_dev s dev)) \<and> \<not> mac_equal dst MAC_BROADCAST \<and> m h AND 1 = 0
        then netbuf_free b (net_eth_update (bump eth_rx_not_for_us_update) s)
        else
          let (r, s1) = netbuf_pull ETH_HDR_LEN b s; b1 = (case r of Some b' \<Rightarrow> b' | None \<Rightarrow> b) in
          if type = ETH_TYPE_ARP then arp_receive dev b1 s1
          else if type = ETH_TYPE_IPV4 then ip_receive dev b1 s1
          else netbuf_free b1 (net_eth_update (bump eth_rx_unknown_type_update) s1))"

section \<open>The worker\<close>

lemma ip_receive_env [simp]: "env (ip_receive dev b s) = env s"
  by (simp add: ip_receive_def ip_deliver_def Let_def case_prod_beta)

lemma eth_receive_env [simp]: "env (eth_receive dev b s) = env s"
  by (simp add: eth_receive_def Let_def case_prod_beta)

definition netdev_poll_all :: "(nat \<Rightarrow> net \<Rightarrow> net) \<Rightarrow> net \<Rightarrow> net" where
  "netdev_poll_all poll s =
     fold (\<lambda>i s. if d_up (the_dev s i) \<and> d_poll (the_dev s i) then poll i s else s) [0..<netdev_count s] s"

definition service_one :: "netbuf \<Rightarrow> net \<Rightarrow> net" where
  "service_one b s =
     (let s1 = s\<lparr>net_dev := (net_dev s)\<lparr>rx_serviced := rx_serviced (net_dev s) + 1\<rparr>\<rparr>
      in case nb_dev b of Some dev \<Rightarrow> eth_receive dev b s1 | None \<Rightarrow> kpanic ''netdev: null device'' s1)"

lemma service_one_queue [simp]: "rx_queue (net_dev (service_one b s)) = rx_queue (net_dev s)"
  by (simp add: service_one_def Let_def kpanic_def env_eqD(1) [OF eth_receive_env] split: option.splits)

function service_loop :: "net \<Rightarrow> net" where
  "service_loop s = (case rx_take s of (None, s1) \<Rightarrow> s1 | (Some b, s1) \<Rightarrow> service_loop (service_one b s1))"
  by pat_completeness auto

termination
  by (relation "measure (\<lambda>s. length (rx_queue (net_dev s)))") (auto simp: rx_take_def split: if_splits list.splits)

declare service_loop.simps [simp del]

definition netdev_service :: "(nat \<Rightarrow> net \<Rightarrow> net) \<Rightarrow> net \<Rightarrow> net" where
  "netdev_service poll s = service_loop (netdev_poll_all poll s)"

end
