(* ===== verification/Sockets.thy ===== *)
theory Sockets
  imports Stack
begin

text \<open>
  The socket layer, \<^verbatim>\<open>kernel/core/socket.c\<close>: sixteen slots, each a datagram socket with a
  ring of received datagrams or a stream socket naming a TCP connection. A
  \<^verbatim>\<open>struct socket *\<close> is the index of a slot, and a null pointer is \<open>None\<close>. A call that
  waits for the network runs the stack first, so those take the drivers' \<^verbatim>\<open>poll\<close>.
\<close>

definition EPHEMERAL_FIRST :: nat where "EPHEMERAL_FIRST = 49152"
definition EPHEMERAL_COUNT :: nat where "EPHEMERAL_COUNT = 16384"

definition ephemeral_port :: "net \<Rightarrow> u16 \<times> net" where
  "ephemeral_port s =
     (case random_word s of (r, s1) \<Rightarrow>
        let v = (case r of Some w \<Rightarrow> (ucast w :: u16) | None \<Rightarrow> ucast (drop_bit 8 (now s1)))
        in (of_nat (EPHEMERAL_FIRST + unat v mod EPHEMERAL_COUNT), s1))"

definition zero_socket :: socket where
  "zero_socket = \<lparr>s_used = False, s_type = 0, s_local_ip = 0, s_remote_ip = 0, s_local_port = 0,
     s_remote_port = 0, s_bound = False, s_listening = False, s_connected = False, s_conn = 0,
     s_queue = replicate DGRAM_QUEUE \<lparr>dg_buf = None, dg_from = 0, dg_port = 0\<rparr>, s_q_head = 0, s_q_len = 0,
     s_dropped = 0\<rparr>"

definition socket_create :: "int \<Rightarrow> net \<Rightarrow> nat option \<times> net" where
  "socket_create type s =
     (if type \<noteq> SOCK_STREAM \<and> type \<noteq> SOCK_DGRAM then (None, s)
      else case first_slot (\<lambda>k. \<not> s_used k) (sockets (net_sock s)) of
        None \<Rightarrow> (None, s)
      | Some i \<Rightarrow> (Some i, net_sock_update (bump sk_created_update)
          (upd_sock i (\<lambda>_. zero_socket\<lparr>s_used := True, s_type := type, s_conn := -1\<rparr>) s)))"

definition socket_bind :: "nat option \<Rightarrow> ipv4_addr \<Rightarrow> u16 \<Rightarrow> net \<Rightarrow> bool \<times> net" where
  "socket_bind sk addr port s =
     (case sk of
        None \<Rightarrow> (False, s)
      | Some i \<Rightarrow>
          if s_bound (the_sock s i) then (False, s)
          else
            let (p, s1) = (if port = 0 then ephemeral_port s else (port, s));
                (ok, s2) = (if s_type (the_sock s1 i) = SOCK_DGRAM
                            then udp_bind_port p (Fn_udp_arrived i) s1 else (True, s1))
            in if \<not> ok then (False, s2)
               else (True, upd_sock i (\<lambda>k. k\<lparr>s_local_ip := addr, s_local_port := p, s_bound := True\<rparr>) s2))"

definition socket_listen :: "nat option \<Rightarrow> nat \<Rightarrow> net \<Rightarrow> bool \<times> net" where
  "socket_listen sk backlog s =
     (case sk of
        None \<Rightarrow> (False, s)
      | Some i \<Rightarrow>
          if s_type (the_sock s i) \<noteq> SOCK_STREAM \<or> \<not> s_bound (the_sock s i) then (False, s)
          else
            let (conn, s1) = tcp_open_listener (s_local_ip (the_sock s i)) (s_local_port (the_sock s i)) s;
                s2 = upd_sock i (\<lambda>k. k\<lparr>s_conn := conn\<rparr>) s1
            in if conn < 0 then (False, s2) else (True, upd_sock i (\<lambda>k. k\<lparr>s_listening := True\<rparr>) s2))"

definition socket_accept :: "(nat \<Rightarrow> net \<Rightarrow> net) \<Rightarrow> nat option \<Rightarrow> net \<Rightarrow> nat option \<times> net" where
  "socket_accept poll sk s =
     (case sk of
        None \<Rightarrow> (None, s)
      | Some i \<Rightarrow>
          if \<not> s_listening (the_sock s i) then (None, s)
          else
            let s1 = ip_flush_pending (netdev_service poll s);
                (idx, s2) = tcp_accept_ready (s_conn (the_sock s1 i)) s1
            in if idx < 0 then (None, s2)
               else (case socket_create SOCK_STREAM s2 of
                       (None, s3) \<Rightarrow> (None, tcp_shutdown idx s3)
                     | (Some n, s3) \<Rightarrow> (Some n, upd_sock n (\<lambda>k. k\<lparr>s_conn := idx, s_connected := True,
                           s_bound := True, s_local_port := s_local_port (the_sock s3 i)\<rparr>) s3)))"

text \<open>\<^verbatim>\<open>if (!s->bound && !socket_bind(s, IPV4_ANY, 0))\<close>.\<close>

definition bind_if_needed :: "nat \<Rightarrow> net \<Rightarrow> bool \<times> net" where
  "bind_if_needed i s = (if s_bound (the_sock s i) then (True, s) else socket_bind (Some i) IPV4_ANY 0 s)"

definition socket_connect :: "nat option \<Rightarrow> ipv4_addr \<Rightarrow> u16 \<Rightarrow> net \<Rightarrow> bool \<times> net" where
  "socket_connect sk addr port s =
     (case sk of
        None \<Rightarrow> (False, s)
      | Some i \<Rightarrow>
          (case bind_if_needed i s of
             (False, s1) \<Rightarrow> (False, s1)
           | (True, s1) \<Rightarrow>
               let s2 = upd_sock i (\<lambda>k. k\<lparr>s_remote_ip := addr, s_remote_port := port\<rparr>) s1 in
               if s_type (the_sock s2 i) = SOCK_STREAM
               then let (conn, s3) = tcp_open (s_local_ip (the_sock s2 i)) (s_local_port (the_sock s2 i)) addr port s2;
                        s4 = upd_sock i (\<lambda>k. k\<lparr>s_conn := conn\<rparr>) s3
                    in if conn < 0 then (False, s4) else (True, upd_sock i (\<lambda>k. k\<lparr>s_connected := True\<rparr>) s4)
               else (True, upd_sock i (\<lambda>k. k\<lparr>s_connected := True\<rparr>) s2)))"

definition socket_sendto :: "nat option \<Rightarrow> u8 list \<Rightarrow> ipv4_addr \<Rightarrow> u16 \<Rightarrow> net \<Rightarrow> int \<times> net" where
  "socket_sendto sk data addr port s =
     (case sk of
        None \<Rightarrow> (-1, s)
      | Some i \<Rightarrow>
          if s_type (the_sock s i) \<noteq> SOCK_DGRAM then (-1, s)
          else (case bind_if_needed i s of
                  (False, s1) \<Rightarrow> (-1, s1)
                | (True, s1) \<Rightarrow>
                    (case udp_send addr port (s_local_port (the_sock s1 i)) data s1 of
                       (False, s2) \<Rightarrow> (-1, s2)
                     | (True, s2) \<Rightarrow> (int (length data), net_sock_update (bump sk_sends_update) s2))))"

definition socket_send :: "nat option \<Rightarrow> u8 list \<Rightarrow> net \<Rightarrow> int \<times> net" where
  "socket_send sk data s =
     (case sk of
        None \<Rightarrow> (-1, s)
      | Some i \<Rightarrow>
          let k = the_sock s i in
          if \<not> s_connected k then (-1, s)
          else if s_type k = SOCK_DGRAM then socket_sendto sk data (s_remote_ip k) (s_remote_port k) s
          else let (n, s1) = tcp_write (s_conn k) data s
               in (n, if n > 0 then net_sock_update (bump sk_sends_update) s1 else s1))"

text \<open>What \<^verbatim>\<open>socket_recvfrom\<close> hands back: the result, the bytes it copied, and the sender's
  address and port when it stored them.\<close>

record received =
  rv_result :: int
  rv_data :: "u8 list"
  rv_from :: "(ipv4_addr \<times> u16) option"

definition socket_recvfrom :: "(nat \<Rightarrow> net \<Rightarrow> net) \<Rightarrow> nat option \<Rightarrow> nat \<Rightarrow> net \<Rightarrow> received \<times> net" where
  "socket_recvfrom poll sk len s =
     (case sk of
        None \<Rightarrow> (\<lparr>rv_result = -1, rv_data = [], rv_from = None\<rparr>, s)
      | Some i \<Rightarrow>
          let s1 = tcp_tick (ip_flush_pending (netdev_service poll s)) in
          if s_type (the_sock s1 i) = SOCK_STREAM
          then let (n, xs, s2) = tcp_read (s_conn (the_sock s1 i)) len s1
               in if n > 0
                  then (\<lparr>rv_result = n, rv_data = xs,
                         rv_from = Some (s_remote_ip (the_sock s2 i), s_remote_port (the_sock s2 i))\<rparr>,
                        net_sock_update (bump sk_receives_update) s2)
                  else (\<lparr>rv_result = n, rv_data = xs, rv_from = None\<rparr>, s2)
          else let (r, k) = dgram_take (the_sock s1 i); s2 = upd_sock i (\<lambda>_. k) s1
               in (case r of
                     None \<Rightarrow> (\<lparr>rv_result = 0, rv_data = [], rv_from = None\<rparr>, s2)
                   | Some (b, from, port) \<Rightarrow>
                       let n = (if nb_len b < len then nb_len b else len)
                       in (\<lparr>rv_result = int n, rv_data = bytes_at (nb_mem b) (nb_data b) n, rv_from = Some (from, port)\<rparr>,
                           net_sock_update (bump sk_receives_update) (netbuf_free b s2))))"

definition socket_recv :: "(nat \<Rightarrow> net \<Rightarrow> net) \<Rightarrow> nat option \<Rightarrow> nat \<Rightarrow> net \<Rightarrow> received \<times> net" where
  "socket_recv poll sk len s =
     (case socket_recvfrom poll sk len s of (r, s1) \<Rightarrow> (r\<lparr>rv_from := None\<rparr>, s1))"

definition free_dgram :: "dgram \<Rightarrow> net \<Rightarrow> net" where
  "free_dgram q s = (case dg_buf q of None \<Rightarrow> s | Some b \<Rightarrow> netbuf_free b s)"

definition socket_close :: "nat option \<Rightarrow> net \<Rightarrow> net" where
  "socket_close sk s =
     (case sk of
        None \<Rightarrow> s
      | Some i \<Rightarrow>
          let k = the_sock s i in
          if \<not> s_used k then s
          else
            let s1 = (if s_type k = SOCK_DGRAM \<and> s_bound k then udp_unbind_port (s_local_port k) s else s);
                s2 = (if s_type k = SOCK_STREAM \<and> s_conn k \<ge> 0 then tcp_shutdown (s_conn k) s1 else s1);
                s3 = fold free_dgram (s_queue (the_sock s2 i)) s2
            in net_sock_update (bump sk_closed_update) (upd_sock i (\<lambda>_. zero_socket\<lparr>s_conn := -1\<rparr>) s3))"

end
