(* ===== verification/Dhcp.thy ===== *)
theory Dhcp
  imports Stack
begin

text \<open>
  The DHCP exchange, \<^verbatim>\<open>wait_for\<close> and \<^verbatim>\<open>dhcp_configure\<close> of \<^verbatim>\<open>kernel/core/dhcp.c\<close>.

  \<^verbatim>\<open>wait_for\<close> spins until the clock reaches a deadline, running the stack at every turn.
  The model is given the readings the clock will return as a list: each turn sets the clock
  to the next one, and the loop ends when a reading reaches the deadline, when the flag is
  set, or when there are no more readings. So a call ends for every list, and one that the
  code would end is one whose list holds a reading at or past the deadline.
\<close>

datatype dhcp_flag = Have_offer | Have_ack

definition flag_set :: "dhcp_flag \<Rightarrow> net \<Rightarrow> bool" where
  "flag_set f s = (case f of Have_offer \<Rightarrow> have_offer (dhcp_res (net_dhcp s))
     | Have_ack \<Rightarrow> have_ack (dhcp_res (net_dhcp s)))"

fun wait_loop :: "(nat \<Rightarrow> net \<Rightarrow> net) \<Rightarrow> dhcp_flag \<Rightarrow> u64 \<Rightarrow> u64 list \<Rightarrow> net \<Rightarrow> bool \<times> u64 list \<times> net" where
  "wait_loop poll f until [] s = (flag_set f s, [], s)"
| "wait_loop poll f until (t # ts) s =
     (let s1 = s\<lparr>now := t\<rparr> in
      if t \<ge> until then (flag_set f s1, ts, s1)
      else let s2 = ip_flush_pending (netdev_service poll s1)
           in if flag_set f s2 then (True, ts, s2) else wait_loop poll f until ts s2)"

definition wait_for :: "(nat \<Rightarrow> net \<Rightarrow> net) \<Rightarrow> dhcp_flag \<Rightarrow> u32 \<Rightarrow> u64 list \<Rightarrow> net \<Rightarrow> bool \<times> u64 list \<times> net" where
  "wait_for poll f ms clock s = wait_loop poll f (now s + ucast ms * 1000000) clock s"

text \<open>The two loops of \<^verbatim>\<open>dhcp_configure\<close>: up to three attempts to send a message and wait for
  the answer to it. \<open>stack_msg\<close> is what the 400 bytes on the stack held before.\<close>

fun dhcp_attempts ::
  "nat \<Rightarrow> (nat \<Rightarrow> net \<Rightarrow> net) \<Rightarrow> dhcp_flag \<Rightarrow> mem \<Rightarrow> nat \<Rightarrow> u64 list \<Rightarrow> net \<Rightarrow> mem \<times> u64 list \<times> net" where
  "dhcp_attempts 0 poll f stack_msg dev clock s = (stack_msg, clock, s)"
| "dhcp_attempts (Suc n) poll f stack_msg dev clock s =
     (if flag_set f s then (stack_msg, clock, s)
      else
        let res = dhcp_res (net_dhcp s);
            (msg, len) = (case f of
               Have_offer \<Rightarrow> dhcp_build stack_msg (the_dev s dev) (dhcp_transaction (net_dhcp s)) DHCP_DISCOVER 0 0
             | Have_ack \<Rightarrow> dhcp_build stack_msg (the_dev s dev) (dhcp_transaction (net_dhcp s)) DHCP_REQUEST
                 (dr_offered res) (dr_server res));
            s1 = net_dhcp_update (bump dhcp_sent_update) s
        in (case udp_send IPV4_BROADCAST DHCP_SERVER_PORT DHCP_CLIENT_PORT (bytes_at msg 0 len) s1 of
              (False, s2) \<Rightarrow> (msg, clock, s2)
            | (True, s2) \<Rightarrow>
                (case wait_for poll f 400 clock s2 of
                   (_, clock', s3) \<Rightarrow> dhcp_attempts n poll f msg dev clock' s3)))"

definition zero_result :: dhcp_result where
  "zero_result = \<lparr>have_offer = False, have_ack = False, dr_offered = 0, dr_server = 0, dr_netmask = 0,
     dr_router = 0, dr_dns = 0, dr_lease_seconds = 0\<rparr>"

definition dhcp_end :: "net \<Rightarrow> net" where
  "dhcp_end s = (udp_unbind_port DHCP_CLIENT_PORT s)\<lparr>net_dhcp := (net_dhcp s)\<lparr>dhcp_configuring := None\<rparr>\<rparr>"

definition dhcp_configure ::
  "(nat \<Rightarrow> net \<Rightarrow> net) \<Rightarrow> mem \<Rightarrow> nat option \<Rightarrow> u64 list \<Rightarrow> net \<Rightarrow> bool \<times> u64 list \<times> net" where
  "dhcp_configure poll stack_msg dp clock s =
     (case dp of
        None \<Rightarrow> (False, clock, s)
      | Some dev \<Rightarrow>
          let s1 = s\<lparr>net_dhcp := (net_dhcp s)\<lparr>dhcp_res := zero_result, dhcp_configuring := Some dev\<rparr>\<rparr>;
              (r, s2) = random_word s1;
              xid = (case r of Some w \<Rightarrow> ucast w | None \<Rightarrow> (ucast (now s2) :: u32));
              s3 = s2\<lparr>net_dhcp := (net_dhcp s2)\<lparr>dhcp_transaction := xid\<rparr>\<rparr>
          in (case udp_bind_port DHCP_CLIENT_PORT Fn_dhcp_arrived s3 of
                (False, s4) \<Rightarrow> (False, clock, s4)
              | (True, s4) \<Rightarrow>
                  let s5 = upd_dev dev (\<lambda>d. d\<lparr>d_ip := IPV4_ANY, d_netmask := IPV4_ANY\<rparr>) s4;
                      (msg1, clock1, s6) = dhcp_attempts 3 poll Have_offer stack_msg dev clock s5
                  in if \<not> flag_set Have_offer s6 then (False, clock1, dhcp_end s6)
                     else
                       let (msg2, clock2, s7) = dhcp_attempts 3 poll Have_ack msg1 dev clock1 s6;
                           s8 = dhcp_end s7; res = dhcp_res (net_dhcp s8)
                       in if \<not> have_ack res then (False, clock2, s8)
                          else (True, clock2, upd_dev dev (\<lambda>d. d\<lparr>d_ip := dr_offered res,
                                 d_netmask := (if dr_netmask res \<noteq> 0 then dr_netmask res else IPV4 255 255 255 0),
                                 d_gateway := dr_router res\<rparr>) s8)))"

end
