(* ===== verification/Tcp_Rings.thy ===== *)
theory Tcp_Rings
  imports Tcp
begin

text \<open>
  The two buffers of a TCP connection as byte streams. \<open>rx_stream\<close> is what arrived and was
  not read yet, \<open>tx_stream\<close> what was written and is not acknowledged yet; both are pages
  used as rings. The receive ring meets the contract \<open>bounded_fifo\<close> and the send ring
  \<open>bounded_buffer\<close>, so the loops of \<^verbatim>\<open>deliver\<close>, \<^verbatim>\<open>tcp_read\<close> and \<^verbatim>\<open>tcp_write\<close> are list operations.
\<close>

definition rings_ok :: "tcp_conn \<Rightarrow> bool" where
  "rings_ok c \<longleftrightarrow> tx_head c < TCP_BUFFER_SIZE \<and> tx_len c \<le> TCP_BUFFER_SIZE
     \<and> rx_head c < TCP_BUFFER_SIZE \<and> rx_len c \<le> TCP_BUFFER_SIZE"

definition rx_stream :: "tcp_conn \<Rightarrow> u8 list" where
  "rx_stream c = ring_at (rx_buf c) TCP_BUFFER_SIZE (rx_head c) (rx_len c)"

definition tx_stream :: "tcp_conn \<Rightarrow> u8 list" where
  "tx_stream c = ring_at (tx_buf c) TCP_BUFFER_SIZE (tx_head c) (tx_len c)"

lemma length_streams [simp]: "length (rx_stream c) = rx_len c" "length (tx_stream c) = tx_len c"
  by (simp_all add: rx_stream_def tx_stream_def)

lemma TCP_BUFFER_SIZE_pos [simp]: "0 < TCP_BUFFER_SIZE"
  by (simp add: TCP_BUFFER_SIZE_def)

interpretation rx: bounded_fifo rings_ok rx_stream "\<lambda>c. rx_len c < TCP_BUFFER_SIZE" rx_push TCP_BUFFER_SIZE
  "\<lambda>c. rx_len c \<noteq> 0" rx_front rx_pop
proof unfold_locales
  fix c x
  show "rings_ok c \<Longrightarrow> rx_len c < TCP_BUFFER_SIZE \<Longrightarrow> rx_stream (rx_push x c) = rx_stream c @ [x]"
    using ring_at_push [of "rx_len c" TCP_BUFFER_SIZE "rx_buf c" "rx_head c" x] by (simp add: rx_stream_def rx_push_def)
  show "rings_ok c \<Longrightarrow> rx_len c \<noteq> 0 \<Longrightarrow> rx_stream (rx_pop c) = tl (rx_stream c)"
    using ring_at_pop [of "rx_buf c" TCP_BUFFER_SIZE "rx_head c" "rx_len c"] by (simp add: rx_stream_def rx_pop_def)
  show "rings_ok c \<Longrightarrow> rx_len c \<noteq> 0 \<Longrightarrow> rx_front c = hd (rx_stream c)"
    by (simp add: rx_front_def rx_stream_def rings_ok_def hd_ring_at)
qed (auto simp: rings_ok_def rx_push_def rx_pop_def rx_stream_def)

interpretation tx: bounded_buffer rings_ok tx_stream "\<lambda>c. tx_len c < TCP_BUFFER_SIZE" tx_push TCP_BUFFER_SIZE
proof unfold_locales
  fix c x
  show "rings_ok c \<Longrightarrow> tx_len c < TCP_BUFFER_SIZE \<Longrightarrow> tx_stream (tx_push x c) = tx_stream c @ [x]"
    using ring_at_push [of "tx_len c" TCP_BUFFER_SIZE "tx_buf c" "tx_head c" x] by (simp add: tx_stream_def tx_push_def)
qed (auto simp: rings_ok_def tx_push_def)

section \<open>Updates that leave the rings alone\<close>

lemma rings_updates [simp]:
  "rings_ok (c\<lparr>c_state := st\<rparr>) = rings_ok c" "rings_ok (c\<lparr>rcv_nxt := q\<rparr>) = rings_ok c"
  "rings_ok (c\<lparr>snd_wnd := q\<rparr>) = rings_ok c" "rings_ok (c\<lparr>snd_una := q, retries := r\<rparr>) = rings_ok c"
  "rx_stream (c\<lparr>rcv_nxt := q\<rparr>) = rx_stream c" "rx_stream (c\<lparr>snd_wnd := q\<rparr>) = rx_stream c"
  "rx_stream (c\<lparr>snd_una := q, retries := r\<rparr>) = rx_stream c"
  "tx_stream (c\<lparr>rcv_nxt := q\<rparr>) = tx_stream c" "tx_stream (c\<lparr>snd_wnd := q\<rparr>) = tx_stream c"
  "tx_stream (c\<lparr>snd_una := q, retries := r\<rparr>) = tx_stream c"
  by (simp_all add: rings_ok_def rx_stream_def tx_stream_def)

lemma fill_rx_keeps:
  "rcv_nxt (snd (fill_while room rx_push d c)) = rcv_nxt c" "tx_stream (snd (fill_while room rx_push d c)) = tx_stream c"
  "snd_nxt (snd (fill_while room rx_push d c)) = snd_nxt c" "snd_una (snd (fill_while room rx_push d c)) = snd_una c"
  "c_state (snd (fill_while room rx_push d c)) = c_state c" "c_used (snd (fill_while room rx_push d c)) = c_used c"
  "tx_page (snd (fill_while room rx_push d c)) = tx_page c" "rx_page (snd (fill_while room rx_push d c)) = rx_page c"
  by (rule fill_while_keeps; simp add: rx_push_def tx_stream_def)+

lemma deliver_stream:
  assumes "rings_ok c"
  shows "rings_ok (deliver d c)"
    and "rx_stream (deliver d c) = rx_stream c @ take (TCP_BUFFER_SIZE - rx_len c) d"
    and "rcv_nxt (deliver d c) = rcv_nxt c + of_nat (min (length d) (TCP_BUFFER_SIZE - rx_len c))"
    and "tx_stream (deliver d c) = tx_stream c" "snd_nxt (deliver d c) = snd_nxt c" "snd_una (deliver d c) = snd_una c"
    and "c_state (deliver d c) = c_state c" "c_used (deliver d c) = c_used c"
    and "tx_page (deliver d c) = tx_page c" "rx_page (deliver d c) = rx_page c"
  using rx.fill_spec [OF assms, of d] by (simp_all add: deliver_def case_prod_beta fill_rx_keeps)

lemma take_ack_keeps [simp]:
  "rx_stream (take_ack g c) = rx_stream c" "rcv_nxt (take_ack g c) = rcv_nxt c"
  "c_state (take_ack g c) = c_state c" "c_used (take_ack g c) = c_used c" "snd_nxt (take_ack g c) = snd_nxt c"
  "tx_page (take_ack g c) = tx_page c" "rx_page (take_ack g c) = rx_page c"
  by (simp_all add: take_ack_def Let_def rx_stream_def)

lemma take_ack_rings: "rings_ok c \<Longrightarrow> rings_ok (take_ack g c)"
  by (auto simp: take_ack_def Let_def rings_ok_def)

text \<open>An acknowledgement takes the bytes it covers off the front of the send stream.\<close>

lemma take_ack_stream:
  assumes "has_flag (g_flags g) TCP_ACK" "seq_le (snd_una c) (g_ack g)" "seq_le (g_ack g) (snd_nxt c)"
    "unat (g_ack g - snd_una c) \<le> tx_len c"
  shows "tx_stream (take_ack g c) = drop (unat (g_ack g - snd_una c)) (tx_stream c)" "snd_una (take_ack g c) = g_ack g"
  using assms ring_at_drop [OF assms(4), of "tx_buf c" TCP_BUFFER_SIZE "tx_head c"]
  by (simp_all add: take_ack_def Let_def tx_stream_def)

lemma fill_tx_keeps:
  "rx_stream (snd (fill_while room tx_push d c)) = rx_stream c" "tx_head (snd (fill_while room tx_push d c)) = tx_head c"
  "snd_nxt (snd (fill_while room tx_push d c)) = snd_nxt c" "snd_una (snd (fill_while room tx_push d c)) = snd_una c"
  "snd_wnd (snd (fill_while room tx_push d c)) = snd_wnd c" "rcv_nxt (snd (fill_while room tx_push d c)) = rcv_nxt c"
  "c_state (snd (fill_while room tx_push d c)) = c_state c" "c_used (snd (fill_while room tx_push d c)) = c_used c"
  by (rule fill_while_keeps; simp add: tx_push_def rx_stream_def)+

lemma drain_rx_keeps:
  "tx_stream (snd (drain_while some rx_front rx_pop n c)) = tx_stream c"
  "rcv_nxt (snd (drain_while some rx_front rx_pop n c)) = rcv_nxt c"
  "snd_nxt (snd (drain_while some rx_front rx_pop n c)) = snd_nxt c"
  "c_state (snd (drain_while some rx_front rx_pop n c)) = c_state c"
  "c_used (snd (drain_while some rx_front rx_pop n c)) = c_used c"
  by (rule drain_while_keeps; simp add: rx_pop_def tx_stream_def)+

end
