(* ===== verification/Safety.thy ===== *)
theory Safety
  imports Sockets Dhcp Tcp_Rings
begin

text \<open>
  No packet makes the kernel panic. The page allocator panics when it is asked to free
  something it does not manage, and several functions dereference a pointer that could be
  null; this theory shows that no operation of the stack gets there. The invariant says
  that every buffer the stack holds, wherever it waits, and both pages of every connection
  came from the page allocator.
\<close>

section \<open>Buffers and the pool\<close>

definition buf_ok :: "paddr set \<Rightarrow> netbuf \<Rightarrow> bool" where
  "buf_ok M b \<longleftrightarrow> nb_inv b \<and> nb_page b \<in> M"

definition pool_ok :: "paddr set \<Rightarrow> net \<Rightarrow> bool" where
  "pool_ok M s \<longleftrightarrow> nb_wf s \<and> managed_pages (net_pmm s) = M"

lemma buf_ok_updates [simp]:
  "buf_ok M (b\<lparr>nb_mem := m\<rparr>) = buf_ok M b" "buf_ok M (b\<lparr>nb_dev := d\<rparr>) = buf_ok M b"
  "buf_ok M (b\<lparr>nb_src_ip := x\<rparr>) = buf_ok M b" "buf_ok M (b\<lparr>nb_dst_ip := x\<rparr>) = buf_ok M b"
  "buf_ok M (b\<lparr>nb_src_port := y\<rparr>) = buf_ok M b" "buf_ok M (b\<lparr>nb_dst_port := y\<rparr>) = buf_ok M b"
  "buf_ok M (b\<lparr>nb_protocol := z\<rparr>) = buf_ok M b"
  by (simp_all add: buf_ok_def nb_inv_def)

lemma buf_ok_shorter [intro]: "buf_ok M b \<Longrightarrow> n \<le> nb_len b \<Longrightarrow> buf_ok M (b\<lparr>nb_len := n\<rparr>)"
  by (auto simp: buf_ok_def nb_inv_def)

lemma pool_ok_updates [simp]:
  "pool_ok M (net_eth_update f3 s) = pool_ok M s"
  "pool_ok M (net_arp_update f4 s) = pool_ok M s" "pool_ok M (net_ip_update f5 s) = pool_ok M s"
  "pool_ok M (net_icmp_update f6 s) = pool_ok M s" "pool_ok M (net_udp_update f7 s) = pool_ok M s"
  "pool_ok M (net_tcp_update f8 s) = pool_ok M s" "pool_ok M (net_sock_update f9 s) = pool_ok M s"
  "pool_ok M (net_dhcp_update f10 s) = pool_ok M s" "pool_ok M (entropy_update f11 s) = pool_ok M s"
  "pool_ok M (net_dev_update f12 s) = pool_ok M s" "pool_ok M (now_update f13 s) = pool_ok M s"
  by (simp_all add: pool_ok_def nb_wf_def)

lemma pool_ok_tables [simp]:
  "pool_ok M (upd_dev i f s) = pool_ok M s" "pool_ok M (set_conn j c s) = pool_ok M s"
  "pool_ok M (upd_sock j g s) = pool_ok M s" "pool_ok M (set_echo j h s) = pool_ok M s"
  "pool_ok M (ip_release j s) = pool_ok M s" "pool_ok M (snd (ip_next_id s)) = pool_ok M s"
  "pool_ok M (snd (arp_consult ip s)) = pool_ok M s" "pool_ok M (snd (random_word s)) = pool_ok M s"
  "pool_ok M (snd (initial_sequence s)) = pool_ok M s" "pool_ok M (snd (icmp_take_id s)) = pool_ok M s"
  by (simp_all add: pool_ok_def nb_wf_def upd_sock_def random_word_def icmp_take_id_def Let_def split: list.splits)

lemma pool_free [simp]: "pool_ok M s \<Longrightarrow> buf_ok M b \<Longrightarrow> pool_ok M (netbuf_free b s)"
  using netbuf_free_wf [of s b] by (simp add: pool_ok_def buf_ok_def nb_ok_def same_managed_def)

lemma pool_alloc:
  assumes "pool_ok M s"
  shows "pool_ok M (snd (netbuf_alloc s))" and "fst (netbuf_alloc s) = Some b \<Longrightarrow> buf_ok M b"
  using netbuf_alloc_wf [OF _ surjective_pairing, of s] assms
  by (auto simp: pool_ok_def buf_ok_def nb_ok_def same_managed_def)

lemma pool_ends [simp]:
  "pool_ok M (snd (netbuf_push n b s)) = pool_ok M s" "pool_ok M (snd (netbuf_pull n b s)) = pool_ok M s"
  "pool_ok M (snd (netbuf_put n b s)) = pool_ok M s"
  using netbuf_ends_wf(2,4,6) [of s n b] by (simp_all add: pool_ok_def same_managed_def)

lemma ends_page:
  "fst (netbuf_push n b s) = Some b' \<Longrightarrow> nb_page b' = nb_page b"
  "fst (netbuf_pull n b s) = Some b' \<Longrightarrow> nb_page b' = nb_page b"
  "fst (netbuf_put n b s) = Some b' \<Longrightarrow> nb_page b' = nb_page b"
  by (auto simp: netbuf_push_def netbuf_pull_def netbuf_put_def Let_def split: if_splits)

lemma push_ok [dest!]: "fst (netbuf_push n b s) = Some b' \<Longrightarrow> buf_ok M b \<Longrightarrow> buf_ok M b'"
  by (auto simp: buf_ok_def ends_page(1) elim: netbuf_push_cases [of b n s])

lemma pull_ok [dest!]: "fst (netbuf_pull n b s) = Some b' \<Longrightarrow> buf_ok M b \<Longrightarrow> buf_ok M b'"
  by (auto simp: buf_ok_def ends_page(2) elim: netbuf_pull_cases [of b n s])

lemma put_ok [dest!]: "fst (netbuf_put n b s) = Some b' \<Longrightarrow> buf_ok M b \<Longrightarrow> n < 2 ^ 31 \<Longrightarrow> buf_ok M b'"
  by (auto simp: buf_ok_def ends_page(3) elim: netbuf_put_cases [of b n s])

section \<open>Sending\<close>

lemma netdev_transmit_pool [simp]:
  "pool_ok M s \<Longrightarrow> buf_ok M b \<Longrightarrow> pool_ok M (snd (netdev_transmit dev b s))"
  by (auto simp: netdev_transmit_def driver_transmit_def Let_def split: bool.splits option.splits)

lemma eth_transmit_pool [simp]:
  "pool_ok M s \<Longrightarrow> buf_ok M b \<Longrightarrow> pool_ok M (snd (eth_transmit dev d t b s))"
  by (auto simp: eth_transmit_def Let_def case_prod_beta split: option.splits)

lemma arp_send_packet_pool [simp]:
  "pool_ok M s \<Longrightarrow> pool_ok M (snd (arp_send_packet dev op tm ti fd s))"
  using pool_alloc [of M s]
  by (auto simp: arp_send_packet_def ARP_HDR_LEN_def Let_def case_prod_beta split: option.splits)

lemma arp_lookup_pool [simp]: "pool_ok M s \<Longrightarrow> pool_ok M (snd (arp_lookup dev ip s))"
  by (auto simp: arp_lookup_def case_prod_beta split: option.splits)

lemma ip_build_header_pool:
  assumes "pool_ok M s" "buf_ok M b"
  shows "pool_ok M (snd (ip_build_header b dev dst p s))"
    and "fst (ip_build_header b dev dst p s) = Some b' \<Longrightarrow> buf_ok M b'"
  using assms by (auto simp: ip_build_header_def Let_def case_prod_beta split: option.splits if_splits)

section \<open>What waits in the tables\<close>

definition ip_bufs :: "paddr set \<Rightarrow> ip_state \<Rightarrow> bool" where
  "ip_bufs M ip \<longleftrightarrow> (\<forall>p\<in>set (ip_pending ip). pd_used p \<longrightarrow> buf_ok M (pd_buf p))"

definition sock_ok :: "paddr set \<Rightarrow> socket \<Rightarrow> bool" where
  "sock_ok M k \<longleftrightarrow> dgrams_ok k \<and> (\<forall>q\<in>set (s_queue k). \<forall>b. dg_buf q = Some b \<longrightarrow> buf_ok M b)"

definition sock_bufs :: "paddr set \<Rightarrow> sock_state \<Rightarrow> bool" where
  "sock_bufs M k \<longleftrightarrow> (\<forall>x\<in>set (sockets k). sock_ok M x)"

definition conn_ok :: "paddr set \<Rightarrow> tcp_conn \<Rightarrow> bool" where
  "conn_ok M c \<longleftrightarrow> rings_ok c \<and> tx_page c \<in> insert 0 M \<and> rx_page c \<in> insert 0 M"

definition tcp_pages :: "paddr set \<Rightarrow> tcp_state \<Rightarrow> bool" where
  "tcp_pages M t \<longleftrightarrow> (\<forall>c\<in>set (conns t). conn_ok M c)"

definition rx_bufs :: "paddr set \<Rightarrow> net \<Rightarrow> bool" where
  "rx_bufs M s \<longleftrightarrow> (\<forall>b\<in>set (rx_queue (net_dev s)). buf_ok M b \<and> nb_dev b \<noteq> None)
     \<and> rx_queued (net_dev s) = length (rx_queue (net_dev s)) \<and> rx_queued (net_dev s) \<le> RX_QUEUE_MAX"

text \<open>A time stamp that is not the largest 64-bit number, so that the search for the oldest
  entry finds one.\<close>

definition arp_times :: "arp_state \<Rightarrow> bool" where
  "arp_times a \<longleftrightarrow> arp_cache a \<noteq> [] \<and> (\<forall>e\<in>set (arp_cache a). ae_valid e \<longrightarrow> ae_learned_ns e \<noteq> NOT 0)"

definition echo_times :: "icmp_state \<Rightarrow> bool" where
  "echo_times e \<longleftrightarrow> echoes e \<noteq> [] \<and> (\<forall>x\<in>set (echoes e). e_used x \<longrightarrow> e_sent_ns x \<noteq> NOT 0)"

definition net_ok :: "paddr set \<Rightarrow> net \<Rightarrow> bool" where
  "net_ok M s \<longleftrightarrow> pool_ok M s \<and> ip_bufs M (net_ip s) \<and> sock_bufs M (net_sock s) \<and>
     tcp_pages M (net_tcp s) \<and> rx_bufs M s \<and> arp_times (net_arp s) \<and> echo_times (net_icmp s) \<and> now s \<noteq> NOT 0"

lemma rx_bufs_env: "env t = env s \<Longrightarrow> rx_bufs M t = rx_bufs M s"
  using env_eqD(1,2) [of t s] by (simp add: rx_bufs_def)

lemma net_okI:
  assumes "net_ok M s" and "env t = env s" and "pool_ok M t" and "ip_bufs M (net_ip t)"
    and "sock_bufs M (net_sock t)" and "tcp_pages M (net_tcp t)" and "arp_times (net_arp t)" and "echo_times (net_icmp t)"
  shows "net_ok M t"
  using assms rx_bufs_env [OF assms(2)] env_eqD(4) [OF assms(2)] by (simp add: net_ok_def)

lemma net_okD:
  assumes "net_ok M s"
  shows "pool_ok M s" "ip_bufs M (net_ip s)" "sock_bufs M (net_sock s)" "tcp_pages M (net_tcp s)"
    "rx_bufs M s" "arp_times (net_arp s)" "echo_times (net_icmp s)" "now s \<noteq> NOT 0"
  using assms by (simp_all add: net_ok_def)

lemma set_updateI: "(\<forall>x\<in>set xs. P x) \<Longrightarrow> P y \<Longrightarrow> \<forall>x\<in>set (xs[i := y]). P x"
  by (auto dest: set_update_subset_insert [THEN subsetD])

section \<open>ARP and IP\<close>

lemma arp_victim_Some:
  "e \<noteq> None \<or> cs \<noteq> [] \<and> oldest = NOT 0 \<and> (\<forall>c\<in>set cs. ae_valid c \<longrightarrow> ae_learned_ns c \<noteq> NOT 0) \<Longrightarrow>
    arp_victim cs i oldest e \<noteq> None"
proof (induction cs arbitrary: i oldest e)
  case (Cons c cs)
  have "ae_learned_ns c < NOT 0 \<or> ae_learned_ns c = NOT 0"
    using word_order.extremum [of "ae_learned_ns c"] by (auto simp: order.strict_iff_order)
  with Cons show ?case by auto
qed simp

lemma arp_slot_Some: "arp_times a \<Longrightarrow> arp_slot (arp_cache a) ip \<noteq> None"
  using arp_victim_Some [of None "arp_cache a" "NOT 0" 0]
  by (simp add: arp_slot_def arp_times_def split: option.splits)

lemma arp_learn_ok:
  assumes "net_ok M s"
  shows "net_ok M (arp_learn dev ip mac s)"
proof (cases "ip = 0 \<or> ip = IPV4_BROADCAST \<or> mac_equal mac MAC_ZERO")
  case True
  then show ?thesis using assms by (auto simp: arp_learn_def)
next
  case False
  note ok = net_okD [OF assms]
  obtain i where i: "arp_slot (arp_cache (net_arp s)) ip = Some i" using arp_slot_Some [OF ok(6), of ip] by auto
  have eq: "arp_learn dev ip mac s = s\<lparr>net_arp := (net_arp s)\<lparr>arp_cache := (arp_cache (net_arp s))[i :=
      \<lparr>ae_ip = ip, ae_mac = mac, ae_learned_ns = now s, ae_dev = dev, ae_valid = True\<rparr>]\<rparr>\<rparr>"
    using False i by (simp add: arp_learn_def)
  show ?thesis
    unfolding eq by (rule net_okI [OF assms]) (use ok in \<open>auto simp: arp_times_def dest!: set_update_subset_insert [THEN subsetD]\<close>)
qed

lemma arp_consult_times: "arp_times (net_arp s) \<Longrightarrow> arp_times (net_arp (snd (arp_consult ip s)))"
  by (auto simp: arp_consult_def arp_times_def Let_def split: option.splits
      dest!: set_update_subset_insert [THEN subsetD] first_slot_lt [folded arp_find_def] intro: nth_mem)

lemma arp_lookup_times: "arp_times (net_arp s) \<Longrightarrow> arp_times (net_arp (snd (arp_lookup dev ip s)))"
  using arp_consult_times [of s ip]
  by (simp add: arp_lookup_def case_prod_beta arp_times_def split: option.splits)

lemma netbuf_free_ok: "net_ok M s \<Longrightarrow> buf_ok M b \<Longrightarrow> net_ok M (netbuf_free b s)"
  by (rule net_okI) (simp_all add: net_ok_def)

lemma ip_bufs_counters [simp]:
  "ip_bufs M (bump ip_tx_packets_update x) = ip_bufs M x" "ip_bufs M (bump ip_tx_no_route_update x) = ip_bufs M x"
  "ip_bufs M (bump ip_tx_pending_update x) = ip_bufs M x" "ip_bufs M (bump ip_tx_pending_dropped_update x) = ip_bufs M x"
  "ip_bufs M (bump ip_rx_packets_update x) = ip_bufs M x" "ip_bufs M (bump ip_rx_bad_checksum_update x) = ip_bufs M x"
  "ip_bufs M (bump ip_rx_bad_version_update x) = ip_bufs M x" "ip_bufs M (bump ip_rx_short_update x) = ip_bufs M x"
  "ip_bufs M (bump ip_rx_fragments_update x) = ip_bufs M x" "ip_bufs M (bump ip_rx_not_for_us_update x) = ip_bufs M x"
  "ip_bufs M (bump ip_rx_unknown_proto_update x) = ip_bufs M x"
  by (simp_all add: ip_bufs_def)

lemma ip_bufs_pending: "ip_pending x = ip_pending y \<Longrightarrow> ip_bufs M x = ip_bufs M y"
  by (simp add: ip_bufs_def)

lemma ip_hold_bufs:
  assumes "ip_bufs M (net_ip s)" "buf_ok M b"
  shows "ip_bufs M (net_ip (snd (ip_hold b dev hop s)))"
  using assms unfolding ip_bufs_def ip_hold_def Let_def
  by (auto split: option.splits dest!: set_update_subset_insert [THEN subsetD])

lemma ip_hold_pool: "pool_ok M s \<Longrightarrow> buf_ok M b \<Longrightarrow> pool_ok M (snd (ip_hold b dev hop s))"
  by (simp add: ip_hold_def Let_def split: option.splits)

lemma ip_transmit_ok:
  assumes "net_ok M s" "buf_ok M b"
  shows "net_ok M (snd (ip_transmit dst p b s))"
proof (rule net_okI [OF assms(1)])
  note ok = net_okD [OF assms(1)]
  note header = ip_build_header_pool [OF ok(1) assms(2)]
  have bufs: "ip_bufs M (net_ip (snd (ip_build_header b dev dst p s)))" for dev
    using ok(2) ip_bufs_pending [OF ip_build_header_frame(12)] by blast
  show "pool_ok M (snd (ip_transmit dst p b s))"
    using ok(1) assms(2) header
    by (auto simp: ip_transmit_def ip_finish_send_def case_prod_beta intro!: ip_hold_pool split: option.splits)
  show "ip_bufs M (net_ip (snd (ip_transmit dst p b s)))"
    using ok(2) bufs header(2)
    by (auto simp: ip_transmit_def ip_finish_send_def case_prod_beta intro!: ip_hold_bufs split: option.splits)
  show "arp_times (net_arp (snd (ip_transmit dst p b s)))"
    using ok(6)
    by (auto simp: ip_transmit_def ip_finish_send_def case_prod_beta intro!: arp_lookup_times split: option.splits)
qed (use net_okD [OF assms(1)] in simp_all)

lemma ip_release_bufs: "ip_bufs M (net_ip s) \<Longrightarrow> ip_bufs M (net_ip (ip_release i s))"
  by (auto simp: ip_bufs_def ip_release_def dest!: set_update_subset_insert [THEN subsetD])

lemma ip_flush_slot_ok:
  assumes "net_ok M s" and "i < length (ip_pending (net_ip s))"
  shows "net_ok M (ip_flush_slot i s)"
proof (cases "pd_used (ip_pending (net_ip s) ! i)")
  case True
  note ok = net_okD [OF assms(1)]
  have b: "buf_ok M (pd_buf (ip_pending (net_ip s) ! i))"
    using ok(2) True assms(2) by (simp add: ip_bufs_def)
  have rel: "ip_bufs M (net_ip (ip_release i (snd (arp_lookup dev hop s))))" for dev hop
    by (rule ip_release_bufs) (simp add: ok(2))
  show ?thesis
  proof (rule net_okI [OF assms(1)])
    show "pool_ok M (ip_flush_slot i s)"
      using ok(1) b by (simp add: ip_flush_slot_def ip_finish_send_def Let_def case_prod_beta split: option.splits)
    show "ip_bufs M (net_ip (ip_flush_slot i s))"
      using ok(2) ip_release_bufs [OF ok(2)] rel
      by (simp add: ip_flush_slot_def ip_finish_send_def Let_def case_prod_beta split: option.splits)
    show "arp_times (net_arp (ip_flush_slot i s))"
      using ok(6) arp_lookup_times [OF ok(6)]
      by (simp add: ip_flush_slot_def ip_finish_send_def Let_def case_prod_beta split: option.splits)
  qed (use ok in simp_all)
next
  case False
  then show ?thesis using assms by (simp add: ip_flush_slot_def)
qed

lemma ip_flush_slot_length [simp]:
  "length (ip_pending (net_ip (ip_flush_slot i s))) = length (ip_pending (net_ip s))"
  by (simp add: ip_flush_slot_def ip_finish_send_def ip_release_def Let_def case_prod_beta split: option.splits)

lemma ip_flush_pending_ok:
  assumes "net_ok M s" and "length (ip_pending (net_ip s)) = PENDING_MAX"
  shows "net_ok M (ip_flush_pending s)"
proof -
  have "net_ok M (fold ip_flush_slot is s)"
    if "\<forall>i\<in>set is. i < PENDING_MAX" "net_ok M s" "length (ip_pending (net_ip s)) = PENDING_MAX" for "is" s
    using that by (induction "is" arbitrary: s) (auto simp: ip_flush_slot_ok)
  then show ?thesis using assms by (simp add: ip_flush_pending_def)
qed

lemma arp_counters_times [simp]:
  "arp_times (bump arp_refused_update a) = arp_times a" "arp_times (bump arp_replies_received_update a) = arp_times a"
  "arp_times (bump arp_replies_sent_update a) = arp_times a" "arp_times (bump arp_requests_sent_update a) = arp_times a"
  by (simp_all add: arp_times_def)

lemma net_ok_counters:
  assumes "net_ok M s"
  shows "net_ok M (net_arp_update (bump arp_refused_update) s)"
    "net_ok M (net_arp_update (bump arp_replies_received_update) s)"
    "net_ok M (net_arp_update (bump arp_replies_sent_update) s)"
    "net_ok M (net_eth_update f s)" "net_ok M (net_udp_update g s)" "net_ok M (net_dhcp_update h s)"
  using assms by (auto simp: net_ok_def rx_bufs_def)

lemma arp_send_packet_ok: "net_ok M s \<Longrightarrow> net_ok M (snd (arp_send_packet dev op tm ti fd s))"
  by (rule net_okI) (simp_all add: net_ok_def)

lemma arp_receive_ok:
  assumes "net_ok M s" "buf_ok M b"
  shows "net_ok M (arp_receive dev b s)"
  using assms by (simp add: arp_receive_def Let_def netbuf_free_ok arp_learn_ok arp_send_packet_ok net_ok_counters)

section \<open>ICMP and UDP\<close>

lemma echo_times_counters [simp]:
  "echo_times (bump icmp_requests_sent_update e) = echo_times e" "echo_times (bump icmp_replies_sent_update e) = echo_times e"
  "echo_times (bump icmp_replies_received_update e) = echo_times e" "echo_times (bump icmp_rx_short_update e) = echo_times e"
  "echo_times (bump icmp_rx_bad_checksum_update e) = echo_times e" "echo_times (bump icmp_rx_unknown_type_update e) = echo_times e"
  by (simp_all add: echo_times_def)

lemma net_ok_icmp: "net_ok M s \<Longrightarrow> echo_times (f (net_icmp s)) \<Longrightarrow> net_ok M (net_icmp_update f s)"
  by (auto simp: net_ok_def rx_bufs_def)

lemma set_echo_ok:
  assumes "net_ok M s" and "\<And>e. e_used (f e) \<Longrightarrow> e_sent_ns (f e) \<noteq> NOT 0 \<or> e_used e \<and> e_sent_ns (f e) = e_sent_ns e"
    and "i < length (echoes (net_icmp s))"
  shows "net_ok M (set_echo i f s)"
proof (rule net_okI [OF assms(1)])
  have "e_used (f (echoes (net_icmp s) ! i)) \<Longrightarrow> e_sent_ns (f (echoes (net_icmp s) ! i)) \<noteq> NOT 0"
    using assms(2) [of "echoes (net_icmp s) ! i"] net_okD(7) [OF assms(1)] assms(3)
    by (auto simp: echo_times_def)
  then show "echo_times (net_icmp (set_echo i f s))"
    using net_okD(7) [OF assms(1)]
    by (auto simp: set_echo_def echo_times_def dest!: set_update_subset_insert [THEN subsetD])
qed (use net_okD [OF assms(1)] in simp_all)

lemma icmp_receive_ok:
  assumes "net_ok M s" "buf_ok M b"
  shows "net_ok M (icmp_receive dev b s)"
proof -
  note ok = net_okD [OF assms(1)]
  have cnt: "net_ok M (net_icmp_update (bump icmp_replies_received_update) s)"
    "net_ok M (net_icmp_update (bump icmp_replies_sent_update) s)"
    "net_ok M (net_icmp_update (bump icmp_rx_short_update) s)"
    "net_ok M (net_icmp_update (bump icmp_rx_bad_checksum_update) s)"
    "net_ok M (net_icmp_update (bump icmp_rx_unknown_type_update) s)"
    by (rule net_ok_icmp [OF assms(1)]; simp add: ok(7))+
  have "net_ok M (set_echo i (\<lambda>e. e\<lparr>e_answered := True, e_replied_ns := t\<rparr>)
      (net_icmp_update (bump icmp_replies_received_update) s))"
    if "first_slot (\<lambda>e. e_used e \<and> e_id e = ident) (echoes (net_icmp s)) = Some i" for i ident t
    using first_slot_lt [OF that] by (intro set_echo_ok [OF cnt(1)]) auto
  then show ?thesis
    using assms(2) by (auto simp: icmp_receive_def Let_def netbuf_free_ok ip_transmit_ok cnt split: option.splits)
qed

lemma udp_arrived_ok:
  assumes "net_ok M s" "buf_ok M b"
  shows "net_ok M (udp_arrived i b s)"
proof (rule net_okI [OF assms(1)])
  note ok = net_okD [OF assms(1)]
  show "pool_ok M (udp_arrived i b s)" using ok(1) assms(2) by (simp add: udp_arrived_def)
  have put: "sock_ok M (dgram_put b k)" if "sock_ok M k" "s_q_len k < DGRAM_QUEUE" for k
    using that assms(2) dg.push_wf [of k b]
    by (auto simp: sock_ok_def) (auto simp: dgram_put_def Let_def dest!: set_update_subset_insert [THEN subsetD])
  have drop: "sock_ok M (bump s_dropped_update k) = sock_ok M k" for k
    by (simp add: sock_ok_def dgrams_ok_def dgram_ring_def)
  show "sock_bufs M (net_sock (udp_arrived i b s))"
  proof (cases "i < length (sockets (net_sock s))")
    case True
    then have "sock_ok M (the_sock s i)"
      using ok(3) unfolding sock_bufs_def the_sock_def by (meson nth_mem)
    with ok(3) put drop show ?thesis
      by (auto simp: udp_arrived_def upd_sock_def sock_bufs_def dest!: set_update_subset_insert [THEN subsetD])
  next
    case False
    with ok(3) show ?thesis by (simp add: udp_arrived_def upd_sock_def sock_bufs_def list_update_beyond)
  qed
qed (use net_okD [OF assms(1)] in \<open>simp_all add: udp_arrived_def upd_sock_def\<close>)

lemma dhcp_arrived_ok: "net_ok M s \<Longrightarrow> buf_ok M b \<Longrightarrow> net_ok M (dhcp_arrived b s)"
  by (simp add: dhcp_arrived_def Let_def netbuf_free_ok net_ok_counters split: option.splits prod.splits)

lemma call_udp_fn_ok: "net_ok M s \<Longrightarrow> buf_ok M b \<Longrightarrow> net_ok M (call_udp_fn fn b s)"
  by (simp add: call_udp_fn_def udp_arrived_ok dhcp_arrived_ok netbuf_free_ok net_ok_counters split: udp_fn.splits)

lemma udp_receive_ok:
  assumes "net_ok M s" "buf_ok M b"
  shows "net_ok M (udp_receive dev b s)"
  using assms
  by (auto simp: udp_receive_def Let_def netbuf_pull_def UDP_HDR_LEN_def netbuf_free_ok net_ok_counters
      buf_ok_def nb_inv_def intro!: call_udp_fn_ok netbuf_free_ok net_ok_counters split: option.splits)

section \<open>TCP\<close>

lemma tcp_pages_conns: "conns x = conns y \<Longrightarrow> tcp_pages M x = tcp_pages M y"
  by (simp add: tcp_pages_def)

lemma net_ok_tcp: "net_ok M s \<Longrightarrow> tcp_pages M (f (net_tcp s)) \<Longrightarrow> net_ok M (net_tcp_update f s)"
  by (auto simp: net_ok_def rx_bufs_def)

lemma tcp_pages_counters [simp]:
  "tcp_pages M (bump segments_sent_update t) = tcp_pages M t" "tcp_pages M (bump segments_received_update t) = tcp_pages M t"
  "tcp_pages M (bump retransmits_update t) = tcp_pages M t" "tcp_pages M (bump tcp_rx_short_update t) = tcp_pages M t"
  "tcp_pages M (bump tcp_rx_bad_checksum_update t) = tcp_pages M t"
  "tcp_pages M (bump tcp_rx_no_connection_update t) = tcp_pages M t"
  "tcp_pages M (bump tcp_rx_out_of_order_update t) = tcp_pages M t"
  "tcp_pages M (bump connections_opened_update t) = tcp_pages M t"
  "tcp_pages M (bump connections_reset_update t) = tcp_pages M t" "tcp_pages M (bump receives_hint_update t) = tcp_pages M t"
  by (simp_all add: tcp_pages_def)

lemma net_ok_tcp_counters:
  assumes "net_ok M s"
  shows "net_ok M (net_tcp_update (bump segments_sent_update) s)" "net_ok M (net_tcp_update (bump segments_received_update) s)"
    "net_ok M (net_tcp_update (bump retransmits_update) s)" "net_ok M (net_tcp_update (bump tcp_rx_short_update) s)"
    "net_ok M (net_tcp_update (bump tcp_rx_bad_checksum_update) s)"
    "net_ok M (net_tcp_update (bump tcp_rx_no_connection_update) s)"
    "net_ok M (net_tcp_update (bump tcp_rx_out_of_order_update) s)"
    "net_ok M (net_tcp_update (bump connections_opened_update) s)"
    "net_ok M (net_tcp_update (bump connections_reset_update) s)" "net_ok M (net_tcp_update (bump receives_hint_update) s)"
  by (rule net_ok_tcp [OF assms]; simp add: net_okD(4) [OF assms])+

lemma set_conn_ok:
  assumes "net_ok M s" "conn_ok M c"
  shows "net_ok M (set_conn i c s)"
proof (rule net_okI [OF assms(1)])
  show "tcp_pages M (net_tcp (set_conn i c s))"
    using net_okD(4) [OF assms(1)] assms(2)
    by (auto simp: tcp_pages_def set_conn_def dest!: set_update_subset_insert [THEN subsetD])
qed (use net_okD [OF assms(1)] in simp_all)

lemma the_conn_ok: "net_ok M s \<Longrightarrow> i < length (conns (net_tcp s)) \<Longrightarrow> conn_ok M (the_conn s i)"
  using net_okD(4) [of M s] nth_mem [of i "conns (net_tcp s)"] by (auto simp: tcp_pages_def the_conn_def)

lemma seg_payload_pool:
  assumes "pool_ok M s" "buf_ok M b" "length p < 2 ^ 31"
  shows "pool_ok M (snd (seg_payload p b s))" "fst (seg_payload p b s) = Some b' \<Longrightarrow> buf_ok M b'"
  using assms by (auto simp: seg_payload_def case_prod_beta split: option.splits if_splits)

lemma net_ok_frame:
  assumes "net_ok M s" "env t = env s" "pool_ok M t" "net_ip t = net_ip s" "net_sock t = net_sock s"
    "conns (net_tcp t) = conns (net_tcp s)" "net_arp t = net_arp s" "net_icmp t = net_icmp s"
  shows "net_ok M t"
  using assms net_okD [OF assms(1)] tcp_pages_conns [OF assms(6)] by (intro net_okI [OF assms(1)]) simp_all

lemma send_segment_ok:
  assumes "net_ok M s" "length payload < 2 ^ 31"
  shows "net_ok M (snd (send_segment c flags q payload s))"
proof -
  note ok = net_okD [OF assms(1)]
  let ?r = "netbuf_alloc s"
  have s1: "net_ok M (snd ?r)"
    by (rule net_ok_frame [OF assms(1)]) (simp_all add: pool_alloc(1) ok(1))
  show ?thesis
  proof (cases "fst ?r")
    case None
    then show ?thesis using s1 by (simp add: send_segment_def case_prod_beta)
  next
    case (Some b)
    let ?q = "seg_payload payload b (snd ?r)"
    have b: "buf_ok M b" using pool_alloc(2) [OF ok(1)] Some by simp
    note p = seg_payload_pool [OF net_okD(1) [OF s1] b assms(2)]
    have s2: "net_ok M (snd ?q)"
      by (rule net_ok_frame [OF s1]) (simp_all add: p(1), simp_all add: seg_payload_def case_prod_beta split: option.splits)
    have s3: "net_ok M (snd (netbuf_push TCP_HDR_LEN b1 (snd ?q)))" for b1
      by (rule net_ok_frame [OF s2]) (simp_all add: net_okD(1) [OF s2])
    show ?thesis
      using Some b p(2) s2 s3
      by (auto simp: send_segment_def case_prod_beta intro!: ip_transmit_ok netbuf_free_ok net_ok_tcp_counters split: option.splits)
  qed
qed

lemma send_reset_ok:
  assumes "net_ok M s"
  shows "net_ok M (send_reset a b c d e f g s)"
proof -
  note ok = net_okD [OF assms(1)]
  have s1: "net_ok M (snd (netbuf_alloc s))"
    by (rule net_ok_frame [OF assms]) (simp_all add: pool_alloc(1) ok(1))
  have s2: "net_ok M (snd (netbuf_put TCP_HDR_LEN b1 (snd (netbuf_alloc s))))" for b1
    by (rule net_ok_frame [OF s1]) (simp_all add: net_okD(1) [OF s1])
  show ?thesis
    using s1 s2 pool_alloc(2) [OF ok(1)]
    by (auto simp: send_reset_def case_prod_beta TCP_HDR_LEN_def intro!: ip_transmit_ok netbuf_free_ok net_ok_tcp_counters split: option.splits)
qed

lemma alloc_page_pool:
  assumes "pool_ok M s"
  shows "pool_ok M (snd (alloc_page s))" and "fst (alloc_page s) \<in> insert 0 M"
  using alloc_page_wf [of s] assms by (auto simp: pool_ok_def nb_wf_def same_managed_def)

lemma free_page_pool: "pool_ok M s \<Longrightarrow> a \<in> M \<Longrightarrow> pool_ok M (free_pages1 a s)"
  using free_pages1_ok [of s a] by (auto simp: pool_ok_def nb_wf_def same_managed_def)

lemma alloc_page_ok: "net_ok M s \<Longrightarrow> net_ok M (snd (alloc_page s))"
  by (rule net_ok_frame) (simp_all add: alloc_page_pool(1) net_ok_def)

lemma free_page_ok: "net_ok M s \<Longrightarrow> a \<in> M \<Longrightarrow> net_ok M (free_pages1 a s)"
  by (rule net_ok_frame) (simp_all add: free_page_pool net_ok_def)

lemma conn_ok_zero [simp]: "conn_ok M zero_conn" "conn_ok M (zero_conn\<lparr>accept_of := x\<rparr>)"
  by (simp_all add: conn_ok_def rings_ok_def zero_conn_def TCP_BUFFER_SIZE_def)

lemma alloc_conn_ok:
  assumes "net_ok M s"
  shows "net_ok M (snd (alloc_conn s))"
proof (cases "first_slot (\<lambda>c. \<not> c_used c) (conns (net_tcp s))")
  case None
  then show ?thesis using assms by (simp add: alloc_conn_def)
next
  case (Some i)
  define s1 where "s1 = snd (alloc_page s)"
  define s2 where "s2 = snd (alloc_page s1)"
  define tx where "tx = fst (alloc_page s)"
  define rx where "rx = fst (alloc_page s1)"
  have ok: "net_ok M s1" "net_ok M s2" using assms by (simp_all add: s1_def s2_def alloc_page_ok)
  have pg: "tx \<in> insert 0 M" "rx \<in> insert 0 M"
    using alloc_page_pool(2) net_okD(1) assms ok by (auto simp: tx_def rx_def)
  have eq: "snd (alloc_conn s) = (if tx = 0 \<or> rx = 0
      then set_conn i zero_conn (if rx \<noteq> 0 then free_pages1 rx (if tx \<noteq> 0 then free_pages1 tx s2 else s2)
        else if tx \<noteq> 0 then free_pages1 tx s2 else s2)
      else set_conn i (zero_conn\<lparr>tx_page := tx, rx_page := rx, c_used := True, accept_of := -1, c_state := TCP_CLOSED\<rparr>) s2)"
    using Some by (simp add: alloc_conn_def Let_def case_prod_beta tx_def rx_def s1_def s2_def)
  have "conn_ok M (zero_conn\<lparr>tx_page := tx, rx_page := rx, c_used := True, accept_of := -1, c_state := TCP_CLOSED\<rparr>)"
    using pg by (simp add: conn_ok_def rings_ok_def zero_conn_def TCP_BUFFER_SIZE_def)
  moreover have "net_ok M (if rx \<noteq> 0 then free_pages1 rx (if tx \<noteq> 0 then free_pages1 tx s2 else s2)
        else if tx \<noteq> 0 then free_pages1 tx s2 else s2)"
    using ok(2) pg by (auto simp: free_page_ok)
  ultimately show ?thesis
    unfolding eq using ok(2) by (simp add: set_conn_ok)
qed

lemma free_conn_ok:
  assumes "net_ok M s" "i < length (conns (net_tcp s))"
  shows "net_ok M (free_conn i s)"
proof -
  let ?c = "the_conn s i"
  have "tx_page ?c \<in> insert 0 M" "rx_page ?c \<in> insert 0 M"
    using the_conn_ok [OF assms] by (simp_all add: conn_ok_def)
  then have "net_ok M (if rx_page ?c \<noteq> 0 then free_pages1 (rx_page ?c) (if tx_page ?c \<noteq> 0 then free_pages1 (tx_page ?c) s else s)
      else if tx_page ?c \<noteq> 0 then free_pages1 (tx_page ?c) s else s)"
    using assms(1) by (auto simp: free_page_ok)
  then show ?thesis
    using assms(1) by (simp add: free_conn_def Let_def set_conn_ok)
qed

lemma initial_sequence_ok: "net_ok M s \<Longrightarrow> net_ok M (snd (initial_sequence s))"
  by (simp add: net_ok_def rx_bufs_def initial_sequence_def random_word_def split: list.splits prod.splits)

lemma find_scan_lt:
  "find_scan cs i a b c d l = Some j \<Longrightarrow> (\<forall>x. l = Some x \<longrightarrow> x < i) \<Longrightarrow> j < i + length cs"
proof (induction cs arbitrary: i l)
  case (Cons x cs)
  have "j < Suc i + length cs" if "find_scan cs (i + 1) a b c d l' = Some j" "\<forall>y. l' = Some y \<longrightarrow> y < Suc i" for l'
    using Cons.IH [of "i + 1" l'] that by simp
  moreover have "\<forall>y. l = Some y \<longrightarrow> y < Suc i" using Cons.prems(2) less_SucI by blast
  ultimately show ?case
    using Cons.prems(1) by (auto split: if_splits)
qed auto

lemma find_conn_lt: "find_conn a b c d s = Some i \<Longrightarrow> i < length (conns (net_tcp s))"
  using find_scan_lt [of "conns (net_tcp s)" 0 a b c d None i] by (simp add: find_conn_def)

lemma alloc_conn_lt: "fst (alloc_conn s) = Some i \<Longrightarrow> i < length (conns (net_tcp s))"
  by (auto simp: alloc_conn_def Let_def case_prod_beta split: option.splits if_splits)

lemma take_ack_pages [simp]: "conn_ok M c \<Longrightarrow> conn_ok M (take_ack g c)"
  by (simp add: conn_ok_def take_ack_rings)

lemma deliver_pages [simp]: "conn_ok M c \<Longrightarrow> conn_ok M (deliver d c)"
  by (simp add: conn_ok_def deliver_stream)

lemma conn_ok_cong:
  "tx_page c' = tx_page c \<Longrightarrow> rx_page c' = rx_page c \<Longrightarrow> tx_head c' = tx_head c \<Longrightarrow> tx_len c' = tx_len c \<Longrightarrow>
    rx_head c' = rx_head c \<Longrightarrow> rx_len c' = rx_len c \<Longrightarrow> conn_ok M c \<Longrightarrow> conn_ok M c'"
  by (simp add: conn_ok_def rings_ok_def)

lemma on_listen_ok:
  assumes "net_ok M s" 
  shows "net_ok M (on_listen i g s)"
proof -
  let ?a = "snd (alloc_conn s)" and ?q = "snd (initial_sequence (snd (alloc_conn s)))"
  have a: "net_ok M ?a" by (rule alloc_conn_ok [OF assms])
  have q: "net_ok M ?q" by (rule initial_sequence_ok [OF a])
  have n: "conn_ok M (new_conn i g iss t (the_conn ?q j))" and fr: "net_ok M (free_conn j ?q)"
    if "fst (alloc_conn s) = Some j" for j iss t
  proof -
    have "j < length (conns (net_tcp ?q))" using alloc_conn_lt [OF that] by simp
    from the_conn_ok [OF q this] free_conn_ok [OF q this] show "conn_ok M (new_conn i g iss t (the_conn ?q j))"
      "net_ok M (free_conn j ?q)" by (simp_all add: conn_ok_def rings_ok_def new_conn_def)
  qed
  show ?thesis
    using assms a q n fr
    by (auto simp: on_listen_def case_prod_beta Let_def intro!: send_segment_ok set_conn_ok split: option.splits)
qed

lemma tcp_handlers_ok:
  assumes "net_ok M s" "i < length (conns (net_tcp s))"
  shows "net_ok M (on_syn_sent i g s)" "net_ok M (on_syn_received i g s)" "net_ok M (take_payload i g s)"
    "net_ok M (take_fin i g s)" "net_ok M (on_last_ack i g s)" "net_ok M (on_reset i s)"
proof -
  note c = the_conn_ok [OF assms]
  have upd: "conn_ok M (c'\<lparr>rcv_nxt := a1, snd_una := a2, snd_wnd := a3, c_state := a4, retries := a5\<rparr>)"
    "conn_ok M (c'\<lparr>snd_una := a2, c_state := a4, accept_pending := a6, retries := a5\<rparr>)"
    "conn_ok M (c'\<lparr>rcv_nxt := a1, peer_closed := a6\<rparr>)"
    "conn_ok M (c'\<lparr>rcv_nxt := a1, peer_closed := a6, c_state := a4, time_wait_until_ns := a7\<rparr>)"
    "conn_ok M (c'\<lparr>c_state := a4\<rparr>)" "conn_ok M (c'\<lparr>c_reset := a6, c_state := a4\<rparr>)"
    if "conn_ok M c'" for c' a1 a2 a3 a4 a5 a6 a7
    using that by (simp_all add: conn_ok_def rings_ok_def)
  note okI = send_segment_ok set_conn_ok net_ok_tcp_counters assms(1) upd c
  show "net_ok M (on_syn_sent i g s)" by (simp add: on_syn_sent_def Let_def okI)
  show "net_ok M (on_syn_received i g s)" by (simp add: on_syn_received_def Let_def okI)
  show "net_ok M (take_payload i g s)" by (simp add: take_payload_def Let_def okI)
  show "net_ok M (take_fin i g s)" by (simp add: take_fin_def Let_def okI)
  show "net_ok M (on_last_ack i g s)" by (simp add: on_last_ack_def free_conn_ok assms)
  show "net_ok M (on_reset i s)" by (simp add: on_reset_def okI)
qed

lemma handler_lengths [simp]:
  "length (conns (net_tcp (on_reset i s))) = length (conns (net_tcp s))"
  "length (conns (net_tcp (take_payload i g s))) = length (conns (net_tcp s))"
  "length (conns (net_tcp (take_fin i g s))) = length (conns (net_tcp s))"
  by (simp_all add: on_reset_def take_payload_def take_fin_def Let_def)

lemma tcp_segment_ok:
  assumes "net_ok M s"
  shows "net_ok M (tcp_segment g s)"
proof (cases "find_conn (g_dst g) (g_dport g) (g_src g) (g_sport g) s")
  case None
  then show ?thesis
    using assms by (simp add: tcp_segment_def no_connection_def Let_def send_reset_ok net_ok_tcp_counters)
next
  case (Some i)
  have i: "i < length (conns (net_tcp s))" by (rule find_conn_lt [OF Some])
  note h = tcp_handlers_ok [OF assms i]
  have "net_ok M (set_conn i (take_ack g (the_conn s i)) s)"
    by (rule set_conn_ok [OF assms]) (simp add: the_conn_ok [OF assms i])
  then have "net_ok M (on_established i g s)"
    unfolding on_established_def by (intro tcp_handlers_ok) (simp_all add: i)
  then show ?thesis
    using Some h on_listen_ok [OF assms] assms by (simp add: tcp_segment_def tcp_dispatch_def split: tcp_st.splits)
qed

lemma tcp_receive_ok:
  assumes "net_ok M s" "buf_ok M b"
  shows "net_ok M (tcp_receive dev b s)"
  using assms by (simp add: tcp_receive_def Let_def netbuf_free_ok tcp_segment_ok net_ok_tcp_counters)

lemma tcp_tick_slot_ok:
  assumes "net_ok M s" "i < length (conns (net_tcp s))"
  shows "net_ok M (tcp_tick_slot t i s)"
proof -
  note c = the_conn_ok [OF assms]
  have upd: "conn_ok M (c'\<lparr>retries := a5\<rparr>)" "conn_ok M (c'\<lparr>retries := a5, retransmit_at_ns := a6\<rparr>)"
    "conn_ok M (c'\<lparr>c_state := a4, c_reset := a7\<rparr>)"
    if "conn_ok M c'" for c' a4 a5 a6 a7
    using that by (simp_all add: conn_ok_def rings_ok_def)
  have "net_ok M (tcp_retransmit i t s)"
    by (simp add: tcp_retransmit_def Let_def send_segment_ok set_conn_ok net_ok_tcp_counters assms(1) upd c)
  then show ?thesis
    using assms c by (simp add: tcp_tick_slot_def Let_def free_conn_ok set_conn_ok upd)
qed

lemma tcp_tick_slot_length [simp]: "length (conns (net_tcp (tcp_tick_slot t i s))) = length (conns (net_tcp s))"
  by (simp add: tcp_tick_slot_def tcp_retransmit_def Let_def)

lemma tcp_tick_ok:
  assumes "net_ok M s" "length (conns (net_tcp s)) = TCP_MAX_CONNECTIONS"
  shows "net_ok M (tcp_tick s)"
proof -
  have "net_ok M (fold (tcp_tick_slot t) is s)"
    if "\<forall>i\<in>set is. i < TCP_MAX_CONNECTIONS" "net_ok M s" "length (conns (net_tcp s)) = TCP_MAX_CONNECTIONS" for "is" s t
    using that by (induction "is" arbitrary: s) (auto simp: tcp_tick_slot_ok)
  then show ?thesis using assms by (simp add: tcp_tick_def)
qed

section \<open>Receiving\<close>

lemma net_ok_ip:
  "net_ok M s \<Longrightarrow> ip_pending (f (net_ip s)) = ip_pending (net_ip s) \<Longrightarrow> net_ok M (net_ip_update f s)"
  by (simp add: net_ok_def rx_bufs_def ip_bufs_def)

lemma pull_state_ok: "net_ok M s \<Longrightarrow> net_ok M (snd (netbuf_pull n b s))"
  by (rule net_ok_frame) (simp_all add: net_ok_def)

lemma pull_or_same_ok:
  "buf_ok M b \<Longrightarrow> buf_ok M (case fst (netbuf_pull n b s) of None \<Rightarrow> b | Some b' \<Rightarrow> b')"
  by (auto split: option.splits)

lemma ip_deliver_ok: "net_ok M s \<Longrightarrow> buf_ok M b \<Longrightarrow> net_ok M (ip_deliver dev b n s)"
  by (simp add: ip_deliver_def Let_def case_prod_beta icmp_receive_ok udp_receive_ok tcp_receive_ok netbuf_free_ok
      net_ok_ip pull_state_ok pull_or_same_ok)

lemma ip_receive_ok:
  assumes "net_ok M s" "buf_ok M b"
  shows "net_ok M (ip_receive dev b s)"
  using assms by (simp add: ip_receive_def Let_def netbuf_free_ok ip_deliver_ok net_ok_ip buf_ok_shorter)

lemma eth_receive_ok:
  assumes "net_ok M s" "buf_ok M b"
  shows "net_ok M (eth_receive dev b s)"
proof -
  have "net_ok M (upd_dev dev (bump d_rx_errors_update) (net_eth_update f s))" for f
    by (rule net_ok_frame [OF assms(1)]) (simp_all add: net_okD(1) [OF assms(1)])
  then show ?thesis
    using assms by (simp add: eth_receive_def Let_def case_prod_beta netbuf_free_ok arp_receive_ok ip_receive_ok
        net_ok_counters pull_state_ok pull_or_same_ok)
qed

lemma rx_take_ok:
  assumes "net_ok M s"
  shows "net_ok M (snd (rx_take s))" and "fst (rx_take s) = Some b \<Longrightarrow> buf_ok M b \<and> nb_dev b \<noteq> None"
  using assms by (auto simp: rx_take_def net_ok_def rx_bufs_def split: list.splits if_splits)

lemma service_one_ok:
  assumes "net_ok M s" "buf_ok M b" "nb_dev b \<noteq> None"
  shows "net_ok M (service_one b s)"
proof -
  have "net_ok M (s\<lparr>net_dev := (net_dev s)\<lparr>rx_serviced := n\<rparr>\<rparr>)" for n
    using assms(1) by (simp add: net_ok_def rx_bufs_def)
  then show ?thesis
    using assms(2,3) by (auto simp: service_one_def Let_def eth_receive_ok)
qed

lemma service_loop_ok: "net_ok M s \<Longrightarrow> net_ok M (service_loop s)"
proof (induction s rule: service_loop.induct)
  case (1 s)
  show ?case
  proof (cases "fst (rx_take s)")
    case None
    then show ?thesis
      using rx_take_ok(1) [OF "1.prems"] by (subst service_loop.simps) (simp add: case_prod_beta)
  next
    case (Some b)
    have "net_ok M (service_one b (snd (rx_take s)))"
      using rx_take_ok [OF "1.prems"] Some by (simp add: service_one_ok)
    then show ?thesis
      using "1.IH" [of "Some b" "snd (rx_take s)" b] Some
      by (subst service_loop.simps) (simp add: case_prod_beta prod_eq_iff)
  qed
qed

text \<open>What a driver may do when it is polled: anything that keeps the invariant and the sizes of
  the tables, which is so when it only hands received frames to \<^verbatim>\<open>netdev_receive\<close>.\<close>

definition sizes :: "net \<Rightarrow> nat \<times> nat \<times> nat" where
  "sizes s = (length (conns (net_tcp s)), length (ip_pending (net_ip s)), length (sockets (net_sock s)))"

definition good_poll :: "paddr set \<Rightarrow> (nat \<Rightarrow> net \<Rightarrow> net) \<Rightarrow> bool" where
  "good_poll M poll \<longleftrightarrow> (\<forall>i s. net_ok M s \<longrightarrow> net_ok M (poll i s) \<and> sizes (poll i s) = sizes s)"

lemma netdev_receive_ok:
  assumes "net_ok M s" "buf_ok M b"
  shows "net_ok M (netdev_receive dev b s)"
proof -
  note ok = net_okD [OF assms(1)]
  have "net_ok M (upd_dev dev f (s\<lparr>net_dev := (net_dev s)\<lparr>rx_overflow := n\<rparr>\<rparr>))" for f n
    using assms(1) by (simp add: net_ok_def rx_bufs_def)
  then show ?thesis
    using assms by (auto simp: netdev_receive_def Let_def netbuf_free_ok) (simp add: net_ok_def rx_bufs_def)
qed

lemma netdev_poll_all_ok:
  assumes "good_poll M poll" "net_ok M s"
  shows "net_ok M (netdev_poll_all poll s) \<and> sizes (netdev_poll_all poll s) = sizes s"
proof -
  let ?f = "\<lambda>i s. if d_up (the_dev s i) \<and> d_poll (the_dev s i) then poll i s else s"
  have "net_ok M (fold ?f is s) \<and> sizes (fold ?f is s) = sizes s" if "net_ok M s" for "is" s
    using that assms(1) by (induction "is" arbitrary: s) (auto simp: good_poll_def)
  then show ?thesis using assms(2) by (simp add: netdev_poll_all_def)
qed

section \<open>The tables keep their sizes\<close>

lemma sizes_updates [simp]:
  "sizes (net_pmm_update f1 s) = sizes s" "sizes (net_nb_update f2 s) = sizes s" "sizes (net_eth_update f3 s) = sizes s"
  "sizes (net_arp_update f4 s) = sizes s" "sizes (net_icmp_update f6 s) = sizes s" "sizes (net_udp_update f7 s) = sizes s"
  "sizes (net_dhcp_update f10 s) = sizes s" "sizes (entropy_update f11 s) = sizes s" "sizes (panicked_update f12 s) = sizes s"
  "sizes (net_dev_update f13 s) = sizes s" "sizes (now_update f14 s) = sizes s"
  by (simp_all add: sizes_def)

lemma sizes_cong:
  "net_tcp t = net_tcp s \<Longrightarrow> net_ip t = net_ip s \<Longrightarrow> net_sock t = net_sock s \<Longrightarrow> sizes t = sizes s"
  by (simp add: sizes_def)

lemma sizes_low [simp]:
  "sizes (upd_dev i f s) = sizes s" "sizes (netbuf_free b s) = sizes s" "sizes (snd (netbuf_alloc s)) = sizes s"
  "sizes (snd (netbuf_push n b s)) = sizes s" "sizes (snd (netbuf_pull n b s)) = sizes s"
  "sizes (snd (netbuf_put n b s)) = sizes s" "sizes (snd (alloc_page s)) = sizes s" "sizes (free_pages1 a s) = sizes s"
  "sizes (snd (arp_lookup i ip s)) = sizes s" "sizes (arp_receive i b s) = sizes s"
  "sizes (snd (eth_transmit i d t b s)) = sizes s" "sizes (set_echo i h s) = sizes s"
  "sizes (snd (initial_sequence s)) = sizes s" "sizes (snd (random_word s)) = sizes s"
  by (rule sizes_cong; simp add: random_word_def split: list.splits)+

lemma ip_build_header_sizes [simp]: "sizes (snd (ip_build_header b dev dst p s)) = sizes s"
  by (simp add: sizes_def)

lemma ip_hold_sizes [simp]: "sizes (snd (ip_hold b dev hop s)) = sizes s"
  by (simp add: sizes_def ip_hold_def Let_def split: option.splits)

lemma ip_sizes [simp]:
  "ip_pending (f (net_ip s)) = ip_pending (net_ip s) \<Longrightarrow> sizes (net_ip_update f s) = sizes s"
  "conns (g (net_tcp s)) = conns (net_tcp s) \<Longrightarrow> sizes (net_tcp_update g s) = sizes s"
  "sockets (h (net_sock s)) = sockets (net_sock s) \<Longrightarrow> sizes (net_sock_update h s) = sizes s"
  "sizes (ip_release i s) = sizes s"
  by (simp_all add: sizes_def ip_release_def)

lemma ip_transmit_sizes [simp]: "sizes (snd (ip_transmit dst p b s)) = sizes s"
  by (simp add: ip_transmit_def ip_finish_send_def case_prod_beta split: option.splits)

lemma ip_flush_slot_sizes [simp]: "sizes (ip_flush_slot i s) = sizes s"
  by (simp add: ip_flush_slot_def ip_finish_send_def Let_def case_prod_beta split: option.splits)

lemma ip_flush_pending_sizes [simp]: "sizes (ip_flush_pending s) = sizes s"
  unfolding ip_flush_pending_def by (rule fold_keeps) simp

lemma icmp_receive_sizes [simp]: "sizes (icmp_receive dev b s) = sizes s"
  by (simp add: icmp_receive_def Let_def split: option.splits)

lemma upd_sock_sizes [simp]: "sizes (upd_sock i f s) = sizes s"
  by (simp add: sizes_def upd_sock_def)

lemma udp_receive_sizes [simp]: "sizes (udp_receive dev b s) = sizes s"
  by (simp add: udp_receive_def call_udp_fn_def udp_arrived_def dhcp_arrived_def Let_def case_prod_beta
      split: option.splits udp_fn.splits)

lemma set_conn_sizes [simp]: "sizes (set_conn i c s) = sizes s"
  by (simp add: sizes_def)

lemma send_segment_sizes [simp]: "sizes (snd (send_segment c f q p s)) = sizes s"
  by (simp add: send_segment_def seg_payload_def case_prod_beta split: option.splits)

lemma send_reset_sizes [simp]: "sizes (send_reset a b c d e f g s) = sizes s"
  by (simp add: send_reset_def case_prod_beta split: option.splits)

lemma conn_sizes [simp]: "sizes (free_conn i s) = sizes s" "sizes (snd (alloc_conn s)) = sizes s"
  by (simp_all add: free_conn_def alloc_conn_def Let_def case_prod_beta split: option.splits)

lemma handler_sizes [simp]:
  "sizes (on_listen i g s) = sizes s" "sizes (on_syn_sent i g s) = sizes s" "sizes (on_syn_received i g s) = sizes s"
  "sizes (take_payload i g s) = sizes s" "sizes (take_fin i g s) = sizes s"
  "sizes (on_last_ack i g s) = sizes s" "sizes (on_reset i s) = sizes s" "sizes (no_connection g s) = sizes s"
  by (simp_all add: on_listen_def on_syn_sent_def on_syn_received_def take_payload_def take_fin_def on_last_ack_def
      on_reset_def no_connection_def Let_def case_prod_beta split: option.splits)

lemma tcp_segment_sizes [simp]: "sizes (tcp_segment g s) = sizes s"
  by (simp add: tcp_segment_def tcp_dispatch_def on_established_def split: option.splits tcp_st.splits)

lemma tcp_sizes [simp]: "sizes (tcp_receive dev b s) = sizes s" "sizes (tcp_tick_slot t i s) = sizes s"
  by (simp_all add: tcp_receive_def tcp_tick_slot_def tcp_retransmit_def Let_def)

lemma tcp_tick_sizes [simp]: "sizes (tcp_tick s) = sizes s"
  unfolding tcp_tick_def by (rule fold_keeps) simp

lemma ip_deliver_sizes [simp]: "sizes (ip_deliver dev b n s) = sizes s"
  by (simp add: ip_deliver_def Let_def case_prod_beta)

lemma ip_receive_sizes [simp]: "sizes (ip_receive dev b s) = sizes s"
  by (simp add: ip_receive_def Let_def)

lemma eth_receive_sizes [simp]: "sizes (eth_receive dev b s) = sizes s"
  by (simp add: eth_receive_def Let_def case_prod_beta)

lemma service_loop_sizes [simp]: "sizes (service_loop s) = sizes s"
proof (induction s rule: service_loop.induct)
  case (1 s)
  have t: "sizes (snd (rx_take s)) = sizes s"
    by (simp add: rx_take_def split: list.splits)
  have o1: "sizes (service_one b s') = sizes s'" for b s'
    by (simp add: service_one_def kpanic_def Let_def split: option.splits)
  show ?case
  proof (cases "fst (rx_take s)")
    case None
    then show ?thesis using t by (subst service_loop.simps) (simp add: case_prod_beta)
  next
    case (Some b)
    then show ?thesis
      using "1.IH" [of "Some b" "snd (rx_take s)" b] t o1
      by (subst service_loop.simps) (simp add: case_prod_beta prod_eq_iff)
  qed
qed

section \<open>What programs ask for\<close>

lemma netbuf_alloc_ok: "net_ok M s \<Longrightarrow> net_ok M (snd (netbuf_alloc s))"
  by (rule net_ok_frame) (simp_all add: pool_alloc(1) net_ok_def)

lemma ends_state_ok: "net_ok M s \<Longrightarrow> net_ok M (snd (netbuf_push n b s))" "net_ok M s \<Longrightarrow> net_ok M (snd (netbuf_put n b s))"
  by (rule net_ok_frame; simp add: net_ok_def)+

lemma put_payload_seg: "put_payload = seg_payload"
  by (intro ext) (simp add: put_payload_def seg_payload_def)

lemma seg_payload_ok:
  assumes "net_ok M s" "buf_ok M b" "length p < 2 ^ 31"
  shows "net_ok M (snd (seg_payload p b s))"
  using ends_state_ok(2) [OF assms(1)] assms(1) by (simp add: seg_payload_def case_prod_beta split: option.splits)

lemma udp_send_ok:
  assumes "net_ok M s"
  shows "net_ok M (snd (udp_send dst dp sp data s))"
proof -
  note ok = net_okD [OF assms(1)]
  have s1: "net_ok M (snd (netbuf_alloc s))" by (rule netbuf_alloc_ok [OF assms])
  { fix b assume "fst (netbuf_alloc s) = Some b" and len: "length data < 2 ^ 31"
    then have b: "buf_ok M b" using pool_alloc(2) [OF ok(1)] by simp
    note seg_payload_ok [OF s1 b len] seg_payload_pool(2) [OF net_okD(1) [OF s1] b len] b }
  note p = this
  have len: "length data < 2 ^ 31" if "\<not> length data > NET_MTU - IP_HDR_LEN - UDP_HDR_LEN"
    using that by (simp add: net_consts)
  show ?thesis
    using assms s1 p len
    by (auto simp: udp_send_def put_payload_seg Let_def case_prod_beta
        intro!: ip_transmit_ok netbuf_free_ok net_ok_counters ends_state_ok split: option.splits)
qed

lemma echo_oldest_Some:
  "e \<noteq> None \<or> cs \<noteq> [] \<and> oldest = NOT 0 \<and> (\<forall>c\<in>set cs. e_sent_ns c \<noteq> NOT 0) \<Longrightarrow> echo_oldest cs i oldest e \<noteq> None"
proof (induction cs arbitrary: i oldest e)
  case (Cons c cs)
  have "e_sent_ns c < NOT 0 \<or> e_sent_ns c = NOT 0"
    using word_order.extremum [of "e_sent_ns c"] by (auto simp: order.strict_iff_order)
  with Cons show ?case by auto
qed simp

lemma echo_oldest_lt: "echo_oldest cs i oldest e = Some j \<Longrightarrow> e = Some j \<or> j < i + length cs"
  by (induction cs arbitrary: i oldest e) (fastforce split: if_splits)+

lemma echo_slot_Some: "echo_times e \<Longrightarrow> \<exists>i. echo_slot (echoes e) = Some i \<and> i < length (echoes e)"
proof (cases "first_slot (\<lambda>x. \<not> e_used x) (echoes e)")
  case None
  assume "echo_times e"
  with None have "echo_oldest (echoes e) 0 (NOT 0) None \<noteq> None"
    by (intro echo_oldest_Some) (auto simp: first_slot_None echo_times_def)
  then show ?thesis using None echo_oldest_lt [of "echoes e" 0 "NOT 0" None] by (auto simp: echo_slot_def)
next
  case (Some i)
  then show ?thesis using first_slot_lt [OF Some] by (simp add: echo_slot_def)
qed

lemma icmp_take_id_ok: "net_ok M s \<Longrightarrow> net_ok M (snd (icmp_take_id s))"
  by (simp add: icmp_take_id_def Let_def net_ok_def rx_bufs_def echo_times_def)

lemma icmp_echo_send_ok:
  assumes "net_ok M s"
  shows "net_ok M (snd (icmp_echo_send dst s))"
proof -
  obtain i where i: "echo_slot (echoes (net_icmp s)) = Some i" "i < length (echoes (net_icmp s))"
    using echo_slot_Some [OF net_okD(7) [OF assms]] by blast
  define s2 where "s2 = snd (icmp_take_id (snd (netbuf_alloc s)))"
  define s3 where "s3 b = snd (netbuf_put (ICMP_HDR_LEN + 32) b s2)" for b
  define s4 where "s4 b ident = net_icmp_update (bump icmp_requests_sent_update) (set_echo i (\<lambda>_. \<lparr>e_id = ident, e_seq = 1,
    e_dst = dst, e_sent_ns = now (s3 b), e_replied_ns = 0, e_used = True, e_answered = False\<rparr>) (s3 b))" for b ident
  have s2: "net_ok M s2" unfolding s2_def by (intro icmp_take_id_ok netbuf_alloc_ok assms)
  have s3: "net_ok M (s3 b)" for b unfolding s3_def by (rule ends_state_ok(2) [OF s2])
  have len: "length (echoes (net_icmp (s3 b))) = length (echoes (net_icmp s))" for b
    by (simp add: s3_def s2_def icmp_take_id_def Let_def)
  have s4: "net_ok M (s4 b ident)" for b ident
    unfolding s4_def
    by (intro net_ok_icmp set_echo_ok s3) (use net_okD(7,8) [OF s3] i(2) in \<open>auto simp: len set_echo_def echo_times_def dest!: set_update_subset_insert [THEN subsetD]\<close>)
  have off: "net_ok M (set_echo i (\<lambda>e. e\<lparr>e_used := False\<rparr>) t)" if "net_ok M t" "length (echoes (net_icmp t)) = length (echoes (net_icmp s))" for t
    by (rule set_echo_ok [OF that(1)]) (use i(2) that(2) in auto)
  have sent: "net_ok M (snd (ip_transmit dst IP_PROTO_ICMP b' (s4 b ident)))
      \<and> length (echoes (net_icmp (snd (ip_transmit dst IP_PROTO_ICMP b' (s4 b ident))))) = length (echoes (net_icmp s))"
    if "buf_ok M b'" for b b' ident
    using ip_transmit_ok [OF s4 that] by (simp add: s4_def set_echo_def len)
  show ?thesis
  proof (cases "fst (netbuf_alloc s)")
    case None
    then show ?thesis using assms by (simp add: icmp_echo_send_def case_prod_beta netbuf_alloc_ok)
  next
    case (Some b)
    then have b: "buf_ok M b" using pool_alloc(2) [OF net_okD(1) [OF assms]] by simp
    show ?thesis
    proof (cases "fst (netbuf_put (ICMP_HDR_LEN + 32) b s2)")
      case None
      then show ?thesis
        using Some netbuf_free_ok [OF s3 b] by (simp add: icmp_echo_send_def case_prod_beta s2_def s3_def)
    next
      case (Some b1)
      then have "buf_ok M b1" using b by (auto simp: ICMP_HDR_LEN_def)
      then show ?thesis
        using Some \<open>fst (netbuf_alloc s) = Some b\<close> i(1) sent off
        by (simp add: icmp_echo_send_def case_prod_beta Let_def s2_def s3_def s4_def)
    qed
  qed
qed
end
