(* ===== verification/Machine.thy ===== *)
theory Machine
  imports Safety Pmm_Start
begin

text \<open>
  The running kernel as seen from outside: the state the stack starts in, and the events
  that can happen to it - a frame arrives at a card, the worker runs, the clock moves, the
  random pool is fed, an interface is configured, a program makes a socket call. The
  functions of the socket layer keep the invariant of the theory \<^verbatim>\<open>Safety\<close>, so no sequence of
  events makes the kernel panic.
\<close>

section \<open>Every call of the socket layer keeps the invariant\<close>

text \<open>The invariant, with the sizes of the three arrays.\<close>

definition safe :: "paddr set \<Rightarrow> net \<Rightarrow> bool" where
  "safe M s \<longleftrightarrow> net_ok M s \<and> sizes s = (TCP_MAX_CONNECTIONS, PENDING_MAX, SOCKET_MAX)"

lemma safeD:
  assumes "safe M s"
  shows "net_ok M s" "sizes s = (TCP_MAX_CONNECTIONS, PENDING_MAX, SOCKET_MAX)"
    "length (conns (net_tcp s)) = TCP_MAX_CONNECTIONS" "length (ip_pending (net_ip s)) = PENDING_MAX"
    "length (sockets (net_sock s)) = SOCKET_MAX"
  using assms by (simp_all add: safe_def sizes_def)

lemma safeI: "safe M s \<Longrightarrow> net_ok M t \<Longrightarrow> sizes t = sizes s \<Longrightarrow> safe M t"
  by (simp add: safe_def)

named_theorems safe_ops

lemma safe_service [safe_ops]:
  assumes "good_poll M poll" "safe M s"
  shows "safe M (netdev_service poll s)"
  using netdev_poll_all_ok [OF assms(1) safeD(1) [OF assms(2)]]
  by (intro safeI [OF assms(2)]) (simp_all add: netdev_service_def service_loop_ok)

lemma safe_flush [safe_ops]: "safe M s \<Longrightarrow> safe M (ip_flush_pending s)"
  by (rule safeI, assumption) (simp_all add: ip_flush_pending_ok safeD)

lemma safe_tick [safe_ops]: "safe M s \<Longrightarrow> safe M (tcp_tick s)"
  by (rule safeI, assumption) (simp_all add: tcp_tick_ok safeD)

lemma safe_set_conn [safe_ops]: "safe M s \<Longrightarrow> conn_ok M c \<Longrightarrow> safe M (set_conn i c s)"
  by (rule safeI, assumption) (simp_all add: set_conn_ok safeD)

lemma safe_the_conn: "safe M s \<Longrightarrow> i < TCP_MAX_CONNECTIONS \<Longrightarrow> conn_ok M (the_conn s i)"
  using the_conn_ok safeD by metis

lemma safe_send_segment [safe_ops]: "safe M s \<Longrightarrow> length p < 2 ^ 31 \<Longrightarrow> safe M (snd (send_segment c fl q p s))"
  by (rule safeI, assumption) (simp_all add: send_segment_ok safeD)

lemma safe_conns [safe_ops]:
  assumes "safe M s"
  shows "safe M (snd (alloc_conn s))" "i < TCP_MAX_CONNECTIONS \<Longrightarrow> safe M (free_conn i s)"
    "safe M (snd (initial_sequence s))"
  by (rule safeI [OF assms]; simp add: alloc_conn_ok free_conn_ok initial_sequence_ok safeD [OF assms] sizes_cong)+

lemma safe_counters [safe_ops]:
  assumes "safe M s"
  shows "safe M (net_tcp_update (bump receives_hint_update) s)" "safe M (net_udp_update f s)"
    "safe M (net_dhcp_update g s)"
  by (rule safeI [OF assms]; use safeD(1) [OF assms] in \<open>simp add: net_ok_tcp_counters net_ok_counters sizes_def\<close>)+

lemma safe_sock_update [safe_ops]:
  assumes "safe M s" "\<And>k. sockets (f k) = sockets k"
  shows "safe M (net_sock_update f s)"
  by (rule safeI [OF assms(1)]) (use safeD(1) [OF assms(1)] in \<open>simp_all add: net_ok_def rx_bufs_def sock_bufs_def sizes_def assms(2)\<close>)

lemma safe_tcp_open [safe_ops]:
  assumes "safe M s"
  shows "safe M (snd (tcp_open a p b q s))"
proof -
  let ?r = "alloc_conn s"
  have s1: "safe M (snd ?r)" "safe M (snd (initial_sequence (snd ?r)))"
    using assms by (auto intro!: safe_ops)
  have lt: "i < TCP_MAX_CONNECTIONS" if "fst ?r = Some i" for i
    using alloc_conn_lt [OF that] safeD(3) [OF assms] by simp
  show ?thesis
    using s1 lt safe_the_conn [OF s1(2)]
    by (auto simp: tcp_open_def case_prod_beta Let_def conn_ok_def rings_ok_def intro!: safe_ops split: option.splits)
qed

lemma safe_tcp_open_listener [safe_ops]:
  assumes "safe M s"
  shows "safe M (snd (tcp_open_listener a p s))"
proof -
  have s1: "safe M (snd (alloc_conn s))" using assms by (intro safe_ops)
  show ?thesis
    using s1 alloc_conn_lt [of s] safeD(3) [OF assms] safe_the_conn [OF s1]
    by (auto simp: tcp_open_listener_def case_prod_beta Let_def conn_ok_def rings_ok_def intro!: safe_ops split: option.splits)
qed

lemma safe_tcp_accept_ready [safe_ops]:
  assumes "safe M s"
  shows "safe M (snd (tcp_accept_ready l s))"
proof -
  have "conn_ok M ((the_conn s i)\<lparr>accept_pending := False\<rparr>)"
    if "first_slot P (conns (net_tcp s)) = Some i" for i P
    using safe_the_conn [OF assms, of i] first_slot_lt [OF that] safeD(3) [OF assms]
    by (simp add: conn_ok_def rings_ok_def)
  then show ?thesis
    using assms by (simp add: tcp_accept_ready_def safe_set_conn split: option.splits)
qed

lemma valid_idx_lt: "valid_idx i \<Longrightarrow> nat i < TCP_MAX_CONNECTIONS"
  by (auto simp: valid_idx_def)

lemma fill_tx_pages [simp]:
  "tx_page (snd (fill_while r tx_push xs c)) = tx_page c" "rx_page (snd (fill_while r tx_push xs c)) = rx_page c"
  by (rule fill_while_keeps; simp add: tx_push_def)+

lemma drain_rx_pages [simp]:
  "tx_page (snd (drain_while r f rx_pop n c)) = tx_page c" "rx_page (snd (drain_while r f rx_pop n c)) = rx_page c"
  by (rule drain_while_keeps; simp add: rx_pop_def)+

lemma rings_conn_ok [simp]:
  "conn_ok M c \<Longrightarrow> conn_ok M (snd (fill_while (\<lambda>c. tx_len c < TCP_BUFFER_SIZE) tx_push xs c))"
  "conn_ok M c \<Longrightarrow> conn_ok M (snd (drain_while (\<lambda>c. 0 < rx_len c) rx_front rx_pop n c))"
  using tx.fill_spec [of c xs] rx.drain_spec [of c n] by (simp_all add: conn_ok_def)

lemma safe_tcp_write [safe_ops]:
  assumes "safe M s"
  shows "safe M (snd (tcp_write i xs s))"
proof (cases "valid_idx i")
  case True
  let ?f = "fill_while (\<lambda>c. tx_len c < TCP_BUFFER_SIZE) tx_push xs (the_conn s (nat i))"
  have c: "conn_ok M (snd ?f)" using safe_the_conn [OF assms valid_idx_lt [OF True]] by simp
  have k: "send_now n c \<le> 512" for n c by (simp add: send_now_def Let_def)
  have l: "send_now n c < 2147483648" for n c using k [of n c] by simp
  have c': "conn_ok M ((snd ?f)\<lparr>snd_nxt := a, retransmit_at_ns := b, retries := d\<rparr>)" for a b d
    using c by (rule conn_ok_cong [rotated -1]) simp_all
  show ?thesis
    using assms c c' l by (auto simp: tcp_write_def case_prod_beta Let_def intro!: safe_ops)
qed (simp add: tcp_write_def assms)

lemma safe_tcp_read [safe_ops]:
  assumes "safe M s"
  shows "safe M (snd (snd (tcp_read i n s)))"
proof (cases "valid_idx i")
  case True
  then show ?thesis
    using assms safe_the_conn [OF assms valid_idx_lt [OF True]]
    by (auto simp: tcp_read_def case_prod_beta Let_def intro!: safe_ops)
qed (simp add: tcp_read_def assms)

lemma safe_tcp_shutdown [safe_ops]:
  assumes "safe M s"
  shows "safe M (tcp_shutdown i s)"
proof (cases "valid_idx i")
  case True
  then show ?thesis
    using assms safe_the_conn [OF assms valid_idx_lt [OF True]] valid_idx_lt [OF True]
    by (auto simp: tcp_shutdown_def case_prod_beta Let_def conn_ok_def rings_ok_def intro!: safe_ops split: tcp_st.splits)
qed (simp add: tcp_shutdown_def assms)

section \<open>Sockets\<close>

lemma sock_ok_updates [simp]:
  "sock_ok M (k\<lparr>s_conn := a\<rparr>) = sock_ok M k" "sock_ok M (k\<lparr>s_listening := b\<rparr>) = sock_ok M k"
  "sock_ok M (k\<lparr>s_connected := c\<rparr>) = sock_ok M k" "sock_ok M (k\<lparr>s_remote_ip := d, s_remote_port := e\<rparr>) = sock_ok M k"
  "sock_ok M (k\<lparr>s_local_ip := d, s_local_port := e, s_bound := f\<rparr>) = sock_ok M k"
  "sock_ok M (k\<lparr>s_conn := a, s_connected := c, s_bound := f, s_local_port := e\<rparr>) = sock_ok M k"
  "sock_ok M zero_socket" "sock_ok M (zero_socket\<lparr>s_conn := a\<rparr>)"
  "sock_ok M (zero_socket\<lparr>s_used := u, s_type := t, s_conn := a\<rparr>)" "sock_ok M (zero_socket\<lparr>s_used := u, s_type := t\<rparr>)"
  by (auto simp: sock_ok_def dgrams_ok_def dgram_ring_def zero_socket_def DGRAM_QUEUE_def)

lemma safe_the_sock: "safe M s \<Longrightarrow> i < SOCKET_MAX \<Longrightarrow> sock_ok M (the_sock s i)"
  using nth_mem [of i "sockets (net_sock s)"] net_okD(3) [OF safeD(1), of M s] safeD(5) [of M s]
  by (auto simp: sock_bufs_def the_sock_def)

lemma safe_upd_sock [safe_ops]:
  assumes "safe M s" and "i < SOCKET_MAX \<Longrightarrow> sock_ok M (the_sock s i) \<Longrightarrow> sock_ok M (f (the_sock s i))"
  shows "safe M (upd_sock i f s)"
proof (rule safeI [OF assms(1)])
  note ok = net_okD [OF safeD(1) [OF assms(1)]]
  have "sock_bufs M (net_sock (upd_sock i f s))"
  proof (cases "i < SOCKET_MAX")
    case True
    then have "sock_ok M (f (the_sock s i))" using assms(2) safe_the_sock [OF assms(1)] by simp
    with ok(3) show ?thesis
      by (auto simp: upd_sock_def sock_bufs_def dest!: set_update_subset_insert [THEN subsetD])
  next
    case False
    then show ?thesis using ok(3) safeD(5) [OF assms(1)] by (simp add: upd_sock_def list_update_beyond)
  qed
  then show "net_ok M (upd_sock i f s)"
    by (intro net_okI [OF safeD(1) [OF assms(1)]]) (use ok in \<open>simp_all add: upd_sock_def\<close>)
qed simp

lemma safe_random [safe_ops]: "safe M s \<Longrightarrow> safe M (snd (random_word s))"
  by (rule safeI, assumption) (auto simp: random_word_def net_ok_def rx_bufs_def sizes_def safe_def split: list.splits)

lemma safe_netbuf_free [safe_ops]: "safe M s \<Longrightarrow> buf_ok M b \<Longrightarrow> safe M (netbuf_free b s)"
  by (rule safeI, assumption) (simp_all add: netbuf_free_ok safeD)

lemma safe_udp [safe_ops]:
  assumes "safe M s"
  shows "safe M (snd (udp_bind_port p f s))" "safe M (udp_unbind_port p s)"
  using assms by (auto simp: udp_bind_port_def udp_unbind_port_def Let_def intro: safe_ops split: option.splits)

lemma udp_send_sizes [simp]: "sizes (snd (udp_send a p q xs s)) = sizes s"
  by (simp add: udp_send_def put_payload_def case_prod_beta Let_def split: option.splits)

lemma safe_udp_send [safe_ops]: "safe M s \<Longrightarrow> safe M (snd (udp_send a p q xs s))"
  by (rule safeI, assumption) (simp_all add: udp_send_ok safeD)

lemma safe_socket_create [safe_ops]:
  assumes "safe M s"
  shows "safe M (snd (socket_create t s))"
  using assms by (auto simp: socket_create_def intro!: safe_ops split: option.splits)

lemma safe_socket_bind [safe_ops]:
  assumes "safe M s"
  shows "safe M (snd (socket_bind k a p s))"
proof -
  have "safe M (snd (if p = 0 then ephemeral_port s else (p, s)))"
    using assms by (simp add: ephemeral_port_def case_prod_beta safe_random)
  then show ?thesis
    using assms by (auto simp: socket_bind_def case_prod_beta Let_def intro!: safe_ops split: option.splits)
qed

lemma safe_bind_if_needed [safe_ops]: "safe M s \<Longrightarrow> safe M (snd (bind_if_needed i s))"
  by (simp add: bind_if_needed_def safe_socket_bind)

lemma safe_socket_listen [safe_ops]:
  assumes "safe M s"
  shows "safe M (snd (socket_listen k n s))"
  using assms by (auto simp: socket_listen_def case_prod_beta Let_def intro!: safe_ops split: option.splits)

lemma safe_socket_accept [safe_ops]:
  assumes "good_poll M poll" "safe M s"
  shows "safe M (snd (socket_accept poll k s))"
  using assms by (auto simp: socket_accept_def case_prod_beta Let_def intro!: safe_ops split: option.splits)

lemma safe_socket_connect [safe_ops]:
  assumes "safe M s"
  shows "safe M (snd (socket_connect k a p s))"
  using assms by (auto simp: socket_connect_def case_prod_beta Let_def intro!: safe_ops split: option.splits bool.splits)

lemma safe_socket_sendto [safe_ops]:
  assumes "safe M s"
  shows "safe M (snd (socket_sendto k xs a p s))"
  using assms by (auto simp: socket_sendto_def case_prod_beta Let_def intro!: safe_ops split: option.splits bool.splits)

lemma safe_socket_send [safe_ops]:
  assumes "safe M s"
  shows "safe M (snd (socket_send k xs s))"
  using assms by (auto simp: socket_send_def case_prod_beta Let_def intro!: safe_ops split: option.splits)

lemma dgram_take_ok:
  assumes "sock_ok M k"
  shows "sock_ok M (snd (dgram_take k))" "fst (dgram_take k) = Some (b, a, p) \<Longrightarrow> buf_ok M b"
proof -
  show "sock_ok M (snd (dgram_take k))"
  proof (cases "s_q_len k = 0")
    case False
    then have "dgrams_ok (snd (dgram_take k))" using dg.pop_wf [of k] assms by (simp add: sock_ok_def dgram_pop_def)
    with False assms show ?thesis
      by (auto simp: sock_ok_def dgram_take_def Let_def dest!: set_update_subset_insert [THEN subsetD])
  qed (use assms in \<open>simp add: dgram_take_def\<close>)
  show "fst (dgram_take k) = Some (b, a, p) \<Longrightarrow> buf_ok M b"
    using assms nth_mem [of "s_q_head k" "s_queue k"]
    by (auto simp: dgram_take_def sock_ok_def dgrams_ok_def Let_def split: if_splits option.splits)
qed

lemma safe_recvfrom [safe_ops]:
  assumes "good_poll M poll" "safe M s" "\<And>i. k = Some i \<Longrightarrow> i < SOCKET_MAX"
  shows "safe M (snd (socket_recvfrom poll k n s))"
proof (cases k)
  case (Some i)
  define s1 where "s1 = tcp_tick (ip_flush_pending (netdev_service poll s))"
  have s1: "safe M s1" unfolding s1_def by (intro safe_ops assms)
  have k: "sock_ok M (the_sock s1 i)" using safe_the_sock [OF s1] assms(3) Some by simp
  have s2: "safe M (upd_sock i (\<lambda>_. snd (dgram_take (the_sock s1 i))) s1)"
    by (rule safe_upd_sock [OF s1]) (rule dgram_take_ok(1) [OF k])
  have "safe M (snd (snd (tcp_read a n s1)))" for a by (rule safe_tcp_read [OF s1])
  then show ?thesis
    using Some s2 dgram_take_ok(2) [OF k]
    by (auto simp: socket_recvfrom_def Let_def case_prod_beta safe_sock_update safe_netbuf_free
        simp flip: s1_def split: option.splits)
qed (simp add: socket_recvfrom_def assms)

lemma safe_recv [safe_ops]:
  assumes "good_poll M poll" "safe M s" "\<And>i. k = Some i \<Longrightarrow> i < SOCKET_MAX"
  shows "safe M (snd (socket_recv poll k n s))"
  using safe_recvfrom [OF assms] by (simp add: socket_recv_def case_prod_beta)

lemma safe_free_dgrams:
  "safe M s \<Longrightarrow> \<forall>q\<in>set qs. \<forall>b. dg_buf q = Some b \<longrightarrow> buf_ok M b \<Longrightarrow> safe M (fold free_dgram qs s)"
  by (induction qs arbitrary: s) (auto simp: free_dgram_def safe_netbuf_free split: option.splits)

lemma safe_socket_close [safe_ops]:
  assumes "safe M s" "\<And>i. k = Some i \<Longrightarrow> i < SOCKET_MAX"
  shows "safe M (socket_close k s)"
proof (cases k)
  case (Some i)
  let ?k = "the_sock s i"
  let ?s1 = "if s_type ?k = SOCK_DGRAM \<and> s_bound ?k then udp_unbind_port (s_local_port ?k) s else s"
  define s2 where "s2 = (if s_type ?k = SOCK_STREAM \<and> s_conn ?k \<ge> 0 then tcp_shutdown (s_conn ?k) ?s1 else ?s1)"
  have s2: "safe M s2" using assms(1) by (auto simp: s2_def intro: safe_ops)
  have "sock_ok M (the_sock s2 i)" using safe_the_sock [OF s2] assms(2) Some by simp
  then have "safe M (fold free_dgram (s_queue (the_sock s2 i)) s2)"
    by (intro safe_free_dgrams [OF s2]) (auto simp: sock_ok_def)
  then have "safe M (net_sock_update (bump sk_closed_update)
      (upd_sock i (\<lambda>_. zero_socket\<lparr>s_conn := -1\<rparr>) (fold free_dgram (s_queue (the_sock s2 i)) s2)))"
    by (intro safe_sock_update safe_upd_sock) simp_all
  then show ?thesis
    using Some assms(1) by (simp add: socket_close_def Let_def s2_def)
qed (simp add: socket_close_def assms)

section \<open>Configuration\<close>

lemma safe_net_dev [safe_ops]:
  assumes "safe M s" "rx_queue (f (net_dev s)) = rx_queue (net_dev s)"
    "rx_queued (f (net_dev s)) = rx_queued (net_dev s)"
  shows "safe M (net_dev_update f s)"
  by (rule safeI [OF assms(1)]) (use safeD(1) [OF assms(1)] assms(2,3) in \<open>simp_all add: net_ok_def rx_bufs_def\<close>)

lemma safe_upd_dev [safe_ops]: "safe M s \<Longrightarrow> safe M (upd_dev i f s)"
  unfolding upd_dev_def by (rule safe_net_dev) simp_all

lemma safe_clock [safe_ops]: "safe M s \<Longrightarrow> t \<noteq> NOT 0 \<Longrightarrow> safe M (s\<lparr>now := t\<rparr>)"
  by (rule safeI, assumption) (auto simp: net_ok_def rx_bufs_def safe_def)

section \<open>Bringing the cards up\<close>

text \<open>
  \<^verbatim>\<open>net_bring_up\<close> of \<^verbatim>\<open>kernel/core/net.c\<close>: every card that is up asks for an address, and when
  it was told of a gateway, sends that an echo request and waits for the answer. Every
  reading of the clock comes from a list, as in the theory \<^verbatim>\<open>Dhcp\<close>.
\<close>

fun echo_wait :: "(nat \<Rightarrow> net \<Rightarrow> net) \<Rightarrow> u16 \<Rightarrow> u64 \<Rightarrow> u64 list \<Rightarrow> net \<Rightarrow> u64 list \<times> net" where
  "echo_wait poll ident until [] s = ([], s)"
| "echo_wait poll ident until (t # ts) s =
     (let s1 = s\<lparr>now := t\<rparr> in
      if t \<ge> until then (ts, s1)
      else let s2 = ip_flush_pending (netdev_service poll s1)
           in if icmp_echo_seen ident s2 \<noteq> None then (ts, s2) else echo_wait poll ident until ts s2)"

definition bring_up_one :: "(nat \<Rightarrow> net \<Rightarrow> net) \<Rightarrow> mem \<Rightarrow> nat \<Rightarrow> u64 list \<times> net \<Rightarrow> u64 list \<times> net" where
  "bring_up_one poll stack_msg i p =
     (case p of (clock, s) \<Rightarrow>
        if netdev_at i s = None \<or> \<not> d_up (the_dev s i) then (clock, s)
        else (case dhcp_configure poll stack_msg (Some i) clock s of
                (False, clock1, s1) \<Rightarrow> (clock1, s1)
              | (True, clock1, s1) \<Rightarrow>
                  if d_gateway (the_dev s1 i) = 0 then (clock1, s1)
                  else let (ident, s2) = icmp_echo_send (d_gateway (the_dev s1 i)) s1
                       in if ident = 0 then (clock1, s2)
                          else echo_wait poll ident (now s2 + 500000000) clock1 s2))"

definition net_bring_up :: "(nat \<Rightarrow> net \<Rightarrow> net) \<Rightarrow> mem \<Rightarrow> u64 list \<Rightarrow> net \<Rightarrow> u64 list \<times> net" where
  "net_bring_up poll stack_msg clock s = fold (bring_up_one poll stack_msg) [0..<netdev_count s] (clock, s)"

lemma icmp_echo_send_sizes [simp]: "sizes (snd (icmp_echo_send dst s)) = sizes s"
  by (simp add: icmp_echo_send_def Let_def case_prod_beta icmp_take_id_def set_echo_def kpanic_def split: option.splits)

lemma safe_icmp_echo_send [safe_ops]: "safe M s \<Longrightarrow> safe M (snd (icmp_echo_send dst s))"
  by (rule safeI, assumption) (simp_all add: icmp_echo_send_ok safeD)

section \<open>What configuration keeps\<close>

text \<open>
  The contract between configuration and the rest of the stack: a property of the state that
  the worker, the clock, a datagram sent, a port bound or given back, a device's addresses, the
  random pool and an echo request keep. The waiting loops, the DHCP exchange and
  \<^verbatim>\<open>net_bring_up\<close> are made of these, so they keep it too.
\<close>

locale stack_invariant =
  fixes P :: "net \<Rightarrow> bool" and poll :: "nat \<Rightarrow> net \<Rightarrow> net"
  assumes service: "P s \<Longrightarrow> P (netdev_service poll s)"
    and flush: "P s \<Longrightarrow> P (ip_flush_pending s)"
    and clock: "P s \<Longrightarrow> t \<noteq> NOT 0 \<Longrightarrow> P (s\<lparr>now := t\<rparr>)"
    and send: "P s \<Longrightarrow> P (snd (udp_send a p q xs s))"
    and bind: "P s \<Longrightarrow> P (snd (udp_bind_port DHCP_CLIENT_PORT Fn_dhcp_arrived s))"
    and unbind: "P s \<Longrightarrow> P (udp_unbind_port p s)"
    and device: "P s \<Longrightarrow> P (upd_dev i f s)"
    and random: "P s \<Longrightarrow> P (snd (random_word s))"
    and dhcp: "P s \<Longrightarrow> P (net_dhcp_update g s)"
    and ping: "P s \<Longrightarrow> P (snd (icmp_echo_send dst s))"
begin

lemma kept_wait_loop:
  assumes "P s" "\<forall>t\<in>set ts. t \<noteq> NOT 0"
  shows "P (snd (snd (wait_loop poll f u ts s))) \<and> set (fst (snd (wait_loop poll f u ts s))) \<subseteq> set ts"
  using assms
proof (induction ts arbitrary: s)
  case (Cons t ts)
  have "P (ip_flush_pending (netdev_service poll (s\<lparr>now := t\<rparr>)))" "P (s\<lparr>now := t\<rparr>)"
    using Cons.prems by (auto intro!: service flush clock)
  then show ?case using Cons.IH Cons.prems by (auto simp: Let_def)
qed simp

lemma kept_dhcp_attempts:
  assumes "P s" "\<forall>t\<in>set ts. t \<noteq> NOT 0"
  shows "P (snd (snd (dhcp_attempts n poll f msg dev ts s)))
    \<and> set (fst (snd (dhcp_attempts n poll f msg dev ts s))) \<subseteq> set ts"
  using assms
proof (induction n arbitrary: s ts msg)
  case (Suc n)
  define s2 where "s2 a p q xs = udp_send a p q xs (net_dhcp_update (bump dhcp_sent_update) s)" for a p q xs
  have s2: "P (snd (s2 a p q xs))" for a p q xs
    unfolding s2_def by (intro send dhcp Suc.prems)
  note w = kept_wait_loop [OF s2 Suc.prems(2)]
  have later: "\<forall>t\<in>set (fst (snd (wait_loop poll f u ts (snd (s2 a p q xs))))). t \<noteq> NOT 0" for a p q xs u
    using w Suc.prems(2) by blast
  have "P (snd (snd (dhcp_attempts n poll f m dev (fst (snd (wait_loop poll f u ts (snd (s2 a p q xs)))))
        (snd (snd (wait_loop poll f u ts (snd (s2 a p q xs)))))))) \<and>
      set (fst (snd (dhcp_attempts n poll f m dev (fst (snd (wait_loop poll f u ts (snd (s2 a p q xs)))))
        (snd (snd (wait_loop poll f u ts (snd (s2 a p q xs)))))))) \<subseteq> set ts" for m u a p q xs
    using Suc.IH [OF w [THEN conjunct1] later] w by blast
  then show ?case
    using s2 Suc.prems(1)
    by (simp add: Let_def case_prod_beta wait_for_def split: bool.splits flip: s2_def)
qed simp

lemma kept_dhcp_end: "P s \<Longrightarrow> P (dhcp_end s)"
proof -
  assume s: "P s"
  have "dhcp_end s = net_dhcp_update (\<lambda>_. (net_dhcp s)\<lparr>dhcp_configuring := None\<rparr>) (udp_unbind_port DHCP_CLIENT_PORT s)"
    by (simp add: dhcp_end_def)
  then show ?thesis using s by (simp add: dhcp unbind)
qed

lemma kept_dhcp_configure:
  assumes "P s" "\<forall>t\<in>set ts. t \<noteq> NOT 0"
  shows "P (snd (snd (dhcp_configure poll msg d ts s)))"
    and "set (fst (snd (dhcp_configure poll msg d ts s))) \<subseteq> set ts"
proof -
  define s4 where "s4 dev x = udp_bind_port DHCP_CLIENT_PORT Fn_dhcp_arrived
    (net_dhcp_update (\<lambda>_. (net_dhcp (snd (random_word (s\<lparr>net_dhcp := (net_dhcp s)\<lparr>dhcp_res := zero_result, dhcp_configuring := Some dev\<rparr>\<rparr>))))\<lparr>dhcp_transaction := x\<rparr>)
      (snd (random_word (s\<lparr>net_dhcp := (net_dhcp s)\<lparr>dhcp_res := zero_result, dhcp_configuring := Some dev\<rparr>\<rparr>))))" for dev x
  have s4: "P (snd (s4 dev x))" for dev x
    unfolding s4_def by (intro bind dhcp random assms)
  define s6 where "s6 dev x = dhcp_attempts 3 poll Have_offer msg dev ts
    (upd_dev dev (\<lambda>d. d\<lparr>d_ip := IPV4_ANY, d_netmask := IPV4_ANY\<rparr>) (snd (s4 dev x)))" for dev x
  note a6 = kept_dhcp_attempts [OF device [OF s4] assms(2), THEN conjunct1]
    kept_dhcp_attempts [OF device [OF s4] assms(2), THEN conjunct2]
  have s6: "P (snd (snd (s6 dev x)))" "set (fst (snd (s6 dev x))) \<subseteq> set ts" for dev x
    unfolding s6_def by (rule a6)+
  then have ts: "\<forall>t\<in>set (fst (snd (s6 dev x))). t \<noteq> NOT 0" for dev x using assms(2) by blast
  define s7 where "s7 dev x = dhcp_attempts 3 poll Have_ack (fst (s6 dev x)) dev (fst (snd (s6 dev x))) (snd (snd (s6 dev x)))" for dev x
  note a7 = kept_dhcp_attempts [OF s6(1) ts]
  have s7: "P (snd (snd (s7 dev x)))" "set (fst (snd (s7 dev x))) \<subseteq> set ts" for dev x
    unfolding s7_def using a7 s6(2) by blast+
  show "P (snd (snd (dhcp_configure poll msg d ts s)))"
    using assms(1) s4 s6 s7
    by (auto simp: dhcp_configure_def Let_def case_prod_beta kept_dhcp_end device
        simp flip: s4_def s6_def s7_def split: option.splits bool.splits)
  show "set (fst (snd (dhcp_configure poll msg d ts s))) \<subseteq> set ts"
    using s6(2) s7(2)
    by (auto simp: dhcp_configure_def Let_def case_prod_beta simp flip: s4_def s6_def s7_def split: option.splits bool.splits)
qed

lemma kept_echo_wait:
  assumes "P s" "\<forall>t\<in>set ts. t \<noteq> NOT 0"
  shows "P (snd (echo_wait poll ident u ts s)) \<and> set (fst (echo_wait poll ident u ts s)) \<subseteq> set ts"
  using assms
proof (induction ts arbitrary: s)
  case (Cons t ts)
  have "P (ip_flush_pending (netdev_service poll (s\<lparr>now := t\<rparr>)))" "P (s\<lparr>now := t\<rparr>)"
    using Cons.prems by (auto intro!: service flush clock)
  then show ?case using Cons.IH Cons.prems by (auto simp: Let_def)
qed simp

lemma kept_bring_up_one:
  assumes "P (snd p)" "\<forall>t\<in>set (fst p). t \<noteq> NOT 0"
  shows "P (snd (bring_up_one poll msg i p)) \<and> set (fst (bring_up_one poll msg i p)) \<subseteq> set (fst p)"
proof -
  obtain ts s where p: "p = (ts, s)" by (cases p)
  define d where "d = dhcp_configure poll msg (Some i) ts s"
  have d: "P (snd (snd d))" "set (fst (snd d)) \<subseteq> set ts"
    unfolding d_def using kept_dhcp_configure assms p by simp_all
  then have "P (snd (icmp_echo_send a (snd (snd d))))" for a by (intro ping)
  moreover have "\<forall>t\<in>set (fst (snd d)). t \<noteq> NOT 0" using d(2) assms(2) p by auto
  ultimately have "P (snd (echo_wait poll j u (fst (snd d)) (snd (icmp_echo_send a (snd (snd d)))))) \<and>
      set (fst (echo_wait poll j u (fst (snd d)) (snd (icmp_echo_send a (snd (snd d)))))) \<subseteq> set ts" for a j u
    using kept_echo_wait d(2) by (meson order_trans)
  then show ?thesis
    using assms(1) p d \<open>\<And>a. P (snd (icmp_echo_send a (snd (snd d))))\<close>
    by (auto simp: bring_up_one_def Let_def case_prod_beta dest: subsetD simp flip: d_def split: bool.splits)
qed

lemma kept_net_bring_up:
  assumes "P s" "\<forall>t\<in>set ts. t \<noteq> NOT 0"
  shows "P (snd (net_bring_up poll msg ts s))"
proof -
  have "P (snd p) \<Longrightarrow> \<forall>t\<in>set (fst p). t \<noteq> NOT 0 \<Longrightarrow> P (snd (fold (bring_up_one poll msg) is p))" for "is" p
  proof (induction "is" arbitrary: p)
    case (Cons i "is")
    show ?case
      using Cons.IH [of "bring_up_one poll msg i p"] kept_bring_up_one [OF Cons.prems, of msg i] Cons.prems(2)
      by auto
  qed simp
  then show ?thesis using assms by (simp add: net_bring_up_def)
qed

end

section \<open>A frame from a card\<close>

text \<open>
  What the virtio driver's \<^verbatim>\<open>net_poll\<close> does with one filled buffer: it was posted empty, the
  card wrote the frame at \<^verbatim>\<open>data\<close>, the length is cut to the largest frame, and an empty one
  goes back to the pool.
\<close>

definition card_frame :: "nat \<Rightarrow> u8 list \<Rightarrow> net \<Rightarrow> net" where
  "card_frame dev frame s =
     (case netbuf_alloc s of
        (None, s1) \<Rightarrow> s1
      | (Some b, s1) \<Rightarrow>
          if frame = [] then netbuf_free b s1
          else let f = take ETH_FRAME_MAX frame
               in netdev_receive dev (b\<lparr>nb_mem := store (nb_mem b) (nb_data b) f, nb_len := length f\<rparr>) s1)"

lemma netbuf_alloc_fresh:
  assumes "fst (netbuf_alloc s) = Some b"
  shows "nb_data b = NET_HEADROOM" "nb_len b = 0" "nb_capacity b = NET_BUF_CAPACITY"
  using assms by (auto simp: netbuf_alloc_def fresh_netbuf_def Let_def case_prod_beta split: list.splits if_splits)

lemma netdev_receive_sizes [simp]: "sizes (netdev_receive dev b s) = sizes s"
  by (simp add: netdev_receive_def Let_def)

lemma card_frame_ok:
  assumes "net_ok M s"
  shows "net_ok M (card_frame dev frame s)"
proof -
  have s1: "net_ok M (snd (netbuf_alloc s))" by (rule netbuf_alloc_ok [OF assms])
  have b: "buf_ok M b" "buf_ok M (b\<lparr>nb_mem := m, nb_len := length (take ETH_FRAME_MAX frame)\<rparr>)"
    if "fst (netbuf_alloc s) = Some b" for b m
  proof -
    show "buf_ok M b" using pool_alloc(2) [OF net_okD(1) [OF assms] that] .
    then show "buf_ok M (b\<lparr>nb_mem := m, nb_len := length (take ETH_FRAME_MAX frame)\<rparr>)"
      using netbuf_alloc_fresh [OF that] by (simp add: buf_ok_def nb_inv_def net_consts)
  qed
  show ?thesis
    using s1 b by (auto simp: card_frame_def Let_def case_prod_beta netbuf_free_ok netdev_receive_ok split: option.splits)
qed

lemma card_frame_sizes [simp]: "sizes (card_frame dev frame s) = sizes s"
  by (simp add: card_frame_def Let_def case_prod_beta split: option.splits)

lemma safe_card_frame [safe_ops]: "safe M s \<Longrightarrow> safe M (card_frame dev frame s)"
  by (rule safeI, assumption) (simp_all add: card_frame_ok safeD)

text \<open>The cards are polled as the virtio driver does it: each hands over the frames it has, which
  are \<open>arrivals i s\<close> for card \<open>i\<close> in state \<open>s\<close>, whatever the network makes of it.\<close>

definition card_poll :: "(nat \<Rightarrow> net \<Rightarrow> u8 list list) \<Rightarrow> nat \<Rightarrow> net \<Rightarrow> net" where
  "card_poll arrivals i s = fold (card_frame i) (arrivals i s) s"

lemma good_card_poll: "good_poll M (card_poll arrivals)"
proof -
  have "net_ok M (fold (card_frame i) fs s) \<and> sizes (fold (card_frame i) fs s) = sizes s" if "net_ok M s" for i fs s
    using that
  proof (induction fs arbitrary: s)
    case (Cons f fs)
    have "net_ok M (card_frame i f s)" by (rule card_frame_ok [OF Cons.prems])
    then show ?case using Cons.IH by simp
  qed simp
  then show ?thesis by (simp add: good_poll_def card_poll_def)
qed

interpretation safe_machine: stack_invariant "safe M" "card_poll arrivals" for M arrivals
  by unfold_locales (simp_all add: safe_ops good_card_poll)

lemma managed_owned:
  assumes "pmm_inv p" "a \<in> managed_pages p"
  shows "pmm_owns a p"
proof -
  obtain i where i: "i < total_pages p" "a = page_addr p i" "a \<noteq> 0"
    using assms(2) by (auto simp: managed_pages_def)
  then show ?thesis
    using page_index_page_addr [OF assms(1) i(1)] page_addr_ge_base [OF assms(1) i(1)] by (simp add: pmm_owns_def)
qed

section \<open>Start and events\<close>

text \<open>The tables as the kernel's image holds them: zero, but for the next echo identifier.\<close>

definition net_boot :: "pmm \<Rightarrow> net" where
  "net_boot p = \<lparr>net_pmm = p,
     net_nb = \<lparr>free_list = [], free_count = 0, nb_allocated = 0, nb_freed = 0, alloc_failed = 0,
       push_refused = 0, pull_refused = 0, put_refused = 0\<rparr>,
     net_dev = \<lparr>devices = [], rx_queue = [], rx_queued = 0, rx_overflow = 0, rx_serviced = 0,
       rx_drain_held = False, wire = []\<rparr>,
     net_eth = \<lparr>eth_rx_unknown_type = 0, eth_rx_not_for_us = 0, eth_rx_runt = 0\<rparr>,
     net_arp = \<lparr>arp_cache = replicate ARP_CACHE_SIZE
         \<lparr>ae_ip = 0, ae_mac = MAC_ZERO, ae_learned_ns = 0, ae_dev = 0, ae_valid = False\<rparr>,
       arp_requests_sent = 0, arp_replies_sent = 0, arp_replies_received = 0, arp_hits = 0,
       arp_misses = 0, arp_refused = 0\<rparr>,
     net_ip = \<lparr>ip_pending = replicate PENDING_MAX \<lparr>pd_buf = fresh_netbuf 0 (\<lambda>_. 0), pd_dev = 0,
         pd_next_hop = 0, pd_queued_ns = 0, pd_used = False\<rparr>,
       ip_id = 0, ip_tx_packets = 0, ip_tx_no_route = 0, ip_tx_pending = 0, ip_tx_pending_dropped = 0,
       ip_rx_packets = 0, ip_rx_bad_checksum = 0, ip_rx_bad_version = 0, ip_rx_short = 0,
       ip_rx_fragments = 0, ip_rx_not_for_us = 0, ip_rx_unknown_proto = 0\<rparr>,
     net_icmp = \<lparr>echoes = replicate ECHO_MAX \<lparr>e_id = 0, e_seq = 0, e_dst = 0, e_sent_ns = 0,
         e_replied_ns = 0, e_used = False, e_answered = False\<rparr>,
       icmp_next_id = 1, icmp_requests_sent = 0, icmp_replies_sent = 0, icmp_replies_received = 0,
       icmp_rx_short = 0, icmp_rx_bad_checksum = 0, icmp_rx_unknown_type = 0\<rparr>,
     net_udp = \<lparr>bindings = replicate UDP_PORTS_MAX \<lparr>ub_port = 0, ub_fn = Fn_null, ub_used = False\<rparr>,
       udp_tx_datagrams = 0, udp_tx_failed = 0, udp_rx_datagrams = 0, udp_rx_short = 0,
       udp_rx_bad_checksum = 0, udp_rx_no_port = 0\<rparr>,
     net_tcp = \<lparr>conns = replicate TCP_MAX_CONNECTIONS zero_conn, segments_sent = 0,
       segments_received = 0, retransmits = 0, tcp_rx_short = 0, tcp_rx_bad_checksum = 0,
       tcp_rx_no_connection = 0, tcp_rx_out_of_order = 0, connections_opened = 0,
       connections_reset = 0, receives_hint = 0\<rparr>,
     net_sock = \<lparr>sockets = replicate SOCKET_MAX zero_socket, sk_created = 0, sk_closed = 0,
       sk_sends = 0, sk_receives = 0\<rparr>,
     net_dhcp = \<lparr>dhcp_res = zero_result, dhcp_transaction = 0, dhcp_configuring = None,
       dhcp_sent = 0, dhcp_received = 0, dhcp_ignored = 0\<rparr>,
     now = 0, entropy = [], panicked = None\<rparr>"

text \<open>What can happen, in any order. A socket is named by its slot.\<close>

datatype net_event =
  Ev_frame nat "u8 list"
| Ev_service
| Ev_tick
| Ev_clock u64
| Ev_seed "u64 list"
| Ev_register string "(u8 list \<Rightarrow> bool) option" bool "mac_addr option"
| Ev_bring_up mem "u64 list"
| Ev_ping ipv4_addr
| Ev_create int
| Ev_bind nat ipv4_addr u16
| Ev_listen nat nat
| Ev_accept nat
| Ev_connect nat ipv4_addr u16
| Ev_sendto nat "u8 list" ipv4_addr u16
| Ev_send nat "u8 list"
| Ev_recvfrom nat nat
| Ev_recv nat nat
| Ev_close nat
| Ev_take_pages nat
| Ev_give_pages paddr nat

text \<open>The last two events are the rest of the kernel, which takes pages and gives pages back.\<close>

fun net_step :: "(nat \<Rightarrow> net \<Rightarrow> net) \<Rightarrow> net_event \<Rightarrow> net \<Rightarrow> net" where
  "net_step poll (Ev_frame dev f) s = card_frame dev f s"
| "net_step poll Ev_service s = ip_flush_pending (netdev_service poll s)"
| "net_step poll Ev_tick s = tcp_tick s"
| "net_step poll (Ev_clock t) s = s\<lparr>now := t\<rparr>"
| "net_step poll (Ev_seed ws) s = s\<lparr>entropy := entropy s @ ws\<rparr>"
| "net_step poll (Ev_register name tr po mac) s = snd (netdev_register name tr po mac s)"
| "net_step poll (Ev_bring_up msg clock) s = snd (net_bring_up poll msg clock s)"
| "net_step poll (Ev_ping dst) s = snd (icmp_echo_send dst s)"
| "net_step poll (Ev_create t) s = snd (socket_create t s)"
| "net_step poll (Ev_bind i a p) s = snd (socket_bind (Some i) a p s)"
| "net_step poll (Ev_listen i n) s = snd (socket_listen (Some i) n s)"
| "net_step poll (Ev_accept i) s = snd (socket_accept poll (Some i) s)"
| "net_step poll (Ev_connect i a p) s = snd (socket_connect (Some i) a p s)"
| "net_step poll (Ev_sendto i xs a p) s = snd (socket_sendto (Some i) xs a p s)"
| "net_step poll (Ev_send i xs) s = snd (socket_send (Some i) xs s)"
| "net_step poll (Ev_recvfrom i n) s = snd (socket_recvfrom poll (Some i) n s)"
| "net_step poll (Ev_recv i n) s = snd (socket_recv poll (Some i) n s)"
| "net_step poll (Ev_close i) s = socket_close (Some i) s"
| "net_step poll (Ev_take_pages n) s = s\<lparr>net_pmm := snd (pmm_alloc_pages n (net_pmm s))\<rparr>"
| "net_step poll (Ev_give_pages a n) s =
     (case pmm_free_pages a n (net_pmm s) of Inl msg \<Rightarrow> s | Inr p \<Rightarrow> s\<lparr>net_pmm := p\<rparr>)"

text \<open>The clock has not reached its last value, five hundred years after start, and a socket a
  program reads from or closes is one of the sixteen.\<close>

fun event_ok :: "net_event \<Rightarrow> bool" where
  "event_ok (Ev_clock t) = (t \<noteq> NOT 0)"
| "event_ok (Ev_bring_up msg clock) = (\<forall>t\<in>set clock. t \<noteq> NOT 0)"
| "event_ok (Ev_recvfrom i n) = (i < SOCKET_MAX)"
| "event_ok (Ev_recv i n) = (i < SOCKET_MAX)"
| "event_ok (Ev_close i) = (i < SOCKET_MAX)"
| "event_ok e = True"

definition net_run :: "(nat \<Rightarrow> net \<Rightarrow> net) \<Rightarrow> net_event list \<Rightarrow> net \<Rightarrow> net" where
  "net_run poll es s = fold (net_step poll) es s"

lemma safe_boot:
  assumes "pmm_inv p"
  shows "safe (managed_pages p) (net_boot p)"
proof -
  have "nb_wf (net_boot p)" using assms by (simp add: nb_wf_def net_boot_def FREE_KEEP_def)
  then show ?thesis
    by (simp add: safe_def net_ok_def pool_ok_def ip_bufs_def sock_bufs_def tcp_pages_def rx_bufs_def
        arp_times_def echo_times_def sizes_def net_boot_def ARP_CACHE_SIZE_def ECHO_MAX_def RX_QUEUE_MAX_def)
qed

lemma safe_register [safe_ops]: "safe M s \<Longrightarrow> safe M (snd (netdev_register name tr po mac s))"
  by (auto simp: netdev_register_def Let_def intro!: safe_ops)

lemma safe_seed: "safe M s \<Longrightarrow> safe M (s\<lparr>entropy := ws\<rparr>)"
  by (rule safeI, assumption) (auto simp: net_ok_def rx_bufs_def safe_def)

lemma safe_pmm:
  assumes "safe M s" "pmm_inv p" "managed_pages p = managed_pages (net_pmm s)"
  shows "safe M (s\<lparr>net_pmm := p\<rparr>)"
  by (rule safeI [OF assms(1)])
    (use safeD(1) [OF assms(1)] assms(2,3) in \<open>auto simp: net_ok_def rx_bufs_def pool_ok_def nb_wf_def\<close>)

lemma safe_others:
  assumes "safe M s"
  shows "safe M (net_step poll (Ev_take_pages n) s)" "safe M (net_step poll (Ev_give_pages a n) s)"
proof -
  have inv: "pmm_inv (net_pmm s)" using safeD(1) [OF assms] by (simp add: net_ok_def pool_ok_def nb_wf_def)
  have "pmm_inv q \<and> managed_pages q = managed_pages (net_pmm s)" if "pmm_alloc_pages n (net_pmm s) = (x, q)" for x q
    using inv that
  proof (cases rule: pmm_alloc_pages_cases)
    case (run st)
    then show ?thesis using managed_pages_cong [of q "net_pmm s"] by simp
  qed (simp add: inv)
  from this [OF surjective_pairing] show "safe M (net_step poll (Ev_take_pages n) s)"
    by (simp add: safe_pmm assms)
  have "managed_pages p = managed_pages (net_pmm s)" if "pmm_free_pages a n (net_pmm s) = Inr p" for p
    using that by (intro managed_pages_cong) (auto simp: pmm_free_pages_def Let_def split: if_splits)
  then show "safe M (net_step poll (Ev_give_pages a n) s)"
    using pmm_free_pages_inv [OF inv, of a n] by (auto simp: assms intro: safe_pmm split: sum.splits)
qed

lemma safe_step:
  assumes "safe M s" "event_ok e"
  shows "safe M (net_step (card_poll arrivals) e s)"
  using assms safe_others [OF assms(1)]
  by (cases e) (auto intro!: safe_ops good_card_poll safe_seed safe_machine.kept_net_bring_up simp del: net_step.simps(19,20))

lemma safe_run:
  assumes "safe M s" "\<forall>e\<in>set es. event_ok e"
  shows "safe M (net_run (card_poll arrivals) es s)"
  using assms unfolding net_run_def
  by (induction es arbitrary: s) (simp_all add: safe_step)

text \<open>Every state the machine gets into from start-up.\<close>

lemma machine_safe:
  assumes "pmm_reachable p" and "\<forall>e\<in>set es. event_ok e"
  shows "safe (managed_pages p) (net_run (card_poll arrivals) es (net_boot p))"
  by (rule safe_run [OF safe_boot [OF pmm_reachable_invariant [OF assms(1)]] assms(2)])

text \<open>On the machine with three free pages the first frame is queued.\<close>

lemma five_frame:
  assumes "five p {2, 3, 4} 0"
  shows "\<exists>b. rx_queue (net_dev (net_run (card_poll a) [Ev_frame 0 [7]] (net_boot p))) = [b]"
proof -
  have inv: "pmm_inv p" using assms by (simp add: five_def pmm_reachable_invariant)
  have "avail_pages p \<noteq> {}" using assms by (simp add: avail_pages_def five_def)
  then have "fst (pmm_alloc_page p) \<noteq> 0"
    using pages.alloc_none [OF inv] by (metis prod.collapse)
  then have "\<exists>b. fst (netbuf_alloc (net_boot p)) = Some b"
    by (simp add: netbuf_alloc_def alloc_page_def net_boot_def case_prod_beta Let_def)
  then show ?thesis
    by (auto simp: net_run_def card_frame_def case_prod_beta Let_def netdev_receive_def)
      (simp_all add: net_boot_def RX_QUEUE_MAX_def)
qed

section \<open>Properties\<close>

text \<open>C1: Nothing that can arrive on the wire and nothing a program can ask makes the network stack
  panic. From start-up on any page allocator state, for any cards, any frames of any content,
  any readings of the clock and any sequence of socket calls, interleaved in any order with
  the rest of the kernel taking and freeing pages, no panic of the page allocator is reached
  and no null pointer is followed.\<close>

theorem net_never_panics:
  assumes "pmm_reachable p" and "\<forall>e\<in>set es. event_ok e"
  shows "panicked (net_run (card_poll arrivals) es (net_boot p)) = None"
  using safeD(1) [OF machine_safe [OF assms]] by (simp add: net_ok_def pool_ok_def nb_wf_def)

text \<open>The theorem for a machine with five pages of memory that opens a socket, hears a frame and
  serves it.\<close>

theorem net_never_panics_witness:
  "\<exists>p. pmm_reachable p \<and> panicked (net_run (card_poll (\<lambda>i s. [[1, 2, 3]]))
    [Ev_register ''net0'' None True None, Ev_create 2, Ev_bind 0 0 68, Ev_frame 0 (replicate 60 255), Ev_service, Ev_close 0]
    (net_boot p)) = None"
proof -
  obtain s where "five s {2, 3, 4} 0" using five_start by blast
  then have r: "pmm_reachable s" by (simp add: five_def)
  have "panicked (net_run (card_poll (\<lambda>i s. [[1, 2, 3]]))
    [Ev_register ''net0'' None True None, Ev_create 2, Ev_bind 0 0 68, Ev_frame 0 (replicate 60 255), Ev_service, Ev_close 0]
    (net_boot s)) = None"
    by (rule net_never_panics [OF r]) (simp add: SOCKET_MAX_def)
  with r show ?thesis by blast
qed

text \<open>C18: In every state the stack gets into, every buffer that waits anywhere - in the receive
  queue, for an address, or in a socket - keeps its data inside its allocation, in a page
  that belongs to the page allocator.\<close>

theorem buffers_stay_in_allocation:
  assumes "pmm_reachable p" and "\<forall>e\<in>set es. event_ok e"
    and "s = net_run (card_poll arrivals) es (net_boot p)"
    and "b \<in> set (rx_queue (net_dev s)) \<or>
      (\<exists>q\<in>set (ip_pending (net_ip s)). pd_used q \<and> b = pd_buf q) \<or>
      (\<exists>k\<in>set (sockets (net_sock s)). \<exists>q\<in>set (s_queue k). dg_buf q = Some b)"
  shows "nb_data b + nb_len b \<le> NET_BUF_CAPACITY \<and> pmm_owns (nb_page b) (net_pmm s)"
proof -
  have ok: "net_ok (managed_pages p) s" unfolding assms(3) by (rule safeD(1) [OF machine_safe [OF assms(1,2)]])
  then have "buf_ok (managed_pages p) b" and inv: "pmm_inv (net_pmm s)" "managed_pages (net_pmm s) = managed_pages p"
    using assms(4) by (auto simp: net_ok_def rx_bufs_def ip_bufs_def sock_bufs_def sock_ok_def pool_ok_def nb_wf_def)
  then show ?thesis
    using managed_owned [OF inv(1), of "nb_page b"] by (simp add: buf_ok_def nb_inv_def)
qed

text \<open>The theorem for a frame that waits in the receive queue.\<close>

theorem buffers_stay_in_allocation_witness:
  "\<exists>p b. pmm_reachable p \<and> b \<in> set (rx_queue (net_dev (net_run (card_poll (\<lambda>i s. [])) [Ev_frame 0 [7]] (net_boot p))))
    \<and> nb_data b + nb_len b \<le> NET_BUF_CAPACITY"
proof -
  obtain p where p: "five p {2, 3, 4} 0" using five_start by blast
  then have r: "pmm_reachable p" by (simp add: five_def)
  obtain b where b: "rx_queue (net_dev (net_run (card_poll (\<lambda>i s. [])) [Ev_frame 0 [7]] (net_boot p))) = [b]"
    using five_frame [OF p] by blast
  have "nb_data b + nb_len b \<le> NET_BUF_CAPACITY \<and> pmm_owns (nb_page b)
      (net_pmm (net_run (card_poll (\<lambda>i s. [])) [Ev_frame 0 [7]] (net_boot p)))"
    by (rule buffers_stay_in_allocation [OF r _ refl]) (simp_all add: b)
  with r b show ?thesis by force
qed

text \<open>C19: In every state the stack gets into, every queue is within its bound and its count is
  right: the receive queue holds at most 64 frames and \<^verbatim>\<open>rx_queued\<close> is their number, a
  socket holds at most four datagrams, and the heads and lengths of both rings of every TCP
  connection are inside their pages.\<close>

theorem queues_within_bounds:
  assumes "pmm_reachable p" and "\<forall>e\<in>set es. event_ok e"
    and "s = net_run (card_poll arrivals) es (net_boot p)"
  shows "rx_queued (net_dev s) = length (rx_queue (net_dev s)) \<and> length (rx_queue (net_dev s)) \<le> 64 \<and>
    (\<forall>k\<in>set (sockets (net_sock s)). s_q_head k < 4 \<and> s_q_len k \<le> 4 \<and> length (s_queue k) = 4) \<and>
    (\<forall>c\<in>set (conns (net_tcp s)). tx_head c < 4096 \<and> tx_len c \<le> 4096 \<and> rx_head c < 4096 \<and> rx_len c \<le> 4096) \<and>
    length (conns (net_tcp s)) = 16 \<and> length (sockets (net_sock s)) = 16"
proof -
  note ok = machine_safe [OF assms(1,2), of arrivals, folded assms(3)]
  from net_okD [OF safeD(1) [OF ok]] safeD(3,5) [OF ok] show ?thesis
    by (auto simp: rx_bufs_def sock_bufs_def sock_ok_def dgrams_ok_def tcp_pages_def conn_ok_def rings_ok_def
        RX_QUEUE_MAX_def DGRAM_QUEUE_def TCP_BUFFER_SIZE_def TCP_MAX_CONNECTIONS_def SOCKET_MAX_def)
qed

text \<open>The theorem at the same machine, whose queue then holds one frame.\<close>

theorem queues_within_bounds_witness:
  "\<exists>p. pmm_reachable p \<and> rx_queued (net_dev (net_run (card_poll (\<lambda>i s. [])) [Ev_frame 0 [7]] (net_boot p))) = 1"
proof -
  obtain p where p: "five p {2, 3, 4} 0" using five_start by blast
  then have r: "pmm_reachable p" by (simp add: five_def)
  have "length (rx_queue (net_dev (net_run (card_poll (\<lambda>i s. [])) [Ev_frame 0 [7]] (net_boot p)))) = 1"
    using five_frame [OF p, of "\<lambda>i s. []"] by auto
  with queues_within_bounds [OF r _ refl, of "[Ev_frame 0 [7]]" "\<lambda>i s. []"] r show ?thesis by auto
qed

end
