(* ===== verification/Wire.thy ===== *)
theory Wire
  imports Stack
begin

text \<open>
  Headers on the wire: what each \<^verbatim>\<open>build\<close> writes is what the matching \<^verbatim>\<open>receive\<close> reads, and the
  checksums verify. The lemmas say what the fields of a written header read back as; the
  properties combine them per protocol.
\<close>

section \<open>Reading past other writes\<close>

named_theorems wire_simps

lemma get16_put16_other [wire_simps]: "p + 1 < q \<or> q + 1 < p \<Longrightarrow> net_get16 (net_put16 m q v) p = net_get16 m p"
  by (rule net_get16_cong) (auto simp: net_put16_def)

lemma get16_put32_other [wire_simps]: "p + 1 < q \<or> q + 3 < p \<Longrightarrow> net_get16 (net_put32 m q w) p = net_get16 m p"
  by (rule net_get16_cong) (auto simp: net_put32_def)

lemma get32_put16_other [wire_simps]: "p + 3 < q \<or> q + 1 < p \<Longrightarrow> net_get32 (net_put16 m q v) p = net_get32 m p"
  by (rule net_get32_cong) (auto simp: net_put16_def)

lemma get32_put32_other [wire_simps]: "p + 3 < q \<or> q + 3 < p \<Longrightarrow> net_get32 (net_put32 m q w) p = net_get32 m p"
  by (rule net_get32_cong) (auto simp: net_put32_def)

lemma get16_upd_other [wire_simps]: "p + 1 < q \<or> q < p \<Longrightarrow> net_get16 (m(q := x)) p = net_get16 m p"
  by (rule net_get16_cong) auto

lemma get32_upd_other [wire_simps]: "p + 3 < q \<or> q < p \<Longrightarrow> net_get32 (m(q := x)) p = net_get32 m p"
  by (rule net_get32_cong) auto

lemma get16_store_other [wire_simps]:
  "p + 1 < q \<or> q + length xs \<le> p \<Longrightarrow> net_get16 (store m q xs) p = net_get16 m p"
  by (rule net_get16_cong) (auto simp: store_nth)

lemma get32_store_other [wire_simps]:
  "p + 3 < q \<or> q + length xs \<le> p \<Longrightarrow> net_get32 (store m q xs) p = net_get32 m p"
  by (rule net_get32_cong) (auto simp: store_nth)

lemma bytes_put16_other [wire_simps]: "p + n \<le> q \<or> q + 1 < p \<Longrightarrow> bytes_at (net_put16 m q v) p n = bytes_at m p n"
  by (rule bytes_at_cong) (auto simp: net_put16_def)

lemma bytes_put32_other [wire_simps]: "p + n \<le> q \<or> q + 3 < p \<Longrightarrow> bytes_at (net_put32 m q w) p n = bytes_at m p n"
  by (rule bytes_at_cong) (auto simp: net_put32_def)

lemmas [wire_simps] = net_put16_other net_put32_other store_other bytes_at_store_other bytes_at_fun_upd_other

lemma unat_pseudo_sum_bound: "unat (net_checksum_partial ph 0 12 0) \<le> 393210"
  using unat_net_checksum_partial_0 [of 12 ph 0] words_sum_bound [of "bytes_at ph 0 12"] by simp

section \<open>IPv4\<close>

lemma ip_write_fields:
  fixes m h tot ident protocol src dst
  defines "m' \<equiv> ip_write m h tot ident protocol src dst"
  shows "m' h = 0x45" "net_get16 m' (h + 2) = of_nat tot" "net_get16 m' (h + 4) = ident" "net_get16 m' (h + 6) = 0"
    "m' (h + 8) = 64" "m' (h + 9) = protocol" "net_get32 m' (h + 12) = src" "net_get32 m' (h + 16) = dst"

  by (simp_all add: m'_def ip_write_def Let_def wire_simps IP_HDR_LEN_def add.commute)

lemma ip_write_other:
  "q < h \<or> h + 20 \<le> q \<Longrightarrow> ip_write m h tot ident protocol src dst q = m q"
  by (elim disjE) (simp_all add: ip_write_def Let_def wire_simps)

lemma ip_write_checksum: "net_checksum (ip_write m h tot ident protocol src dst) h 20 = 0"
proof -
  define m1 where "m1 = net_put32 (net_put32 (net_put16 (((net_put16 (net_put16 (net_put16
      ((m(h := push_bit 4 4 OR 5))(h + 1 := 0)) (h + 2) (of_nat tot)) (h + 4) ident) (h + 6) 0)
      (h + 8 := 64))(h + 9 := protocol)) (h + 10) 0) (h + 12) src) (h + 16) dst"
  have w: "ip_write m h tot ident protocol src dst = net_put16 m1 (h + 10) (net_checksum m1 h 20)"
    by (simp add: ip_write_def Let_def m1_def IP_HDR_LEN_def)
  have z: "net_get16 m1 (h + 10) = 0" by (simp add: m1_def wire_simps)
  show ?thesis
    using checksum_inserted [of m1 h 10 20 0, OF z] words_sum_fits [of 20 m1 h]
    by (simp add: w net_checksum_def)
qed

section \<open>UDP\<close>

lemma udp_write_fields:
  fixes m h sport dport len src dst
  defines "m' \<equiv> udp_write m h sport dport len src dst"
  shows "net_get16 m' h = sport" "net_get16 m' (h + 2) = dport" "net_get16 m' (h + 4) = of_nat (8 + len)"
    and "net_get16 m' (h + 6) \<noteq> 0"
  by (simp_all add: m'_def udp_write_def Let_def wire_simps UDP_HDR_LEN_def)

lemma udp_write_other:
  "q < h \<or> h + 8 \<le> q \<Longrightarrow> udp_write m h sport dport len src dst q = m q"
  by (elim disjE) (simp_all add: udp_write_def Let_def wire_simps)

lemma udp_write_checksum:
  assumes "len \<le> 65000"
  shows "net_checksum_finish (net_checksum_partial (udp_write m h sport dport len src dst) h (8 + len)
    (pseudo_sum src dst 17 (of_nat (8 + len)))) = 0"
proof -
  define m1 where "m1 = net_put16 (net_put16 (net_put16 (net_put16 m h sport) (h + 2) dport) (h + 4) (of_nat (8 + len))) (h + 6) 0"
  define acc where "acc = pseudo_sum src dst 17 (of_nat (8 + len))"
  define c where "c = net_checksum_finish (net_checksum_partial m1 h (8 + len) acc)"
  have w: "udp_write m h sport dport len src dst = net_put16 m1 (h + 6) (if c \<noteq> 0 then c else 0xFFFF)"
    by (simp add: udp_write_def Let_def m1_def c_def acc_def UDP_HDR_LEN_def)
  have z: "net_get16 m1 (h + 6) = 0" by (simp add: m1_def)
  have "unat acc \<le> 393210" unfolding acc_def pseudo_sum_def by (rule unat_pseudo_sum_bound)
  moreover have "words_sum (bytes_at m1 h (8 + len)) \<le> 65535 * ((8 + len + 1) div 2)"
    using words_sum_bound [of "bytes_at m1 h (8 + len)"] by simp
  moreover have "65535 * ((8 + len + 1) div 2) \<le> 65535 * 32505" using assms by (intro mult_le_mono2) linarith
  ultimately have "net_checksum_finish (net_checksum_partial (net_put16 m1 (h + 6) (if c \<noteq> 0 then c else 0xFFFF)) h (8 + len) acc) = 0"
    by (intro checksum_inserted [OF z]) (auto simp: c_def)
  then show ?thesis unfolding w acc_def .
qed

section \<open>TCP\<close>

lemma seg_write_fields:
  fixes m h c flags seq len
  defines "m' \<equiv> seg_write m h c flags seq len"
  shows "net_get16 m' h = c_local_port c" "net_get16 m' (h + 2) = c_remote_port c" "net_get32 m' (h + 4) = seq"
    "net_get32 m' (h + 8) = rcv_nxt c" "m' (h + 12) = 0x50" "m' (h + 13) = flags"
    "net_get16 m' (h + 14) = of_nat (rx_free c)"
  by (simp_all add: m'_def seg_write_def Let_def wire_simps TCP_HDR_LEN_def)

lemma seg_write_other:
  "q < h \<or> h + 20 \<le> q \<Longrightarrow> seg_write m h c flags seq len q = m q"
  by (elim disjE) (simp_all add: seg_write_def Let_def wire_simps)

lemma seg_write_checksum:
  assumes "len \<le> 65000"
  shows "net_checksum_finish (net_checksum_partial (seg_write m h c flags seq len) h (20 + len)
    (pseudo_sum_tcp (c_local_ip c) (c_remote_ip c) (of_nat (20 + len)))) = 0"
proof -
  define m1 where "m1 = net_put16 (net_put16 (net_put16 (((net_put32 (net_put32 (net_put16 (net_put16 m h (c_local_port c))
    (h + 2) (c_remote_port c)) (h + 4) seq) (h + 8) (rcv_nxt c))(h + 12 := push_bit 4 5))(h + 13 := flags))
    (h + 14) (of_nat (rx_free c))) (h + 16) 0) (h + 18) 0"
  define acc where "acc = pseudo_sum_tcp (c_local_ip c) (c_remote_ip c) (of_nat (20 + len))"
  define k where "k = net_checksum_finish (net_checksum_partial m1 h (20 + len) acc)"
  have w: "seg_write m h c flags seq len = net_put16 m1 (h + 16) k"
    by (simp add: seg_write_def Let_def m1_def k_def acc_def TCP_HDR_LEN_def)
  have z: "net_get16 m1 (h + 16) = 0" by (simp add: m1_def wire_simps)
  have "unat acc \<le> 393210" unfolding acc_def pseudo_sum_tcp_def by (rule unat_pseudo_sum_bound)
  moreover have "words_sum (bytes_at m1 h (20 + len)) \<le> 65535 * ((20 + len + 1) div 2)"
    using words_sum_bound [of "bytes_at m1 h (20 + len)"] by simp
  moreover have "65535 * ((20 + len + 1) div 2) \<le> 65535 * 32511" using assms by (intro mult_le_mono2) linarith
  ultimately have "net_checksum_finish (net_checksum_partial (net_put16 m1 (h + 16) k) h (20 + len) acc) = 0"
    by (intro checksum_inserted [OF z]) (auto simp: k_def)
  then show ?thesis unfolding w acc_def .
qed

end
