(* ===== verification/End_To_End.thy ===== *)
theory End_To_End
  imports Wire Sockets Tcp_Rings
begin

text \<open>
  From one machine to another: what \<^verbatim>\<open>udp_send\<close> and \<^verbatim>\<open>send_segment\<close> put on the wire, and that the
  receiving path of the same stack takes exactly that apart again. The sending half says
  which frame is appended to \<open>wire\<close>; the receiving half starts from any buffer that holds
  the bytes of that frame.
\<close>

section \<open>The sending path\<close>

lemma arp_lookup_known:
  assumes "fst (arp_lookup dev hop s) = Some mac"
  shows "net_dev (snd (arp_lookup dev hop s)) = net_dev s" "net_nb (snd (arp_lookup dev hop s)) = net_nb s"
    "net_pmm (snd (arp_lookup dev hop s)) = net_pmm s"
  using assms by (auto simp: arp_lookup_def case_prod_beta split: if_splits option.splits)

lemma arp_lookup_fst_cong:
  assumes "net_arp t = net_arp s" "now t = now s" "net_dev t = net_dev s"
  shows "fst (arp_lookup dev hop t) = fst (arp_lookup dev hop s)"
  using assms by (simp add: arp_lookup_def arp_consult_def the_dev_def case_prod_beta Let_def split: option.splits)

definition eth_write :: "mem \<Rightarrow> nat \<Rightarrow> mac_addr \<Rightarrow> mac_addr \<Rightarrow> u16 \<Rightarrow> mem" where
  "eth_write m h dst src type = net_put16 (store (store m h dst) (h + MAC_LEN) src) (h + 12) type"

lemma netdev_route_cong: "net_dev t = net_dev s \<Longrightarrow> netdev_route dst t = netdev_route dst s"
  by (simp add: netdev_route_def)

text \<open>A device that is up and whose driver takes the frame.\<close>

definition accepts :: "net_device \<Rightarrow> u8 list \<Rightarrow> bool" where
  "accepts d f \<longleftrightarrow> d_up d \<and> (\<exists>tr. d_transmit d = Some tr \<and> tr f)"

lemma eth_transmit_wire:
  assumes "nb_inv b" "14 \<le> nb_data b" "nb_len b + 14 \<le> 1518"
    and "M = eth_write (nb_mem b) (nb_data b - 14) dst (d_mac (the_dev s dev)) type"
    and "accepts (the_dev s dev) (bytes_at M (nb_data b - 14) (nb_len b + 14))"
  shows "fst (eth_transmit dev dst type b s)"
    and "wire (net_dev (snd (eth_transmit dev dst type b s))) =
      wire (net_dev s) @ [(dev, bytes_at M (nb_data b - 14) (nb_len b + 14))]"
proof -
  have push: "netbuf_push 14 b s = (Some (b\<lparr>nb_data := nb_data b - 14, nb_len := nb_len b + 14\<rparr>), s)"
    using assms(2,3) by (simp add: netbuf_push_def wrap32_small)
  obtain tr where tr: "d_up (the_dev s dev)" "d_transmit (the_dev s dev) = Some tr"
    "tr (bytes_at M (nb_data b - 14) (nb_len b + 14))" using assms(5) by (auto simp: accepts_def)
  have "eth_transmit dev dst type b s = netdev_transmit dev
      (b\<lparr>nb_data := nb_data b - 14, nb_len := nb_len b + 14, nb_mem := M\<rparr>) s"
    by (simp add: eth_transmit_def ETH_HDR_LEN_def push Let_def assms(4) eth_write_def)
  then show "fst (eth_transmit dev dst type b s)"
    "wire (net_dev (snd (eth_transmit dev dst type b s))) =
      wire (net_dev s) @ [(dev, bytes_at M (nb_data b - 14) (nb_len b + 14))]"
    using tr assms(3) by (simp_all add: netdev_transmit_def driver_transmit_def nb_bytes_def ETH_FRAME_MAX_def Let_def)
qed

text \<open>The frame that carries a transport packet: its memory, from 34 bytes before the packet.\<close>

definition ip_frame :: "mem \<Rightarrow> nat \<Rightarrow> nat \<Rightarrow> mac_addr \<Rightarrow> mac_addr \<Rightarrow> u16 \<Rightarrow> u8 \<Rightarrow> ipv4_addr \<Rightarrow> ipv4_addr \<Rightarrow> mem" where
  "ip_frame m h len dmac smac ident protocol src dst =
     eth_write (ip_write m (h - 20) (len + 20) ident protocol src dst) (h - 34) dmac smac ETH_TYPE_IPV4"

lemma ip_transmit_wire:
  assumes b: "nb_inv b" "34 \<le> nb_data b" "nb_len b \<le> 1480"
    and route: "netdev_route dst s = Some (dev, hop)" and arp: "fst (arp_lookup dev hop s) = Some mac"
    and F: "F = bytes_at (ip_frame (nb_mem b) (nb_data b) (nb_len b) mac (d_mac (the_dev s dev)) (ip_id (net_ip s) + 1)
      protocol (d_ip (the_dev s dev)) dst) (nb_data b - 34) (nb_len b + 34)"
    and up: "accepts (the_dev s dev) F"
  shows "fst (ip_transmit dst protocol b s)"
    and "wire (net_dev (snd (ip_transmit dst protocol b s))) = wire (net_dev s) @ [(dev, F)]"
proof -
  define s1 where "s1 = snd (ip_next_id s)"
  define b1 where "b1 = b\<lparr>nb_data := nb_data b - 20, nb_len := nb_len b + 20,
    nb_mem := ip_write (nb_mem b) (nb_data b - 20) (nb_len b + 20) (ip_id (net_ip s) + 1) protocol (d_ip (the_dev s dev)) dst\<rparr>"
  have build: "ip_build_header b dev dst protocol s = (Some b1, s1)"
    using b by (simp add: ip_build_header_def Let_def wrap32_small NET_MTU_def IP_HDR_LEN_def netbuf_push_def
        ip_next_id_def s1_def b1_def the_dev_def)
  have a: "fst (arp_lookup dev hop s1) = Some mac"
    using arp by (simp add: s1_def arp_lookup_fst_cong [of "snd (ip_next_id s)" s])
  define s2 where "s2 = net_ip_update (bump ip_tx_packets_update) (snd (arp_lookup dev hop s1))"
  have s2: "net_dev s2 = net_dev s" using arp_lookup_known(1) [OF a] by (simp add: s2_def s1_def)
  have tx: "ip_transmit dst protocol b s = eth_transmit dev mac ETH_TYPE_IPV4 b1 s2"
    using a by (simp add: ip_transmit_def route build ip_finish_send_def case_prod_beta s2_def)
  have b1: "nb_inv b1" "14 \<le> nb_data b1" "nb_len b1 + 14 \<le> 1518"
    using b by (simp_all add: b1_def nb_inv_def)
  have M: "ip_frame (nb_mem b) (nb_data b) (nb_len b) mac (d_mac (the_dev s dev)) (ip_id (net_ip s) + 1)
      protocol (d_ip (the_dev s dev)) dst =
    eth_write (nb_mem b1) (nb_data b1 - 14) mac (d_mac (the_dev s2 dev)) ETH_TYPE_IPV4"
    by (simp add: ip_frame_def b1_def the_dev_def s2)
  have F': "F = bytes_at (ip_frame (nb_mem b) (nb_data b) (nb_len b) mac (d_mac (the_dev s dev)) (ip_id (net_ip s) + 1)
      protocol (d_ip (the_dev s dev)) dst) (nb_data b1 - 14) (nb_len b1 + 14)"
    using F by (simp add: b1_def add.commute)
  show "fst (ip_transmit dst protocol b s)"
    "wire (net_dev (snd (ip_transmit dst protocol b s))) = wire (net_dev s) @ [(dev, F)]"
    using eth_transmit_wire [OF b1 M, folded F'] up unfolding tx by (simp_all add: the_dev_def s2)
qed

section \<open>The receiving path\<close>

text \<open>A buffer that holds the \<open>n\<close> bytes of a memory from \<open>h\<close> reads the same fields.\<close>

definition holds :: "netbuf \<Rightarrow> mem \<Rightarrow> nat \<Rightarrow> nat \<Rightarrow> bool" where
  "holds b m h n \<longleftrightarrow> nb_inv b \<and> nb_len b = n \<and> nb_bytes b = bytes_at m h n"

lemma holds_byte: "holds b m h n \<Longrightarrow> k < n \<Longrightarrow> nb_mem b (nb_data b + k) = m (h + k)"
  by (metis holds_def nb_bytes_def nth_bytes_at)

lemma holds_get16: "holds b m h n \<Longrightarrow> k + 1 < n \<Longrightarrow> net_get16 (nb_mem b) (nb_data b + k) = net_get16 m (h + k)"
  using holds_byte [of b m h n k] holds_byte [of b m h n "k + 1"] by (intro net_get16_cong) simp_all

lemma holds_get32: "holds b m h n \<Longrightarrow> k + 3 < n \<Longrightarrow> net_get32 (nb_mem b) (nb_data b + k) = net_get32 m (h + k)"
  using holds_byte [of b m h n k] holds_byte [of b m h n "k + 1"] holds_byte [of b m h n "k + 2"]
    holds_byte [of b m h n "k + 3"]
  by (intro net_get32_cong) (simp_all add: add.assoc)

lemma holds_bytes:
  assumes "holds b m h n" "k + j \<le> n"
  shows "bytes_at (nb_mem b) (nb_data b + k) j = bytes_at m (h + k) j"
  using assms holds_byte [OF assms(1)] by (intro bytes_at_cong) (simp add: add.assoc)

lemma holds_sum:
  assumes "holds b m h n" "j \<le> n"
  shows "net_checksum_partial (nb_mem b) (nb_data b) j acc = net_checksum_partial m h j acc"
  using holds_bytes [OF assms(1), of 0 j] assms(2) by (intro net_checksum_partial_cong) simp

lemma holds_at_0: "holds b m h n \<Longrightarrow> 0 < n \<Longrightarrow> nb_mem b (nb_data b) = m h"
  using holds_byte [of b m h n 0] by simp

lemma holds_get16_0: "holds b m h n \<Longrightarrow> 1 < n \<Longrightarrow> net_get16 (nb_mem b) (nb_data b) = net_get16 m h"
  using holds_get16 [of b m h n 0] by simp

lemmas holds_read = holds_byte holds_get16 holds_get32 holds_bytes holds_at_0 holds_get16_0

text \<open>Taking a header off.\<close>

lemma holds_pull:
  assumes "holds b m h n" "k \<le> n"
  shows "netbuf_pull k b s = (Some (b\<lparr>nb_data := nb_data b + k, nb_len := nb_len b - k\<rparr>), s)"
    and "holds (b\<lparr>nb_data := nb_data b + k, nb_len := nb_len b - k\<rparr>) m (h + k) (n - k)"
proof -
  have "nb_len b = n" using assms(1) by (simp add: holds_def)
  then show "netbuf_pull k b s = (Some (b\<lparr>nb_data := nb_data b + k, nb_len := nb_len b - k\<rparr>), s)"
    using assms(2) by (simp add: netbuf_pull_def)
  show "holds (b\<lparr>nb_data := nb_data b + k, nb_len := nb_len b - k\<rparr>) m (h + k) (n - k)"
    using assms by (auto simp: holds_def nb_inv_def nb_bytes_def drop_bytes_at dest: arg_cong [where f = "drop k"])
qed

lemma holds_updates [simp]:
  "holds (b\<lparr>nb_src_ip := x\<rparr>) m h n = holds b m h n" "holds (b\<lparr>nb_dst_ip := x\<rparr>) m h n = holds b m h n"
  "holds (b\<lparr>nb_src_port := y\<rparr>) m h n = holds b m h n" "holds (b\<lparr>nb_dst_port := y\<rparr>) m h n = holds b m h n"
  "holds (b\<lparr>nb_protocol := z\<rparr>) m h n = holds b m h n" "holds (b\<lparr>nb_dev := d\<rparr>) m h n = holds b m h n"
  by (simp_all add: holds_def nb_inv_def nb_bytes_def)

text \<open>The header fields of an IPv4 packet of \<open>tot\<close> bytes that the stack accepts.\<close>

definition ip_ok :: "mem \<Rightarrow> nat \<Rightarrow> nat \<Rightarrow> u8 \<Rightarrow> ipv4_addr \<Rightarrow> ipv4_addr \<Rightarrow> bool" where
  "ip_ok m h tot protocol src dst \<longleftrightarrow> m h = 0x45 \<and> net_get16 m (h + 2) = of_nat tot \<and> net_get16 m (h + 6) = 0 \<and>
     m (h + 9) = protocol \<and> net_get32 m (h + 12) = src \<and> net_get32 m (h + 16) = dst \<and> net_checksum m h 20 = 0"

lemma ip_ok_write: "ip_ok (ip_write m h tot ident protocol src dst) h tot protocol src dst"
  using ip_write_fields [of m h tot ident protocol src dst] ip_write_checksum by (simp add: ip_ok_def)

definition ip_strip :: "netbuf \<Rightarrow> u8 \<Rightarrow> ipv4_addr \<Rightarrow> ipv4_addr \<Rightarrow> netbuf" where
  "ip_strip b protocol src dst = b\<lparr>nb_data := nb_data b + 20, nb_len := nb_len b - 20,
     nb_src_ip := src, nb_dst_ip := dst, nb_protocol := protocol\<rparr>"

lemma ip_receive_takes:
  assumes b: "holds b m h (20 + n)" and ok: "ip_ok m h (20 + n) protocol src dst" and n: "n \<le> 1480"
    and us: "ip_for_us (the_dev s dev) dst" and p: "protocol \<in> {17, 6}"
  shows "ip_receive dev b s = (if protocol = 17 then udp_receive dev else tcp_receive dev)
    (ip_strip b protocol src dst) (net_ip_update (bump ip_rx_packets_update) s)"
proof -
  note f = ok [unfolded ip_ok_def]
  have rd: "nb_mem b (nb_data b) = 0x45" "net_get16 (nb_mem b) (nb_data b + 2) = of_nat (20 + n)"
    "net_get16 (nb_mem b) (nb_data b + 6) = 0" "nb_mem b (nb_data b + 9) = protocol"
    "net_get32 (nb_mem b) (nb_data b + 12) = src" "net_get32 (nb_mem b) (nb_data b + 16) = dst"
    using f holds_at_0 [OF b] holds_get16 [OF b, of 2] holds_get16 [OF b, of 6] holds_byte [OF b, of 9]
      holds_get32 [OF b, of 12] holds_get32 [OF b, of 16] by simp_all
  have sum: "net_checksum (nb_mem b) (nb_data b) 20 = 0"
    using f holds_sum [OF b, of 20 0] by (simp add: net_checksum_def)
  have len: "nb_len b = 20 + n" using b by (simp add: holds_def)
  have tot: "unat (20 + of_nat n :: u16) = 20 + n" using n unat_of_nat_u16 [of "20 + n"] by simp
  have hl: "unat (0x45 AND 0x0F :: u8) * 4 = 20" "drop_bit 4 (0x45 :: u8) = 4" by simp_all
  have "ip_receive dev b s = ip_deliver dev b 20 s"
    using rd sum len tot us by (simp add: ip_receive_def Let_def IP_HDR_LEN_def hl)
  also have "\<dots> = (if protocol = 17 then udp_receive dev else tcp_receive dev)
      (ip_strip b protocol src dst) (net_ip_update (bump ip_rx_packets_update) s)"
    using rd p holds_pull(1) [OF b, of 20 s] len by (auto simp: ip_deliver_def Let_def ip_strip_def)
  finally show ?thesis .
qed

lemma holds_ip_strip: "holds b m h (20 + n) \<Longrightarrow> holds (ip_strip b p src dst) m (h + 20) n"
  using holds_pull(2) [of b m h "20 + n" 20] by (simp add: ip_strip_def)

lemma eth_receive_takes:
  assumes b: "holds b m h (14 + n)" and mac: "bytes_at m h 6 = d_mac (the_dev s dev)"
    and type: "net_get16 m (h + 12) = ETH_TYPE_IPV4" and len: "length (d_mac (the_dev s dev)) = 6"
  shows "eth_receive dev b s = ip_receive dev (b\<lparr>nb_data := nb_data b + 14, nb_len := nb_len b - 14\<rparr>) s"
proof -
  have "bytes_at (nb_mem b) (nb_data b) 6 = d_mac (the_dev s dev)"
    using holds_bytes [OF b, of 0 6] mac by simp
  then have "mac_equal (bytes_at (nb_mem b) (nb_data b) 6) (d_mac (the_dev s dev))"
    by (simp add: mac_equal_def kmemcmp_eq_0_iff)
  moreover have "net_get16 (nb_mem b) (nb_data b + 12) = ETH_TYPE_IPV4" using holds_get16 [OF b, of 12] type by simp
  moreover have "nb_len b = 14 + n" using b by (simp add: holds_def)
  ultimately show ?thesis
    using holds_pull(1) [OF b, of 14 s] by (simp add: eth_receive_def ETH_HDR_LEN_def MAC_LEN_def Let_def)
qed

section \<open>UDP from end to end\<close>

lemma udp_payload_holds:
  assumes "fst (netbuf_alloc s) = Some b" "length data \<le> 1472"
  obtains b1 where "put_payload data b (snd (netbuf_alloc s)) = (Some b1, snd (netbuf_alloc s))"
    "nb_inv b1" "nb_data b1 = 192" "nb_len b1 = length data" "nb_bytes b1 = data"
proof (cases "data = []")
  case True
  show ?thesis
    by (rule that [of b]) (use assms True in
      \<open>auto simp: put_payload_def nb_inv_def nb_bytes_def netbuf_alloc_def fresh_netbuf_def net_consts Let_def case_prod_beta
        split: list.splits if_splits\<close>)
next
  case False
  have b: "nb_data b = 192" "nb_len b = 0" "nb_capacity b = NET_BUF_CAPACITY"
    using assms(1) by (auto simp: netbuf_alloc_def fresh_netbuf_def net_consts Let_def case_prod_beta split: list.splits if_splits)
  show ?thesis
  proof (rule that [of "b\<lparr>nb_len := length data, nb_mem := store (nb_mem b) 192 data\<rparr>"])
    show "put_payload data b (snd (netbuf_alloc s)) = (Some (b\<lparr>nb_len := length data, nb_mem := store (nb_mem b) 192 data\<rparr>), snd (netbuf_alloc s))"
      using False b assms(2) by (simp add: put_payload_def netbuf_put_def Let_def wrap32_small net_consts)
  qed (use b assms(2) in \<open>simp_all add: nb_inv_def nb_bytes_def net_consts\<close>)
qed

text \<open>The transport packet inside a frame, and the frame's own fields.\<close>

lemma ip_frame_inside:
  fixes m len dmac smac ident protocol src dst
  assumes "34 \<le> h" "length dmac = 6" "length smac = 6"
  defines "M \<equiv> ip_frame m h len dmac smac ident protocol src dst"
  shows "bytes_at M (h - 34) 6 = dmac" "net_get16 M (h - 34 + 12) = ETH_TYPE_IPV4"
    and "ip_ok M (h - 20) (20 + len) protocol src dst" "bytes_at M h n = bytes_at m h n"
proof -
  let ?ip = "ip_write m (h - 20) (len + 20) ident protocol src dst"
  have far: "M q = ?ip q" if "h - 20 \<le> q" for q
    using that assms(1-3) by (auto simp: M_def ip_frame_def eth_write_def net_put16_def store_nth MAC_LEN_def)
  show "bytes_at M (h - 34) 6 = dmac"
    using bytes_at_store [of ?ip "h - 34" dmac] assms(2)
    by (simp add: M_def ip_frame_def eth_write_def wire_simps MAC_LEN_def)
  show "net_get16 M (h - 34 + 12) = ETH_TYPE_IPV4" by (simp add: M_def ip_frame_def eth_write_def)
  have "net_checksum M (h - 20) 20 = net_checksum ?ip (h - 20) 20"
    unfolding net_checksum_def using far by (intro arg_cong [where f = net_checksum_finish] net_checksum_partial_cong bytes_at_cong) simp
  moreover have "net_get16 M (h - 20 + k) = net_get16 ?ip (h - 20 + k)" "net_get32 M (h - 20 + k) = net_get32 ?ip (h - 20 + k)" for k
    using far by (auto intro!: net_get16_cong net_get32_cong)
  ultimately show "ip_ok M (h - 20) (20 + len) protocol src dst"
    using ip_ok_write [of m "h - 20" "len + 20" ident protocol src dst] far
    by (simp add: ip_ok_def add.commute del: add_2_eq_Suc add_2_eq_Suc')
  show "bytes_at M h n = bytes_at m h n"
    using far assms(1) by (intro bytes_at_cong) (simp add: ip_write_other)
qed

definition udp_frame :: "mac_addr \<Rightarrow> mac_addr \<Rightarrow> u16 \<Rightarrow> ipv4_addr \<Rightarrow> ipv4_addr \<Rightarrow> u16 \<Rightarrow> u16 \<Rightarrow> mem \<Rightarrow> nat \<Rightarrow> mem" where
  "udp_frame dmac smac ident src dst sport dport m len =
     ip_frame (udp_write m 184 sport dport len src dst) 184 (len + 8) dmac smac ident 17 src dst"

lemma udp_send_wire:
  assumes len: "length data \<le> 1472" and route: "netdev_route dst s = Some (dev, hop)"
    and arp: "fst (arp_lookup dev hop s) = Some mac" and mem: "fst (netbuf_alloc s) \<noteq> None"
    and up: "\<And>f. accepts (the_dev s dev) f"
  obtains m where "bytes_at m 192 (length data) = data"
    and "fst (udp_send dst dport sport data s)"
    and "wire (net_dev (snd (udp_send dst dport sport data s))) = wire (net_dev s) @
      [(dev, bytes_at (udp_frame mac (d_mac (the_dev s dev)) (ip_id (net_ip s) + 1) (d_ip (the_dev s dev)) dst sport dport m (length data))
         150 (42 + length data))]"
proof -
  obtain b where b: "fst (netbuf_alloc s) = Some b" using mem by blast
  define s1 where "s1 = snd (netbuf_alloc s)"
  obtain b1 where b1: "put_payload data b s1 = (Some b1, s1)" "nb_inv b1" "nb_data b1 = 192" "nb_len b1 = length data" "nb_bytes b1 = data"
    using udp_payload_holds [OF b len] unfolding s1_def by blast
  define s2 where "s2 = net_udp_update (bump udp_tx_datagrams_update) s1"
  define b2 where "b2 = b1\<lparr>nb_data := 184, nb_len := length data + 8,
    nb_mem := udp_write (nb_mem b1) 184 sport dport (length data) (d_ip (the_dev s dev)) dst\<rparr>"
  have same: "the_dev s2 dev = the_dev s dev" "netdev_route dst s2 = Some (dev, hop)" "net_dev s2 = net_dev s" "net_ip s2 = net_ip s"
    "net_arp s2 = net_arp s" "now s2 = now s"
    using route netdev_route_cong [of s2 s dst] by (simp_all add: s2_def s1_def the_dev_def)
  have nd: "net_dev s1 = net_dev s" by (simp add: s1_def)
  have send: "udp_send dst dport sport data s = ip_transmit dst 17 b2 s2"
    using len b b1(1,3,4)
    by (simp add: udp_send_def net_consts route case_prod_beta Let_def netbuf_push_def wrap32_small b2_def s2_def the_dev_def nd
        flip: s1_def)
  have b2: "nb_inv b2" "34 \<le> nb_data b2" "nb_len b2 \<le> 1480"
    using len b1(2) by (simp_all add: b2_def nb_inv_def net_consts)
  have a: "fst (arp_lookup dev hop s2) = Some mac" using arp by (simp add: arp_lookup_fst_cong [OF same(5,6,3)])
  define F where "F = bytes_at (ip_frame (nb_mem b2) (nb_data b2) (nb_len b2) mac (d_mac (the_dev s2 dev)) (ip_id (net_ip s2) + 1) 17
      (d_ip (the_dev s2 dev)) dst) (nb_data b2 - 34) (nb_len b2 + 34)"
  have F: "F = bytes_at (udp_frame mac (d_mac (the_dev s dev)) (ip_id (net_ip s) + 1) (d_ip (the_dev s dev)) dst sport dport (nb_mem b1) (length data))
         150 (42 + length data)"
    unfolding F_def same(1,4) by (simp add: b2_def udp_frame_def add.commute)
  have tx: "fst (ip_transmit dst 17 b2 s2)" "wire (net_dev (snd (ip_transmit dst 17 b2 s2))) = wire (net_dev s2) @ [(dev, F)]"
    using ip_transmit_wire [OF b2 same(2) a F_def] up unfolding same(1) by blast+
  have "bytes_at (nb_mem b1) 192 (length data) = data" using b1(3-5) by (simp add: nb_bytes_def)
  then show ?thesis
    by (rule that) (simp_all only: send tx same(3) F)
qed

text \<open>The buffer a datagram ends up in.\<close>

definition udp_strip :: "netbuf \<Rightarrow> ipv4_addr \<Rightarrow> ipv4_addr \<Rightarrow> u16 \<Rightarrow> u16 \<Rightarrow> netbuf" where
  "udp_strip b src dst sport dport = b\<lparr>nb_data := nb_data b + 42, nb_len := nb_len b - 42, nb_src_ip := src,
     nb_dst_ip := dst, nb_protocol := 17, nb_src_port := sport, nb_dst_port := dport\<rparr>"

lemma udp_receive_takes:
  assumes b: "holds b m h (8 + n)" and n: "n \<le> 1472"
    and w: "net_get16 m h = sport" "net_get16 m (h + 2) = dport" "net_get16 m (h + 4) = of_nat (8 + n)"
    and sum: "net_checksum_finish (net_checksum_partial m h (8 + n) (pseudo_sum (nb_src_ip b) (nb_dst_ip b) 17 (of_nat (8 + n)))) = 0"
    and bound: "udp_find (bindings (net_udp s)) dport = Some j" "ub_fn (bindings (net_udp s) ! j) = fn"
  shows "udp_receive dev b s = call_udp_fn fn (b\<lparr>nb_src_port := sport, nb_dst_port := dport,
    nb_data := nb_data b + 8, nb_len := nb_len b - 8\<rparr>) s"
proof -
  have len: "nb_len b = 8 + n" using b by (simp add: holds_def)
  have dl: "unat (8 + of_nat n :: u16) = 8 + n" using n unat_of_nat_u16 [of "8 + n"] by simp
  have rd: "net_get16 (nb_mem b) (nb_data b) = sport" "net_get16 (nb_mem b) (nb_data b + 2) = dport"
    "net_get16 (nb_mem b) (nb_data b + 4) = of_nat (8 + n)"
    using w holds_get16_0 [OF b] holds_get16 [OF b, of 2] holds_get16 [OF b, of 4] by simp_all
  have s: "net_checksum_finish (net_checksum_partial (nb_mem b) (nb_data b) (8 + n)
      (pseudo_sum (nb_src_ip b) (nb_dst_ip b) 17 (8 + of_nat n))) = 0"
    using sum holds_sum [OF b, of "8 + n"] by simp
  have b': "holds (b\<lparr>nb_src_port := sport, nb_dst_port := dport\<rparr>) m h (8 + n)" using b by simp
  note pull = holds_pull(1) [OF b', of 8 s]
  show ?thesis
    using rd s len dl pull bound
    by (simp add: udp_receive_def UDP_HDR_LEN_def Let_def)
qed

lemma udp_frame_received:
  assumes b: "holds b (udp_frame dmac smac ident src dst sport dport m n) 150 (42 + n)" and n: "n \<le> 1472"
    and macs: "dmac = d_mac (the_dev r dev)" "length dmac = 6" "length smac = 6"
    and us: "ip_for_us (the_dev r dev) dst"
    and bound: "udp_find (bindings (net_udp r)) dport = Some j" "ub_fn (bindings (net_udp r) ! j) = fn"
  obtains b' where "nb_bytes b' = bytes_at m 192 n" "nb_src_ip b' = src" "nb_src_port b' = sport" "nb_dst_port b' = dport"
    and "eth_receive dev b r = call_udp_fn fn b' (net_ip_update (bump ip_rx_packets_update) r)"
proof -
  let ?M = "udp_frame dmac smac ident src dst sport dport m n"
  let ?U = "udp_write m 184 sport dport n src dst"
  note inside = ip_frame_inside [of 184 dmac smac ?U "n + 8" ident 17 src dst, folded udp_frame_def, simplified, OF macs(2,3)]
  have len: "nb_len b = 42 + n" using b by (simp add: holds_def)
  define b1 where "b1 = b\<lparr>nb_data := nb_data b + 14, nb_len := nb_len b - 14\<rparr>"
  have h1: "holds b1 ?M 164 (20 + (8 + n))"
    using holds_pull(2) [OF b, of 14] len by (simp add: b1_def)
  have e: "eth_receive dev b r = ip_receive dev b1 r"
    unfolding b1_def by (rule eth_receive_takes [of b ?M 150 "28 + n"])
      (use b inside macs in \<open>simp_all add: add.commute\<close>)
  define b2 where "b2 = ip_strip b1 17 src dst"
  have h2: "holds b2 ?M 184 (8 + n)" using holds_ip_strip [OF h1, of 17 src dst] by (simp add: b2_def)
  have i: "ip_receive dev b1 r = udp_receive dev b2 (net_ip_update (bump ip_rx_packets_update) r)"
    using ip_receive_takes [OF h1, of 17 src dst r dev] inside(3) us n by (simp add: b2_def add.commute)
  have agree: "bytes_at ?M 184 k = bytes_at ?U 184 k" for k by (rule inside(4))
  have byte: "?M (184 + k) = ?U (184 + k)" for k
    using arg_cong [OF agree [of "Suc k"], of "\<lambda>xs. xs ! k"] by simp
  have fields: "net_get16 ?M 184 = sport" "net_get16 ?M (184 + 2) = dport" "net_get16 ?M (184 + 4) = of_nat (8 + n)"
    "net_checksum_finish (net_checksum_partial ?M 184 (8 + n) (pseudo_sum src dst 17 (of_nat (8 + n)))) = 0"
  proof -
    have "net_get16 ?M (184 + k) = net_get16 ?U (184 + k)" for k
      using byte [of k] byte [of "k + 1"] by (intro net_get16_cong) simp_all
    from this [of 0] this [of 2] this [of 4] udp_write_fields [of m 184 sport dport n src dst]
    show "net_get16 ?M 184 = sport" "net_get16 ?M (184 + 2) = dport" "net_get16 ?M (184 + 4) = of_nat (8 + n)" by simp_all
    show "net_checksum_finish (net_checksum_partial ?M 184 (8 + n) (pseudo_sum src dst 17 (of_nat (8 + n)))) = 0"
      using udp_write_checksum [of n m 184 sport dport src dst] net_checksum_partial_cong [OF agree, of "8 + n"] n by simp
  qed
  define b3 where "b3 = b2\<lparr>nb_src_port := sport, nb_dst_port := dport, nb_data := nb_data b2 + 8, nb_len := nb_len b2 - 8\<rparr>"
  have u: "udp_receive dev b2 (net_ip_update (bump ip_rx_packets_update) r)
      = call_udp_fn fn b3 (net_ip_update (bump ip_rx_packets_update) r)"
    unfolding b3_def by (rule udp_receive_takes [OF h2 n fields(1-3)])
      (use fields(4) bound in \<open>simp_all add: b2_def ip_strip_def\<close>)
  have "holds b3 ?M (184 + 8) (8 + n - 8)"
    using holds_pull(2) [of "b2\<lparr>nb_src_port := sport, nb_dst_port := dport\<rparr>" ?M 184 "8 + n" 8] h2 by (simp add: b3_def)
  then have "nb_bytes b3 = bytes_at ?M 192 n" by (simp add: holds_def)
  also have "\<dots> = bytes_at ?U 192 n"
    using byte [of "8 + k" for k] by (intro bytes_at_cong) (simp add: add.assoc [symmetric])
  also have "\<dots> = bytes_at m 192 n" by (intro bytes_at_cong) (simp add: udp_write_other)
  finally have "nb_bytes b3 = bytes_at m 192 n" .
  then show ?thesis
    by (rule that) (simp_all add: b3_def b2_def ip_strip_def e i u [unfolded b3_def b2_def ip_strip_def])
qed

section \<open>TCP from end to end\<close>

definition seg_frame :: "mac_addr \<Rightarrow> mac_addr \<Rightarrow> u16 \<Rightarrow> ipv4_addr \<Rightarrow> tcp_conn \<Rightarrow> u8 \<Rightarrow> u32 \<Rightarrow> mem \<Rightarrow> nat \<Rightarrow> mem" where
  "seg_frame dmac smac ident src c flags seq m len =
     ip_frame (seg_write m 172 c flags seq len) 172 (len + 20) dmac smac ident 6 src (c_remote_ip c)"

text \<open>What the far end should take a segment for.\<close>

definition sent_segment :: "tcp_conn \<Rightarrow> u8 \<Rightarrow> u32 \<Rightarrow> u8 list \<Rightarrow> segment" where
  "sent_segment c flags seq payload = \<lparr>g_src = c_local_ip c, g_dst = c_remote_ip c, g_sport = c_local_port c,
     g_dport = c_remote_port c, g_seq = seq, g_ack = rcv_nxt c, g_flags = flags, g_wnd = of_nat (rx_free c),
     g_payload = payload\<rparr>"

lemma send_segment_wire:
  assumes len: "length payload \<le> 1460" and route: "netdev_route (c_remote_ip c) s = Some (dev, hop)"
    and arp: "fst (arp_lookup dev hop s) = Some mac" and mem: "fst (netbuf_alloc s) \<noteq> None"
    and up: "\<And>f. accepts (the_dev s dev) f"
  obtains m where "bytes_at m 192 (length payload) = payload"
    and "fst (send_segment c flags seq payload s)"
    and "wire (net_dev (snd (send_segment c flags seq payload s))) = wire (net_dev s) @
      [(dev, bytes_at (seg_frame mac (d_mac (the_dev s dev)) (ip_id (net_ip s) + 1) (d_ip (the_dev s dev)) c flags seq m (length payload))
         138 (54 + length payload))]"
proof -
  have put: "put_payload = seg_payload" by (intro ext) (simp add: put_payload_def seg_payload_def)
  obtain b where b: "fst (netbuf_alloc s) = Some b" using mem by blast
  define s1 where "s1 = snd (netbuf_alloc s)"
  have "length payload \<le> 1472" using len by simp
  from udp_payload_holds [OF b this] obtain b1 where b1: "seg_payload payload b s1 = (Some b1, s1)" "nb_inv b1"
    "nb_data b1 = 192" "nb_len b1 = length payload" "nb_bytes b1 = payload"
    unfolding s1_def put by blast
  define s2 where "s2 = net_tcp_update (bump segments_sent_update) s1"
  define b2 where "b2 = b1\<lparr>nb_data := 172, nb_len := length payload + 20,
    nb_mem := seg_write (nb_mem b1) 172 c flags seq (length payload)\<rparr>"
  have same: "the_dev s2 dev = the_dev s dev" "netdev_route (c_remote_ip c) s2 = Some (dev, hop)" "net_dev s2 = net_dev s"
    "net_ip s2 = net_ip s" "net_arp s2 = net_arp s" "now s2 = now s"
    using route netdev_route_cong [of s2 s "c_remote_ip c"] by (simp_all add: s2_def s1_def the_dev_def)
  have send: "send_segment c flags seq payload s = ip_transmit (c_remote_ip c) 6 b2 s2"
    using len b b1(1,3,4)
    by (simp add: send_segment_def net_consts case_prod_beta Let_def netbuf_push_def wrap32_small b2_def s2_def flip: s1_def)
  have b2: "nb_inv b2" "34 \<le> nb_data b2" "nb_len b2 \<le> 1480"
    using len b1(2) by (simp_all add: b2_def nb_inv_def net_consts)
  have a: "fst (arp_lookup dev hop s2) = Some mac" using arp by (simp add: arp_lookup_fst_cong [OF same(5,6,3)])
  define F where "F = bytes_at (ip_frame (nb_mem b2) (nb_data b2) (nb_len b2) mac (d_mac (the_dev s2 dev)) (ip_id (net_ip s2) + 1) 6
      (d_ip (the_dev s2 dev)) (c_remote_ip c)) (nb_data b2 - 34) (nb_len b2 + 34)"
  have F: "F = bytes_at (seg_frame mac (d_mac (the_dev s dev)) (ip_id (net_ip s) + 1) (d_ip (the_dev s dev)) c flags seq (nb_mem b1) (length payload))
         138 (54 + length payload)"
    unfolding F_def same(1,4) by (simp add: b2_def seg_frame_def add.commute)
  have tx: "fst (ip_transmit (c_remote_ip c) 6 b2 s2)"
    "wire (net_dev (snd (ip_transmit (c_remote_ip c) 6 b2 s2))) = wire (net_dev s2) @ [(dev, F)]"
    using ip_transmit_wire [OF b2 same(2) a F_def] up unfolding same(1) by blast+
  have "bytes_at (nb_mem b1) 192 (length payload) = payload" using b1(3-5) by (simp add: nb_bytes_def)
  then show ?thesis
    by (rule that) (simp_all only: send tx same(3) F)
qed

lemma tcp_receive_takes:
  assumes b: "holds b m h (20 + n)" and n: "n \<le> 1460"
    and w: "net_get16 m h = c_local_port c" "net_get16 m (h + 2) = c_remote_port c" "net_get32 m (h + 4) = seq"
      "net_get32 m (h + 8) = rcv_nxt c" "m (h + 12) = 0x50" "m (h + 13) = flags" "net_get16 m (h + 14) = of_nat (rx_free c)"
    and sum: "net_checksum_finish (net_checksum_partial m h (20 + n) (pseudo_sum_tcp (nb_src_ip b) (nb_dst_ip b) (of_nat (20 + n)))) = 0"
    and ips: "nb_src_ip b = c_local_ip c" "nb_dst_ip b = c_remote_ip c" and p: "bytes_at m (h + 20) n = payload"
  shows "tcp_receive dev b s = netbuf_free b (tcp_segment (sent_segment c flags seq payload) (net_tcp_update (bump segments_received_update) s))"
proof -
  have len: "nb_len b = 20 + n" using b by (simp add: holds_def)
  have rd: "net_get16 (nb_mem b) (nb_data b) = c_local_port c" "net_get16 (nb_mem b) (nb_data b + 2) = c_remote_port c"
    "net_get32 (nb_mem b) (nb_data b + 4) = seq" "net_get32 (nb_mem b) (nb_data b + 8) = rcv_nxt c"
    "nb_mem b (nb_data b + 12) = 0x50" "nb_mem b (nb_data b + 13) = flags"
    "net_get16 (nb_mem b) (nb_data b + 14) = of_nat (rx_free c)" "bytes_at (nb_mem b) (nb_data b + 20) n = payload"
    using w p holds_get16_0 [OF b] holds_get16 [OF b, of 2] holds_get32 [OF b, of 4] holds_get32 [OF b, of 8]
      holds_byte [OF b, of 12] holds_byte [OF b, of 13] holds_get16 [OF b, of 14] holds_bytes [OF b, of 20 n] by simp_all
  have s: "net_checksum_finish (net_checksum_partial (nb_mem b) (nb_data b) (20 + n)
      (pseudo_sum_tcp (nb_src_ip b) (nb_dst_ip b) (20 + of_nat n))) = 0"
    using sum holds_sum [OF b, of "20 + n"] by simp
  have hl: "unat (drop_bit 4 (0x50 :: u8)) * 4 = 20" by simp
  have parse: "tcp_parse b = sent_segment c flags seq payload"
    using rd len ips by (simp add: tcp_parse_def sent_segment_def Let_def hl del: add_2_eq_Suc')
  show ?thesis
    using rd s len by (simp add: tcp_receive_def Let_def hl TCP_HDR_LEN_def parse)
qed

lemma seg_frame_received:
  assumes b: "holds b (seg_frame dmac smac ident src c flags seq m n) 138 (54 + n)" and n: "n \<le> 1460"
    and macs: "dmac = d_mac (the_dev r dev)" "length dmac = 6" "length smac = 6"
    and us: "ip_for_us (the_dev r dev) (c_remote_ip c)" and src: "src = c_local_ip c"
  obtains b' where "nb_inv b'" "nb_page b' = nb_page b"
    and "eth_receive dev b r = netbuf_free b' (tcp_segment (sent_segment c flags seq (bytes_at m 192 n))
      (net_tcp_update (bump segments_received_update) (net_ip_update (bump ip_rx_packets_update) r)))"
proof -
  let ?M = "seg_frame dmac smac ident src c flags seq m n"
  let ?U = "seg_write m 172 c flags seq n"
  note inside = ip_frame_inside [of 172 dmac smac ?U "n + 20" ident 6 src "c_remote_ip c", folded seg_frame_def, simplified, OF macs(2,3)]
  have len: "nb_len b = 54 + n" using b by (simp add: holds_def)
  define b1 where "b1 = b\<lparr>nb_data := nb_data b + 14, nb_len := nb_len b - 14\<rparr>"
  have h1: "holds b1 ?M 152 (20 + (20 + n))"
    using holds_pull(2) [OF b, of 14] len by (simp add: b1_def)
  have e: "eth_receive dev b r = ip_receive dev b1 r"
    unfolding b1_def by (rule eth_receive_takes [of b ?M 138 "40 + n"])
      (use b inside macs in \<open>simp_all add: add.commute\<close>)
  define b2 where "b2 = ip_strip b1 6 src (c_remote_ip c)"
  have h2: "holds b2 ?M 172 (20 + n)" using holds_ip_strip [OF h1, of 6 src "c_remote_ip c"] by (simp add: b2_def)
  have ok: "ip_ok ?M 152 (20 + (20 + n)) 6 src (c_remote_ip c)" using inside(3) by (simp add: add.commute)
  have ne: "(6 :: u8) \<noteq> 17" by simp
  have i: "ip_receive dev b1 r = tcp_receive dev b2 (net_ip_update (bump ip_rx_packets_update) r)"
    using ip_receive_takes [OF h1 ok _ us] n ne unfolding b2_def by simp
  have agree: "bytes_at ?M 172 k = bytes_at ?U 172 k" for k by (rule inside(4))
  have byte: "?M (172 + k) = ?U (172 + k)" for k
    using arg_cong [OF agree [of "Suc k"], of "\<lambda>xs. xs ! k"] by simp
  have g16: "net_get16 ?M (172 + k) = net_get16 ?U (172 + k)" and g32: "net_get32 ?M (172 + k) = net_get32 ?U (172 + k)" for k
    using byte [of k] byte [of "k + 1"] byte [of "k + 2"] byte [of "k + 3"]
    by (auto intro!: net_get16_cong net_get32_cong)
  note f = seg_write_fields [of m 172 c flags seq n]
  have sum: "net_checksum_finish (net_checksum_partial ?M 172 (20 + n)
      (pseudo_sum_tcp (nb_src_ip b2) (nb_dst_ip b2) (of_nat (20 + n)))) = 0"
    using seg_write_checksum [of n m 172 c flags seq] net_checksum_partial_cong [OF agree, of "20 + n"] n
    by (simp add: b2_def ip_strip_def src)
  have "bytes_at ?M 192 n = bytes_at ?U 192 n"
    using byte [of "20 + k" for k] by (intro bytes_at_cong) (simp add: add.assoc [symmetric])
  also have "\<dots> = bytes_at m 192 n" by (intro bytes_at_cong) (simp add: seg_write_other)
  finally have p: "bytes_at ?M (172 + 20) n = bytes_at m 192 n" by simp
  have t: "tcp_receive dev b2 (net_ip_update (bump ip_rx_packets_update) r) = netbuf_free b2
    (tcp_segment (sent_segment c flags seq (bytes_at m 192 n)) (net_tcp_update (bump segments_received_update) (net_ip_update (bump ip_rx_packets_update) r)))"
    by (rule tcp_receive_takes [OF h2 n])
      (use g16 [of 0] g16 [of 2] g32 [of 4] g32 [of 8] byte [of 12] byte [of 13] g16 [of 14] f p sum in
        \<open>simp_all add: b2_def ip_strip_def src\<close>)
  show ?thesis
  proof (rule that)
    show "nb_inv b2" using h2 by (simp add: holds_def)
    show "nb_page b2 = nb_page b" by (simp add: b2_def b1_def ip_strip_def)
  qed (simp only: e i t)
qed

end
