(* ===== verification/Delivery.thy ===== *)
theory Delivery
  imports End_To_End Machine
begin

text \<open>
  The stack against itself: what one machine sends, another receives. Two machines of one card
  each are set up first; the two theorems over the frame on the wire follow.
\<close>

section \<open>Two small machines\<close>

text \<open>For the examples: a machine with one card, one known neighbour and one buffer in the pool.\<close>

definition small_dev :: "u8 \<Rightarrow> ipv4_addr \<Rightarrow> net_device" where
  "small_dev x ip = \<lparr>d_name = ''net0'', d_mac = [2, 0, 0, 0, 0, x], d_ip = ip, d_netmask = 0xFFFFFF00,
     d_gateway = 0, d_mtu = 1500, d_up = True, d_transmit = Some (\<lambda>_. True), d_poll = True,
     d_rx_packets = 0, d_rx_bytes = 0, d_rx_dropped = 0, d_rx_errors = 0, d_tx_packets = 0, d_tx_bytes = 0,
     d_tx_dropped = 0, d_tx_errors = 0\<rparr>"

definition small_pmm :: pmm where
  "small_pmm = \<lparr>bitmap = (\<lambda>_. 0), bitmap_bytes = 1, total_pages = 5, usable_pages = 3, free_pages = 0,
     base_paddr = 0, bitmap_base = 4096, search_hint = 0, ram = (\<lambda>_. 0)\<rparr>"

definition small_net :: "u8 \<Rightarrow> ipv4_addr \<Rightarrow> u8 \<Rightarrow> ipv4_addr \<Rightarrow> net" where
  "small_net x ip y peer =
     (let s = net_boot small_pmm in
      s\<lparr>net_nb := (net_nb s)\<lparr>free_list := [fresh_netbuf 8192 (\<lambda>_. 0)], free_count := 1\<rparr>,
        net_dev := (net_dev s)\<lparr>devices := [small_dev x ip]\<rparr>,
        net_arp := (net_arp s)\<lparr>arp_cache := [\<lparr>ae_ip = peer, ae_mac = [2, 0, 0, 0, 0, y], ae_learned_ns = 0, ae_dev = 0, ae_valid = True\<rparr>]\<rparr>\<rparr>)"

lemma small_net_ready:
  "netdev_route 0x0A000002 (small_net 1 0x0A000001 2 0x0A000002) = Some (0, 0x0A000002)"
  "fst (arp_lookup 0 0x0A000002 (small_net 1 0x0A000001 2 0x0A000002)) = Some [2, 0, 0, 0, 0, 2]"
  "fst (netbuf_alloc (small_net x ip y peer)) \<noteq> None"
  "the_dev (small_net x ip y peer) 0 = small_dev x ip"
  "accepts (small_dev x ip) f" "length (d_mac (small_dev x ip)) = 6" "ip_for_us (small_dev x ip) ip"
  "d_mac (small_dev x ip) = [2, 0, 0, 0, 0, x]" "d_ip (small_dev x ip) = ip"
  by (simp_all add: small_net_def small_dev_def netdev_route_def arp_lookup_def arp_consult_def arp_is_broadcast_def
      arp_find_def net_boot_def the_dev_def netbuf_alloc_def Let_def accepts_def ip_for_us_def ARP_TTL_NS_def)

section \<open>Delivery\<close>

text \<open>C4: A datagram sent on one machine is received on another. If \<^verbatim>\<open>udp_send\<close> has a route, knows
  the hardware address, gets a buffer and the driver takes the frame, then exactly one frame
  appears on the wire; and whatever buffer that frame is received into, a machine with the
  destination's hardware and protocol address and a datagram socket bound to the port, with
  room in its queue, appends to it a buffer with exactly the bytes that were sent, the
  sender's address and the sender's port. Every header field, length and checksum on the way
  is built and checked by the code's own functions.\<close>

theorem udp_datagram_delivered:
  assumes "length data \<le> 1472" and "netdev_route dst s = Some (dev, hop)"
    and "fst (arp_lookup dev hop s) = Some (d_mac (the_dev r rdev))" and "fst (netbuf_alloc s) \<noteq> None"
    and "\<And>f. accepts (the_dev s dev) f"
    and "length (d_mac (the_dev s dev)) = 6" "length (d_mac (the_dev r rdev)) = 6" "ip_for_us (the_dev r rdev) dst"
    and "udp_find (bindings (net_udp r)) dport = Some j" "ub_fn (bindings (net_udp r) ! j) = Fn_udp_arrived i"
    and "i < length (sockets (net_sock r))" "dgrams_ok (the_sock r i)" "s_q_len (the_sock r i) < DGRAM_QUEUE"
  shows "\<exists>frame. fst (udp_send dst dport sport data s) \<and>
    wire (net_dev (snd (udp_send dst dport sport data s))) = wire (net_dev s) @ [(dev, frame)] \<and>
    (\<forall>b. nb_inv b \<longrightarrow> nb_bytes b = frame \<longrightarrow>
      (\<exists>b'. nb_bytes b' = data \<and> nb_src_ip b' = d_ip (the_dev s dev) \<and> nb_src_port b' = sport \<and>
        dgram_list (the_sock (eth_receive rdev b r) i) = dgram_list (the_sock r i) @ [b']))"
proof -
  let ?mac = "d_mac (the_dev r rdev)" and ?n = "length data"
  obtain m where m: "bytes_at m 192 ?n = data" and sent: "fst (udp_send dst dport sport data s)"
    and w: "wire (net_dev (snd (udp_send dst dport sport data s))) = wire (net_dev s) @
      [(dev, bytes_at (udp_frame ?mac (d_mac (the_dev s dev)) (ip_id (net_ip s) + 1) (d_ip (the_dev s dev)) dst sport dport m ?n)
         150 (42 + ?n))]"
    using udp_send_wire [OF assms(1-5)] by metis
  let ?M = "udp_frame ?mac (d_mac (the_dev s dev)) (ip_id (net_ip s) + 1) (d_ip (the_dev s dev)) dst sport dport m ?n"
  have "\<exists>b'. nb_bytes b' = data \<and> nb_src_ip b' = d_ip (the_dev s dev) \<and> nb_src_port b' = sport \<and>
        dgram_list (the_sock (eth_receive rdev b r) i) = dgram_list (the_sock r i) @ [b']"
    if "nb_inv b" "nb_bytes b = bytes_at ?M 150 (42 + ?n)" for b
  proof -
    have "nb_len b = 42 + ?n" using arg_cong [OF that(2), of length] by simp
    with that have h: "holds b ?M 150 (42 + ?n)" by (simp add: holds_def)
    obtain b' where b': "nb_bytes b' = bytes_at m 192 ?n" "nb_src_ip b' = d_ip (the_dev s dev)" "nb_src_port b' = sport"
      and e: "eth_receive rdev b r = call_udp_fn (Fn_udp_arrived i) b' (net_ip_update (bump ip_rx_packets_update) r)"
      using udp_frame_received [OF h assms(1) refl assms(7,6,8-10)] by metis
    have "the_sock (eth_receive rdev b r) i = dgram_put b' (the_sock r i)"
      using assms(11,13) unfolding e
      by (simp add: call_udp_fn_def udp_arrived_def upd_sock_def the_sock_def)
    then show ?thesis
      using b' m dg.push_elems [OF assms(12,13), of b'] by auto
  qed
  with sent w show ?thesis by blast
qed

text \<open>The theorem for two machines on one wire and the seven bytes \<^verbatim>\<open>reconos\<close>.\<close>

definition small_bound :: "u8 \<Rightarrow> ipv4_addr \<Rightarrow> u16 \<Rightarrow> net" where
  "small_bound x ip port =
     (let s = small_net x ip 1 0x0A000001 in
      s\<lparr>net_udp := (net_udp s)\<lparr>bindings := [\<lparr>ub_port = port, ub_fn = Fn_udp_arrived 0, ub_used = True\<rparr>]\<rparr>\<rparr>)"

theorem udp_datagram_delivered_witness:
  "\<exists>frame. wire (net_dev (snd (udp_send 0x0A000002 7777 4444 [114, 101, 99, 111, 110, 111, 115] (small_net 1 0x0A000001 2 0x0A000002)))) = [(0, frame)] \<and>
    (\<forall>b. nb_inv b \<longrightarrow> nb_bytes b = frame \<longrightarrow>
      (\<exists>b'. nb_bytes b' = [114, 101, 99, 111, 110, 111, 115] \<and> nb_src_ip b' = 0x0A000001 \<and> nb_src_port b' = 4444 \<and>
        dgram_list (the_sock (eth_receive 0 b (small_bound 2 0x0A000002 7777)) 0) = [b']))"
proof -
  let ?s = "small_net 1 0x0A000001 2 0x0A000002" and ?r = "small_bound 2 0x0A000002 7777"
  have r: "the_dev ?r 0 = small_dev 2 0x0A000002" "udp_find (bindings (net_udp ?r)) 7777 = Some 0"
    "ub_fn (bindings (net_udp ?r) ! 0) = Fn_udp_arrived 0" "0 < length (sockets (net_sock ?r))" "the_sock ?r 0 = zero_socket"
    by (simp_all add: small_bound_def small_net_def the_dev_def udp_find_def the_sock_def net_boot_def Let_def SOCKET_MAX_def)
  have z: "dgrams_ok zero_socket" "s_q_len zero_socket < DGRAM_QUEUE" "dgram_list zero_socket = []"
    by (simp_all add: dgrams_ok_def dgram_list_def dgram_ring_def zero_socket_def DGRAM_QUEUE_def)
  have w: "wire (net_dev ?s) = []" by (simp add: small_net_def net_boot_def Let_def)
  show ?thesis
    using udp_datagram_delivered [of "[114, 101, 99, 111, 110, 111, 115]" "0x0A000002" ?s 0 "0x0A000002" ?r 0 7777 0 0 4444]
      small_net_ready r z w by simp
qed



end
