(* ===== verification/Tcp_States.thy ===== *)
theory Tcp_States
  imports Tcp_Rings
begin

text \<open>
  The state machine of a TCP connection, as the code moves it. \<open>slot_state\<close> is what a slot of
  the table shows: nothing when it is free, else the state. \<open>tcp_edges\<close> is the diagram, and
  every operation of \<^verbatim>\<open>tcp.c\<close> moves every slot along one of its edges or leaves it.
\<close>

definition slot_state :: "net \<Rightarrow> nat \<Rightarrow> tcp_st option" where
  "slot_state s j = (if c_used (the_conn s j) then Some (c_state (the_conn s j)) else None)"

text \<open>The diagram: opening, the handshakes, the two ways of closing, and an abort from any state.\<close>

definition tcp_edges :: "(tcp_st option \<times> tcp_st option) set" where
  "tcp_edges =
    {(None, Some TCP_SYN_SENT), (None, Some TCP_LISTEN), (None, Some TCP_SYN_RECEIVED),
     (Some TCP_SYN_SENT, Some TCP_ESTABLISHED), (Some TCP_SYN_RECEIVED, Some TCP_ESTABLISHED),
     (Some TCP_ESTABLISHED, Some TCP_CLOSE_WAIT), (Some TCP_CLOSE_WAIT, Some TCP_LAST_ACK), (Some TCP_LAST_ACK, None),
     (Some TCP_ESTABLISHED, Some TCP_FIN_WAIT_1), (Some TCP_FIN_WAIT_1, Some TCP_FIN_WAIT_2),
     (Some TCP_FIN_WAIT_1, Some TCP_TIME_WAIT), (Some TCP_FIN_WAIT_2, Some TCP_TIME_WAIT), (Some TCP_TIME_WAIT, None),
     (Some TCP_LISTEN, None), (Some TCP_SYN_SENT, None)} \<union> range (\<lambda>st. (Some st, Some TCP_CLOSED))"

definition moves :: "net \<Rightarrow> net \<Rightarrow> nat \<Rightarrow> bool" where
  "moves s t j \<longleftrightarrow> slot_state t j = slot_state s j \<or> (slot_state s j, slot_state t j) \<in> tcp_edges"

section \<open>What operations do to a slot\<close>

lemma slot_state_cong: "conns (net_tcp t) = conns (net_tcp s) \<Longrightarrow> slot_state t j = slot_state s j"
  by (simp add: slot_state_def the_conn_def)

lemma slot_state_simps [simp]:
  "slot_state (snd (send_segment c fl q p s)) j = slot_state s j"
  "slot_state (send_reset a b cc d e f g s) j = slot_state s j"
  "slot_state (netbuf_free nb s) j = slot_state s j" "slot_state (snd (alloc_page s)) j = slot_state s j"
  "slot_state (free_pages1 x s) j = slot_state s j" "slot_state (snd (initial_sequence s)) j = slot_state s j"
  "slot_state (net_tcp_update (segments_sent_update f1) s) j = slot_state s j"
  "slot_state (net_tcp_update (segments_received_update f1) s) j = slot_state s j"
  "slot_state (net_tcp_update (retransmits_update f1) s) j = slot_state s j"
  "slot_state (net_tcp_update (tcp_rx_no_connection_update f1) s) j = slot_state s j"
  "slot_state (net_tcp_update (tcp_rx_out_of_order_update f1) s) j = slot_state s j"
  "slot_state (net_tcp_update (connections_opened_update f1) s) j = slot_state s j"
  "slot_state (net_tcp_update (connections_reset_update f1) s) j = slot_state s j"
  "slot_state (net_tcp_update (receives_hint_update f1) s) j = slot_state s j"
  by (rule slot_state_cong; simp)+

lemma slot_state_set_conn:
  "i < length (conns (net_tcp s)) \<Longrightarrow>
    slot_state (set_conn i c s) j = (if j = i then (if c_used c then Some (c_state c) else None) else slot_state s j)"
  by (simp add: slot_state_def)

lemma slot_state_alloc:
  assumes "fst (alloc_conn s) = Some i"
  shows "slot_state s i = None" "slot_state (snd (alloc_conn s)) j = (if j = i then Some TCP_CLOSED else slot_state s j)"
    "c_used (the_conn (snd (alloc_conn s)) i)" "i < length (conns (net_tcp s))"
proof -
  have f: "first_slot (\<lambda>c. \<not> c_used c) (conns (net_tcp s)) = Some i"
    using assms by (auto simp: alloc_conn_def Let_def case_prod_beta split: option.splits if_splits)
  show lt: "i < length (conns (net_tcp s))" by (rule first_slot_lt [OF f])
  show "slot_state s i = None" using first_slot_hit [OF f] by (simp add: slot_state_def the_conn_def)
  from f assms lt show "slot_state (snd (alloc_conn s)) j = (if j = i then Some TCP_CLOSED else slot_state s j)"
    "c_used (the_conn (snd (alloc_conn s)) i)"
    by (auto simp: alloc_conn_def Let_def case_prod_beta slot_state_set_conn split: if_splits)
qed

lemma slot_state_alloc_fail:
  assumes "fst (alloc_conn s) = None"
  shows "slot_state (snd (alloc_conn s)) j = slot_state s j"
proof (cases "first_slot (\<lambda>c. \<not> c_used c) (conns (net_tcp s))")
  case (Some i)
  then have "slot_state s i = None" "i < length (conns (net_tcp s))"
    using first_slot_hit [OF Some] first_slot_lt [OF Some] by (simp_all add: slot_state_def the_conn_def)
  then show ?thesis
    using assms Some by (auto simp: alloc_conn_def Let_def case_prod_beta slot_state_set_conn zero_conn_def split: if_splits)
qed (simp add: alloc_conn_def)

lemma slot_state_free:
  "i < length (conns (net_tcp s)) \<Longrightarrow> slot_state (free_conn i s) j = (if j = i then None else slot_state s j)"
proof (cases "c_used (the_conn s i)")
  case True
  moreover have "\<not> c_used (zero_conn\<lparr>accept_of := -1\<rparr>)" by (simp add: zero_conn_def)
  ultimately show "i < length (conns (net_tcp s)) \<Longrightarrow> ?thesis"
    by (simp add: free_conn_def Let_def slot_state_set_conn)
qed (auto simp: free_conn_def slot_state_def)

section \<open>The handlers of a segment\<close>

lemma find_scan_used:
  "find_scan cs i local lport remote rport l = Some k \<Longrightarrow> l = Some k \<or> (i \<le> k \<and> k < i + length cs \<and> c_used (cs ! (k - i)))"
proof (induction cs arbitrary: i l)
  case (Cons c cs)
  have "(\<exists>l'. find_scan cs (i + 1) local lport remote rport l' = Some k \<and> (l' = l \<or> l' = Some i \<and> c_used c)) \<or> k = i \<and> c_used c"
    using Cons.prems by (auto split: if_splits)
  then show ?case
  proof (elim disjE exE conjE)
    fix l' assume "find_scan cs (i + 1) local lport remote rport l' = Some k"
    from Cons.IH [OF this] show "l' = l \<Longrightarrow> ?case" "l' = Some i \<Longrightarrow> c_used c \<Longrightarrow> ?case"
      by (auto simp: nth_Cons' Suc_diff_Suc)
  qed auto
qed simp

lemma find_conn_used:
  assumes "find_conn a p b q s = Some i"
  shows "i < length (conns (net_tcp s))" "c_used (the_conn s i)"
  using find_scan_used [of "conns (net_tcp s)" 0 a p b q None i] assms by (simp_all add: find_conn_def the_conn_def)

lemma moves_on_listen: "moves s (on_listen i g s) j"
proof (cases "fst (alloc_conn s)")
  case None
  then show ?thesis by (simp add: moves_def on_listen_def case_prod_beta slot_state_alloc_fail)
next
  case (Some n)
  note al = slot_state_alloc [OF Some]
  have n: "n < length (conns (net_tcp (snd (initial_sequence (snd (alloc_conn s))))))" using al(4) by simp
  have u: "c_used (the_conn (snd (initial_sequence (snd (alloc_conn s)))) n)" using al(3) by (simp add: the_conn_def)
  have "c_used (new_conn i g iss t c) = c_used c" "c_state (new_conn i g iss t c) = TCP_SYN_RECEIVED" for iss t c
    by (simp_all add: new_conn_def)
  then show ?thesis
    using Some al u n
    by (auto simp: moves_def on_listen_def case_prod_beta Let_def slot_state_set_conn slot_state_free tcp_edges_def split: option.splits)
qed

lemma on_listen_keeps_used:
  assumes "c_used (the_conn s j)"
  shows "slot_state (on_listen i g s) j = slot_state s j"
proof (cases "fst (alloc_conn s)")
  case None
  then show ?thesis by (simp add: on_listen_def case_prod_beta slot_state_alloc_fail)
next
  case (Some n)
  note al = slot_state_alloc [OF Some]
  have "n \<noteq> j" using al(1) assms by (auto simp: slot_state_def)
  moreover have "n < length (conns (net_tcp (snd (initial_sequence (snd (alloc_conn s))))))" using al(4) by simp
  ultimately show ?thesis
    using Some al by (auto simp: on_listen_def case_prod_beta Let_def slot_state_set_conn slot_state_free split: option.splits)
qed

lemma moves_handlers:
  assumes "i < length (conns (net_tcp s))" "c_used (the_conn s i)"
  shows "c_state (the_conn s i) = TCP_SYN_SENT \<Longrightarrow> moves s (on_syn_sent i g s) j"
    and "c_state (the_conn s i) = TCP_SYN_RECEIVED \<Longrightarrow> moves s (on_syn_received i g s) j"
    and "c_state (the_conn s i) = TCP_LAST_ACK \<Longrightarrow> moves s (on_last_ack i g s) j"
    and "moves s (on_reset i s) j"
  using assms
  by (auto simp: moves_def on_syn_sent_def on_syn_received_def on_last_ack_def on_reset_def Let_def
      slot_state_set_conn slot_state_free tcp_edges_def) (auto simp: slot_state_def)

lemma the_conn_length [simp]:
  "length (conns (net_tcp (take_payload i g s))) = length (conns (net_tcp s))"
  by (simp add: take_payload_def Let_def)

lemma take_payload_conn:
  assumes "i < length (conns (net_tcp s))"
  shows "the_conn (take_payload i g s) i = (let c = the_conn s i in
    if g_payload g \<noteq> [] \<and> g_seq g = rcv_nxt c then deliver (g_payload g) c else c)"
  using assms by (simp add: take_payload_def Let_def)

lemma take_payload_other: "i \<noteq> j \<Longrightarrow> the_conn (take_payload i g s) j = the_conn s j"
  by (simp add: take_payload_def Let_def)

lemma deliver_fields [simp]: "c_state (deliver d c) = c_state c" "c_used (deliver d c) = c_used c"
  by (simp_all add: deliver_def case_prod_beta fill_rx_keeps)

lemma on_established_other: "i \<noteq> j \<Longrightarrow> the_conn (on_established i g s) j = the_conn s j"
  by (simp add: on_established_def take_fin_def Let_def take_payload_other)

text \<open>The connection after the acknowledgement and the payload, before the FIN.\<close>

definition after_data :: "segment \<Rightarrow> tcp_conn \<Rightarrow> tcp_conn" where
  "after_data g c = (let c1 = take_ack g c in
     if g_payload g \<noteq> [] \<and> g_seq g = rcv_nxt c1 then deliver (g_payload g) c1 else c1)"

lemma after_data_fields [simp]: "c_state (after_data g c) = c_state c" "c_used (after_data g c) = c_used c"
  by (simp_all add: after_data_def Let_def)

lemma on_established_conn:
  assumes "i < length (conns (net_tcp s))"
  shows "the_conn (on_established i g s) i =
    (let c = after_data g (the_conn s i) in
     if has_flag (g_flags g) TCP_FIN \<and> g_seq g = rcv_nxt c
     then c\<lparr>rcv_nxt := rcv_nxt c + 1, peer_closed := True,
        c_state := (if c_state c = TCP_ESTABLISHED then TCP_CLOSE_WAIT else TCP_TIME_WAIT),
        time_wait_until_ns := now s + TCP_TIME_WAIT_NS\<rparr>
     else if c_state c = TCP_FIN_WAIT_1 \<and> has_flag (g_flags g) TCP_ACK \<and> g_ack g = snd_nxt c
     then c\<lparr>c_state := TCP_FIN_WAIT_2\<rparr> else c)"
proof -
  let ?t = "take_payload i g (set_conn i (take_ack g (the_conn s i)) s)"
  have c: "the_conn ?t i = after_data g (the_conn s i)"
    using assms by (simp add: take_payload_conn after_data_def Let_def)
  have "now ?t = now s" by (simp add: take_payload_def Let_def)
  then show ?thesis
    using assms c by (simp add: on_established_def take_fin_def Let_def)
qed

lemma moves_on_established:
  assumes "i < length (conns (net_tcp s))" "c_used (the_conn s i)"
    and "c_state (the_conn s i) \<in> {TCP_ESTABLISHED, TCP_FIN_WAIT_1, TCP_FIN_WAIT_2}"
  shows "moves s (on_established i g s) j"
proof (cases "j = i")
  case True
  then show ?thesis
    using assms by (auto simp: moves_def slot_state_def on_established_conn Let_def tcp_edges_def)
qed (simp add: moves_def slot_state_def on_established_other)

lemma moves_segment: "moves s (tcp_segment g s) j"
proof (cases "find_conn (g_dst g) (g_dport g) (g_src g) (g_sport g) s")
  case None
  then show ?thesis by (simp add: tcp_segment_def no_connection_def Let_def moves_def)
next
  case (Some i)
  note i = find_conn_used [OF Some]
  show ?thesis
    using Some moves_handlers [OF i] moves_on_established [OF i] moves_on_listen [of s i g j]
    by (auto simp: tcp_segment_def tcp_dispatch_def moves_def [of s s] split: tcp_st.splits)
qed

section \<open>The timer and what sockets ask for\<close>

lemma moves_refl [simp]: "moves s s j"
  by (simp add: moves_def)

lemma moves_cong: "slot_state s' j = slot_state s j \<Longrightarrow> slot_state t' j = slot_state t j \<Longrightarrow> moves s' t' j = moves s t j"
  by (simp add: moves_def)

text \<open>Writing a used slot back with the same state changes nothing.\<close>

lemma slot_state_same:
  assumes "i < length (conns (net_tcp s))" "c_used c = c_used (the_conn s i)" "c_state c = c_state (the_conn s i)"
  shows "slot_state (set_conn i c s) j = slot_state s j"
  unfolding slot_state_set_conn [OF assms(1)] assms(2,3) by (simp add: slot_state_def)

lemma slot_state_retransmit:
  assumes "i < length (conns (net_tcp s))"
  shows "slot_state (tcp_retransmit i t s) j = slot_state s j"
  using assms by (simp add: tcp_retransmit_def Let_def slot_state_same)

lemma moves_tick_slot:
  assumes "i < length (conns (net_tcp s))"
  shows "slot_state (tcp_tick_slot t i s) j = slot_state s j \<or> j = i \<and> (slot_state s j, slot_state (tcp_tick_slot t i s) j) \<in> tcp_edges"
proof -
  have st: "slot_state s i = Some (c_state (the_conn s i))" if "c_used (the_conn s i)"
    using that by (simp add: slot_state_def)
  show ?thesis
    using assms st
    by (simp add: tcp_tick_slot_def Let_def slot_state_free slot_state_set_conn slot_state_retransmit tcp_edges_def)
qed

lemma moves_tick:
  assumes "length (conns (net_tcp s)) = TCP_MAX_CONNECTIONS"
  shows "moves s (tcp_tick s) j"
proof -
  let ?f = "tcp_tick_slot (now s)"
  have len: "length (conns (net_tcp (?f i u))) = length (conns (net_tcp u))" for i u
    by (simp add: tcp_tick_slot_def tcp_retransmit_def Let_def)
  have *: "slot_state (fold ?f is u) j = slot_state u j \<or> j \<in> set is \<and> (slot_state u j, slot_state (fold ?f is u) j) \<in> tcp_edges"
    if "distinct is" "\<forall>i\<in>set is. i < length (conns (net_tcp u))" for "is" u
    using that
  proof (induction "is" arbitrary: u)
    case (Cons i "is")
    have i: "i < length (conns (net_tcp u))" using Cons.prems by simp
    from Cons.IH [of "?f i u"] Cons.prems moves_tick_slot [OF i, of "now s" j] show ?case
      by (auto simp: len)
  qed simp
  show ?thesis
    using * [of "[0..<TCP_MAX_CONNECTIONS]" s] assms by (auto simp: tcp_tick_def moves_def)
qed

lemma moves_open: "moves s (snd (tcp_open a p b q s)) j"
proof (cases "fst (alloc_conn s)")
  case None
  then show ?thesis by (simp add: moves_def tcp_open_def case_prod_beta slot_state_alloc_fail)
next
  case (Some n)
  note al = slot_state_alloc [OF Some]
  have n: "n < length (conns (net_tcp (snd (initial_sequence (snd (alloc_conn s))))))" using al(4) by simp
  have u: "c_used (the_conn (snd (initial_sequence (snd (alloc_conn s)))) n)" using al(3) by (simp add: the_conn_def)
  show ?thesis
    using Some al u n
    by (auto simp: moves_def tcp_open_def case_prod_beta Let_def slot_state_set_conn slot_state_free tcp_edges_def split: option.splits)
qed

lemma moves_open_listener: "moves s (snd (tcp_open_listener a p s)) j"
proof (cases "fst (alloc_conn s)")
  case None
  then show ?thesis by (simp add: moves_def tcp_open_listener_def case_prod_beta slot_state_alloc_fail)
next
  case (Some n)
  note al = slot_state_alloc [OF Some]
  show ?thesis
    using Some al by (auto simp: moves_def tcp_open_listener_def case_prod_beta Let_def slot_state_set_conn tcp_edges_def)
qed

lemma slot_state_accept: "slot_state (snd (tcp_accept_ready l s)) j = slot_state s j"
proof -
  have "slot_state (set_conn i ((the_conn s i)\<lparr>accept_pending := False\<rparr>) s) j = slot_state s j"
    if "first_slot P (conns (net_tcp s)) = Some i" for i P
    by (rule slot_state_same) (use first_slot_lt [OF that] in simp_all)
  then show ?thesis by (simp add: tcp_accept_ready_def split: option.splits)
qed

lemma slot_state_write:
  assumes "length (conns (net_tcp s)) = TCP_MAX_CONNECTIONS"
  shows "slot_state (snd (tcp_write x d s)) j = slot_state s j"
proof (cases "valid_idx x")
  case True
  then have i: "nat x < length (conns (net_tcp s))" using assms by (auto simp: valid_idx_def)
  show ?thesis
    using True i by (simp add: tcp_write_def case_prod_beta Let_def slot_state_same fill_tx_keeps)
qed (simp add: tcp_write_def)

lemma slot_state_read:
  assumes "length (conns (net_tcp s)) = TCP_MAX_CONNECTIONS"
  shows "slot_state (snd (snd (tcp_read x n s))) j = slot_state s j"
proof (cases "valid_idx x")
  case True
  then have i: "nat x < length (conns (net_tcp s))" using assms by (auto simp: valid_idx_def)
  show ?thesis
    using True i by (simp add: tcp_read_def case_prod_beta Let_def slot_state_same drain_rx_keeps)
qed (simp add: tcp_read_def)

lemma moves_shutdown:
  assumes "length (conns (net_tcp s)) = TCP_MAX_CONNECTIONS"
  shows "moves s (tcp_shutdown x s) j"
proof (cases "valid_idx x \<and> c_used (the_conn s (nat x))")
  case True
  then have i: "nat x < length (conns (net_tcp s))" using assms by (auto simp: valid_idx_def)
  have "slot_state s (nat x) = Some (c_state (the_conn s (nat x)))" using True by (simp add: slot_state_def)
  then show ?thesis
    using True i
    by (auto simp: moves_def tcp_shutdown_def Let_def slot_state_set_conn slot_state_free tcp_edges_def split: tcp_st.splits)
qed (auto simp: tcp_shutdown_def Let_def)

section \<open>Runs\<close>

text \<open>Everything the rest of the kernel can make \<^verbatim>\<open>tcp.c\<close> do.\<close>

datatype tcp_op =
  Op_segment segment
| Op_tick
| Op_clock u64
| Op_open ipv4_addr u16 ipv4_addr u16
| Op_listen ipv4_addr u16
| Op_accept int
| Op_write int "u8 list"
| Op_read int nat
| Op_shutdown int

fun tcp_do :: "tcp_op \<Rightarrow> net \<Rightarrow> net" where
  "tcp_do (Op_segment g) s = tcp_segment g s"
| "tcp_do Op_tick s = tcp_tick s"
| "tcp_do (Op_clock t) s = s\<lparr>now := t\<rparr>"
| "tcp_do (Op_open a p b q) s = snd (tcp_open a p b q s)"
| "tcp_do (Op_listen a p) s = snd (tcp_open_listener a p s)"
| "tcp_do (Op_accept l) s = snd (tcp_accept_ready l s)"
| "tcp_do (Op_write x d) s = snd (tcp_write x d s)"
| "tcp_do (Op_read x n) s = snd (snd (tcp_read x n s))"
| "tcp_do (Op_shutdown x) s = tcp_shutdown x s"

lemma tcp_do_length [simp]:
  "length (conns (net_tcp (tcp_do a s))) = length (conns (net_tcp s))"
proof -
  have seg: "length (conns (net_tcp (tcp_segment g s))) = length (conns (net_tcp s))" for g
    by (simp add: tcp_segment_def tcp_dispatch_def no_connection_def on_reset_def on_listen_def on_syn_sent_def
        on_syn_received_def on_established_def take_fin_def on_last_ack_def case_prod_beta Let_def split: option.splits tcp_st.splits)
  have slot: "length (conns (net_tcp (tcp_tick_slot t i u))) = length (conns (net_tcp u))" for t i u
    by (simp add: tcp_tick_slot_def tcp_retransmit_def Let_def)
  have tick: "length (conns (net_tcp (tcp_tick s))) = length (conns (net_tcp s))"
    unfolding tcp_tick_def by (rule fold_keeps) (rule slot)
  show ?thesis
    by (cases a) (simp_all add: seg tick tcp_open_def tcp_open_listener_def tcp_accept_ready_def tcp_write_def tcp_read_def
        tcp_shutdown_def case_prod_beta Let_def split: option.splits tcp_st.splits)
qed

lemma moves_do:
  assumes "length (conns (net_tcp s)) = TCP_MAX_CONNECTIONS"
  shows "moves s (tcp_do a s) j"
proof (cases a)
  case (Op_clock t)
  then show ?thesis by (simp add: moves_def slot_state_def the_conn_def)
qed (simp_all add: moves_segment moves_tick moves_open moves_open_listener moves_shutdown assms,
    simp_all add: moves_def slot_state_accept slot_state_write slot_state_read assms)

definition tcp_run :: "tcp_op list \<Rightarrow> net \<Rightarrow> net" where
  "tcp_run ops s = fold tcp_do ops s"

lemma tcp_run_length [simp]: "length (conns (net_tcp (tcp_run ops s))) = length (conns (net_tcp s))"
  unfolding tcp_run_def by (rule fold_keeps) simp

lemma tcp_run_snoc: "tcp_run (ops @ [a]) s = tcp_do a (tcp_run ops s)"
  by (simp add: tcp_run_def)

lemma moves_run:
  assumes "length (conns (net_tcp s)) = TCP_MAX_CONNECTIONS"
  shows "(slot_state s j, slot_state (tcp_run ops s) j) \<in> tcp_edges\<^sup>*"
proof (induction ops rule: rev_induct)
  case (snoc a ops)
  have "moves (tcp_run ops s) (tcp_do a (tcp_run ops s)) j"
    by (rule moves_do) (simp add: assms)
  with snoc show ?case
    unfolding moves_def tcp_run_snoc by (metis rtrancl.simps)
qed (simp add: tcp_run_def)

section \<open>Who establishes a connection\<close>

lemma tick_targets:
  assumes "length (conns (net_tcp s)) = TCP_MAX_CONNECTIONS"
  shows "slot_state (tcp_tick s) j \<in> {slot_state s j, None, Some TCP_CLOSED}"
proof -
  let ?f = "tcp_tick_slot (now s)"
  have one: "slot_state (?f i u) j \<in> {slot_state u j, None, Some TCP_CLOSED}" if "i < length (conns (net_tcp u))" for i u
    using that by (simp add: tcp_tick_slot_def Let_def slot_state_free slot_state_set_conn slot_state_retransmit)
  have len: "length (conns (net_tcp (?f i u))) = length (conns (net_tcp u))" for i u
    by (simp add: tcp_tick_slot_def tcp_retransmit_def Let_def)
  have "slot_state (fold ?f is u) j \<in> {slot_state u j, None, Some TCP_CLOSED}"
    if "\<forall>i\<in>set is. i < length (conns (net_tcp u))" for "is" u
    using that
  proof (induction "is" arbitrary: u)
    case (Cons i "is")
    have "slot_state (fold ?f is (?f i u)) j \<in> {slot_state (?f i u) j, None, Some TCP_CLOSED}"
      by (rule Cons.IH) (use Cons.prems in \<open>simp add: len\<close>)
    with one [of i u] Cons.prems show ?case by auto
  qed simp
  with assms show ?thesis by (simp add: tcp_tick_def)
qed

lemma others_do_not_establish:
  assumes "length (conns (net_tcp s)) = TCP_MAX_CONNECTIONS" and "\<And>g. a \<noteq> Op_segment g"
    and "slot_state (tcp_do a s) j = Some TCP_ESTABLISHED"
  shows "slot_state s j = Some TCP_ESTABLISHED"
proof -
  have open_lt: "(None, Some TCP_ESTABLISHED) \<notin> tcp_edges" by (auto simp: tcp_edges_def)
  have new: "slot_state (snd (tcp_open b p c q s)) j = Some TCP_ESTABLISHED \<Longrightarrow> ?thesis" for b p c q
  proof (cases "fst (alloc_conn s)")
    case (Some n)
    note al = slot_state_alloc [OF Some]
    have n: "n < length (conns (net_tcp (snd (initial_sequence (snd (alloc_conn s))))))" using al(4) by simp
    have u: "c_used (the_conn (snd (initial_sequence (snd (alloc_conn s)))) n)" using al(3) by (simp add: the_conn_def)
    assume "slot_state (snd (tcp_open b p c q s)) j = Some TCP_ESTABLISHED"
    then show ?thesis
      using Some al u n
      by (auto simp: tcp_open_def case_prod_beta Let_def slot_state_set_conn slot_state_free split: option.splits if_splits)
  qed (simp add: tcp_open_def case_prod_beta slot_state_alloc_fail)
  have lis: "slot_state (snd (tcp_open_listener b p s)) j = Some TCP_ESTABLISHED \<Longrightarrow> ?thesis" for b p
  proof (cases "fst (alloc_conn s)")
    case (Some n)
    assume "slot_state (snd (tcp_open_listener b p s)) j = Some TCP_ESTABLISHED"
    then show ?thesis
      using Some slot_state_alloc [OF Some]
      by (auto simp: tcp_open_listener_def case_prod_beta Let_def slot_state_set_conn split: if_splits)
  qed (simp add: tcp_open_listener_def case_prod_beta slot_state_alloc_fail)
  have shut: "slot_state (tcp_shutdown x s) j = Some TCP_ESTABLISHED \<Longrightarrow> ?thesis" for x
  proof (cases "valid_idx x")
    case True
    then have i: "nat x < length (conns (net_tcp s))" using assms(1) by (auto simp: valid_idx_def)
    assume "slot_state (tcp_shutdown x s) j = Some TCP_ESTABLISHED"
    then show ?thesis
      using True i by (auto simp: tcp_shutdown_def Let_def slot_state_set_conn slot_state_free split: tcp_st.splits if_splits)
  qed (simp add: tcp_shutdown_def)
  show ?thesis
  proof (cases a)
    case (Op_segment g)
    then show ?thesis using assms(2) by simp
  next
    case Op_tick
    then show ?thesis using assms(3) tick_targets [OF assms(1), of j] by simp
  next
    case (Op_clock t)
    then show ?thesis using assms(3) slot_state_cong [of "s\<lparr>now := t\<rparr>" s j] by simp
  qed (use assms(3) new lis shut in \<open>simp_all add: slot_state_accept slot_state_write slot_state_read assms(1)\<close>)
qed

lemma segment_establishes:
  assumes "slot_state s j \<noteq> Some TCP_ESTABLISHED" "slot_state (tcp_segment g s) j = Some TCP_ESTABLISHED"
  shows "g_ack g = snd_nxt (the_conn s j) \<and>
    (slot_state s j = Some TCP_SYN_SENT \<and> g_flags g AND (TCP_SYN OR TCP_ACK) = TCP_SYN OR TCP_ACK \<or>
     slot_state s j = Some TCP_SYN_RECEIVED \<and> has_flag (g_flags g) TCP_ACK)"
proof (cases "find_conn (g_dst g) (g_dport g) (g_src g) (g_sport g) s")
  case None
  then show ?thesis using assms by (simp add: tcp_segment_def no_connection_def Let_def split: if_splits)
next
  case (Some i)
  note i = find_conn_used [OF Some]
  have j: "c_used (the_conn s j)" "c_state (the_conn s j) \<in> {TCP_SYN_SENT, TCP_SYN_RECEIVED}"
    using moves_segment [of s g j] assms by (auto simp: moves_def tcp_edges_def slot_state_def split: if_splits)
  have lis: "slot_state (on_listen i g s) j \<noteq> Some TCP_ESTABLISHED"
    using moves_on_listen [of s i g j] assms(1) j on_listen_keeps_used [of s j i g] by (auto simp: slot_state_def)
  show ?thesis
  proof (cases "j = i")
    case True
    then show ?thesis
      using assms j i Some
      by (auto simp: tcp_segment_def tcp_dispatch_def on_reset_def on_syn_sent_def on_syn_received_def Let_def
          slot_state_set_conn slot_state_def split: if_splits)
  next
    case False
    have keep: "the_conn (tcp_segment g s) j = the_conn s j" if "c_state (the_conn s i) \<noteq> TCP_LISTEN \<or> has_flag (g_flags g) TCP_RST"
      using that Some False i on_established_other [of i j g s]
      by (auto simp: tcp_segment_def tcp_dispatch_def on_reset_def on_syn_sent_def on_syn_received_def on_last_ack_def Let_def
          free_conn_def split: tcp_st.splits)
    have "c_state (the_conn s i) = TCP_LISTEN \<and> \<not> has_flag (g_flags g) TCP_RST"
    proof (rule ccontr)
      assume "\<not> (c_state (the_conn s i) = TCP_LISTEN \<and> \<not> has_flag (g_flags g) TCP_RST)"
      then have "the_conn (tcp_segment g s) j = the_conn s j" by (intro keep) simp
      then have "slot_state (tcp_segment g s) j = slot_state s j" by (simp add: slot_state_def)
      with assms show False by simp
    qed
    then have "tcp_segment g s = on_listen i g s" using Some by (simp add: tcp_segment_def tcp_dispatch_def)
    with assms(2) lis show ?thesis by simp
  qed
qed

section \<open>Properties\<close>

text \<open>One connection in a given state in slot 0 of an otherwise empty table, for the examples.\<close>

definition one_conn :: "tcp_conn \<Rightarrow> net \<Rightarrow> net" where
  "one_conn c s = s\<lparr>net_tcp := (net_tcp s)\<lparr>conns := c # replicate 15 zero_conn\<rparr>\<rparr>"

lemma one_conn_simps [simp]:
  "length (conns (net_tcp (one_conn c s))) = TCP_MAX_CONNECTIONS" "the_conn (one_conn c s) 0 = c"
  "slot_state (one_conn c s) 0 = (if c_used c then Some (c_state c) else None)"
  by (simp_all add: one_conn_def the_conn_def slot_state_def TCP_MAX_CONNECTIONS_def)

lemma find_scan_unused: "\<forall>c\<in>set cs. \<not> c_used c \<Longrightarrow> find_scan cs i a p b q l = l"
  by (induction cs arbitrary: i) simp_all

lemma find_one_conn:
  "c_used c \<Longrightarrow> c_state c = TCP_LISTEN \<or> c_remote_ip c = b \<and> c_remote_port c = q \<and> c_local_ip c = 0 \<Longrightarrow>
    find_conn a (c_local_port c) b q (one_conn c s) = Some 0"
  by (auto simp: find_conn_def one_conn_def find_scan_unused zero_conn_def)

text \<open>C16: TCP's state machine is the diagram. Whatever segment arrives, whenever the timer runs and
  whatever a socket asks, every slot of the connection table either keeps its state or moves
  along one edge of \<open>tcp_edges\<close>: the two handshakes, the active and the passive close, freeing
  after the last acknowledgement or the wait, and an abort to closed.\<close>

theorem tcp_follows_diagram:
  assumes "length (conns (net_tcp s)) = TCP_MAX_CONNECTIONS"
  shows "slot_state (tcp_do a s) j = slot_state s j \<or> (slot_state s j, slot_state (tcp_do a s) j) \<in> tcp_edges"
  using moves_do [OF assms] by (simp add: moves_def)

theorem tcp_follows_diagram_witness:
  "\<forall>s. slot_state (tcp_do (Op_shutdown 0) (one_conn (zero_conn\<lparr>c_used := True, c_state := TCP_ESTABLISHED\<rparr>) s)) 0 = Some TCP_FIN_WAIT_1
    \<and> (Some TCP_ESTABLISHED, Some TCP_FIN_WAIT_1) \<in> tcp_edges"
proof
  fix s
  let ?s = "one_conn (zero_conn\<lparr>c_used := True, c_state := TCP_ESTABLISHED\<rparr>) s"
  have "slot_state (tcp_do (Op_shutdown 0) ?s) 0 = Some TCP_FIN_WAIT_1"
    by (simp add: tcp_shutdown_def valid_idx_def Let_def slot_state_set_conn TCP_MAX_CONNECTIONS_def)
  with tcp_follows_diagram [of ?s "Op_shutdown 0" 0]
  show "slot_state (tcp_do (Op_shutdown 0) ?s) 0 = Some TCP_FIN_WAIT_1 \<and> (Some TCP_ESTABLISHED, Some TCP_FIN_WAIT_1) \<in> tcp_edges"
    by simp
qed

text \<open>C17: A connection is established only by a completed handshake: a slot becomes established
  only when a segment arrives that acknowledges exactly what this side sent, with SYN and ACK
  set when this side opened, or with ACK set when the far end did.\<close>

theorem tcp_established_by_handshake:
  assumes "length (conns (net_tcp s)) = TCP_MAX_CONNECTIONS" and "slot_state s j \<noteq> Some TCP_ESTABLISHED"
    and "slot_state (tcp_do a s) j = Some TCP_ESTABLISHED"
  shows "\<exists>g. a = Op_segment g \<and> g_ack g = snd_nxt (the_conn s j) \<and>
    (slot_state s j = Some TCP_SYN_SENT \<and> g_flags g AND (TCP_SYN OR TCP_ACK) = TCP_SYN OR TCP_ACK \<or>
     slot_state s j = Some TCP_SYN_RECEIVED \<and> has_flag (g_flags g) TCP_ACK)"
proof -
  obtain g where a: "a = Op_segment g"
    using others_do_not_establish [OF assms(1), of a j] assms(2,3) by (cases a) auto
  with segment_establishes [of s j g] assms(2,3) show ?thesis by simp
qed

theorem tcp_established_by_handshake_witness:
  "\<forall>s. \<exists>a g. a = Op_segment g \<and> g_ack g = 8 \<and>
    slot_state (tcp_do a (one_conn (zero_conn\<lparr>c_used := True, c_state := TCP_SYN_RECEIVED, snd_nxt := 8\<rparr>) s)) 0 = Some TCP_ESTABLISHED"
proof
  fix s
  let ?s = "one_conn (zero_conn\<lparr>c_used := True, c_state := TCP_SYN_RECEIVED, snd_nxt := 8\<rparr>) s"
  let ?g = "\<lparr>g_src = 0, g_dst = 0, g_sport = 0, g_dport = 0, g_seq = 0, g_ack = 8, g_flags = TCP_ACK, g_wnd = 0, g_payload = []\<rparr>"
  have f: "find_conn 0 0 0 0 ?s = Some 0"
    using find_one_conn [of "zero_conn\<lparr>c_used := True, c_state := TCP_SYN_RECEIVED, snd_nxt := 8\<rparr>" 0 0 0 s] by (simp add: zero_conn_def)
  have e: "slot_state (tcp_do (Op_segment ?g) ?s) 0 = Some TCP_ESTABLISHED"
    using f by (simp add: tcp_segment_def has_flag_def tcp_dispatch_def on_syn_received_def Let_def slot_state_set_conn TCP_MAX_CONNECTIONS_def)
  have "\<exists>g. Op_segment ?g = Op_segment g \<and> g_ack g = snd_nxt (the_conn ?s 0) \<and>
    (slot_state ?s 0 = Some TCP_SYN_SENT \<and> g_flags g AND (TCP_SYN OR TCP_ACK) = TCP_SYN OR TCP_ACK \<or>
     slot_state ?s 0 = Some TCP_SYN_RECEIVED \<and> has_flag (g_flags g) TCP_ACK)"
    by (rule tcp_established_by_handshake [OF _ _ e]) simp_all
  then have "g_ack ?g = 8" by simp
  with e show "\<exists>a g. a = Op_segment g \<and> g_ack g = 8 \<and> slot_state (tcp_do a ?s) 0 = Some TCP_ESTABLISHED"
    by blast
qed

text \<open>C33: A closed connection that was not freed is never freed. When a reset or a failed
  retransmission leaves a slot closed and in use, no later sequence of segments, timer runs
  and socket calls ever gives the slot back, so sixteen such connections use up the table.\<close>

theorem tcp_closed_slot_is_lost:
  assumes "length (conns (net_tcp s)) = TCP_MAX_CONNECTIONS" and "slot_state s j = Some TCP_CLOSED"
  shows "slot_state (tcp_run ops s) j = Some TCP_CLOSED"
proof -
  have "x = Some TCP_CLOSED" if "(Some TCP_CLOSED, x) \<in> tcp_edges\<^sup>*" for x
    using that by (induction rule: rtrancl_induct) (auto simp: tcp_edges_def)
  with moves_run [OF assms(1), of j ops] assms(2) show ?thesis by simp
qed

theorem tcp_closed_slot_is_lost_witness:
  "\<forall>s. slot_state (tcp_run [Op_shutdown 0, Op_clock 9, Op_tick] (one_conn (zero_conn\<lparr>c_used := True\<rparr>) s)) 0 = Some TCP_CLOSED"
  by (intro allI tcp_closed_slot_is_lost) (simp_all add: zero_conn_def)

text \<open>The state \<^verbatim>\<open>TCP_CLOSING\<close> is never entered: no run from a table without it reaches it. A
  FIN that crosses this side's own takes the connection from FIN-WAIT-1 straight to TIME-WAIT,
  without waiting for its own FIN to be acknowledged.\<close>

theorem tcp_closing_never_entered:
  assumes "length (conns (net_tcp s)) = TCP_MAX_CONNECTIONS" and "slot_state s j \<noteq> Some TCP_CLOSING"
  shows "slot_state (tcp_run ops s) j \<noteq> Some TCP_CLOSING"
proof -
  have "x \<noteq> Some TCP_CLOSING" if "(slot_state s j, x) \<in> tcp_edges\<^sup>*" for x
    using that assms(2) by (induction rule: rtrancl_induct) (auto simp: tcp_edges_def)
  with moves_run [OF assms(1), of j ops] show ?thesis by simp
qed

theorem tcp_closing_never_entered_witness:
  "\<forall>s. slot_state (tcp_run [Op_shutdown 0, Op_tick] (one_conn (zero_conn\<lparr>c_used := True, c_state := TCP_ESTABLISHED\<rparr>) s)) 0 \<noteq> Some TCP_CLOSING"
  by (intro allI tcp_closing_never_entered) simp_all

text \<open>C34: A reset is believed whatever its sequence number. A segment with RST set closes the
  connection its ports select, and it closes a listening socket too when no connection
  matches, so one such segment stops a server from accepting.\<close>

theorem tcp_reset_unchecked:
  assumes "find_conn (g_dst g) (g_dport g) (g_src g) (g_sport g) s = Some i" and "has_flag (g_flags g) TCP_RST"
  shows "slot_state (tcp_segment g s) i = Some TCP_CLOSED \<and>
    slot_state (tcp_segment (g\<lparr>g_seq := q\<rparr>) s) i = Some TCP_CLOSED"
  using assms find_conn_used [OF assms(1)]
  by (simp add: tcp_segment_def on_reset_def slot_state_set_conn)

theorem tcp_reset_unchecked_witness:
  "\<forall>s. let t = one_conn (zero_conn\<lparr>c_used := True, c_state := TCP_LISTEN, c_local_port := 80\<rparr>) s in
    slot_state t 0 = Some TCP_LISTEN \<and> slot_state (tcp_segment \<lparr>g_src = 1, g_dst = 2, g_sport = 3, g_dport = 80, g_seq = 4,
      g_ack = 0, g_flags = TCP_RST, g_wnd = 0, g_payload = []\<rparr> t) 0 = Some TCP_CLOSED"
proof
  fix s
  let ?t = "one_conn (zero_conn\<lparr>c_used := True, c_state := TCP_LISTEN, c_local_port := 80\<rparr>) s"
  have f: "find_conn 2 80 1 3 ?t = Some 0"
    using find_one_conn [of "zero_conn\<lparr>c_used := True, c_state := TCP_LISTEN, c_local_port := 80\<rparr>" 1 3 2 s] by simp
  show "let t = ?t in slot_state t 0 = Some TCP_LISTEN \<and> slot_state (tcp_segment \<lparr>g_src = 1, g_dst = 2, g_sport = 3,
      g_dport = 80, g_seq = 4, g_ack = 0, g_flags = TCP_RST, g_wnd = 0, g_payload = []\<rparr> t) 0 = Some TCP_CLOSED"
    using tcp_reset_unchecked [of "\<lparr>g_src = 1, g_dst = 2, g_sport = 3, g_dport = 80, g_seq = 4, g_ack = 0, g_flags = TCP_RST,
      g_wnd = 0, g_payload = []\<rparr>" ?t 0] f by (simp add: has_flag_def Let_def)
qed

end
