(* ===== verification/Tcp_Streams.thy ===== *)
theory Tcp_Streams
  imports Tcp_States
begin

text \<open>
  What a TCP connection does for the programs at its ends. Receiving: the bytes a program
  reads are a prefix of what the far end sent, each once and in order, whatever order,
  number and loss of segments. Sending: what \<^verbatim>\<open>tcp_write\<close> takes is what it returns, kept in
  order until acknowledged - and where that goes wrong.
\<close>

section \<open>Receiving\<close>

datatype rx_op = Arrive segment | Read nat

text \<open>The connection at slot \<open>i\<close> in the state machine's hands, with the bytes read so far.\<close>

fun rx_step :: "nat \<Rightarrow> rx_op \<Rightarrow> net \<times> u8 list \<Rightarrow> net \<times> u8 list" where
  "rx_step i (Arrive g) p = (tcp_dispatch i g (fst p), snd p)"
| "rx_step i (Read n) p = (case tcp_read (int i) n (fst p) of (_, xs, s') \<Rightarrow> (s', snd p @ xs))"

definition rx_run :: "nat \<Rightarrow> rx_op list \<Rightarrow> net \<Rightarrow> net \<times> u8 list" where
  "rx_run i ops s = fold (rx_step i) ops (s, [])"

text \<open>A segment that carries some bytes of the stream \<open>S\<close> whose first byte has sequence number
  \<open>q0\<close>, without a FIN.\<close>

definition carries :: "u8 list \<Rightarrow> u32 \<Rightarrow> segment \<Rightarrow> bool" where
  "carries S q0 g \<longleftrightarrow> \<not> has_flag (g_flags g) TCP_FIN \<and>
     (\<exists>k. k + length (g_payload g) \<le> length S \<and> g_seq g = q0 + of_nat k \<and> g_payload g = take (length (g_payload g)) (drop k S))"

definition rx_inv :: "nat \<Rightarrow> u8 list \<Rightarrow> u32 \<Rightarrow> net \<times> u8 list \<Rightarrow> bool" where
  "rx_inv i S q0 p \<longleftrightarrow> i < length (conns (net_tcp (fst p))) \<and> i < TCP_MAX_CONNECTIONS \<and>
     (let c = the_conn (fst p) i in c_used c \<and> c_state c = TCP_ESTABLISHED \<and> rings_ok c \<and>
       (\<exists>k\<le>length S. snd p @ rx_stream c = take k S \<and> rcv_nxt c = q0 + of_nat k))"

lemma of_nat_u32_inj: "i < 2 ^ 32 \<Longrightarrow> j < 2 ^ 32 \<Longrightarrow> (of_nat i :: u32) = of_nat j \<longleftrightarrow> i = j"
  using unat_of_nat_u32 [of i] unat_of_nat_u32 [of j] by (auto simp: word_unat_eq_iff)

lemma after_data_rings:
  assumes "rings_ok c"
  shows "rings_ok (after_data g c)"
  using take_ack_rings [OF assms, of g] by (simp add: after_data_def Let_def deliver_stream)

lemma after_data_stream:
  assumes "rings_ok c"
  shows "rx_stream (after_data g c) = (if g_seq g = rcv_nxt c then rx_stream c @ take (TCP_BUFFER_SIZE - rx_len c) (g_payload g) else rx_stream c)"
    and "rcv_nxt (after_data g c) = (if g_seq g = rcv_nxt c then rcv_nxt c + of_nat (min (length (g_payload g)) (TCP_BUFFER_SIZE - rx_len c)) else rcv_nxt c)"
proof -
  have len: "rx_len (take_ack g c) = rx_len c"
    using length_streams(1) [of "take_ack g c"] length_streams(1) [of c] by simp
  note d = deliver_stream(2,3) [OF take_ack_rings [OF assms], of "g_payload g" g]
  show "rx_stream (after_data g c) = (if g_seq g = rcv_nxt c then rx_stream c @ take (TCP_BUFFER_SIZE - rx_len c) (g_payload g) else rx_stream c)"
    "rcv_nxt (after_data g c) = (if g_seq g = rcv_nxt c then rcv_nxt c + of_nat (min (length (g_payload g)) (TCP_BUFFER_SIZE - rx_len c)) else rcv_nxt c)"
    using d len by (auto simp: after_data_def Let_def)
qed

lemma rx_inv_arrive:
  assumes "rx_inv i S q0 p" "carries S q0 g" "length S < 2 ^ 32"
  shows "rx_inv i S q0 (rx_step i (Arrive g) p)"
proof -
  obtain s out where p: "p = (s, out)" by (cases p)
  let ?c = "the_conn s i" and ?m = "min (length (g_payload g)) (TCP_BUFFER_SIZE - rx_len (the_conn s i))"
  from assms(1) p obtain k where i: "i < length (conns (net_tcp s))" "i < TCP_MAX_CONNECTIONS"
    and c: "c_used ?c" "c_state ?c = TCP_ESTABLISHED" "rings_ok ?c"
    and k: "k \<le> length S" "out @ rx_stream ?c = take k S" "rcv_nxt ?c = q0 + of_nat k"
    by (auto simp: rx_inv_def Let_def)
  from assms(2) obtain j where j: "\<not> has_flag (g_flags g) TCP_FIN" "j + length (g_payload g) \<le> length S"
    "g_seq g = q0 + of_nat j" "g_payload g = take (length (g_payload g)) (drop j S)"
    by (auto simp: carries_def)
  have c': "the_conn (tcp_dispatch i g s) i = after_data g ?c"
    using c j(1) on_established_conn [OF i(1), of g] by (simp add: tcp_dispatch_def Let_def)
  have len: "length (conns (net_tcp (tcp_dispatch i g s))) = length (conns (net_tcp s))"
    using c by (simp add: tcp_dispatch_def on_established_def take_fin_def Let_def)
  have "\<exists>k'\<le>length S. out @ rx_stream (after_data g ?c) = take k' S \<and> rcv_nxt (after_data g ?c) = q0 + of_nat k'"
  proof (cases "g_seq g = rcv_nxt ?c")
    case True
    then have "(of_nat j :: u32) = of_nat k" using j(3) k(3) by simp
    then have jk: "j = k" using of_nat_u32_inj [of j k] j(2) k(1) assms(3) by simp
    have t: "take (TCP_BUFFER_SIZE - rx_len ?c) (g_payload g) = take ?m (drop k S)"
      using j(4) jk by (metis min.commute take_take)
    have "out @ rx_stream (after_data g ?c) = take (k + ?m) S"
      using after_data_stream(1) [OF c(3), of g] True k(2) t by (simp add: take_add)
    moreover have "rcv_nxt (after_data g ?c) = q0 + of_nat (k + ?m)"
      using after_data_stream(2) [OF c(3), of g] True k(3) by (simp add: add.assoc)
    moreover have "k + ?m \<le> length S" using j(2) jk by simp
    ultimately show ?thesis by blast
  next
    case False
    then show ?thesis using after_data_stream [OF c(3), of g] k by auto
  qed
  then show ?thesis
    using p i c c' len after_data_rings [OF c(3), of g] by (simp add: rx_inv_def Let_def)
qed

lemma rx_inv_read:
  assumes "rx_inv i S q0 p"
  shows "rx_inv i S q0 (rx_step i (Read n) p)"
proof -
  obtain s out where p: "p = (s, out)" by (cases p)
  let ?c = "the_conn s i" and ?d = "drain_while (\<lambda>c. rx_len c \<noteq> 0) rx_front rx_pop n (the_conn s i)"
  from assms p obtain k where i: "i < length (conns (net_tcp s))" "i < TCP_MAX_CONNECTIONS"
    and c: "c_used ?c" "c_state ?c = TCP_ESTABLISHED" "rings_ok ?c"
    and k: "k \<le> length S" "out @ rx_stream ?c = take k S" "rcv_nxt ?c = q0 + of_nat k"
    by (auto simp: rx_inv_def Let_def)
  note d = rx.drain_spec [OF c(3), of n]
  have "valid_idx (int i)" using i(2) by (simp add: valid_idx_def)
  then have r: "fst (snd (tcp_read (int i) n s)) = fst ?d" "the_conn (snd (snd (tcp_read (int i) n s))) i = snd ?d"
    "length (conns (net_tcp (snd (snd (tcp_read (int i) n s))))) = length (conns (net_tcp s))"
    using c(1) i(1) by (simp_all add: tcp_read_def Let_def case_prod_beta)
  have "out @ fst ?d @ rx_stream (snd ?d) = take k S" using d k(2) by simp
  then show ?thesis
    using p i c k d r by (auto simp: rx_inv_def Let_def case_prod_beta drain_rx_keeps)
qed

lemma rx_inv_run:
  assumes "rx_inv i S q0 p" "length S < 2 ^ 32" "\<forall>a\<in>set ops. \<forall>g. a = Arrive g \<longrightarrow> carries S q0 g"
  shows "rx_inv i S q0 (fold (rx_step i) ops p)"
  using assms(1,3)
proof (induction ops arbitrary: p)
  case (Cons a ops)
  have "rx_inv i S q0 (rx_step i a p)"
  proof (cases a)
    case (Arrive g)
    then show ?thesis using rx_inv_arrive [OF Cons.prems(1) _ assms(2), of g] Cons.prems(2) by simp
  next
    case (Read n)
    then show ?thesis using rx_inv_read [OF Cons.prems(1), of n] by simp
  qed
  then show ?case using Cons by simp
qed simp

section \<open>Sending\<close>

text \<open>The ring arithmetic of \<^verbatim>\<open>tcp_write\<close> and \<^verbatim>\<open>tcp_tick\<close>: the chunk they copy is a piece of the
  send stream.\<close>

lemma tx_chunk:
  assumes "a + k \<le> tx_len c"
  shows "map (\<lambda>j. tx_buf c ((tx_head c + a + j) mod TCP_BUFFER_SIZE)) [0..<k] = take k (drop a (tx_stream c))"
  using assms by (intro nth_equalityI) (simp_all add: tx_stream_def add.assoc)

definition write_room :: "u8 list \<Rightarrow> tcp_conn \<Rightarrow> nat" where
  "write_room data c = min (length data) (TCP_BUFFER_SIZE - tx_len c)"

lemma send_now_bounds: "send_now n c \<le> n" "send_now n c \<le> 512"
  by (simp_all add: send_now_def Let_def)

lemma tcp_write_outcome:
  fixes i data s
  defines "c \<equiv> the_conn s i" and "n \<equiv> write_room data (the_conn s i)"
    and "c1 \<equiv> snd (fill_while (\<lambda>c. tx_len c < TCP_BUFFER_SIZE) tx_push data (the_conn s i))"
    and "k \<equiv> send_now (write_room data (the_conn s i)) (the_conn s i)"
  assumes i: "i < TCP_MAX_CONNECTIONS" "length (conns (net_tcp s)) = TCP_MAX_CONNECTIONS"
    and c: "c_used (the_conn s i)" "c_state (the_conn s i) = TCP_ESTABLISHED" "rings_ok (the_conn s i)"
  shows "fst (tcp_write (int i) data s) = int n"
    and "tx_stream c1 = tx_stream c @ take n data" "rings_ok c1" "tx_len c1 = tx_len c + n"
    and "snd (tcp_write (int i) data s) = (if k = 0 then set_conn i c1 s
      else set_conn i (c1\<lparr>snd_nxt := snd_nxt c + of_nat k, retransmit_at_ns := now s + TCP_RTO_NS, retries := 0\<rparr>)
        (snd (send_segment c1 (TCP_ACK OR TCP_PSH) (snd_nxt c) (take k data) (set_conn i c1 s))))"
proof -
  let ?f = "fill_while (\<lambda>c. tx_len c < TCP_BUFFER_SIZE) tx_push data (the_conn s i)"
  note spec = tx.fill_spec [OF c(3), of data]
  have n: "fst ?f = n" using spec by (simp add: n_def write_room_def)
  show str: "tx_stream c1 = tx_stream c @ take n data"
    using spec by (simp add: c1_def c_def n_def write_room_def min_def)
  show rings: "rings_ok c1" using spec by (simp add: c1_def)
  show len: "tx_len c1 = tx_len c + n"
    using arg_cong [OF str, of length] by (simp add: n_def write_room_def)
  have same: "tx_head c1 = tx_head c" "snd_nxt c1 = snd_nxt c" "snd_wnd c1 = snd_wnd c"
    by (simp_all add: c1_def c_def fill_tx_keeps)
  have sn: "send_now n c1 = k" using same(3) by (simp add: send_now_def Let_def k_def n_def c_def)
  have kn: "k \<le> n" unfolding k_def n_def by (rule send_now_bounds)
  have chunk: "map (\<lambda>j. tx_buf c1 ((tx_head c1 + (tx_len c1 - n) + j) mod TCP_BUFFER_SIZE)) [0..<k] = take k data"
  proof -
    have "map (\<lambda>j. tx_buf c1 ((tx_head c1 + (tx_len c1 - n) + j) mod TCP_BUFFER_SIZE)) [0..<k]
        = take k (drop (tx_len c1 - n) (tx_stream c1))"
      using len kn by (intro tx_chunk) simp
    also have "\<dots> = take k (take n data)" using len by (simp add: str)
    also have "\<dots> = take k data" using kn by (simp add: min_def)
    finally show ?thesis .
  qed
  have v: "valid_idx (int i)" using i(1) by (simp add: valid_idx_def)
  have w: "tcp_write (int i) data s = (if n = 0 \<or> k = 0 then (int n, set_conn i c1 s)
     else (int n, set_conn i (c1\<lparr>snd_nxt := snd_nxt c1 + of_nat k,
        retransmit_at_ns := now (snd (send_segment c1 (TCP_ACK OR TCP_PSH) (snd_nxt c1) (take k data) (set_conn i c1 s))) + TCP_RTO_NS,
        retries := 0\<rparr>) (snd (send_segment c1 (TCP_ACK OR TCP_PSH) (snd_nxt c1) (take k data) (set_conn i c1 s)))))"
    using v c(1,2) chunk sn
    by (simp add: tcp_write_def Let_def case_prod_beta n [unfolded c_def] flip: c1_def)
  show "fst (tcp_write (int i) data s) = int n" by (simp add: w)
  show "snd (tcp_write (int i) data s) = (if k = 0 then set_conn i c1 s
      else set_conn i (c1\<lparr>snd_nxt := snd_nxt c + of_nat k, retransmit_at_ns := now s + TCP_RTO_NS, retries := 0\<rparr>)
        (snd (send_segment c1 (TCP_ACK OR TCP_PSH) (snd_nxt c) (take k data) (set_conn i c1 s))))"
    using kn by (simp add: w same(2))
qed

section \<open>Properties\<close>

text \<open>C2: A program reads exactly the stream the far end sent: whatever in-order, out-of-order,
  repeated or overlapping segments of a stream arrive, and whenever the program reads, the
  bytes read so far followed by the bytes waiting are a prefix of the stream - nothing lost,
  repeated or out of order - and the acknowledged position is the end of that prefix. The
  stream may be up to 4 GiB long, so sequence numbers may wrap.\<close>

theorem tcp_delivers_stream_prefix:
  assumes "i < TCP_MAX_CONNECTIONS" "length (conns (net_tcp s)) = TCP_MAX_CONNECTIONS"
    and "c_used (the_conn s i)" "c_state (the_conn s i) = TCP_ESTABLISHED" "rings_ok (the_conn s i)"
    and "rx_len (the_conn s i) = 0" and "length S < 2 ^ 32"
    and "\<forall>g. Arrive g \<in> set ops \<longrightarrow> carries S (rcv_nxt (the_conn s i)) g"
  shows "\<exists>k\<le>length S. snd (rx_run i ops s) @ rx_stream (the_conn (fst (rx_run i ops s)) i) = take k S \<and>
    rcv_nxt (the_conn (fst (rx_run i ops s)) i) = rcv_nxt (the_conn s i) + of_nat k"
proof -
  have "rx_stream (the_conn s i) = []" using assms(6) length_streams(1) [of "the_conn s i"] by (metis length_0_conv)
  then have "rx_inv i S (rcv_nxt (the_conn s i)) (s, [])"
    using assms(1-5) by (auto simp: rx_inv_def Let_def intro!: exI [of _ 0])
  then have "rx_inv i S (rcv_nxt (the_conn s i)) (rx_run i ops s)"
    unfolding rx_run_def by (rule rx_inv_run [OF _ assms(7)]) (use assms(8) in blast)
  then show ?thesis by (auto simp: rx_inv_def Let_def)
qed

text \<open>The theorem for a stream of three bytes of which the second segment arrives twice, first out
  of order.\<close>

theorem tcp_delivers_stream_prefix_witness:
  "\<forall>s. let t = one_conn (zero_conn\<lparr>c_used := True, c_state := TCP_ESTABLISHED\<rparr>) s;
      seg = (\<lambda>q xs. \<lparr>g_src = 0, g_dst = 0, g_sport = 0, g_dport = 0, g_seq = q, g_ack = 0, g_flags = TCP_ACK, g_wnd = 0, g_payload = xs\<rparr>);
      ops = [Arrive (seg 2 [7]), Arrive (seg 0 [5, 6]), Read 1, Arrive (seg 2 [7])]
    in \<exists>k\<le>3. snd (rx_run 0 ops t) @ rx_stream (the_conn (fst (rx_run 0 ops t)) 0) = take k [5, 6, 7]"
proof
  fix s
  let ?c = "zero_conn\<lparr>c_used := True, c_state := TCP_ESTABLISHED\<rparr>"
  let ?t = "one_conn ?c s"
  define seg where "seg = (\<lambda>q xs. \<lparr>g_src = 0, g_dst = 0, g_sport = 0, g_dport = 0, g_seq = q, g_ack = 0, g_flags = TCP_ACK, g_wnd = 0, g_payload = xs :: u8 list\<rparr>)"
  let ?ops = "[Arrive (seg 2 [7]), Arrive (seg 0 [5, 6]), Read 1, Arrive (seg 2 [7])]"
  have c: "rings_ok ?c" "rx_len ?c = 0" "rcv_nxt ?c = 0"
    by (simp_all add: rings_ok_def zero_conn_def)
  have car: "carries [5, 6, 7] 0 (seg 2 [7])" "carries [5, 6, 7] 0 (seg 0 [5, 6])"
    unfolding carries_def by (auto simp: seg_def has_flag_def intro: exI [of _ 2] exI [of _ 0])
  have three: "length [5 :: u8, 6, 7] = 3" by simp
  have "\<exists>k\<le>length [5 :: u8, 6, 7]. snd (rx_run 0 ?ops ?t) @ rx_stream (the_conn (fst (rx_run 0 ?ops ?t)) 0) = take k [5, 6, 7] \<and>
    rcv_nxt (the_conn (fst (rx_run 0 ?ops ?t)) 0) = rcv_nxt (the_conn ?t 0) + of_nat k"
    by (rule tcp_delivers_stream_prefix) (use c car in \<open>simp_all add: TCP_MAX_CONNECTIONS_def\<close>)
  then show "let t = ?t; seg = (\<lambda>q xs. \<lparr>g_src = 0, g_dst = 0, g_sport = 0, g_dport = 0, g_seq = q, g_ack = 0, g_flags = TCP_ACK, g_wnd = 0, g_payload = xs\<rparr>);
      ops = [Arrive (seg 2 [7]), Arrive (seg 0 [5, 6]), Read 1, Arrive (seg 2 [7])]
    in \<exists>k\<le>3. snd (rx_run 0 ops t) @ rx_stream (the_conn (fst (rx_run 0 ops t)) 0) = take k [5, 6, 7]"
    unfolding Let_def seg_def three by blast
qed

text \<open>The next bytes of the stream are taken when there is room: on an established connection a
  segment whose sequence number is the one awaited and whose payload fits the buffer is
  appended to what waits to be read, the awaited number moves past it, and the connection
  keeps its state when there is no FIN.\<close>

theorem tcp_takes_next_bytes:
  assumes "i < length (conns (net_tcp s))" and "c_state (the_conn s i) = TCP_ESTABLISHED" "rings_ok (the_conn s i)"
    and "g_seq g = rcv_nxt (the_conn s i)" "length (g_payload g) \<le> rx_free (the_conn s i)" "\<not> has_flag (g_flags g) TCP_FIN"
  shows "rx_stream (the_conn (tcp_dispatch i g s) i) = rx_stream (the_conn s i) @ g_payload g \<and>
    rcv_nxt (the_conn (tcp_dispatch i g s) i) = rcv_nxt (the_conn s i) + of_nat (length (g_payload g)) \<and>
    c_state (the_conn (tcp_dispatch i g s) i) = TCP_ESTABLISHED"
  using assms after_data_stream [OF assms(3), of g] on_established_conn [OF assms(1), of g]
  by (simp add: tcp_dispatch_def Let_def rx_free_def)

theorem tcp_takes_next_bytes_witness:
  "\<forall>s. rx_stream (the_conn (tcp_dispatch 0 \<lparr>g_src = 0, g_dst = 0, g_sport = 0, g_dport = 0, g_seq = 0, g_ack = 0, g_flags = TCP_ACK,
    g_wnd = 0, g_payload = [1, 2]\<rparr> (one_conn (zero_conn\<lparr>c_used := True, c_state := TCP_ESTABLISHED\<rparr>) s)) 0) = [1, 2]"
proof
  fix s
  let ?c = "zero_conn\<lparr>c_used := True, c_state := TCP_ESTABLISHED\<rparr>"
  have "rx_stream ?c = []" "rings_ok ?c" "rx_free ?c = 4096" "rcv_nxt ?c = 0"
    by (simp_all add: rx_stream_def rings_ok_def rx_free_def zero_conn_def TCP_BUFFER_SIZE_def)
  then show "rx_stream (the_conn (tcp_dispatch 0 \<lparr>g_src = 0, g_dst = 0, g_sport = 0, g_dport = 0, g_seq = 0, g_ack = 0, g_flags = TCP_ACK,
    g_wnd = 0, g_payload = [1, 2]\<rparr> (one_conn ?c s)) 0) = [1, 2]"
    using tcp_takes_next_bytes [of 0 "one_conn ?c s" "\<lparr>g_src = 0, g_dst = 0, g_sport = 0, g_dport = 0, g_seq = 0, g_ack = 0, g_flags = TCP_ACK,
      g_wnd = 0, g_payload = [1, 2]\<rparr>"] by (simp add: TCP_MAX_CONNECTIONS_def has_flag_def)
qed

end
