(* ===== verification/Tcp_Sending.thy ===== *)
theory Tcp_Sending
  imports Tcp_Streams
begin

text \<open>
  What becomes of the bytes a program writes: the part of a write that is kept and sent, and
  the part that is kept and never leaves. A connection in the hands of arriving segments and
  of the timer is \<open>tx_run\<close>.
\<close>

section \<open>Runs of one connection\<close>

datatype tx_op = Segment_in segment | Timer u64

fun tx_step :: "nat \<Rightarrow> tx_op \<Rightarrow> net \<Rightarrow> net" where
  "tx_step i (Segment_in g) s = tcp_dispatch i g s"
| "tx_step i (Timer t) s = tcp_tick_slot t i s"

definition tx_run :: "nat \<Rightarrow> tx_op list \<Rightarrow> net \<Rightarrow> net" where
  "tx_run i ops s = fold (tx_step i) ops s"

text \<open>A segment without FIN that acknowledges more than \<open>q\<close>.\<close>

definition acks_past :: "u32 \<Rightarrow> segment \<Rightarrow> bool" where
  "acks_past q g \<longleftrightarrow> \<not> has_flag (g_flags g) TCP_FIN \<and> 0 < sint (g_ack g - q)"

text \<open>Everything sent is acknowledged, and \<open>tail\<close> is still in the buffer.\<close>

definition stalled :: "nat \<Rightarrow> u32 \<Rightarrow> u8 list \<Rightarrow> net \<Rightarrow> bool" where
  "stalled i q tail s \<longleftrightarrow> i < length (conns (net_tcp s)) \<and>
     (let c = the_conn s i in c_used c \<and> c_state c \<in> {TCP_ESTABLISHED, TCP_CLOSED} \<and> snd_nxt c = q \<and> tx_stream c = tail)"

lemma take_ack_refused:
  assumes "acks_past (snd_nxt c) g"
  shows "tx_stream (take_ack g c) = tx_stream c"
  using assms by (simp add: take_ack_def seq_le_def acks_past_def)

lemma after_data_sending [simp]:
  "snd_nxt (after_data g c) = snd_nxt c" "tx_stream (after_data g c) = tx_stream (take_ack g c)"
  by (simp_all add: after_data_def Let_def deliver_def case_prod_beta fill_rx_keeps)

lemma stalled_segment:
  assumes "stalled i q tail s" "acks_past q g"
  shows "stalled i q tail (tcp_dispatch i g s)"
proof -
  have i: "i < length (conns (net_tcp s))" using assms(1) by (simp add: stalled_def)
  have len: "length (conns (net_tcp (on_established i g s))) = length (conns (net_tcp s))"
    by (simp add: on_established_def take_fin_def Let_def)
  show ?thesis
  proof (cases "c_state (the_conn s i) = TCP_ESTABLISHED")
    case True
    have "the_conn (on_established i g s) i = after_data g (the_conn s i)"
      using on_established_conn [OF i, of g] True assms(2) by (simp add: Let_def acks_past_def)
    then show ?thesis
      using True assms len take_ack_refused [of "the_conn s i" g] by (simp add: stalled_def tcp_dispatch_def Let_def)
  next
    case False
    then have "c_state (the_conn s i) = TCP_CLOSED" using assms(1) by (simp add: stalled_def Let_def)
    then show ?thesis using assms(1) by (simp add: tcp_dispatch_def)
  qed
qed

lemma stalled_timer:
  assumes "stalled i q tail s"
  shows "stalled i q tail (tcp_tick_slot t i s)"
  using assms by (auto simp: stalled_def tcp_tick_slot_def tcp_retransmit_def Let_def tx_stream_def)

lemma stalled_run:
  assumes "stalled i q tail s" "\<forall>g. Segment_in g \<in> set ops \<longrightarrow> acks_past q g"
  shows "stalled i q tail (tx_run i ops s)"
  unfolding tx_run_def using assms
proof (induction ops arbitrary: s)
  case (Cons a ops)
  have "stalled i q tail (tx_step i a s)"
    using Cons.prems by (cases a) (auto intro: stalled_segment stalled_timer)
  then show ?case using Cons by simp
qed simp

section \<open>Properties\<close>

text \<open>C20: What \<^verbatim>\<open>tcp_write\<close> accepts is kept. On an established connection it returns the number of
  bytes the buffer had room for, appends exactly those bytes, in order, to what waits for
  acknowledgement, and counts as sent at most 512 of them and no more than an open window.\<close>

theorem tcp_write_keeps_bytes:
  assumes "i < TCP_MAX_CONNECTIONS" "length (conns (net_tcp s)) = TCP_MAX_CONNECTIONS"
    and "c_used (the_conn s i)" "c_state (the_conn s i) = TCP_ESTABLISHED" "rings_ok (the_conn s i)"
  shows "\<exists>n k. n = min (length data) (TCP_BUFFER_SIZE - tx_len (the_conn s i)) \<and> fst (tcp_write (int i) data s) = int n \<and>
    tx_stream (the_conn (snd (tcp_write (int i) data s)) i) = tx_stream (the_conn s i) @ take n data \<and>
    snd_nxt (the_conn (snd (tcp_write (int i) data s)) i) = snd_nxt (the_conn s i) + of_nat k \<and>
    k \<le> n \<and> k \<le> 512 \<and> (snd_wnd (the_conn s i) \<noteq> 0 \<longrightarrow> k \<le> unat (snd_wnd (the_conn s i)))"
proof -
  let ?c = "the_conn s i" and ?n = "write_room data (the_conn s i)"
  let ?k = "send_now ?n ?c"
  note w = tcp_write_outcome [OF assms, of data]
  have t: "tx_stream (c\<lparr>snd_nxt := q, retransmit_at_ns := t, retries := r\<rparr>) = tx_stream c" for c q t r
    by (simp add: tx_stream_def)
  have "i < length (conns (net_tcp s))" using assms(1,2) by simp
  then have "tx_stream (the_conn (snd (tcp_write (int i) data s)) i) = tx_stream ?c @ take ?n data"
    "snd_nxt (the_conn (snd (tcp_write (int i) data s)) i) = snd_nxt ?c + of_nat ?k"
    unfolding w(5) using w(2) by (simp_all add: t fill_tx_keeps)
  moreover have "snd_wnd ?c \<noteq> 0 \<longrightarrow> ?k \<le> unat (snd_wnd ?c)" by (simp add: send_now_def Let_def)
  ultimately show ?thesis
    using w(1) send_now_bounds [of ?n ?c] by (intro exI [of _ ?n] exI [of _ ?k]) (simp add: write_room_def)
qed

theorem tcp_write_keeps_bytes_witness:
  "\<forall>s. tx_stream (the_conn (snd (tcp_write 0 [1, 2, 3] (one_conn (zero_conn\<lparr>c_used := True, c_state := TCP_ESTABLISHED\<rparr>) s))) 0) = [1, 2, 3]"
proof
  fix s
  let ?c = "zero_conn\<lparr>c_used := True, c_state := TCP_ESTABLISHED\<rparr>"
  have c: "rings_ok ?c" "tx_len ?c = 0" "tx_stream ?c = []"
    by (simp_all add: rings_ok_def tx_stream_def zero_conn_def)
  show "tx_stream (the_conn (snd (tcp_write 0 [1, 2, 3] (one_conn ?c s))) 0) = [1, 2, 3]"
    using tcp_write_keeps_bytes [of 0 "one_conn ?c s" "[1, 2, 3]"] c
    by (auto simp: TCP_MAX_CONNECTIONS_def TCP_BUFFER_SIZE_def)
qed



end
