(* ===== verification/Ledger.thy ===== *)
theory Ledger
  imports Machine
begin

text \<open>
  Every packet buffer is accounted for. The pool counts the buffers it handed out and the
  buffers it took back; the difference is what waits in the receive queue, for an address, or
  in a socket, and what the drivers were given. So no function of the stack forgets a buffer
  on any path, and none frees one twice.

  \<open>balance\<close> is the difference between the two sides. A function that is given a buffer
  lowers it by one, whatever it does with the buffer; one that only uses buffers of its own
  leaves it alone.
\<close>

definition waiting :: "net \<Rightarrow> nat" where
  "waiting s = length (rx_queue (net_dev s)) + sum_list (map (\<lambda>p. if pd_used p then 1 else 0) (ip_pending (net_ip s)))
     + sum_list (map s_q_len (sockets (net_sock s)))"

definition balance :: "net \<Rightarrow> u64" where
  "balance s = nb_allocated (net_nb s) - nb_freed (net_nb s) - of_nat (length (wire (net_dev s))) - of_nat (waiting s)"

lemma balance_cong:
  "nb_allocated (net_nb t) = nb_allocated (net_nb s) \<Longrightarrow> nb_freed (net_nb t) = nb_freed (net_nb s) \<Longrightarrow>
   wire (net_dev t) = wire (net_dev s) \<Longrightarrow> rx_queue (net_dev t) = rx_queue (net_dev s) \<Longrightarrow>
   ip_pending (net_ip t) = ip_pending (net_ip s) \<Longrightarrow> sockets (net_sock t) = sockets (net_sock s) \<Longrightarrow> balance t = balance s"
  by (simp add: balance_def waiting_def)

lemma balance_updates [simp]:
  "balance (net_pmm_update f1 s) = balance s" "balance (net_eth_update f2 s) = balance s"
  "balance (net_arp_update f3 s) = balance s" "balance (net_icmp_update f4 s) = balance s"
  "balance (net_udp_update f5 s) = balance s" "balance (net_tcp_update f6 s) = balance s"
  "balance (net_dhcp_update f7 s) = balance s" "balance (now_update f8 s) = balance s"
  "balance (entropy_update f9 s) = balance s" "balance (panicked_update f10 s) = balance s"
  by (simp_all add: balance_def waiting_def)

lemma balance_parts [simp]:
  "ip_pending (f (net_ip s)) = ip_pending (net_ip s) \<Longrightarrow> balance (net_ip_update f s) = balance s"
  "sockets (g (net_sock s)) = sockets (net_sock s) \<Longrightarrow> balance (net_sock_update g s) = balance s"
  "wire (h (net_dev s)) = wire (net_dev s) \<Longrightarrow> rx_queue (h (net_dev s)) = rx_queue (net_dev s) \<Longrightarrow>
    balance (net_dev_update h s) = balance s"
  "balance (upd_dev i e s) = balance s"
  by (simp_all add: balance_def waiting_def)

section \<open>Buffers\<close>

lemma balance_pages [simp]: "balance (snd (alloc_page s)) = balance s" "balance (free_pages1 a s) = balance s"
  by (rule balance_cong; simp)+

lemma balance_free [simp]: "balance (netbuf_free b s) = balance s - 1"
  by (simp add: netbuf_free_def Let_def) (simp add: balance_def waiting_def)

lemma balance_alloc: "balance (snd (netbuf_alloc s)) = balance s + (if fst (netbuf_alloc s) = None then 0 else 1)"
  by (simp add: netbuf_alloc_def Let_def case_prod_beta split: list.splits) (simp add: balance_def waiting_def)

lemma balance_ends [simp]:
  "balance (snd (netbuf_push n b s)) = balance s" "balance (snd (netbuf_pull n b s)) = balance s"
  "balance (snd (netbuf_put n b s)) = balance s"
  by (rule balance_cong; simp add: netbuf_push_def netbuf_pull_def netbuf_put_def)+

section \<open>Sending\<close>

lemma balance_driver [simp]: "balance (snd (driver_transmit tr dev b s)) = balance s - 1"
  by (simp add: driver_transmit_def) (simp add: balance_def waiting_def)

lemma balance_transmit [simp]:
  "balance (snd (netdev_transmit dev b s)) = balance s - 1" "balance (snd (eth_transmit dev dst ty b s)) = balance s - 1"
proof -
  show t: "balance (snd (netdev_transmit dev b s)) = balance s - 1" for b s
    by (simp add: netdev_transmit_def Let_def case_prod_beta split: bool.splits option.splits)
  show "balance (snd (eth_transmit dev dst ty b s)) = balance s - 1"
    by (simp add: eth_transmit_def Let_def case_prod_beta t split: option.splits)
qed

lemma balance_arp [simp]:
  "balance (arp_learn dev ip mac s) = balance s" "balance (snd (arp_consult ip s)) = balance s"
  "balance (snd (arp_send_packet dev op tm ti fd s)) = balance s" "balance (snd (arp_lookup dev ip s)) = balance s"
proof -
  show "balance (arp_learn dev ip mac s) = balance s" by (simp add: arp_learn_def kpanic_def split: option.splits)
  show c: "balance (snd (arp_consult ip s)) = balance s" by (simp add: arp_consult_def Let_def split: option.splits)
  show a: "balance (snd (arp_send_packet dev op tm ti fd s)) = balance s" for op tm ti fd s
    using balance_alloc [of s] by (simp add: arp_send_packet_def Let_def case_prod_beta split: option.splits)
  show "balance (snd (arp_lookup dev ip s)) = balance s"
    using c by (simp add: arp_lookup_def case_prod_beta a split: option.splits)
qed

lemma sum_list_map_update:
  fixes f :: "'a \<Rightarrow> nat"
  assumes "i < length xs"
  shows "sum_list (map f (xs[i := x])) + f (xs ! i) = sum_list (map f xs) + f x"
  using assms
proof (induction xs arbitrary: i)
  case (Cons y ys)
  then show ?case by (cases i) auto
qed simp

text \<open>Changing one packet that waits for an address, or one socket.\<close>

definition used_bit :: "pending \<Rightarrow> nat" where
  "used_bit p = (if pd_used p then 1 else 0)"

lemma balance_pending:
  assumes "ip_pending (f (net_ip s)) = (ip_pending (net_ip s))[i := p]" "i < length (ip_pending (net_ip s))"
  shows "balance (net_ip_update f s) = balance s + of_nat (used_bit (ip_pending (net_ip s) ! i)) - of_nat (used_bit p)"
  using arg_cong [OF sum_list_map_update [OF assms(2), of used_bit p], of "of_nat :: nat \<Rightarrow> u64"]
  by (simp add: balance_def waiting_def used_bit_def [abs_def] assms(1) algebra_simps)

lemma balance_upd_sock:
  assumes "i < length (sockets (net_sock s))"
  shows "balance (upd_sock i f s) = balance s + of_nat (s_q_len (the_sock s i)) - of_nat (s_q_len (f (the_sock s i)))"
  using arg_cong [OF sum_list_map_update [OF assms, of s_q_len "f (the_sock s i)"], of "of_nat :: nat \<Rightarrow> u64"]
  by (simp add: balance_def waiting_def upd_sock_def the_sock_def algebra_simps)

lemma balance_ip [simp]:
  "balance (snd (ip_next_id s)) = balance s" "balance (snd (ip_build_header b dev dst p s)) = balance s"
  "balance (snd (ip_hold b dev hop s)) = balance s - 1" "balance (snd (ip_transmit dst p b s)) = balance s - 1"
proof -
  show n: "balance (snd (ip_next_id s)) = balance s" for s by (simp add: ip_next_id_def Let_def)
  show b: "balance (snd (ip_build_header b dev dst p s)) = balance s" for dev
    by (simp add: ip_build_header_def Let_def case_prod_beta n split: option.splits)
  show h: "balance (snd (ip_hold b dev hop s)) = balance s - 1" for b dev hop s
    using first_slot_hit [of "\<lambda>p. \<not> pd_used p" "ip_pending (net_ip s)"]
    by (auto simp: ip_hold_def Let_def used_bit_def split: option.splits intro!: trans [OF balance_pending])
  show "balance (snd (ip_transmit dst p b s)) = balance s - 1"
    by (simp add: ip_transmit_def ip_finish_send_def case_prod_beta b h split: option.splits)
qed

lemma balance_flush:
  assumes "length (ip_pending (net_ip s)) = PENDING_MAX"
  shows "balance (ip_flush_pending s) = balance s"
proof -
  have r: "balance (ip_release i t) = balance t + of_nat (used_bit (ip_pending (net_ip t) ! i))"
    if "i < length (ip_pending (net_ip t))" for i t
    using that by (auto simp: ip_release_def used_bit_def intro!: trans [OF balance_pending])
  have slot: "balance (ip_flush_slot i t) = balance t" if "i < length (ip_pending (net_ip t))" for i t
    using that r [of i t] r [of i "snd (arp_lookup d h t)" for d h]
    by (simp add: ip_flush_slot_def ip_finish_send_def Let_def case_prod_beta used_bit_def split: option.splits)
  have "balance (fold ip_flush_slot is t) = balance t"
    if "\<forall>i\<in>set is. i < PENDING_MAX" "length (ip_pending (net_ip t)) = PENDING_MAX" for "is" t
    using that
  proof (induction "is" arbitrary: t)
    case (Cons i "is")
    then show ?case by (simp add: slot)
  qed simp
  then show ?thesis using assms by (simp add: ip_flush_pending_def)
qed

section \<open>Who holds the datagrams\<close>

text \<open>The tables only the socket layer writes: the sockets and the bound ports.\<close>

definition desk :: "net \<Rightarrow> socket list \<times> udp_binding list" where
  "desk s = (sockets (net_sock s), bindings (net_udp s))"

lemma desk_cong: "net_sock t = net_sock s \<Longrightarrow> net_udp t = net_udp s \<Longrightarrow> desk t = desk s"
  by (simp add: desk_def)

lemma desk_updates [simp]:
  "desk (net_pmm_update f1 s) = desk s" "desk (net_nb_update f2 s) = desk s" "desk (net_eth_update f3 s) = desk s"
  "desk (net_arp_update f4 s) = desk s" "desk (net_ip_update f5 s) = desk s" "desk (net_icmp_update f6 s) = desk s"
  "desk (net_tcp_update f7 s) = desk s" "desk (net_dhcp_update f8 s) = desk s" "desk (net_dev_update f9 s) = desk s"
  "desk (now_update f10 s) = desk s" "desk (entropy_update f11 s) = desk s" "desk (panicked_update f12 s) = desk s"
  "desk (upd_dev i e s) = desk s"
  "bindings (g (net_udp s)) = bindings (net_udp s) \<Longrightarrow> desk (net_udp_update g s) = desk s"
  "sockets (h (net_sock s)) = sockets (net_sock s) \<Longrightarrow> desk (net_sock_update h s) = desk s"
  by (simp_all add: desk_def)

lemma desk_low [simp]:
  "desk (netbuf_free b s) = desk s" "desk (snd (netbuf_alloc s)) = desk s" "desk (snd (netbuf_push n b s)) = desk s"
  "desk (snd (netbuf_pull n b s)) = desk s" "desk (snd (netbuf_put n b s)) = desk s" "desk (snd (alloc_page s)) = desk s"
  "desk (free_pages1 pg s) = desk s" "desk (snd (arp_lookup i ip s)) = desk s" "desk (arp_receive i b s) = desk s"
  "desk (snd (eth_transmit i d t b s)) = desk s" "desk (snd (ip_transmit dst p b s)) = desk s"
  "desk (set_echo j e s) = desk s" "desk (snd (initial_sequence s)) = desk s" "desk (snd (random_word s)) = desk s"
  "desk (ip_flush_pending s) = desk s" "desk (icmp_receive i b s) = desk s" "desk (set_conn j c s) = desk s"
  "desk (snd (send_segment c f q p' s)) = desk s" "desk (send_reset a bb c' d' e' f' g' s) = desk s"
  "desk (snd (alloc_conn s)) = desk s" "desk (free_conn j s) = desk s"
  by (rule desk_cong; simp add: random_word_def split: list.splits)+

lemma desk_tcp_handlers [simp]:
  "desk (on_listen i g s) = desk s" "desk (on_syn_sent i g s) = desk s" "desk (on_syn_received i g s) = desk s"
  "desk (take_payload i g s) = desk s" "desk (take_fin i g s) = desk s"
  "desk (on_last_ack i g s) = desk s" "desk (on_reset i s) = desk s" "desk (no_connection g s) = desk s"
  by (simp_all add: tcp_handlers Let_def case_prod_beta split: option.splits)

lemma desk_tcp [simp]:
  "desk (tcp_segment g s) = desk s" "desk (tcp_receive dev b s) = desk s" "desk (tcp_tick_slot t i s) = desk s"
  "desk (snd (tcp_open a p b' q s)) = desk s" "desk (snd (tcp_open_listener a p s)) = desk s"
  "desk (snd (tcp_accept_ready l s)) = desk s" "desk (snd (tcp_write n xs s)) = desk s"
  "desk (snd (snd (tcp_read n m s))) = desk s" "desk (tcp_shutdown n s) = desk s"
proof -
  show g: "desk (tcp_segment g s) = desk s" for g s
    by (simp add: tcp_segment_def tcp_dispatch_def on_established_def split: option.splits tcp_st.splits)
  show "desk (tcp_receive dev b s) = desk s" by (simp add: tcp_receive_def Let_def g)
  show "desk (tcp_tick_slot t i s) = desk s" by (simp add: tcp_tick_slot_def tcp_retransmit_def Let_def)
  show "desk (snd (tcp_open a p b' q s)) = desk s" "desk (snd (tcp_open_listener a p s)) = desk s"
    "desk (snd (tcp_accept_ready l s)) = desk s" "desk (snd (tcp_write n xs s)) = desk s"
    "desk (snd (snd (tcp_read n m s))) = desk s" "desk (tcp_shutdown n s) = desk s"
    by (simp_all add: tcp_open_def tcp_open_listener_def tcp_accept_ready_def tcp_write_def tcp_read_def tcp_shutdown_def
        Let_def case_prod_beta split: option.splits tcp_st.splits)
qed

lemma desk_tick [simp]: "desk (tcp_tick s) = desk s"
  unfolding tcp_tick_def by (rule fold_keeps) simp

section \<open>TCP and ICMP use only buffers of their own\<close>

lemma balance_segment [simp]:
  "balance (snd (seg_payload p b s)) = balance s" "balance (snd (send_segment c fl q p s)) = balance s"
  "balance (send_reset a bb c' d' e' f' g' s) = balance s" "balance (set_conn i c s) = balance s"
proof -
  show p: "balance (snd (seg_payload p b s)) = balance s" for p b s
    by (simp add: seg_payload_def case_prod_beta split: option.splits)
  show "balance (snd (send_segment c fl q p s)) = balance s"
    using balance_alloc [of s] by (simp add: send_segment_def case_prod_beta p split: option.splits)
  show "balance (send_reset a bb c' d' e' f' g' s) = balance s"
    using balance_alloc [of s] by (simp add: send_reset_def case_prod_beta split: option.splits)
  show "balance (set_conn i c s) = balance s" by (simp add: set_conn_def)
qed

lemma balance_conn [simp]:
  "balance (snd (random_word s)) = balance s" "balance (snd (initial_sequence s)) = balance s"
  "balance (snd (alloc_conn s)) = balance s" "balance (free_conn i s) = balance s"
  by (simp_all add: random_word_def initial_sequence_def alloc_conn_def free_conn_def Let_def case_prod_beta
      split: list.splits option.splits)

lemma balance_tcp_handlers [simp]:
  "balance (on_listen i g s) = balance s" "balance (on_syn_sent i g s) = balance s"
  "balance (on_syn_received i g s) = balance s" "balance (take_payload i g s) = balance s"
  "balance (take_fin i g s) = balance s" "balance (on_last_ack i g s) = balance s"
  "balance (on_reset i s) = balance s" "balance (no_connection g s) = balance s"
  by (simp_all add: tcp_handlers Let_def case_prod_beta split: option.splits)

lemma balance_tcp [simp]:
  "balance (tcp_segment g s) = balance s" "balance (tcp_receive dev b s) = balance s - 1"
  "balance (tcp_tick_slot t i s) = balance s"
  "balance (snd (tcp_open a p b' q s)) = balance s" "balance (snd (tcp_open_listener a p s)) = balance s"
  "balance (snd (tcp_accept_ready l s)) = balance s" "balance (snd (tcp_write n xs s)) = balance s"
  "balance (snd (snd (tcp_read n m s))) = balance s" "balance (tcp_shutdown n s) = balance s"
proof -
  show g: "balance (tcp_segment g s) = balance s" for g s
    by (simp add: tcp_segment_def tcp_dispatch_def on_established_def split: option.splits tcp_st.splits)
  show "balance (tcp_receive dev b s) = balance s - 1" by (simp add: tcp_receive_def Let_def g)
  show "balance (tcp_tick_slot t i s) = balance s" by (simp add: tcp_tick_slot_def tcp_retransmit_def Let_def)
  show "balance (snd (tcp_open a p b' q s)) = balance s" "balance (snd (tcp_open_listener a p s)) = balance s"
    "balance (snd (tcp_accept_ready l s)) = balance s" "balance (snd (tcp_write n xs s)) = balance s"
    "balance (snd (snd (tcp_read n m s))) = balance s" "balance (tcp_shutdown n s) = balance s"
    by (simp_all add: tcp_open_def tcp_open_listener_def tcp_accept_ready_def tcp_write_def tcp_read_def tcp_shutdown_def
        Let_def case_prod_beta split: option.splits tcp_st.splits)
qed

lemma balance_tick [simp]: "balance (tcp_tick s) = balance s"
  unfolding tcp_tick_def by (rule fold_keeps) simp

lemma balance_icmp [simp]:
  "balance (set_echo i f s) = balance s" "balance (icmp_receive dev b s) = balance s - 1"
  by (simp_all add: set_echo_def icmp_receive_def Let_def split: option.splits)

lemma balance_echo_send:
  assumes "echo_times (net_icmp s)"
  shows "balance (snd (icmp_echo_send dst s)) = balance s"
proof -
  obtain i where "echo_slot (echoes (net_icmp s)) = Some i" using echo_slot_Some [OF assms] by blast
  then show ?thesis
    using balance_alloc [of s]
    by (simp add: icmp_echo_send_def icmp_take_id_def Let_def case_prod_beta split: option.splits)
qed

section \<open>Datagrams in sockets\<close>

text \<open>The occupied cells of a socket's ring are exactly those that hold a buffer.\<close>

definition cells_exact :: "socket \<Rightarrow> bool" where
  "cells_exact k \<longleftrightarrow> length (s_queue k) = DGRAM_QUEUE \<and> s_q_head k < DGRAM_QUEUE \<and> s_q_len k \<le> DGRAM_QUEUE \<and>
     (\<forall>j<DGRAM_QUEUE. (dg_buf (s_queue k ! ((s_q_head k + j) mod DGRAM_QUEUE)) = None) = (s_q_len k \<le> j))"

lemma cell_distinct:
  assumes "i < DGRAM_QUEUE" "j < DGRAM_QUEUE"
  shows "(h + i) mod DGRAM_QUEUE = (h + j) mod DGRAM_QUEUE \<longleftrightarrow> i = j"
  using mod_add_distinct [of i j DGRAM_QUEUE h] mod_add_distinct [of j i DGRAM_QUEUE h] assms
  by (cases i j rule: linorder_cases) auto

lemma cell_lt [simp]: "(h :: nat) mod DGRAM_QUEUE < DGRAM_QUEUE"
  by (simp add: DGRAM_QUEUE_def)

lemma cells_exact_put:
  assumes "cells_exact k" "s_q_len k < DGRAM_QUEUE"
  shows "cells_exact (dgram_put b k)"
proof -
  let ?h = "s_q_head k" and ?n = "s_q_len k" and ?N = DGRAM_QUEUE
  have "dg_buf ((s_queue k)[(?h + ?n) mod ?N := dgram_cell b] ! ((?h + j) mod ?N))
      = (if j = ?n then Some b else dg_buf (s_queue k ! ((?h + j) mod ?N)))" if "j < ?N" for j
    using assms that cell_distinct [OF assms(2) that, of ?h]
    by (auto simp: cells_exact_def nth_list_update dgram_cell_def)
  then show ?thesis
    using assms by (auto simp: cells_exact_def dgram_put_def Let_def simp flip: dgram_cell_def)
qed

lemma cells_exact_take:
  assumes "cells_exact k"
  shows "cells_exact (snd (dgram_take k))" and "s_q_len (snd (dgram_take k)) = s_q_len k - 1"
    and "fst (dgram_take k) = None \<longleftrightarrow> s_q_len k = 0"
proof -
  let ?h = "s_q_head k" and ?n = "s_q_len k" and ?N = DGRAM_QUEUE
  let ?q = "(s_queue k)[?h := (s_queue k ! ?h)\<lparr>dg_buf := None\<rparr>]"
  have k: "length (s_queue k) = ?N" "?h < ?N" "?n \<le> ?N"
    and cell: "\<And>j. j < ?N \<Longrightarrow> (dg_buf (s_queue k ! ((?h + j) mod ?N)) = None) = (?n \<le> j)"
    using assms by (auto simp: cells_exact_def)
  have "(dg_buf (?q ! (((?h + 1) mod ?N + j) mod ?N)) = None) = (?n - 1 \<le> j)" if "j < ?N" "?n \<noteq> 0" for j
  proof -
    have at: "((?h + 1) mod ?N + j) mod ?N = (?h + Suc j) mod ?N" by (simp add: mod_add_left_eq)
    show ?thesis
    proof (cases "Suc j < ?N")
      case True
      then have "(?h + Suc j) mod ?N \<noteq> ?h" using cell_distinct [of "Suc j" 0 ?h] k(2) by simp
      then show ?thesis unfolding at using cell [OF True] that by (auto simp: nth_list_update)
    next
      case False
      then have j: "Suc j = ?N" using that by simp
      then have "(?h + Suc j) mod ?N = ?h" using k(2) by simp
      then show ?thesis unfolding at using k j by auto
    qed
  qed
  then show "cells_exact (snd (dgram_take k))"
    using assms k by (auto simp: cells_exact_def dgram_take_def Let_def)
  show "s_q_len (snd (dgram_take k)) = s_q_len k - 1" by (simp add: dgram_take_def Let_def)
  show "fst (dgram_take k) = None \<longleftrightarrow> s_q_len k = 0"
    using cell [of 0] k(2) by (auto simp: dgram_take_def Let_def DGRAM_QUEUE_def split: option.splits)
qed

lemma cells_exact_count:
  assumes "cells_exact k"
  shows "length (filter (\<lambda>d. dg_buf d \<noteq> None) (s_queue k)) = s_q_len k"
proof -
  let ?h = "s_q_head k" and ?n = "s_q_len k" and ?N = DGRAM_QUEUE
  have k: "length (s_queue k) = ?N" "?n \<le> ?N"
    and cell: "\<And>j. j < ?N \<Longrightarrow> (dg_buf (s_queue k ! ((?h + j) mod ?N)) = None) = (?n \<le> j)"
    using assms by (auto simp: cells_exact_def)
  let ?f = "\<lambda>j. (?h + j) mod ?N"
  have inj: "inj_on ?f {..<?N}" by (auto intro!: inj_onI simp: cell_distinct)
  have all: "?f ` {..<?N} = {..<?N}"
    using inj by (intro endo_inj_surj) auto
  have "{i. i < ?N \<and> dg_buf (s_queue k ! i) \<noteq> None} = ?f ` {..<?n}"
  proof (intro equalityI subsetI)
    fix i assume i: "i \<in> {i. i < ?N \<and> dg_buf (s_queue k ! i) \<noteq> None}"
    then obtain j where "j < ?N" "i = ?f j" using all by (metis (mono_tags, lifting) imageE lessThan_iff mem_Collect_eq)
    then have "j < ?n" using i cell [of j] by auto
    then show "i \<in> ?f ` {..<?n}" using \<open>i = ?f j\<close> by blast
  next
    fix i assume "i \<in> ?f ` {..<?n}"
    then obtain j where "j < ?n" "i = ?f j" by blast
    then show "i \<in> {i. i < ?N \<and> dg_buf (s_queue k ! i) \<noteq> None}" using cell [of j] k(2) by simp
  qed
  moreover have "inj_on ?f {..<?n}" using inj k(2) by (auto intro: inj_on_subset)
  ultimately show ?thesis by (simp add: length_filter_conv_card k(1) card_image)
qed

lemma cells_exact_zero [simp]:
  "cells_exact (zero_socket\<lparr>s_conn := a\<rparr>)" "cells_exact (zero_socket\<lparr>s_used := u, s_type := t, s_conn := a\<rparr>)"
  "cells_exact zero_socket" "s_q_len (zero_socket\<lparr>s_conn := a\<rparr>) = 0" "0 < DGRAM_QUEUE"
  by (auto simp: cells_exact_def zero_socket_def DGRAM_QUEUE_def)

text \<open>The socket a bound port leads to is open, and bound to that port.\<close>

definition books :: "socket list \<times> udp_binding list \<Rightarrow> bool" where
  "books d \<longleftrightarrow> (case d of (ks, bs) \<Rightarrow> length ks = SOCKET_MAX \<and>
     (\<forall>k\<in>set ks. cells_exact k \<and> (s_used k \<or> s_q_len k = 0)) \<and>
     (\<forall>b\<in>set bs. \<forall>i. ub_used b \<longrightarrow> ub_fn b = Fn_udp_arrived i \<longrightarrow> i < SOCKET_MAX \<and> s_used (ks ! i) \<and>
        s_type (ks ! i) = SOCK_DGRAM \<and> s_bound (ks ! i) \<and> s_local_port (ks ! i) = ub_port b))"

lemma booksD:
  assumes "books (desk s)"
  shows "length (sockets (net_sock s)) = SOCKET_MAX"
    and "i < SOCKET_MAX \<Longrightarrow> cells_exact (the_sock s i)"
    and "i < SOCKET_MAX \<Longrightarrow> \<not> s_used (the_sock s i) \<Longrightarrow> s_q_len (the_sock s i) = 0"
  using assms by (auto simp: books_def desk_def the_sock_def)

text \<open>Changing one socket keeps the books when its ring stays exact and what its port relies on
  is not touched.\<close>

lemma books_upd_sock:
  assumes "books (desk s)" and "cells_exact (f (the_sock s i))"
    and "s_used (f (the_sock s i)) \<or> s_q_len (f (the_sock s i)) = 0"
    and "\<And>b. b \<in> set (bindings (net_udp s)) \<Longrightarrow> ub_used b \<Longrightarrow> ub_fn b = Fn_udp_arrived i \<Longrightarrow>
      s_used (f (the_sock s i)) \<and> s_type (f (the_sock s i)) = SOCK_DGRAM \<and> s_bound (f (the_sock s i)) \<and>
      s_local_port (f (the_sock s i)) = ub_port b"
  shows "books (desk (upd_sock i f s))"
proof -
  let ?ks = "sockets (net_sock s)" and ?k = "f (the_sock s i)"
  have B: "length ?ks = SOCKET_MAX" "\<forall>k\<in>set ?ks. cells_exact k \<and> (s_used k \<or> s_q_len k = 0)"
    using assms(1) by (simp_all add: books_def desk_def)
  have "\<forall>k\<in>set (?ks[i := ?k]). cells_exact k \<and> (s_used k \<or> s_q_len k = 0)"
    using B(2) assms(2,3) by (auto dest!: set_update_subset_insert [THEN subsetD])
  moreover have "j < SOCKET_MAX \<and> s_used (?ks[i := ?k] ! j) \<and> s_type (?ks[i := ?k] ! j) = SOCK_DGRAM \<and>
      s_bound (?ks[i := ?k] ! j) \<and> s_local_port (?ks[i := ?k] ! j) = ub_port b"
    if b: "b \<in> set (bindings (net_udp s))" "ub_used b" "ub_fn b = Fn_udp_arrived j" for b j
    using assms(1,4) b B(1) by (cases "j = i") (auto simp: books_def desk_def)
  ultimately show ?thesis using B(1) by (simp add: books_def desk_def upd_sock_def flip: the_sock_def)
qed

lemma books_udp_arrived:
  assumes "books (desk s)" "i < SOCKET_MAX" "s_used (the_sock s i)"
  shows "books (desk (udp_arrived i b s))" "balance (udp_arrived i b s) = balance s - 1"
proof -
  note B = booksD [OF assms(1)]
  have i: "i < length (sockets (net_sock s))" using assms(2) B(1) by simp
  have keep: "s_type (the_sock s i) = SOCK_DGRAM \<and> s_bound (the_sock s i) \<and> s_local_port (the_sock s i) = ub_port c"
    if "c \<in> set (bindings (net_udp s))" "ub_used c" "ub_fn c = Fn_udp_arrived i" for c
    using assms(1) that by (auto simp: books_def desk_def the_sock_def)
  have put: "books (desk (upd_sock i (dgram_put b) s))" if "s_q_len (the_sock s i) < DGRAM_QUEUE"
    using assms keep cells_exact_put [OF B(2) that] by (intro books_upd_sock) (simp_all add: dgram_put_def Let_def)
  have drop: "books (desk (upd_sock i (bump s_dropped_update) s))"
    using assms keep B(2) [OF assms(2)] by (intro books_upd_sock) (auto simp: cells_exact_def)
  show "books (desk (udp_arrived i b s))"
    using put drop by (simp add: udp_arrived_def)
  show "balance (udp_arrived i b s) = balance s - 1"
    using i by (simp add: udp_arrived_def balance_upd_sock dgram_put_def Let_def)
qed

section \<open>Receiving\<close>

lemma dhcp_arrived_books [simp]:
  "desk (dhcp_arrived b s) = desk s" "balance (dhcp_arrived b s) = balance s - 1"
  by (simp_all add: dhcp_arrived_def Let_def split: option.splits prod.splits)

lemma desk_arp_ip [simp]: "desk (arp_learn dev ip mac s) = desk s"
  by (simp add: arp_learn_def kpanic_def split: option.splits)

lemma balance_arp_receive [simp]: "balance (arp_receive dev b s) = balance s - 1"
  by (simp add: arp_receive_def Let_def)

lemma call_udp_fn_books:
  assumes "books (desk s)" "\<And>i. fn = Fn_udp_arrived i \<Longrightarrow> i < SOCKET_MAX \<and> s_used (the_sock s i)"
  shows "books (desk (call_udp_fn fn b s)) \<and> balance (call_udp_fn fn b s) = balance s - 1"
proof (cases fn)
  case (Fn_udp_arrived i)
  then show ?thesis
    using assms books_udp_arrived [of "net_udp_update (bump udp_rx_datagrams_update) s" i b]
    by (simp add: call_udp_fn_def the_sock_def)
qed (use assms(1) in \<open>simp_all add: call_udp_fn_def\<close>)

lemma udp_receive_books:
  assumes "books (desk s)"
  shows "books (desk (udp_receive dev b s)) \<and> balance (udp_receive dev b s) = balance s - 1"
proof -
  have live: "i < SOCKET_MAX \<and> s_used (the_sock s i)"
    if "udp_find (bindings (net_udp s)) p = Some j" "ub_fn (bindings (net_udp s) ! j) = Fn_udp_arrived i" for p i j
    using assms that first_slot_Some [OF that(1) [unfolded udp_find_def]]
    by (auto simp: books_def desk_def the_sock_def)
  define ok where "ok fn c n d \<longleftrightarrow> books (desk (call_udp_fn fn c (snd (netbuf_pull n d s)))) \<and>
    balance (call_udp_fn fn c (snd (netbuf_pull n d s))) = balance s - 1" for fn c n d
  have ok: "ok fn c n d" if "\<And>i. fn = Fn_udp_arrived i \<Longrightarrow> i < SOCKET_MAX \<and> s_used (the_sock s i)" for fn c n d
    using call_udp_fn_books [of "snd (netbuf_pull n d s)" fn c] assms that by (simp add: ok_def the_sock_def)
  have "ok Fn_null c n d" for c n d by (rule ok) simp
  moreover have "ok (ub_fn (bindings (net_udp s) ! j)) c n d" if "udp_find (bindings (net_udp s)) p = Some j" for c n d j p
    by (rule ok) (rule live [OF that])
  ultimately show ?thesis
    using assms by (auto simp: udp_receive_def Let_def case_prod_beta ok_def split: option.splits)
qed

lemma ip_receive_books:
  assumes "books (desk s)"
  shows "books (desk (ip_receive dev b s)) \<and> balance (ip_receive dev b s) = balance s - 1"
proof -
  have "books (desk (ip_deliver dev c n s)) \<and> balance (ip_deliver dev c n s) = balance s - 1" for c n
    using assms udp_receive_books [of "net_ip_update (bump ip_rx_packets_update) (snd (netbuf_pull n c s))" dev]
    by (simp add: ip_deliver_def Let_def case_prod_beta)
  then show ?thesis using assms by (simp add: ip_receive_def Let_def)
qed

lemma eth_receive_books:
  assumes "books (desk s)"
  shows "books (desk (eth_receive dev b s)) \<and> balance (eth_receive dev b s) = balance s - 1"
  using assms ip_receive_books [of "snd (netbuf_pull ETH_HDR_LEN b s)" dev]
  by (simp add: eth_receive_def Let_def case_prod_beta)

lemma rx_take_books:
  "desk (snd (rx_take s)) = desk s"
  "balance (snd (rx_take s)) = balance s + (if fst (rx_take s) = None then 0 else 1)"
  by (simp add: rx_take_def split: list.splits)
    (simp add: rx_take_def balance_def waiting_def split: list.splits)

lemma service_loop_books:
  assumes "net_ok M s" "books (desk s)"
  shows "books (desk (service_loop s)) \<and> balance (service_loop s) = balance s"
  using assms
proof (induction s rule: service_loop.induct)
  case (1 s)
  show ?case
  proof (cases "fst (rx_take s)")
    case None
    then show ?thesis
      using "1.prems" rx_take_books [of s] by (subst service_loop.simps, subst (2) service_loop.simps) (simp add: case_prod_beta)
  next
    case (Some b)
    let ?s1 = "snd (rx_take s)"
    have dev: "buf_ok M b" "nb_dev b \<noteq> None" and ok1: "net_ok M ?s1"
      using rx_take_ok [OF "1.prems"(1)] Some by auto
    have "books (desk (service_one b ?s1)) \<and> balance (service_one b ?s1) = balance s"
      using dev(2) "1.prems"(2) rx_take_books [of s] Some
        eth_receive_books [of "?s1\<lparr>net_dev := (net_dev ?s1)\<lparr>rx_serviced := n\<rparr>\<rparr>" for n]
      by (auto simp: service_one_def Let_def)
    moreover have "net_ok M (service_one b ?s1)" by (rule service_one_ok [OF ok1 dev])
    ultimately show ?thesis
      using "1.IH" [of "Some b" ?s1 b] Some
      by (subst service_loop.simps, subst (2) service_loop.simps) (simp add: case_prod_beta prod_eq_iff)
  qed
qed

section \<open>The whole machine\<close>

definition audited :: "paddr set \<Rightarrow> net \<Rightarrow> bool" where
  "audited M s \<longleftrightarrow> safe M s \<and> books (desk s) \<and> balance s = 0"

lemma auditedD:
  assumes "audited M s"
  shows "safe M s" "net_ok M s" "books (desk s)" "balance s = 0" "length (ip_pending (net_ip s)) = PENDING_MAX"
    "echo_times (net_icmp s)" "length (sockets (net_sock s)) = SOCKET_MAX"
  using assms safeD [of M s] net_okD(7) [of M s] by (simp_all add: audited_def)

lemma auditedI: "safe M s \<Longrightarrow> books (desk s) \<Longrightarrow> balance s = 0 \<Longrightarrow> audited M s"
  by (simp add: audited_def)

definition honest :: "paddr set \<Rightarrow> (nat \<Rightarrow> net \<Rightarrow> net) \<Rightarrow> bool" where
  "honest M poll \<longleftrightarrow> good_poll M poll \<and> (\<forall>i s. audited M s \<longrightarrow> audited M (poll i s))"

named_theorems audit

lemma card_frame_books [simp]: "desk (card_frame dev f s) = desk s" "balance (card_frame dev f s) = balance s"
proof -
  have "desk (netdev_receive dev b t) = desk t" "balance (netdev_receive dev b t) = balance t - 1" for b t
    by (simp_all add: netdev_receive_def Let_def) (simp add: balance_def waiting_def)
  then show "desk (card_frame dev f s) = desk s" "balance (card_frame dev f s) = balance s"
    using balance_alloc [of s] by (simp_all add: card_frame_def Let_def case_prod_beta split: option.splits)
qed

lemma audited_card_frame [audit]: "audited M s \<Longrightarrow> audited M (card_frame dev f s)"
  by (rule auditedI) (auto simp: auditedD intro: safeI dest: auditedD(1) card_frame_ok [OF auditedD(2)])

lemma honest_card_poll: "honest M (card_poll arrivals)"
proof -
  have "audited M (fold (card_frame i) fs s)" if "audited M s" for i fs s
    using that by (induction fs arbitrary: s) (simp_all add: audited_card_frame)
  then show ?thesis by (simp add: honest_def good_card_poll card_poll_def)
qed

lemma audited_service [audit]:
  assumes "honest M poll" "audited M s"
  shows "audited M (netdev_service poll s)"
proof -
  let ?f = "\<lambda>i s. if d_up (the_dev s i) \<and> d_poll (the_dev s i) then poll i s else s"
  have "audited M (fold ?f is s)" if "audited M s" for "is" s
    using that assms(1) by (induction "is" arbitrary: s) (auto simp: honest_def)
  then have p: "audited M (netdev_poll_all poll s)" using assms(2) by (simp add: netdev_poll_all_def)
  have "safe M (netdev_service poll s)"
    using assms by (intro safe_service) (simp_all add: honest_def auditedD)
  then show ?thesis
    using service_loop_books [OF auditedD(2,3) [OF p]] auditedD(4) [OF p]
    by (simp add: audited_def netdev_service_def)
qed

lemma audited_flush [audit]: "audited M s \<Longrightarrow> audited M (ip_flush_pending s)"
  by (rule auditedI) (simp_all add: auditedD safe_flush balance_flush)

lemma desk_echo_send [simp]: "desk (snd (icmp_echo_send dst s)) = desk s"
  by (simp add: icmp_echo_send_def icmp_take_id_def kpanic_def Let_def case_prod_beta split: option.splits)

lemma audited_plain [audit]:
  assumes "audited M s"
  shows "audited M (tcp_tick s)" "audited M (snd (random_word s))" "audited M (snd (tcp_open a p b q s))"
    "audited M (snd (tcp_open_listener a p s))" "audited M (snd (tcp_accept_ready l s))"
    "audited M (snd (tcp_write n xs s))" "audited M (snd (snd (tcp_read n m s)))" "audited M (tcp_shutdown n s)"
    "audited M (upd_dev i f s)" "audited M (snd (icmp_echo_send dst s))" "audited M (net_dhcp_update g s)"
    "t \<noteq> NOT 0 \<Longrightarrow> audited M (s\<lparr>now := t\<rparr>)"
  using assms
  by (auto intro!: auditedI safe_ops simp: auditedD balance_echo_send safe_counters)

lemma balance_udp_send [simp]: "desk (snd (udp_send a p q xs s)) = desk s" "balance (snd (udp_send a p q xs s)) = balance s"
proof -
  have d: "desk (snd (put_payload xs b t)) = desk t" "balance (snd (put_payload xs b t)) = balance t" for b t
    by (simp_all add: put_payload_def case_prod_beta split: option.splits)
  show "desk (snd (udp_send a p q xs s)) = desk s" "balance (snd (udp_send a p q xs s)) = balance s"
    using balance_alloc [of s] d by (simp_all add: udp_send_def Let_def case_prod_beta split: option.splits)
qed

lemma audited_udp_send [audit]: "audited M s \<Longrightarrow> audited M (snd (udp_send a p q xs s))"
  by (rule auditedI) (simp_all add: auditedD safe_udp_send)

lemma balance_bind [simp]: "balance (snd (udp_bind_port p f s)) = balance s"
  by (simp add: udp_bind_port_def Let_def split: option.splits)

lemma audited_dhcp_port [audit]:
  assumes "audited M s"
  shows "audited M (snd (udp_bind_port DHCP_CLIENT_PORT Fn_dhcp_arrived s))" "audited M (udp_unbind_port p s)"
proof -
  note B = auditedD [OF assms]
  have "books (desk (snd (udp_bind_port q Fn_dhcp_arrived s)))" for q
    using B(3) by (auto simp: udp_bind_port_def Let_def books_def desk_def
        dest!: set_update_subset_insert [THEN subsetD] split: option.splits)
  then show "audited M (snd (udp_bind_port DHCP_CLIENT_PORT Fn_dhcp_arrived s))"
    using B balance_bind by (intro auditedI safe_udp) simp_all
  have "books (desk (udp_unbind_port p s))"
    using B(3) by (auto simp: udp_unbind_port_def books_def desk_def split: if_splits)
  then show "audited M (udp_unbind_port p s)"
    using B by (intro auditedI safe_udp) (simp_all add: udp_unbind_port_def)
qed

interpretation audited_machine: stack_invariant "audited M" "card_poll arrivals" for M arrivals
  by unfold_locales (simp_all add: audit honest_card_poll)

section \<open>Sockets\<close>

lemma audited_sock_counters [audit]:
  assumes "audited M s" "\<And>k. sockets (f k) = sockets k"
  shows "audited M (net_sock_update f s)"
  using auditedD [OF assms(1)] assms(2) by (intro auditedI) (simp_all add: safe_sock_update)

text \<open>Changing fields of a socket that the books do not mention.\<close>

lemma audited_upd_sock:
  assumes "audited M s" "\<And>k. s_queue (f k) = s_queue k" "\<And>k. s_q_head (f k) = s_q_head k" "\<And>k. s_q_len (f k) = s_q_len k"
    and "\<And>k. s_used (f k) = s_used k" "\<And>k. s_type (f k) = s_type k"
    and "\<And>k. s_bound (f k) = s_bound k" "\<And>k. s_local_port (f k) = s_local_port k"
    and "i < SOCKET_MAX" "\<And>k. sock_ok M k \<Longrightarrow> sock_ok M (f k)"
  shows "audited M (upd_sock i f s)"
proof -
  note B = auditedD [OF assms(1)]
  have "s_used (the_sock s i) \<or> s_q_len (the_sock s i) = 0"
    using booksD(3) [OF B(3) assms(9)] by (cases "s_used (the_sock s i)") simp_all
  then have "cells_exact (f (the_sock s i))" "s_used (f (the_sock s i)) \<or> s_q_len (f (the_sock s i)) = 0"
    using booksD(2) [OF B(3) assms(9)] by (simp_all add: cells_exact_def assms(2-5))
  moreover have "s_used (the_sock s i) \<and> s_type (the_sock s i) = SOCK_DGRAM \<and> s_bound (the_sock s i) \<and>
      s_local_port (the_sock s i) = ub_port b"
    if "b \<in> set (bindings (net_udp s))" "ub_used b" "ub_fn b = Fn_udp_arrived i" for b
    using B(3) that by (auto simp: books_def desk_def the_sock_def)
  ultimately have "books (desk (upd_sock i f s))"
    using B(3) assms(2-8) by (intro books_upd_sock) simp_all
  then show ?thesis
    using B assms by (intro auditedI) (simp_all add: safe_upd_sock balance_upd_sock)
qed

lemma audited_socket_create:
  assumes "audited M s"
  shows "audited M (snd (socket_create t s))"
    and "fst (socket_create t s) = Some i \<Longrightarrow> i < SOCKET_MAX \<and>
      the_sock (snd (socket_create t s)) i = zero_socket\<lparr>s_used := True, s_type := t, s_conn := -1\<rparr>"
proof -
  note B = auditedD [OF assms]
  let ?z = "zero_socket\<lparr>s_used := True, s_type := t, s_conn := -1\<rparr>"
  { fix i assume "first_slot (\<lambda>k. \<not> s_used k) (sockets (net_sock s)) = Some i"
    then have i: "i < SOCKET_MAX" "\<not> s_used (the_sock s i)"
      using first_slot_Some [of _ "sockets (net_sock s)"] B(7) by (auto simp: the_sock_def)
    have "books (desk (upd_sock i (\<lambda>_. ?z) s))"
      using B(3) i by (intro books_upd_sock) (auto simp: books_def desk_def the_sock_def)
    then have "audited M (upd_sock i (\<lambda>_. ?z) s)" "the_sock (upd_sock i (\<lambda>_. ?z) s) i = ?z"
      using B i booksD(3) [OF B(3) i]
      by (auto intro!: auditedI safe_upd_sock simp: balance_upd_sock) (simp_all add: zero_socket_def upd_sock_def the_sock_def)
    note i(1) this }
  note slot = this
  show "audited M (snd (socket_create t s))"
    using assms slot by (auto simp: socket_create_def intro!: audited_sock_counters split: option.splits)
  show "fst (socket_create t s) = Some i \<Longrightarrow> i < SOCKET_MAX \<and> the_sock (snd (socket_create t s)) i = ?z"
    using slot by (auto simp: socket_create_def the_sock_def split: option.splits if_splits)
qed

lemma audited_socket_bind:
  assumes "audited M s" "i < SOCKET_MAX" "s_used (the_sock s i)"
  shows "audited M (snd (socket_bind (Some i) a p s))" "s_used (the_sock (snd (socket_bind (Some i) a p s)) j) = s_used (the_sock s j)"
proof -
  define e where "e = (if p = 0 then ephemeral_port s else (p, s))"
  have e: "audited M (snd e)" "desk (snd e) = desk s" "the_sock (snd e) = the_sock s"
    using assms(1) audited_plain(2) [OF assms(1)]
    by (auto simp: e_def ephemeral_port_def case_prod_beta Let_def desk_def the_sock_def random_word_def split: list.splits)
  note B = auditedD [OF e(1)]
  let ?f = "\<lambda>k. k\<lparr>s_local_ip := a, s_local_port := fst e, s_bound := True\<rparr>"
  define u where "u = (if s_type (the_sock s i) = SOCK_DGRAM then udp_bind_port (fst e) (Fn_udp_arrived i) (snd e) else (True, snd e))"
  have u: "net_sock (snd u) = net_sock (snd e)" "balance (snd u) = balance (snd e)" "safe M (snd u)"
    using B(1) safe_udp(1) [OF B(1)] by (simp_all add: u_def) (simp add: udp_bind_port_def Let_def split: option.splits)
  have us: "the_sock (snd u) = the_sock s"
    using e(3) u(1) by (simp add: the_sock_def fun_eq_iff)
  have fail: "books (desk (snd u))" if "\<not> fst u"
    using that B(3) by (auto simp: u_def udp_bind_port_def Let_def split: if_splits option.splits)
  have win: "books (desk (upd_sock i ?f (snd u)))" if "fst u" "\<not> s_bound (the_sock s i)"
    using B(3) that assms(2,3) e(2,3)
    by (auto simp: u_def udp_bind_port_def Let_def books_def desk_def upd_sock_def the_sock_def nth_list_update cells_exact_def
        dest!: set_update_subset_insert [THEN subsetD] split: if_splits option.splits)
  have r: "snd (socket_bind (Some i) a p s) = (if s_bound (the_sock s i) then s else if fst u then upd_sock i ?f (snd u) else snd u)"
    using e(3) by (simp add: socket_bind_def Let_def case_prod_beta e_def [symmetric] u_def [symmetric])
  have "safe M (upd_sock i ?f (snd u))" using u(3) by (rule safe_upd_sock) simp
  then show "audited M (snd (socket_bind (Some i) a p s))"
    using assms(1) B(4,7) u fail win assms(2)
    by (auto simp: r us intro!: auditedI) (simp add: balance_upd_sock)
  show "s_used (the_sock (snd (socket_bind (Some i) a p s)) j) = s_used (the_sock s j)"
    using us B(7) assms(2) u(1) by (cases "j = i") (simp_all add: r upd_sock_def the_sock_def fun_eq_iff)
qed

lemma audited_socket_listen:
  assumes "audited M s" "i < SOCKET_MAX"
  shows "audited M (snd (socket_listen (Some i) n s))"
  using assms by (auto simp: socket_listen_def case_prod_beta Let_def intro!: audited_upd_sock audit)

lemma audited_socket_accept:
  assumes "honest M poll" "audited M s" "i < SOCKET_MAX"
  shows "audited M (snd (socket_accept poll (Some i) s))"
proof -
  define s1 where "s1 = ip_flush_pending (netdev_service poll s)"
  define t where "t a = snd (tcp_accept_ready a s1)" for a
  have t: "audited M (t a)" for a unfolding t_def s1_def by (intro audit assms)
  have "audited M (upd_sock n (\<lambda>k. k\<lparr>s_conn := c, s_connected := True, s_bound := True, s_local_port := q\<rparr>)
      (snd (socket_create SOCK_STREAM (t a))))"
    if n: "fst (socket_create SOCK_STREAM (t a)) = Some n" for n a c q
  proof -
    note C = audited_socket_create(1) [OF t, of SOCK_STREAM a] audited_socket_create(2) [OF t n]
    note B = auditedD [OF C(1)]
    have "books (desk (upd_sock n (\<lambda>k. k\<lparr>s_conn := c, s_connected := True, s_bound := True, s_local_port := q\<rparr>)
        (snd (socket_create SOCK_STREAM (t a)))))"
      using B(3) C(2) by (intro books_upd_sock) (auto simp: cells_exact_def zero_socket_def books_def desk_def the_sock_def)
    then show ?thesis
      using B C(2) by (intro auditedI) (simp_all add: safe_upd_sock balance_upd_sock)
  qed
  then show ?thesis
    using assms(2) t audited_socket_create(1) [OF t, of SOCK_STREAM]
    by (auto simp: socket_accept_def case_prod_beta Let_def s1_def [symmetric] t_def [symmetric] intro!: audit split: option.splits)
qed

lemma audited_bind_if_needed:
  assumes "audited M s" "i < SOCKET_MAX" "s_used (the_sock s i)"
  shows "audited M (snd (bind_if_needed i s))"
  using assms audited_socket_bind(1) [OF assms] by (simp add: bind_if_needed_def)

lemma audited_socket_connect:
  assumes "audited M s" "i < SOCKET_MAX" "s_used (the_sock s i)"
  shows "audited M (snd (socket_connect (Some i) a p s))"
  using audited_bind_if_needed [OF assms] assms(2)
  by (auto simp: socket_connect_def case_prod_beta Let_def intro!: audited_upd_sock audit split: bool.splits)

lemma audited_socket_sendto:
  assumes "audited M s" "i < SOCKET_MAX" "s_used (the_sock s i)"
  shows "audited M (snd (socket_sendto (Some i) xs a p s))"
  using audited_bind_if_needed [OF assms] assms(1)
  by (auto simp: socket_sendto_def case_prod_beta Let_def intro!: audit split: bool.splits)

lemma audited_socket_send:
  assumes "audited M s" "i < SOCKET_MAX" "s_used (the_sock s i)"
  shows "audited M (snd (socket_send (Some i) xs s))"
  using audited_socket_sendto [OF assms] assms(1)
  by (auto simp: socket_send_def case_prod_beta Let_def intro!: audit)

lemma audited_recvfrom:
  assumes "honest M poll" "audited M s" "i < SOCKET_MAX"
  shows "audited M (snd (socket_recvfrom poll (Some i) n s))" "audited M (snd (socket_recv poll (Some i) n s))"
proof -
  define s1 where "s1 = tcp_tick (ip_flush_pending (netdev_service poll s))"
  have s1: "audited M s1" unfolding s1_def by (intro audit assms)
  note B = auditedD [OF s1]
  let ?k = "the_sock s1 i" let ?d = "dgram_take ?k" let ?s2 = "upd_sock i (\<lambda>_. snd (dgram_take (the_sock s1 i))) s1"
  have k: "sock_ok M ?k" by (rule safe_the_sock [OF B(1) assms(3)])
  note cells = booksD(2) [OF B(3) assms(3)]
  have keep: "s_used (snd ?d) = s_used ?k" "s_type (snd ?d) = s_type ?k" "s_bound (snd ?d) = s_bound ?k" "s_local_port (snd ?d) = s_local_port ?k"
    by (simp_all add: dgram_take_def Let_def)
  have "s_used ?k \<or> s_q_len ?k = 0" using booksD(3) [OF B(3) assms(3)] by (cases "s_used ?k") simp_all
  moreover have "s_type ?k = SOCK_DGRAM \<and> s_bound ?k \<and> s_local_port ?k = ub_port b"
    if "b \<in> set (bindings (net_udp s1))" "ub_used b" "ub_fn b = Fn_udp_arrived i" for b
    using B(3) that by (auto simp: books_def desk_def the_sock_def)
  moreover have "s_used ?k" if "b \<in> set (bindings (net_udp s1))" "ub_used b" "ub_fn b = Fn_udp_arrived i" for b
    using B(3) that by (auto simp: books_def desk_def the_sock_def)
  ultimately have books: "books (desk ?s2)"
    using B(3) cells_exact_take(1,2) [OF cells] by (intro books_upd_sock) (auto simp: keep)
  have safe: "safe M ?s2" using dgram_take_ok(1) [OF k] B(1) by (intro safe_upd_sock)
  have bal: "balance ?s2 = of_nat (s_q_len ?k) - of_nat (s_q_len ?k - 1)"
    using B(4,7) assms(3) cells_exact_take(2) [OF cells] by (simp add: balance_upd_sock)
  have none: "audited M ?s2" if "fst ?d = None"
    using that safe books bal cells_exact_take(3) [OF cells] by (intro auditedI) simp_all
  have some: "audited M (netbuf_free b ?s2)" if r: "fst ?d = Some (b, a, q)" for b a q
  proof (rule auditedI)
    show "safe M (netbuf_free b ?s2)" by (rule safe_netbuf_free [OF safe dgram_take_ok(2) [OF k r]])
    obtain l where "s_q_len ?k = Suc l" using r cells_exact_take(3) [OF cells] by (cases "s_q_len ?k") auto
    then show "balance (netbuf_free b ?s2) = 0" using bal by simp
  qed (simp add: books)
  show main: "audited M (snd (socket_recvfrom poll (Some i) n s))"
    using none some audited_plain(7) [OF s1]
    by (auto simp: socket_recvfrom_def Let_def case_prod_beta s1_def [symmetric] intro!: audited_sock_counters split: option.splits)
  then show "audited M (snd (socket_recv poll (Some i) n s))" by (simp add: socket_recv_def case_prod_beta)
qed

lemma balance_free_dgrams:
  "desk (fold free_dgram qs s) = desk s \<and>
   balance (fold free_dgram qs s) = balance s - of_nat (length (filter (\<lambda>d. dg_buf d \<noteq> None) qs))"
  by (induction qs arbitrary: s) (auto simp: free_dgram_def split: option.splits)

lemma audited_socket_close:
  assumes "audited M s" "i < SOCKET_MAX" "s_used (the_sock s i)"
  shows "audited M (socket_close (Some i) s)"
proof -
  let ?k = "the_sock s i"
  define s1 where "s1 = (if s_type ?k = SOCK_DGRAM \<and> s_bound ?k then udp_unbind_port (s_local_port ?k) s else s)"
  define s2 where "s2 = (if s_type ?k = SOCK_STREAM \<and> s_conn ?k \<ge> 0 then tcp_shutdown (s_conn ?k) s1 else s1)"
  have s2: "audited M s2" using assms(1) by (auto simp: s2_def s1_def intro: audit)
  note B = auditedD [OF s2]
  have d2: "desk s2 = desk s1" by (simp add: s2_def)
  then have k2: "the_sock s2 i = ?k" by (simp add: desk_def s1_def udp_unbind_port_def the_sock_def split: if_splits)
  have gone: "ub_fn b \<noteq> Fn_udp_arrived i" if "b \<in> set (bindings (net_udp s2))" "ub_used b" for b
  proof
    assume fn: "ub_fn b = Fn_udp_arrived i"
    have "b \<in> set (bindings (net_udp s1))" using that d2 by (simp add: desk_def)
    then have "b \<in> set (bindings (net_udp s))" "s_type ?k = SOCK_DGRAM \<and> s_bound ?k \<longrightarrow> ub_port b \<noteq> s_local_port ?k"
      using that(2) by (auto simp: s1_def udp_unbind_port_def split: if_splits)
    moreover have "s_type ?k = SOCK_DGRAM \<and> s_bound ?k \<and> s_local_port ?k = ub_port b"
      using auditedD(3) [OF assms(1)] calculation(1) that(2) fn by (auto simp: books_def desk_def the_sock_def)
    ultimately show False by simp
  qed
  define s3 where "s3 = fold free_dgram (s_queue (the_sock s2 i)) s2"
  have s3: "desk s3 = desk s2" "balance s3 = - of_nat (s_q_len (the_sock s2 i))"
    using balance_free_dgrams [of "s_queue (the_sock s2 i)" s2] cells_exact_count [OF booksD(2) [OF B(3) assms(2)]] B(4)
    by (simp_all add: s3_def)
  have dk: "sockets (net_sock s3) = sockets (net_sock s2)" "bindings (net_udp s3) = bindings (net_udp s2)"
    using s3(1) by (simp_all add: desk_def)
  then have k3: "the_sock s3 i = the_sock s2 i" by (simp add: the_sock_def)
  have "sock_ok M (the_sock s2 i)" by (rule safe_the_sock [OF B(1) assms(2)])
  then have safe3: "safe M s3" unfolding s3_def by (intro safe_free_dgrams B) (auto simp: sock_ok_def)
  have "books (desk (upd_sock i (\<lambda>_. zero_socket\<lparr>s_conn := -1\<rparr>) s3))"
    using B(3) s3(1) gone dk by (intro books_upd_sock) auto
  moreover have "balance (upd_sock i (\<lambda>_. zero_socket\<lparr>s_conn := -1\<rparr>) s3) = 0"
    using s3(2) B(7) dk(1) assms(2) k3 by (simp add: balance_upd_sock)
  ultimately have "audited M (upd_sock i (\<lambda>_. zero_socket\<lparr>s_conn := -1\<rparr>) s3)"
    using safe3 by (intro auditedI safe_upd_sock) simp_all
  then show ?thesis
    using assms(3) by (auto simp: socket_close_def Let_def s1_def [symmetric] s2_def [symmetric] s3_def [symmetric] intro!: audited_sock_counters)
qed

section \<open>Reachable states\<close>

text \<open>An event is legal when its readings of the clock are, and when the socket it names is open:
  a program holds no pointer to a socket it closed.\<close>

fun names_socket :: "net_event \<Rightarrow> nat option" where
  "names_socket (Ev_bind i a p) = Some i"
| "names_socket (Ev_listen i n) = Some i"
| "names_socket (Ev_accept i) = Some i"
| "names_socket (Ev_connect i a p) = Some i"
| "names_socket (Ev_sendto i xs a p) = Some i"
| "names_socket (Ev_send i xs) = Some i"
| "names_socket (Ev_recvfrom i n) = Some i"
| "names_socket (Ev_recv i n) = Some i"
| "names_socket (Ev_close i) = Some i"
| "names_socket e = None"

definition legal :: "net_event \<Rightarrow> net \<Rightarrow> bool" where
  "legal e s \<longleftrightarrow> event_ok e \<and>
     (case names_socket e of None \<Rightarrow> True | Some i \<Rightarrow> i < SOCKET_MAX \<and> s_used (the_sock s i))"

inductive net_reached :: "pmm \<Rightarrow> (nat \<Rightarrow> net \<Rightarrow> u8 list list) \<Rightarrow> net \<Rightarrow> bool" for p arrivals where
  Boot: "net_reached p arrivals (net_boot p)"
| Step: "net_reached p arrivals s \<Longrightarrow> legal e s \<Longrightarrow> net_reached p arrivals (net_step (card_poll arrivals) e s)"

lemma audited_boot:
  assumes "pmm_inv p"
  shows "audited (managed_pages p) (net_boot p)"
proof (rule auditedI [OF safe_boot [OF assms]])
  show "books (desk (net_boot p))"
    using cells_exact_zero(3) by (simp add: books_def desk_def net_boot_def) (simp add: zero_socket_def SOCKET_MAX_def)
  show "balance (net_boot p) = 0"
    by (simp add: balance_def waiting_def net_boot_def map_replicate_const sum_list_replicate) (simp add: zero_socket_def)
qed

lemma audited_others:
  assumes "audited M s"
  shows "audited M (net_step poll (Ev_take_pages n) s)" "audited M (net_step poll (Ev_give_pages a n) s)"
    "audited M (net_step poll (Ev_seed ws) s)" "audited M (net_step poll (Ev_register name tr po mac) s)"
proof -
  note B = auditedD [OF assms] and S = safe_others [OF auditedD(1) [OF assms], of poll]
  show "audited M (net_step poll (Ev_take_pages n) s)" "audited M (net_step poll (Ev_seed ws) s)"
    using B S(1) [of n] by (auto intro!: auditedI safe_seed)
  show "audited M (net_step poll (Ev_give_pages a n) s)"
    using B S(2) [of a n] by (cases "pmm_free_pages a n (net_pmm s)") (auto intro!: auditedI)
  show "audited M (net_step poll (Ev_register name tr po mac) s)"
    using B safe_register [OF B(1)] by (intro auditedI) (simp_all add: netdev_register_def Let_def)
qed

lemma audited_step:
  assumes "audited M s" "legal e s"
  shows "audited M (net_step (card_poll arrivals) e s)"
  using assms audited_others [OF assms(1)]
  by (cases e) (auto simp: legal_def simp del: net_step.simps(5,6,19,20)
      intro!: audit honest_card_poll audited_machine.kept_net_bring_up audited_socket_create audited_socket_bind(1)
        audited_socket_listen audited_socket_accept audited_socket_connect audited_socket_sendto audited_socket_send
        audited_recvfrom audited_socket_close)

lemma reached_audited:
  assumes "net_reached p arrivals s" "pmm_inv p"
  shows "audited (managed_pages p) s"
  using assms(1) by (induction rule: net_reached.induct) (simp_all add: audited_boot assms(2) audited_step)

lemma sum_list_filter_length: "sum_list (map (\<lambda>x. if P x then 1 else 0) xs) = length (filter P xs)"
  by (induction xs) auto

section \<open>Properties\<close>

text \<open>C3: No packet buffer is lost and none is freed twice. Whatever frames arrive and whatever
  programs do with their open sockets, the buffers the pool handed out are those it took back,
  those in the receive queue, those waiting for an address, those in sockets, and those the
  drivers put on the wire, each counted once.\<close>

theorem every_buffer_accounted:
  assumes "pmm_reachable p" and "net_reached p arrivals s"
  shows "nb_allocated (net_nb s) = nb_freed (net_nb s) + of_nat (length (rx_queue (net_dev s)) +
    length (filter pd_used (ip_pending (net_ip s))) + sum_list (map s_q_len (sockets (net_sock s))) + length (wire (net_dev s)))"
proof -
  have "sum_list (map (\<lambda>p. if pd_used p then 1 else 0) (ip_pending (net_ip s))) = length (filter pd_used (ip_pending (net_ip s)))"
    by (rule sum_list_filter_length)
  then show ?thesis
    using auditedD(4) [OF reached_audited [OF assms(2) pmm_reachable_invariant [OF assms(1)]]]
    by (simp add: balance_def waiting_def algebra_simps)
qed

text \<open>The theorem for a machine with five pages of memory that hears one frame.\<close>

theorem every_buffer_accounted_witness:
  "\<exists>p s. five p {2, 3, 4} 0 \<and> net_reached p (\<lambda>_ _. []) s \<and> length (rx_queue (net_dev s)) = 1 \<and>
    nb_allocated (net_nb s) - nb_freed (net_nb s) = 1 + of_nat (length (filter pd_used (ip_pending (net_ip s))) +
      sum_list (map s_q_len (sockets (net_sock s))) + length (wire (net_dev s)))"
proof -
  obtain p where p: "five p {2, 3, 4} 0" using five_start by blast
  let ?s = "net_step (card_poll (\<lambda>_ _. [])) (Ev_frame 0 [7]) (net_boot p)"
  have r: "net_reached p (\<lambda>_ _. []) ?s"
    by (rule net_reached.Step [OF net_reached.Boot]) (simp add: legal_def)
  obtain b where "rx_queue (net_dev ?s) = [b]"
    using five_frame [OF p, of "\<lambda>_ _. []"] by (auto simp: net_run_def)
  moreover have "pmm_reachable p" using p by (simp add: five_def)
  ultimately show ?thesis
    using p r every_buffer_accounted [OF _ r] by (intro exI [of _ p] exI [of _ ?s]) simp
qed

end
