(* ===== verification/Contracts.thy ===== *)
theory Contracts
  imports Delivery
begin

text \<open>
  What the smaller services of the stack promise their callers: the ARP cache answers with
  what it learned and forgets the oldest, the worker empties the receive queue, a datagram
  socket hands out what arrived in order, and the DHCP parser stays inside the message.
\<close>

section \<open>The ARP cache\<close>

lemma first_slot_update_hit:
  assumes "i < length xs" "P x" "\<forall>j<i. \<not> P (xs ! j)"
  shows "first_slot P (xs[i := x]) = Some i"
proof -
  have "\<exists>k. first_slot P (xs[i := x]) = Some k"
    using assms(1,2) first_slot_None_nth [of P "xs[i := x]"] by (metis length_list_update not_None_eq nth_list_update_eq)
  then obtain k where k: "first_slot P (xs[i := x]) = Some k" by blast
  note K = first_slot_Some [OF k]
  have "k = i"
  proof (cases k i rule: linorder_cases)
    case less
    then show ?thesis using K assms(3) by simp
  next
    case greater
    then show ?thesis using K assms(1,2) by auto
  qed
  with k show ?thesis by simp
qed

lemma first_slot_update_miss:
  assumes "\<not> P x" "first_slot P xs \<noteq> Some i"
  shows "first_slot P (xs[i := x]) = first_slot P xs"
proof (cases "first_slot P xs")
  case None
  then have "\<forall>x\<in>set (xs[i := x]). \<not> P x"
    using assms(1) set_update_subset_insert [of xs i x] by (auto simp: first_slot_None)
  then show ?thesis using None by (simp add: first_slot_None [THEN iffD2])
next
  case (Some k)
  note K = first_slot_Some [OF Some]
  have "k \<noteq> i" using Some assms(2) by simp
  then have "xs[i := x] ! k = xs ! k" by simp
  then have "(xs[i := x])[k := xs ! k] = xs[i := x]" by (metis list_update_id)
  moreover have "\<forall>j<k. \<not> P (xs[i := x] ! j)"
    using K assms(1) by (metis nth_list_update_eq nth_list_update_neq dual_order.strict_trans)
  ultimately show ?thesis
    using first_slot_update_hit [of k "xs[i := x]" P "xs ! k"] K Some by simp
qed

text \<open>The victim is a free slot, or every slot is taken and it is one learned no later than any.\<close>

definition oldest_entry :: "arp_entry list \<Rightarrow> nat \<Rightarrow> bool" where
  "oldest_entry cs v \<longleftrightarrow> v < length cs \<and> (\<forall>c\<in>set cs. ae_valid c \<and> ae_learned_ns (cs ! v) \<le> ae_learned_ns c)"

lemma arp_victim_spec:
  assumes "arp_victim cs k oldest e = Some v"
  shows "(\<exists>j<length cs. v = k + j \<and> \<not> ae_valid (cs ! j)) \<or>
    (\<forall>c\<in>set cs. ae_valid c) \<and> (e = Some v \<and> (\<forall>c\<in>set cs. oldest \<le> ae_learned_ns c) \<or>
      (\<exists>j<length cs. v = k + j \<and> ae_learned_ns (cs ! j) < oldest \<and> (\<forall>c\<in>set cs. ae_learned_ns (cs ! j) \<le> ae_learned_ns c)))"
  using assms
proof (induction cs arbitrary: k oldest e)
  case (Cons c cs)
  consider "\<not> ae_valid c" | "ae_valid c" "ae_learned_ns c < oldest" | "ae_valid c" "oldest \<le> ae_learned_ns c" by fastforce
  then show ?case
  proof cases
    case 1
    then show ?thesis using Cons.prems by auto
  next
    case 2
    note IH = Cons.IH [of "k + 1" "ae_learned_ns c" "Some k"]
    have "arp_victim cs (k + 1) (ae_learned_ns c) (Some k) = Some v" using 2 Cons.prems by simp
    from IH [OF this] show ?thesis
    proof (elim disjE conjE exE)
      fix j assume "j < length cs" "v = k + 1 + j" "\<not> ae_valid (cs ! j)"
      then have "\<exists>j<length (c # cs). v = k + j \<and> \<not> ae_valid ((c # cs) ! j)" by (intro exI [of _ "Suc j"]) simp
      then show ?thesis ..
    next
      assume "\<forall>c\<in>set cs. ae_valid c" "Some k = Some v" "\<forall>d\<in>set cs. ae_learned_ns c \<le> ae_learned_ns d"
      then show ?thesis using 2 by (intro disjI2 conjI) (auto intro!: exI [of _ 0])
    next
      fix j assume "\<forall>c\<in>set cs. ae_valid c" "j < length cs" "v = k + 1 + j" "ae_learned_ns (cs ! j) < ae_learned_ns c"
        "\<forall>d\<in>set cs. ae_learned_ns (cs ! j) \<le> ae_learned_ns d"
      then show ?thesis using 2 by (intro disjI2 conjI) (auto intro!: exI [of _ "Suc j"])
    qed
  next
    case 3
    then have "\<not> ae_learned_ns c < oldest" by simp
    then have "arp_victim cs (k + 1) oldest e = Some v" using Cons.prems 3(1) by simp
    from Cons.IH [OF this] show ?thesis
    proof (elim disjE conjE exE)
      fix j assume "j < length cs" "v = k + 1 + j" "\<not> ae_valid (cs ! j)"
      then have "\<exists>j<length (c # cs). v = k + j \<and> \<not> ae_valid ((c # cs) ! j)" by (intro exI [of _ "Suc j"]) simp
      then show ?thesis ..
    next
      assume "\<forall>c\<in>set cs. ae_valid c" "e = Some v" "\<forall>d\<in>set cs. oldest \<le> ae_learned_ns d"
      then show ?thesis using 3 by auto
    next
      fix j assume "\<forall>c\<in>set cs. ae_valid c" "j < length cs" "v = k + 1 + j" "ae_learned_ns (cs ! j) < oldest"
        "\<forall>d\<in>set cs. ae_learned_ns (cs ! j) \<le> ae_learned_ns d"
      then show ?thesis using 3 by (intro disjI2 conjI) (auto intro!: exI [of _ "Suc j"])
    qed
  qed
qed simp

lemma arp_slot_cases:
  assumes "arp_slot cs ip = Some i"
  shows "arp_find cs ip = Some i \<or> arp_find cs ip = None \<and> i < length cs \<and> (\<not> ae_valid (cs ! i) \<or> oldest_entry cs i)"
  using assms arp_victim_spec [of cs 0 "NOT 0" None i]
  by (auto simp: arp_slot_def oldest_entry_def split: option.splits)

section \<open>The worker\<close>

lemma service_loop_empties:
  assumes "\<not> rx_drain_held (net_dev s)"
  shows "rx_queue (net_dev (service_loop s)) = []"
  using assms
proof (induction s rule: service_loop.induct)
  case (1 s)
  show ?case
  proof (cases "rx_queue (net_dev s)")
    case Nil
    then show ?thesis using "1.prems" by (subst service_loop.simps) (simp add: rx_take_def)
  next
    case (Cons b rest)
    let ?s1 = "s\<lparr>net_dev := (net_dev s)\<lparr>rx_queue := rest, rx_queued := rx_queued (net_dev s) - 1\<rparr>\<rparr>"
    have t: "rx_take s = (Some b, ?s1)" using "1.prems" Cons by (simp add: rx_take_def)
    have "rx_drain_held (net_dev (service_one b ?s1)) = rx_drain_held (net_dev ?s1)"
      by (simp add: service_one_def Let_def kpanic_def env_eqD(3) [OF eth_receive_env] split: option.splits)
    then show ?thesis using "1.IH" [OF t [symmetric]] "1.prems" t by (subst service_loop.simps) simp
  qed
qed

lemma card_poll_held [simp]: "rx_drain_held (net_dev (card_poll arrivals i s)) = rx_drain_held (net_dev s)"
proof -
  have "rx_drain_held (net_dev (card_frame i f s)) = rx_drain_held (net_dev s)" for f s
    by (simp add: card_frame_def netdev_receive_def Let_def case_prod_beta split: option.splits)
  then show ?thesis unfolding card_poll_def by (rule fold_keeps)
qed

lemma poll_all_held: "rx_drain_held (net_dev (netdev_poll_all (card_poll arrivals) s)) = rx_drain_held (net_dev s)"
  unfolding netdev_poll_all_def by (rule fold_keeps) simp

section \<open>DHCP options\<close>

text \<open>An option the walk finds: its code and length stand before its value, inside the message.\<close>

lemma option_walk_inside:
  "option_walk m base len want i = Some (at, n) \<Longrightarrow>
   i + 2 \<le> at \<and> at + unat n \<le> len \<and> m (base + (at - 2)) = want \<and> m (base + (at - 1)) = n"
proof (induction m base len want i rule: option_walk.induct)
  case (1 m base len want i)
  have "i + 1 \<le> j \<Longrightarrow> i + 2 \<le> at" if "j + 2 \<le> at" for j using that by simp
  then show ?case
    using "1.prems" "1.IH" by (subst (asm) option_walk.simps) (fastforce simp: Let_def split: if_splits)
qed

lemma option_walk_cong:
  "(\<And>j. j < len \<Longrightarrow> m (base + j) = m' (base' + j)) \<Longrightarrow> option_walk m base len want i = option_walk m' base' len want i"
proof (induction m base len want i rule: option_walk.induct)
  case (1 m base len want i)
  show ?case
  proof (cases "i < len")
    case True
    have c: "m (base + i) = m' (base' + i)" "i + 1 < len \<Longrightarrow> m (base + i + 1) = m' (base' + i + 1)"
      using "1.prems" [of i] "1.prems" [of "i + 1"] True by (simp_all add: add.assoc)
    show ?thesis
      using True c "1.IH" "1.prems"
      by (subst option_walk.simps, subst (2) option_walk.simps) (simp add: Let_def)
  next
    case False
    then show ?thesis by (subst option_walk.simps, subst (2) option_walk.simps) simp
  qed
qed

section \<open>Properties\<close>

text \<open>C22: What ARP learns is what it answers. After an address was learned, a lookup within the time
  to live gives exactly that hardware address; every other address the cache answered for is
  still answered the same way, except, when all slots are taken, one whose entry was learned
  no later than any other.\<close>

theorem arp_learns_and_evicts_oldest:
  assumes "arp_times (net_arp s)" and "ip \<noteq> 0" "ip \<noteq> IPV4_BROADCAST" "\<not> mac_equal mac MAC_ZERO"
    and "t - now s < ARP_TTL_NS" and "\<not> arp_is_broadcast (the_dev s dev') ip"
  shows "fst (arp_lookup dev' ip ((arp_learn dev ip mac s)\<lparr>now := t\<rparr>)) = Some mac \<and>
    (\<forall>a. a \<noteq> ip \<longrightarrow> arp_find (arp_cache (net_arp (arp_learn dev ip mac s))) a = arp_find (arp_cache (net_arp s)) a \<or>
      (\<exists>i. arp_find (arp_cache (net_arp s)) a = Some i \<and> oldest_entry (arp_cache (net_arp s)) i))"
proof -
  let ?cs = "arp_cache (net_arp s)" and ?P = "\<lambda>a e. ae_valid e \<and> ae_ip e = a"
  obtain i where i: "arp_slot ?cs ip = Some i" using arp_slot_Some [OF assms(1)] by blast
  let ?e = "\<lparr>ae_ip = ip, ae_mac = mac, ae_learned_ns = now s, ae_dev = dev, ae_valid = True\<rparr>"
  have l: "arp_learn dev ip mac s = s\<lparr>net_arp := (net_arp s)\<lparr>arp_cache := ?cs[i := ?e]\<rparr>\<rparr>"
    using assms(2-4) i by (simp add: arp_learn_def)
  have lt: "i < length ?cs" using arp_slot_cases [OF i] first_slot_lt by (auto simp: arp_find_def)
  have none: "\<forall>j<i. \<not> ?P ip (?cs ! j)"
  proof (cases "arp_find ?cs ip = Some i")
    case True
    then show ?thesis using first_slot_Some [of "?P ip" ?cs i] by (simp add: arp_find_def)
  next
    case False
    then have "first_slot (?P ip) ?cs = None" using arp_slot_cases [OF i] by (simp add: arp_find_def)
    then have "\<forall>j<length ?cs. \<not> ?P ip (?cs ! j)" by (simp only: first_slot_None_nth)
    then show ?thesis using lt by auto
  qed
  have hit: "arp_find (?cs[i := ?e]) ip = Some i"
    unfolding arp_find_def by (rule first_slot_update_hit [OF lt _ none]) simp
  have "fst (arp_consult ip ((arp_learn dev ip mac s)\<lparr>now := t\<rparr>)) = Some mac"
    using assms(5) hit lt by (simp add: l arp_consult_def Let_def)
  then have "fst (arp_lookup dev' ip ((arp_learn dev ip mac s)\<lparr>now := t\<rparr>)) = Some mac"
    using assms(6) by (simp add: arp_lookup_def case_prod_beta l the_dev_def split: option.splits)
  moreover have "arp_find (?cs[i := ?e]) a = arp_find ?cs a \<or> (\<exists>j. arp_find ?cs a = Some j \<and> oldest_entry ?cs j)" if "a \<noteq> ip" for a
  proof (cases "arp_find ?cs a = Some i")
    case True
    then have "?P a (?cs ! i)" using first_slot_Some [of "?P a" ?cs i] by (simp add: arp_find_def)
    then have "arp_find ?cs ip \<noteq> Some i" using that first_slot_Some [of "?P ip" ?cs i] by (auto simp: arp_find_def)
    then show ?thesis using True \<open>?P a (?cs ! i)\<close> arp_slot_cases [OF i] by auto
  next
    case False
    then show ?thesis using that first_slot_update_miss [of "?P a" ?e ?cs i] by (simp add: arp_find_def)
  qed
  ultimately show ?thesis by (simp add: l)
qed

theorem arp_learns_and_evicts_oldest_witness:
  "let s = small_net 1 0x0A000001 2 0x0A000002; s' = arp_learn 0 0x0A000003 [2, 0, 0, 0, 0, 3] s in
    fst (arp_lookup 0 0x0A000003 (s'\<lparr>now := 1000\<rparr>)) = Some [2, 0, 0, 0, 0, 3] \<and> arp_find (arp_cache (net_arp s')) 0x0A000002 = None"
proof -
  let ?s = "small_net 1 0x0A000001 2 0x0A000002"
  have z: "\<not> mac_equal [2, 0, 0, 0, 0, 3] MAC_ZERO"
  proof
    assume "mac_equal [2, 0, 0, 0, 0, 3] MAC_ZERO"
    then have "[2, 0, 0, 0, 0, 3] = (replicate 6 0 :: u8 list)" by (simp add: mac_equal_def MAC_ZERO_def kmemcmp_eq_0_iff)
    from arg_cong [OF this, of hd] show False by simp
  qed
  have n: "(0 :: u64) < - 1" by (simp add: word_greater_zero_iff)
  have "arp_times (net_arp ?s)" "now ?s = 0" "\<not> arp_is_broadcast (the_dev ?s 0) 0x0A000003"
    unfolding small_net_ready(4) by (simp_all add: arp_times_def small_net_def net_boot_def arp_is_broadcast_def small_dev_def)
  then have "fst (arp_lookup 0 0x0A000003 ((arp_learn 0 0x0A000003 [2, 0, 0, 0, 0, 3] ?s)\<lparr>now := 1000\<rparr>)) = Some [2, 0, 0, 0, 0, 3]"
    using arp_learns_and_evicts_oldest [of ?s "0x0A000003" "[2, 0, 0, 0, 0, 3]" 1000 0 0]
    z by (simp add: ARP_TTL_NS_def)
  moreover have "arp_find (arp_cache (net_arp (arp_learn 0 0x0A000003 [2, 0, 0, 0, 0, 3] ?s))) 0x0A000002 = None"
    using z n by (simp add: arp_learn_def arp_slot_def arp_find_def small_net_def net_boot_def)
  ultimately show ?thesis by (simp add: Let_def)
qed

text \<open>C23: The worker always comes to an end, and when it was not told to hold the queue, it leaves
  no frame waiting, however many the cards delivered.\<close>

theorem service_empties_queue:
  assumes "\<not> rx_drain_held (net_dev s)"
  shows "rx_queue (net_dev (netdev_service (card_poll arrivals) s)) = []"
  using assms service_loop_empties by (simp add: netdev_service_def poll_all_held)

theorem service_empties_queue_witness:
  "rx_queue (net_dev (netdev_service (card_poll (\<lambda>_ _. [[1], [2, 3]])) (small_net 1 0x0A000001 2 0x0A000002))) = []"
  by (rule service_empties_queue) (simp add: small_net_def net_boot_def)

text \<open>C21: A datagram socket hands out the datagrams in the order they came: a read gives the oldest
  that waits, cut to the room the program has, with its sender's address and port, and
  removes exactly that one.\<close>

theorem recvfrom_takes_oldest:
  assumes "s1 = tcp_tick (ip_flush_pending (netdev_service poll s))"
    and "i < length (sockets (net_sock s1))" "dgrams_ok (the_sock s1 i)" "s_type (the_sock s1 i) \<noteq> SOCK_STREAM"
    and "dgram_list (the_sock s1 i) = b # rest" "socket_recvfrom poll (Some i) n s = (r, s')"
  shows "rv_result r = int (min (nb_len b) n) \<and> rv_data r = take n (nb_bytes b) \<and>
    rv_from r = Some (nb_src_ip b, nb_src_port b) \<and> dgram_list (the_sock s' i) = rest"
proof -
  let ?k = "the_sock s1 i"
  have ne: "s_q_len ?k \<noteq> 0" using assms(5) length_dgram_ring(2) [of ?k] by auto
  have t: "dgram_take ?k = (Some (b, nb_src_ip b, nb_src_port b), dgram_pop ?k)"
    using dgram_take_front [OF assms(3) ne] assms(5) by (simp add: Let_def)
  have rest: "dgram_list (dgram_pop ?k) = rest" using dg.pop_elems [OF assms(3) ne] assms(5) by simp
  have "the_sock (netbuf_free b (upd_sock i (\<lambda>_. dgram_pop ?k) s1)) i = dgram_pop ?k"
    using assms(2) by (simp add: the_sock_def upd_sock_def)
  moreover have "the_sock (net_sock_update (bump sk_receives_update) u) i = the_sock u i" for u
    by (simp add: the_sock_def)
  moreover have "bytes_at (nb_mem b) (nb_data b) (if nb_len b < n then nb_len b else n) = take n (nb_bytes b)"
    by (simp add: nb_bytes_def take_bytes_at)
  ultimately show ?thesis
    using assms(4,6) t rest
    by (auto simp: socket_recvfrom_def assms(1) [symmetric] Let_def min_def)
qed

text \<open>A state in which nothing waits: the socket layer's housekeeping leaves it as it is.\<close>

lemma quiet_housekeeping:
  assumes "rx_queue (net_dev s) = []" "\<forall>i<PENDING_MAX. \<not> pd_used (ip_pending (net_ip s) ! i)"
    and "\<forall>i<TCP_MAX_CONNECTIONS. \<not> c_used (the_conn s i)" "devices (net_dev s) = []"
  shows "tcp_tick (ip_flush_pending (netdev_service poll s)) = s"
proof -
  have "netdev_poll_all poll s = s" using assms(4) by (simp add: netdev_poll_all_def netdev_count_def)
  then have "netdev_service poll s = s"
    using assms(1) by (simp add: netdev_service_def) (subst service_loop.simps, simp add: rx_take_def)
  moreover have "fold ip_flush_slot is s = s" if "set is \<subseteq> {..<PENDING_MAX}" for "is"
    using that assms(2) by (induction "is") (simp_all add: ip_flush_slot_def Let_def)
  then have "ip_flush_pending s = s" by (simp add: ip_flush_pending_def lessThan_atLeast0)
  moreover have "fold (tcp_tick_slot t) is s = s" if "set is \<subseteq> {..<TCP_MAX_CONNECTIONS}" for t "is"
    using that assms(3) by (induction "is") (simp_all add: tcp_tick_slot_def Let_def)
  then have "tcp_tick s = s" by (simp add: tcp_tick_def lessThan_atLeast0)
  ultimately show ?thesis by simp
qed

theorem recvfrom_takes_oldest_witness:
  "let b = (fresh_netbuf 8192 (\<lambda>a. of_nat a))\<lparr>nb_len := 5, nb_src_ip := 7, nb_src_port := 9\<rparr>;
       s = upd_sock 0 (\<lambda>k. dgram_put b (k\<lparr>s_type := SOCK_DGRAM\<rparr>)) (net_boot small_pmm)
   in rv_data (fst (socket_recvfrom (\<lambda>_ s. s) (Some 0) 3 s)) = take 3 (nb_bytes b)
      \<and> dgram_list (the_sock (snd (socket_recvfrom (\<lambda>_ s. s) (Some 0) 3 s)) 0) = []"
proof -
  let ?p = "\<lambda>_ s. s"
  let ?b = "(fresh_netbuf 8192 (\<lambda>a. of_nat a))\<lparr>nb_len := 5, nb_src_ip := 7, nb_src_port := 9\<rparr>"
  let ?s = "upd_sock 0 (\<lambda>k. dgram_put ?b (k\<lparr>s_type := SOCK_DGRAM\<rparr>)) (net_boot small_pmm)"
  let ?z = "zero_socket\<lparr>s_type := SOCK_DGRAM\<rparr>"
  have q: "tcp_tick (ip_flush_pending (netdev_service ?p ?s)) = ?s"
    by (rule quiet_housekeeping) (simp_all add: upd_sock_def net_boot_def the_conn_def zero_conn_def)
  have k: "the_sock ?s 0 = dgram_put ?b ?z"
    by (simp add: upd_sock_def the_sock_def net_boot_def SOCKET_MAX_def)
  have z: "dgrams_ok ?z" "s_q_len ?z < DGRAM_QUEUE" "dgram_list ?z = []" "s_type ?z \<noteq> SOCK_STREAM"
    by (simp_all add: dgrams_ok_def dgram_list_def dgram_ring_def zero_socket_def DGRAM_QUEUE_def)
  have "s_type (dgram_put ?b ?z) = SOCK_DGRAM" by (simp add: dgram_put_def Let_def)
  then show ?thesis
    using recvfrom_takes_oldest [of ?s ?p ?s 0 ?b "[]" 3 "fst (socket_recvfrom ?p (Some 0) 3 ?s)" "snd (socket_recvfrom ?p (Some 0) 3 ?s)"]
      dg.push_wf [OF z(1,2), of ?b] dg.push_elems [OF z(1,2), of ?b] q k z
    by (simp add: Let_def upd_sock_def net_boot_def SOCKET_MAX_def)
qed

text \<open>The DHCP option parser reads only the message. What it finds lies, with its code and
  length, after the fixed part and before the end of the message, and its answer depends on
  no byte outside it.\<close>

theorem find_option_stays_inside:
  assumes "\<forall>j<len. m (base + j) = m' (base' + j)"
  shows "find_option m base len want = find_option m' base' len want \<and>
    (\<forall>at n. find_option m base len want = Some (at, n) \<longrightarrow>
      DHCP_FIXED_LEN + 2 \<le> at \<and> at + unat n \<le> len \<and> m (base + (at - 2)) = want \<and> m (base + (at - 1)) = n)"
  using option_walk_cong [of len m base m' base' want DHCP_FIXED_LEN] assms
    option_walk_inside [of m base len want DHCP_FIXED_LEN]
  by (auto simp: find_option_def split: if_splits)

theorem find_option_stays_inside_witness:
  "let m = (\<lambda>j. if j = 240 then 53 else if j = 241 then 1 else if j = 242 then 5 else 0) in
     find_option m 0 243 53 = find_option (m(300 := 9)) 0 243 53"
proof -
  let ?m = "\<lambda>j::nat. if j = 240 then 53 else if j = 241 then 1 else if j = 242 then 5 else (0 :: u8)"
  have "\<forall>j<243. ?m (0 + j) = (?m(300 := 9)) (0 + j)" by simp
  then show ?thesis unfolding Let_def by (rule find_option_stays_inside [THEN conjunct1])
qed

end
