(* ===== verification/Spec2Isabelle.thy ===== *)
theory Spec2Isabelle
  imports Installer Storage_Race Storage_Order Pmm_Start Safety Machine Delivery Tcp_Streams Tcp_Sending Ledger Contracts
begin

text \<open>
  A verification development for the kernel of ReconOS (\<^verbatim>\<open>src/kernel/core\<close> and its headers in
  \<^verbatim>\<open>src/kernel/include/recon/kernel\<close>). Three parts of the kernel are modelled: the page allocator, the
  network stack, and the storage stack with the partition tables and the installer's planning and
  writing of them. The theories follow the source file by file and keep its names.

  \<^bold>\<open>Conventions.\<close> Machine integers are words of the width the code declares, so sums wrap as the code's
  do. A module's static data is a record and every function takes and returns it; a pointer into a
  static table is an index, NULL is \<open>None\<close> or, where the code compares with 0, the address 0. A C
  array is a list or a map from offsets. Early returns and error codes are branches and values. Where C
  leaves the behaviour open (a write past an allocation, a NULL dereference, a division by zero) and
  where the code calls panic, the state records the first message and the theorems say that it is not
  reached, or that it is. Each call is one step: the locks of the code make it so, and the one window in
  which the code lets go of a lock that matters is modelled apart, in theory \<^verbatim>\<open>Storage_Race\<close>. Loops are structural
  recursion or \<open>function\<close>s with a measure; no theorem is conditional on a loop ending.

  \<^bold>\<open>Shared.\<close> Prelude: word types, memory as a function from offsets to bytes, the string operations of
  \<^verbatim>\<open>kstring.c\<close> that are used, the collections of simplification rules. Ring: the locales \<open>bounded_buffer\<close>
  and \<open>bounded_fifo\<close>, a queue with a capacity and what its clients may rely on; interpreted for a
  connection's receive and send rings (Tcp_Rings) and a socket's datagrams (Dgram).

  \<^bold>\<open>Page allocator.\<close> Pmm models \<^verbatim>\<open>pmm.c\<close>: the bitmap, the search from the hint, clearing, freeing with its
  panics. Pmm_Start models start-up from the boot loader's memory map and states the properties over every
  state reachable from any map. The locale \<open>page_allocator\<close> is what clients are promised; it is interpreted on
  the model's functions, and the buffers of the network stack rest on it.

  \<^bold>\<open>Network stack.\<close> Net_State holds the types and the record of all static data. One theory per source
  file: Net_Bytes (\<^verbatim>\<open>net.h\<close>, checksums), Netbuf, Netdev (\<^verbatim>\<open>netdev.c\<close>, sending half of \<^verbatim>\<open>eth.c\<close>), Arp, Ip (sending), Icmp,
  Dgram and Udp, Tcp, Stack (the receiving half of \<^verbatim>\<open>ip.c\<close> and \<^verbatim>\<open>eth.c\<close>, servicing), Sockets, Dhcp_Msg and Dhcp.
  A frame enters through \<open>netdev_receive\<close> (the bounded receive queue), the worker's \<open>netdev_service\<close> takes it
  through \<open>eth_receive\<close> and \<open>ip_receive\<close> to ICMP, UDP or TCP, which put data where a socket finds it; a send goes
  down through \<open>ip_transmit\<close>, which keeps a packet until ARP answers. A driver's transmit function is a
  field of the device and what poll finds in the hardware is an argument; for \<^verbatim>\<open>virtio_net.c\<close> what poll does
  with a buffer is modelled, the rings it shares with the device are not. Lists of clock readings bound the loops
  that wait for a reply (\<open>wait_loop\<close> and \<open>echo_wait\<close>): the code's loops end when the clock passes a limit, and a list is what
  the clock shows until then.
  Lemma groups: Safety (the invariant that every buffer and page comes from the allocator, kept by every
  operation, so that no panic is reached), Machine (all events of the running kernel under the locale
  \<open>stack_invariant\<close>; the properties over every run), Ledger (the same events audited: buffers handed out
  against buffers held), Tcp_States (the state diagram), Tcp_Rings, Tcp_Streams and Tcp_Sending (byte streams), Wire, End_To_End
  and Delivery (what one machine sends another receives), Contracts (the smaller services).

  \<^bold>\<open>Storage stack.\<close> Block_State holds the types of \<^verbatim>\<open>block.h\<close> and the state; Block models \<^verbatim>\<open>block.c\<close>
  (registry, slices, range check, walk to the disk, queue and servicer, read, write, discard, flush,
  claims, layouts) and Bcache models \<^verbatim>\<open>bcache.c\<close> (entries, the clock, reading, writing, invalidation, reclaiming). Drivers are
  parameters under the locale \<open>disk_driver\<close> (Disk): a disk has contents, a read returns them, a write changes no more than its
  range; it is interpreted on the initial RAM disk of \<^verbatim>\<open>block.c\<close> and on a disk in memory. Lemma groups: Registry and Block_Disk
  (the table and the disks under each operation), Coherence, Cached_Read, Cached_Write (a valid entry holds what the disk
  holds, kept by every operation), Cached_Progress (reads come back), Storage and Storage_Runs (every sequence of
  calls), Storage_Order, Storage_Props and Storage_Race (the properties). The walk to the root disk stops after 64
  parents: a slice has a larger identifier than its parent and the table has 64 places, so the guard is
  never what ends it; the clock's hand makes 128 turns, two rounds of its 64 entries, as the code's does.

  \<^bold>\<open>Partition tables.\<close> Crc32 (\<^verbatim>\<open>crc32.c\<close>), Partition (\<^verbatim>\<open>partition.c\<close>: master boot record with its chain of at most 24
  links, as in the code, GUID table with its backup, the scan), Partition_Scan (a scan is a run of reads and registrations,
  so it harms nothing), Gpt_Write (\<^verbatim>\<open>install_gpt.c\<close>), Gpt_Bytes, Gpt_Entries, Gpt_Install, Gpt_Read, Gpt_Live (what the
  steps of an installation leave on the disk, and that the reader accepts it).

  \<^bold>\<open>Installer.\<close> Install_Plan (\<^verbatim>\<open>install.c\<close>: survey, gaps, extents, the plan), Install_Layout and Install_Safe (extents
  stay clear of what is there), Install_Props (the disk of the examples) and Installer (the properties). How much
  room FAT reports in an EFI partition is an argument of the planner, whether the heap grants an allocation
  a truth value, and the clock a function of the counter of identifiers.

  \<^bold>\<open>What the properties show.\<close> No frame and no request makes the kernel panic, no buffer is lost or freed twice,
  queues keep their bounds, a connection delivers a prefix of what was sent, a datagram and a segment arrive
  as sent. A cached read returns what the disk holds and comes back, a write is what later reads give, nothing
  outside a partition changes through it, a scan harms nothing. A plan touches no partition of the table; an
  installation changes the table's blocks only, and what it wrote the reader reads. Some properties state what the code
  does where it does not do what it means to: a reset obeyed unchecked, slots of closed connections never given
  back, the rest of a long write never acknowledged, a raw write racing a cached read, a table half written, an array read past its allocation, a
  plan over an MBR's partitions.

  \<^bold>\<open>Not modelled.\<close> Printing, summaries and boot-time self-tests. Locks, sleeping and interrupts: a call is
  a step. The other consumers of these parts: the file systems, the page cache, the installer's formatting, copying and boot code
  (\<^verbatim>\<open>install_exec.c\<close>, \<^verbatim>\<open>install_copy.c\<close>, \<^verbatim>\<open>install_bios.c\<close>). The heap, pipes, timers, the random pool and the scheduler,
  address spaces and processes, device drivers, architecture code and the boot loader: they turn on page tables, assembly
  or device registers, or are not reached yet. The desktop, its applications and modules under \<^verbatim>\<open>src/src\<close> and \<^verbatim>\<open>src/modules\<close> are
  programs of the hosted environment and share no code with the kernel.
\<close>

end
